(* ===== verification/Prelude.thy ===== *)
theory Prelude
  imports Main "HOL-Library.Monad_Syntax" "HOL-Library.Multiset"
begin

text \<open>
  Shared ground of the development.  A C string is a \<^typ>\<open>string\<close> without its terminating
  NUL, and a pointer into a string that the code only moves forwards is the suffix it points
  at.  A computation that may run into undefined behaviour of C (an array read out of range, a
  null pointer followed) has a result of type \<open>'a option\<close> and is \<^const>\<open>None\<close> there; it is
  composed with the option monad.  The collection \<open>c_string\<close> holds the equations of the
  modelled C library functions on strings.
\<close>

named_theorems c_string

section \<open>Checked array access\<close>

definition arg_at :: "'a list \<Rightarrow> nat \<Rightarrow> 'a option" where
  "arg_at xs i = (if i < length xs then Some (xs ! i) else None)"

lemma arg_at_Some_iff [simp]: "arg_at xs i = Some x \<longleftrightarrow> i < length xs \<and> xs ! i = x"
  by (auto simp: arg_at_def)

lemma arg_at_None_iff [simp]: "arg_at xs i = None \<longleftrightarrow> length xs \<le> i"
  by (auto simp: arg_at_def)

lemma arg_at_inside [simp]: "i < length xs \<Longrightarrow> arg_at xs i = Some (xs ! i)"
  by simp

lemma arg_at_append [simp]: "arg_at (xs @ x # ys) (length xs) = Some x"
  by simp

definition set_at :: "'a list \<Rightarrow> nat \<Rightarrow> 'a \<Rightarrow> 'a list option" where
  "set_at xs i x = (if i < length xs then Some (xs[i := x]) else None)"

lemma set_at_inside [simp]: "i < length xs \<Longrightarrow> set_at xs i x = Some (xs[i := x])"
  by (simp add: set_at_def)

section \<open>Results of computations that may fail\<close>

text \<open>
  \<open>yields m P\<close>: the computation \<open>m\<close> does not fail and its result satisfies \<open>P\<close>, the
  weakest precondition of the option monad.  Its rules follow the shape of the program.
\<close>

definition yields :: "'a option \<Rightarrow> ('a \<Rightarrow> bool) \<Rightarrow> bool" where
  "yields m P \<longleftrightarrow> (\<exists>x. m = Some x \<and> P x)"

lemma yields_Some [simp]: "yields (Some x) P = P x"
  by (simp add: yields_def)

lemma yields_None [simp]: "\<not> yields None P"
  by (simp add: yields_def)

lemma yields_bind [simp]: "yields (Option.bind m f) P = yields m (\<lambda>x. yields (f x) P)"
  by (cases m) simp_all

lemma yields_if: "yields (if b then m else n) P = (if b then yields m P else yields n P)"
  by simp

lemma yields_arg_at [simp]: "yields (arg_at xs i) P \<longleftrightarrow> i < length xs \<and> P (xs ! i)"
  by (auto simp: yields_def)

lemma yields_mono: "yields m P \<Longrightarrow> (\<And>x. P x \<Longrightarrow> Q x) \<Longrightarrow> yields m Q"
  by (auto simp: yields_def)

lemma yieldsD: "yields m P \<Longrightarrow> m = Some x \<Longrightarrow> P x"
  by (simp add: yields_def)

lemma yields_eq: "yields m (\<lambda>s. s = t) \<longleftrightarrow> m = Some t"
  by (auto simp: yields_def)

lemma yields_ex: "yields m P \<Longrightarrow> \<exists>x. m = Some x \<and> P x"
  by (simp add: yields_def)

section \<open>Rectangular arrays\<close>

text \<open>\<open>n\<close> rows of \<open>m\<close> elements, and the flat array they make up.\<close>

definition shaped :: "nat \<Rightarrow> nat \<Rightarrow> 'a list list \<Rightarrow> bool" where
  "shaped n m xss \<longleftrightarrow> length xss = n \<and> (\<forall>xs \<in> set xss. length xs = m)"

lemma shaped_nth [simp]: "shaped n m xss \<Longrightarrow> i < n \<Longrightarrow> length (xss ! i) = m"
  by (auto simp: shaped_def)

lemma shaped_length: "shaped n m xss \<Longrightarrow> length xss = n"
  by (simp add: shaped_def)

lemma length_concat_shaped: "shaped n m xss \<Longrightarrow> length (concat xss) = n * m"
  unfolding shaped_def by (induction xss arbitrary: n) auto

lemma concat_nth_shaped:
  "shaped n m xss \<Longrightarrow> i < n \<Longrightarrow> l < m \<Longrightarrow> concat xss ! (i * m + l) = xss ! i ! l"
  unfolding shaped_def
  by (induction xss arbitrary: n i) (auto simp: nth_append nth_Cons' add.assoc split: nat.split
      simp: less_Suc_eq_0_disj)

lemma flat_index_bound: "i < n \<Longrightarrow> l < m \<Longrightarrow> i * m + l < n * (m::nat)"
proof -
  assume a: "i < n" "l < m"
  have "i * m + l < (i + 1) * m" using a(2) by simp
  also have "\<dots> \<le> n * m" using a(1) by (intro mult_le_mono1) simp
  finally show ?thesis .
qed

lemma flat_index_inj: "l < m \<Longrightarrow> l' < m \<Longrightarrow> i * m + l = i' * m + l' \<longleftrightarrow> i = i' \<and> l = (l'::nat)"
  by (metis add.commute div_mult_self3 mod_less mod_mult_self3 div_less add.left_neutral
      less_nat_zero_code mod_mult_self1)

section \<open>Counting loops\<close>

text \<open>
  \<open>for_loop lo hi body s\<close> is \<open>for (i = lo; i < hi; i++)\<close> with the loop body as a state
  transformer that may fail; \<open>foldM\<close> runs the body over any sequence of indices (a schedule).
\<close>

fun foldM :: "('a \<Rightarrow> 's \<Rightarrow> 's option) \<Rightarrow> 'a list \<Rightarrow> 's \<Rightarrow> 's option" where
  "foldM body [] s = Some s"
| "foldM body (i # is) s = Option.bind (body i s) (foldM body is)"

definition for_loop :: "nat \<Rightarrow> nat \<Rightarrow> (nat \<Rightarrow> 's \<Rightarrow> 's option) \<Rightarrow> 's \<Rightarrow> 's option" where
  "for_loop lo hi body s = foldM body [lo..<hi] s"

lemma foldM_append: "foldM body (is @ js) s = Option.bind (foldM body is s) (foldM body js)"
  by (induction "is" arbitrary: s) (auto split: bind_splits)

lemma foldM_Some: "(\<And>i s. i \<in> set is \<Longrightarrow> body i s = Some (f i s)) \<Longrightarrow> foldM body is s = Some (fold f is s)"
  by (induction "is" arbitrary: s) auto

lemma for_loop_empty [simp]: "hi \<le> lo \<Longrightarrow> for_loop lo hi body s = Some s"
  by (simp add: for_loop_def)

lemma for_loop_step:
  "lo < hi \<Longrightarrow> for_loop lo hi body s = Option.bind (body lo s) (for_loop (Suc lo) hi body)"
  unfolding for_loop_def by (simp add: upt_conv_Cons)

lemma bind_foldM_Nil [simp]: "Option.bind m (foldM body []) = m"
  by (cases m) auto

lemma for_loop_last:
  "lo \<le> hi \<Longrightarrow> for_loop lo (Suc hi) body s = Option.bind (for_loop lo hi body s) (body hi)"
  unfolding for_loop_def by (simp add: foldM_append) (cases "foldM body [lo..<hi] s"; simp)

text \<open>The invariant rule: \<open>I i\<close> holds when the loop is about to run with index \<open>i\<close>.\<close>

lemma for_loop_yields:
  assumes "I lo s" "lo \<le> hi"
    and "\<And>i s. lo \<le> i \<Longrightarrow> i < hi \<Longrightarrow> I i s \<Longrightarrow> yields (body i s) (I (Suc i))"
  shows "yields (for_loop lo hi body s) (I hi)"
  using assms(2,3)
proof (induction hi)
  case 0
  then show ?case using assms(1) by simp
next
  case (Suc hi)
  show ?case
  proof (cases "lo = Suc hi")
    case True
    then show ?thesis using assms(1) by simp
  next
    case False
    then have le: "lo \<le> hi" using Suc.prems(1) by simp
    have "yields (for_loop lo hi body s) (I hi)" using Suc.IH [OF le] Suc.prems(2) by simp
    then show ?thesis
      using le Suc.prems(2) by (simp add: for_loop_last) (erule yields_mono, simp)
  qed
qed

text \<open>Partial correctness: what a loop that succeeds has established.\<close>

lemma for_loop_partial:
  assumes "for_loop lo hi body s = Some t" "I lo s" "lo \<le> hi"
    and "\<And>i s s'. lo \<le> i \<Longrightarrow> i < hi \<Longrightarrow> I i s \<Longrightarrow> body i s = Some s' \<Longrightarrow> I (Suc i) s'"
  shows "I hi t"
  using assms(1,3,4)
proof (induction hi arbitrary: t)
  case 0
  then show ?case using assms(2) by simp
next
  case (Suc hi)
  show ?case
  proof (cases "lo = Suc hi")
    case True
    then show ?thesis using assms(2) Suc.prems(1) by simp
  next
    case False
    then have le: "lo \<le> hi" using Suc.prems(2) by simp
    then obtain u where u: "for_loop lo hi body s = Some u" "body hi u = Some t"
      using Suc.prems(1) by (auto simp: for_loop_last bind_eq_Some_conv)
    then have "I hi u" using Suc.IH le Suc.prems(3) by simp
    then show ?thesis using Suc.prems(3) le u(2) by simp
  qed
qed

text \<open>A loop that appends to its output.\<close>

lemma for_loop_append:
  assumes "\<And>i out. i < n \<Longrightarrow> body i out = Some (out @ f i)"
  shows "for_loop 0 n body out = Some (out @ concat (map f [0..<n]))"
  using assms by (induction n) (simp_all add: for_loop_last)

lemma for_loop_cong:
  assumes "\<And>i s. lo \<le> i \<Longrightarrow> i < hi \<Longrightarrow> body i s = body' i s"
  shows "for_loop lo hi body s = for_loop lo hi body' s"
proof -
  have "foldM body is s = foldM body' is s" if "\<forall>i \<in> set is. lo \<le> i \<and> i < hi" for "is" s
    using that
  proof (induction "is" arbitrary: s)
    case (Cons i "is")
    then show ?case by (cases "body' i s") (simp_all add: assms)
  qed simp
  then show ?thesis unfolding for_loop_def by simp
qed

text \<open>A loop that rewrites the elements of an array one after the other.\<close>

lemma for_loop_map:
  assumes "n \<le> length xs"
    and "\<And>j ys. j < n \<Longrightarrow> length ys = length xs \<Longrightarrow> body j ys = Some (ys[j := f j (ys ! j)])"
  shows "for_loop 0 n body xs = Some (map (\<lambda>j. f j (xs ! j)) [0..<n] @ drop n xs)"
  using assms
proof (induction n)
  case 0
  then show ?case by simp
next
  case (Suc n)
  have d: "drop n xs = xs ! n # drop (Suc n) xs" using Suc.prems(1) by (simp add: Cons_nth_drop_Suc)
  have "for_loop 0 n body xs = Some (map (\<lambda>j. f j (xs ! j)) [0..<n] @ drop n xs)"
    using Suc by simp
  then show ?case
    using Suc.prems d by (simp add: for_loop_last nth_append list_update_append)
qed

lemma for_loop_map_all:
  assumes "\<And>j ys. j < length xs \<Longrightarrow> length ys = length xs \<Longrightarrow> body j ys = Some (ys[j := f j (ys ! j)])"
  shows "for_loop 0 (length xs) body xs = Some (map (\<lambda>j. f j (xs ! j)) [0..<length xs])"
  using for_loop_map [of "length xs" xs body f] assms by simp

section \<open>C strings\<close>

abbreviation NUL :: char where
  "NUL \<equiv> CHR 0x00"

text \<open>Reading a character of a C string: the terminator is read at index \<^term>\<open>length s\<close>.\<close>

definition char_at :: "string \<Rightarrow> nat \<Rightarrow> char" where
  "char_at s i = (if i < length s then s ! i else NUL)"

lemma char_at_Nil [simp, c_string]: "char_at [] i = NUL"
  by (simp add: char_at_def)

lemma char_at_0 [simp, c_string]: "char_at (c # s) 0 = c"
  by (simp add: char_at_def)

lemma char_at_Suc [simp, c_string]: "char_at (c # s) (Suc i) = char_at s i"
  by (simp add: char_at_def)

lemma char_at_numeral [simp, c_string]:
  "char_at (c # s) (numeral n) = char_at s (pred_numeral n)"
  by (simp add: numeral_eq_Suc)

lemma char_at_one [simp, c_string]: "char_at (c # s) 1 = char_at s 0"
  by (simp add: char_at_def)

text \<open>\<open>strncmp (s, t, n) == 0\<close>, character by character up to the terminators.\<close>

fun strncmp_eq :: "nat \<Rightarrow> string \<Rightarrow> string \<Rightarrow> bool" where
  "strncmp_eq 0 s t = True"
| "strncmp_eq (Suc n) [] [] = True"
| "strncmp_eq (Suc n) [] (d # t) = False"
| "strncmp_eq (Suc n) (c # s) [] = False"
| "strncmp_eq (Suc n) (c # s) (d # t) = (c = d \<and> strncmp_eq n s t)"

lemma strncmp_eq_take [c_string]: "strncmp_eq n s t \<longleftrightarrow> take n s = take n t"
  by (induction n s t rule: strncmp_eq.induct) auto

text \<open>The value of a plain \<open>char\<close> promoted to \<open>int\<close>, on a target where \<open>char\<close> is signed.\<close>

definition char_int :: "char \<Rightarrow> int" where
  "char_int c = (let n = int (of_char c) in if n < 128 then n else n - 256)"

section \<open>Lists cut at indices\<close>

definition slice :: "nat \<Rightarrow> nat \<Rightarrow> 'a list \<Rightarrow> 'a list" where
  "slice i j xs = drop i (take j xs)"

lemma length_slice [simp]: "j \<le> length xs \<Longrightarrow> length (slice i j xs) = j - i"
  by (simp add: slice_def)

lemma slice_split:
  assumes "i \<le> j" "j \<le> k" "k \<le> length xs"
  shows "xs = take i xs @ slice i j xs @ slice j k xs @ drop k xs"
proof -
  have "take i xs @ slice i j xs = take j xs"
    using assms by (metis append_take_drop_id min.absorb1 slice_def take_take)
  moreover have "take j xs @ slice j k xs = take k xs"
    using assms by (metis append_take_drop_id min.absorb1 slice_def take_take)
  ultimately show ?thesis
    by (metis append.assoc append_take_drop_id)
qed

lemma slice_append3:
  "slice (length p) (length p + length a) (p @ a @ s) = a"
  by (simp add: slice_def)

lemma nth_append_plus: "(xs @ ys) ! (length xs + i) = ys ! i"
  by (simp add: nth_append)

end
