(* ===== verification/Getopt_Exchange.thy ===== *)
theory Getopt_Exchange
  imports Prelude
begin

text \<open>
  The in-place permutation at the heart of \<open>getopt\<close> (\<open>exchange\<close> in
  \<open>cl_testbench/kmeans/getopt.c\<close>): two adjacent segments of \<open>argv\<close> trade places by
  repeated swaps of equal-length pieces.  The definitions follow the two inner \<open>for\<close> loops and
  the outer \<open>while\<close> loop; every array access is checked.  The lemmas show that the loop ends
  with the two segments exchanged, each in its old order, and touches nothing else.
\<close>

section \<open>The loops\<close>

text \<open>
  \<open>swap_loop a b len i xs\<close> is \<open>for (; i < len; i++)\<close> swapping \<open>argv[a + i]\<close> and
  \<open>argv[b + i]\<close> through the temporary \<open>tem\<close>.
\<close>

function swap_loop :: "nat \<Rightarrow> nat \<Rightarrow> nat \<Rightarrow> nat \<Rightarrow> 'a list \<Rightarrow> 'a list option" where
  "swap_loop a b len i xs =
     (if i < len then
        do {
          tem \<leftarrow> arg_at xs (a + i);
          y \<leftarrow> arg_at xs (b + i);
          xs1 \<leftarrow> set_at xs (a + i) y;
          xs2 \<leftarrow> set_at xs1 (b + i) tem;
          swap_loop a b len (Suc i) xs2
        }
      else Some xs)"
  by pat_completeness auto
termination
  by (relation "measure (\<lambda>(a, b, len, i, xs). len - i)") auto

declare swap_loop.simps [simp del]

function exchange_loop :: "nat \<Rightarrow> nat \<Rightarrow> nat \<Rightarrow> 'a list \<Rightarrow> 'a list option" where
  "exchange_loop bottom middle upper xs =
     (if upper > middle \<and> middle > bottom then
        (if upper - middle > middle - bottom then
           (let len = middle - bottom in
            case swap_loop bottom (upper - (middle - bottom)) len 0 xs of
              None \<Rightarrow> None
            | Some xs' \<Rightarrow> exchange_loop bottom middle (upper - len) xs')
         else
           (let len = upper - middle in
            case swap_loop bottom middle len 0 xs of
              None \<Rightarrow> None
            | Some xs' \<Rightarrow> exchange_loop (bottom + len) middle upper xs'))
      else Some xs)"
  by pat_completeness auto
termination
  by (relation "measure (\<lambda>(bottom, middle, upper, xs). upper - bottom)") auto

declare exchange_loop.simps [simp del]

section \<open>Segments trade places\<close>

lemma swap_loop_segments:
  assumes "length y = length x" and "length z' = length z"
  shows "swap_loop (length p) (length p + length z + length x + length m)
           (length z + length x) (length z) (p @ z' @ x @ m @ z @ y @ s)
         = Some (p @ z' @ y @ m @ z @ x @ s)"
  using assms
proof (induction x arbitrary: y z z')
  case Nil
  then show ?case by (simp add: swap_loop.simps)
next
  case (Cons a x)
  then obtain b y' where y: "y = b # y'" "length y' = length x" by (cases y) auto
  let ?k = "length p + length z + length (a # x) + length m"
  let ?xs = "p @ z' @ (a # x) @ m @ z @ y @ s"
  have more: "length z < length z + length (a # x)" by simp
  have ra: "arg_at ?xs (length p + length z) = Some a"
    using Cons.prems by (simp add: nth_append)
  have rb: "arg_at ?xs (?k + length z) = Some b"
    using Cons.prems y by (simp add: nth_append)
  have w1: "set_at ?xs (length p + length z) b = Some (p @ z' @ (b # x) @ m @ z @ y @ s)"
    using Cons.prems by (simp add: list_update_append)
  have w2: "set_at (p @ z' @ (b # x) @ m @ z @ y @ s) (?k + length z) a
            = Some (p @ (z' @ [b]) @ x @ m @ (z @ [a]) @ y' @ s)"
    using Cons.prems y by (simp add: list_update_append)
  have "swap_loop (length p) ?k (length z + length (a # x)) (length z) ?xs
        = swap_loop (length p) (length p + length (z @ [a]) + length x + length m)
            (length (z @ [a]) + length x) (length (z @ [a]))
            (p @ (z' @ [b]) @ x @ m @ (z @ [a]) @ y' @ s)"
    by (subst swap_loop.simps) (simp only: more if_True ra rb w1 w2 Option.bind.bind_lunit, simp)
  also have "\<dots> = Some (p @ (z' @ [b]) @ y' @ m @ (z @ [a]) @ x @ s)"
    using Cons.prems y by (intro Cons.IH) auto
  finally show ?case by (simp add: y)
qed

lemma swap_loop_adjacent:
  assumes "length y = length x"
  shows "swap_loop (length p) (length p + length x + length m) (length x) 0 (p @ x @ m @ y @ s)
         = Some (p @ y @ m @ x @ s)"
  using swap_loop_segments [OF assms, of "[]" "[]" p m s] by simp

lemma exchange_loop_segments:
  "exchange_loop (length p) (length p + length a) (length p + length a + length b)
     (p @ a @ b @ s) = Some (p @ b @ a @ s)"
proof (induction "length a + length b" arbitrary: p a b s rule: less_induct)
  case less
  consider "a = [] \<or> b = []" | "a \<noteq> []" "length a < length b"
    | "b \<noteq> []" "length b \<le> length a" by fastforce
  then show ?case
  proof cases
    case 1
    then show ?thesis by (auto simp: exchange_loop.simps)
  next
    case 2
    define b1 b2 where "b1 = take (length b - length a) b" and "b2 = drop (length b - length a) b"
    have b: "b = b1 @ b2" and l: "length b2 = length a" using 2 by (simp_all add: b1_def b2_def)
    have sw: "swap_loop (length p) (length p + length a + length b1) (length a) 0
            (p @ a @ b1 @ b2 @ s) = Some (p @ b2 @ b1 @ a @ s)"
      using l by (rule swap_loop_adjacent)
    have ih: "exchange_loop (length p) (length p + length b2) (length p + length b2 + length b1)
            (p @ b2 @ b1 @ a @ s) = Some (p @ b1 @ b2 @ a @ s)"
      using 2 b by (intro less) auto
    show ?thesis
      using 2 sw ih by (subst exchange_loop.simps) (simp add: b l Let_def add.assoc add.commute)
  next
    case 3
    define a1 a2 where "a1 = take (length b) a" and "a2 = drop (length b) a"
    have a: "a = a1 @ a2" and l: "length b = length a1" and ne: "a1 \<noteq> []"
      using 3 by (auto simp: a1_def a2_def)
    have sw: "swap_loop (length p) (length p + length a1 + length a2) (length a1) 0
            (p @ a1 @ a2 @ b @ s) = Some (p @ b @ a2 @ a1 @ s)"
      using l by (rule swap_loop_adjacent)
    have ih: "exchange_loop (length (p @ b)) (length (p @ b) + length a2)
            (length (p @ b) + length a2 + length a1) ((p @ b) @ a2 @ a1 @ s)
          = Some ((p @ b) @ a1 @ a2 @ s)"
      using 3 a by (intro less) auto
    show ?thesis
      using 3 sw ih ne by (subst exchange_loop.simps) (simp add: a l Let_def add.assoc)
  qed
qed

end
