(* ===== verification/Getopt.thy ===== *)
theory Getopt
  imports Getopt_Exchange
begin

text \<open>
  The option scanner of \<open>cl_testbench/kmeans/getopt.c\<close>: its static variables as one record,
  \<open>_getopt_initialize\<close>, and \<open>_getopt_internal\<close> cut at its own block boundaries
  (advance to the next element, long option, short option, \<open>-W\<close>).  The preprocessor
  branches under \<open>_LIBC\<close> and \<open>USE_NONOPTION_FLAGS\<close> are not part of a stand-alone build
  and are left out.  \<^const>\<open>None\<close> is undefined behaviour: an \<open>argv\<close> element read out of
  range or a null pointer followed.  Indices are natural numbers.
\<close>

section \<open>Data\<close>

datatype ordering = REQUIRE_ORDER | PERMUTE | RETURN_IN_ORDER

text \<open>\<open>struct option\<close>; \<open>opt_flag\<close> names the \<open>int\<close> variable \<open>flag\<close> points to.\<close>

record long_option =
  opt_name :: string
  has_arg :: int
  opt_flag :: "nat option"
  opt_val :: int

text \<open>The messages printed on \<open>stderr\<close>, one constructor per format string.\<close>

datatype getopt_msg =
    Ambiguous string
  | No_arg_allowed_long string
  | No_arg_allowed_short char string
  | Requires_arg string
  | Unrecognized_long string
  | Unrecognized_short char string
  | Illegal_option char
  | Invalid_option char
  | Requires_arg_char char
  | W_ambiguous string
  | W_no_arg_allowed string

text \<open>
  The variables of \<open>getopt.c\<close>, global and static, with \<open>argv\<close> (which \<open>exchange\<close>
  permutes), the cell \<open>*longind\<close>, the \<open>int\<close> variables the \<open>flag\<close> fields point to, and
  the messages written to \<open>stderr\<close> with the program name each is prefixed by.
\<close>

record getopt_state =
  optarg :: "string option"
  optind :: nat
  getopt_initialized :: bool
  nextchar :: "string option"
  opterr :: int
  optopt :: int
  ordering :: ordering
  posixly_correct :: "string option"
  first_nonopt :: nat
  last_nonopt :: nat
  argv :: "string list"
  longind_cell :: int
  flag_cells :: "nat \<Rightarrow> int"
  err_out :: "(string \<times> getopt_msg) list"

text \<open>The static initialisers, with the arguments of the program.\<close>

definition getopt_start :: "string list \<Rightarrow> getopt_state" where
  "getopt_start args =
     \<lparr>optarg = None, optind = 1, getopt_initialized = False, nextchar = None, opterr = 1,
      optopt = char_int (CHR ''?''), ordering = REQUIRE_ORDER, posixly_correct = None,
      first_nonopt = 0, last_nonopt = 0, argv = args, longind_cell = 0,
      flag_cells = (\<lambda>_. 0), err_out = []\<rparr>"

definition complain :: "getopt_msg \<Rightarrow> getopt_state \<Rightarrow> getopt_state option" where
  "complain m s =
     do { prog \<leftarrow> arg_at (argv s) 0; Some (s\<lparr>err_out := err_out s @ [(prog, m)]\<rparr>) }"

fun my_index :: "string \<Rightarrow> char \<Rightarrow> string option" where
  "my_index [] chr = None"
| "my_index (c # str) chr = (if c = chr then Some (c # str) else my_index str chr)"

section \<open>exchange and initialisation\<close>

definition exchange :: "getopt_state \<Rightarrow> getopt_state option" where
  "exchange s =
     do {
       args \<leftarrow> exchange_loop (first_nonopt s) (last_nonopt s) (optind s) (argv s);
       Some (s\<lparr>argv := args,
              first_nonopt := first_nonopt s + (optind s - last_nonopt s),
              last_nonopt := optind s\<rparr>)
     }"

text \<open>\<open>env\<close> is the value of the environment variable \<open>POSIXLY_CORRECT\<close>.\<close>

definition getopt_initialize ::
  "string option \<Rightarrow> string \<Rightarrow> getopt_state \<Rightarrow> string \<times> getopt_state" where
  "getopt_initialize env optstring s =
     (let s1 = s\<lparr>first_nonopt := optind s, last_nonopt := optind s, nextchar := None,
                posixly_correct := env\<rparr>
      in if char_at optstring 0 = CHR ''-'' then
           (tl optstring, s1\<lparr>ordering := RETURN_IN_ORDER\<rparr>)
         else if char_at optstring 0 = CHR ''+'' then
           (tl optstring, s1\<lparr>ordering := REQUIRE_ORDER\<rparr>)
         else if env \<noteq> None then (optstring, s1\<lparr>ordering := REQUIRE_ORDER\<rparr>)
         else (optstring, s1\<lparr>ordering := PERMUTE\<rparr>))"

section \<open>Advancing to the next element\<close>

text \<open>\<open>NONOPTION_P\<close> on an element of \<open>argv\<close>.\<close>

definition nonoption_p :: "string \<Rightarrow> bool" where
  "nonoption_p a \<longleftrightarrow> char_at a 0 \<noteq> CHR ''-'' \<or> char_at a 1 = NUL"

function skip_nonoptions :: "nat \<Rightarrow> string list \<Rightarrow> nat \<Rightarrow> nat option" where
  "skip_nonoptions argc args i =
     (if i < argc then
        case arg_at args i of
          None \<Rightarrow> None
        | Some a \<Rightarrow> if nonoption_p a then skip_nonoptions argc args (Suc i) else Some i
      else Some i)"
  by pat_completeness auto
termination
  by (relation "measure (\<lambda>(argc, args, i). argc - i)") auto

declare skip_nonoptions.simps [simp del]

text \<open>\<open>FIRST_NONOPT\<close> and \<open>LAST_NONOPT\<close> get rational values if \<open>optind\<close> was moved back.\<close>

definition clip_nonopts :: "getopt_state \<Rightarrow> getopt_state" where
  "clip_nonopts s =
     (let s1 = (if last_nonopt s > optind s then s\<lparr>last_nonopt := optind s\<rparr> else s)
      in if first_nonopt s1 > optind s1 then s1\<lparr>first_nonopt := optind s1\<rparr> else s1)"

definition permute_nonopts :: "nat \<Rightarrow> getopt_state \<Rightarrow> getopt_state option" where
  "permute_nonopts argc s =
     (if ordering s = PERMUTE then
        do {
          s1 \<leftarrow> (if first_nonopt s \<noteq> last_nonopt s \<and> last_nonopt s \<noteq> optind s then exchange s
                 else if last_nonopt s \<noteq> optind s then Some (s\<lparr>first_nonopt := optind s\<rparr>)
                 else Some s);
          i \<leftarrow> skip_nonoptions argc (argv s1) (optind s1);
          Some (s1\<lparr>optind := i, last_nonopt := i\<rparr>)
        }
      else Some s)"

definition skip_dashdash :: "nat \<Rightarrow> getopt_state \<Rightarrow> getopt_state option" where
  "skip_dashdash argc s =
     (if optind s \<noteq> argc then
        do {
          a \<leftarrow> arg_at (argv s) (optind s);
          if a = ''--'' then
            do {
              s1 \<leftarrow> Some (s\<lparr>optind := optind s + 1\<rparr>);
              s2 \<leftarrow> (if first_nonopt s1 \<noteq> last_nonopt s1 \<and> last_nonopt s1 \<noteq> optind s1
                     then exchange s1
                     else if first_nonopt s1 = last_nonopt s1
                     then Some (s1\<lparr>first_nonopt := optind s1\<rparr>)
                     else Some s1);
              Some (s2\<lparr>last_nonopt := argc, optind := argc\<rparr>)
            }
          else Some s
        }
      else Some s)"

datatype flow = Return int | Proceed

definition advance :: "nat \<Rightarrow> bool \<Rightarrow> getopt_state \<Rightarrow> (flow \<times> getopt_state) option" where
  "advance argc has_longopts s =
     do {
       s1 \<leftarrow> permute_nonopts argc (clip_nonopts s);
       s2 \<leftarrow> skip_dashdash argc s1;
       if optind s2 = argc then
         Some (Return (- 1),
               if first_nonopt s2 \<noteq> last_nonopt s2 then s2\<lparr>optind := first_nonopt s2\<rparr> else s2)
       else
         do {
           a \<leftarrow> arg_at (argv s2) (optind s2);
           if nonoption_p a then
             (if ordering s2 = REQUIRE_ORDER then Some (Return (- 1), s2)
              else Some (Return 1, s2\<lparr>optarg := Some a, optind := optind s2 + 1\<rparr>))
           else
             Some (Proceed, s2\<lparr>nextchar :=
               Some (drop (1 + (if has_longopts \<and> char_at a 1 = CHR ''-'' then 1 else 0)) a)\<rparr>)
         }
     }"

section \<open>Long options\<close>

text \<open>
  The search loop: \<open>p\<close> runs over the table with its index, \<open>(pfound, indfound, ambig)\<close> are
  the local variables; the result adds \<open>exact\<close>.  \<open>n\<close> is \<open>nameend - nextchar\<close>.
\<close>

fun find_long :: "bool \<Rightarrow> string \<Rightarrow> nat \<Rightarrow> long_option list \<Rightarrow> int \<Rightarrow>
    long_option option \<times> int \<times> bool \<Rightarrow> long_option option \<times> int \<times> bool \<times> bool" where
  "find_long long_only nc n [] option_index (pfound, indfound, ambig) =
     (pfound, indfound, False, ambig)"
| "find_long long_only nc n (p # ps) option_index (pfound, indfound, ambig) =
     (if strncmp_eq n (opt_name p) nc then
        if n = length (opt_name p) then (Some p, option_index, True, ambig)
        else
          case pfound of
            None \<Rightarrow> find_long long_only nc n ps (option_index + 1) (Some p, option_index, ambig)
          | Some q \<Rightarrow>
              if long_only \<or> has_arg q \<noteq> has_arg p \<or> opt_flag q \<noteq> opt_flag p
                 \<or> opt_val q \<noteq> opt_val p
              then find_long long_only nc n ps (option_index + 1) (pfound, indfound, True)
              else find_long long_only nc n ps (option_index + 1) (pfound, indfound, ambig)
      else find_long long_only nc n ps (option_index + 1) (pfound, indfound, ambig))"

text \<open>The common tail: \<open>*longind\<close>, then \<open>flag\<close> or \<open>val\<close>.\<close>

definition long_done ::
  "bool \<Rightarrow> long_option \<Rightarrow> int \<Rightarrow> getopt_state \<Rightarrow> (int \<times> getopt_state) option" where
  "long_done longind pfound option_index s =
     (let s1 = s\<lparr>nextchar := Some []\<rparr>;
          s2 = (if longind then s1\<lparr>longind_cell := option_index\<rparr> else s1)
      in case opt_flag pfound of
           Some x \<Rightarrow> Some (0, s2\<lparr>flag_cells := (flag_cells s2)(x := opt_val pfound)\<rparr>)
         | None \<Rightarrow> Some (opt_val pfound, s2))"

definition missing_arg_code :: "string \<Rightarrow> int" where
  "missing_arg_code optstring =
     (if char_at optstring 0 = CHR '':'' then char_int (CHR '':'') else char_int (CHR ''?''))"

text \<open>A long option was found; \<open>rest\<close> is the string at \<open>nameend\<close>.\<close>

definition long_found :: "nat \<Rightarrow> string \<Rightarrow> bool \<Rightarrow> bool \<Rightarrow> long_option \<Rightarrow> int \<Rightarrow> string \<Rightarrow>
    getopt_state \<Rightarrow> (int \<times> getopt_state) option" where
  "long_found argc optstring longind print_errors pfound option_index rest s =
     (let s1 = s\<lparr>optind := optind s + 1\<rparr> in
      if rest \<noteq> [] then
        if has_arg pfound \<noteq> 0 then
          long_done longind pfound option_index (s1\<lparr>optarg := Some (tl rest)\<rparr>)
        else
          do {
            s2 \<leftarrow> (if print_errors then
                     do {
                       a \<leftarrow> arg_at (argv s1) (optind s1 - 1);
                       if char_at a 1 = CHR ''-''
                       then complain (No_arg_allowed_long (opt_name pfound)) s1
                       else complain (No_arg_allowed_short (char_at a 0) (opt_name pfound)) s1
                     }
                   else Some s1);
            Some (char_int (CHR ''?''), s2\<lparr>nextchar := Some [], optopt := opt_val pfound\<rparr>)
          }
      else if has_arg pfound = 1 then
        if optind s1 < argc then
          do {
            a \<leftarrow> arg_at (argv s1) (optind s1);
            long_done longind pfound option_index
              (s1\<lparr>optarg := Some a, optind := optind s1 + 1\<rparr>)
          }
        else
          do {
            s2 \<leftarrow> (if print_errors then
                     do { a \<leftarrow> arg_at (argv s1) (optind s1 - 1); complain (Requires_arg a) s1 }
                   else Some s1);
            Some (missing_arg_code optstring,
                  s2\<lparr>nextchar := Some [], optopt := opt_val pfound\<rparr>)
          }
      else long_done longind pfound option_index s1)"

text \<open>
  The long-option block: \<^const>\<open>Proceed\<close> where the code falls through to the short options.
\<close>

definition try_long :: "nat \<Rightarrow> string \<Rightarrow> long_option list \<Rightarrow> bool \<Rightarrow> bool \<Rightarrow> bool \<Rightarrow>
    getopt_state \<Rightarrow> (flow \<times> getopt_state) option" where
  "try_long argc optstring longopts longind long_only print_errors s =
     do {
       nc \<leftarrow> nextchar s;
       (let name = takeWhile (\<lambda>c. c \<noteq> CHR ''='') nc;
            nameend = dropWhile (\<lambda>c. c \<noteq> CHR ''='') nc;
            (pfound, indfound, exact, ambig) =
              find_long long_only nc (length name) longopts 0 (None, - 1, False)
        in if ambig \<and> \<not> exact then
             do {
               s1 \<leftarrow> (if print_errors then
                        do { a \<leftarrow> arg_at (argv s) (optind s); complain (Ambiguous a) s }
                      else Some s);
               Some (Return (char_int (CHR ''?'')),
                     s1\<lparr>nextchar := Some [], optind := optind s1 + 1, optopt := 0\<rparr>)
             }
           else
             case pfound of
               Some p \<Rightarrow>
                 do {
                   (r, s1) \<leftarrow> long_found argc optstring longind print_errors p indfound nameend s;
                   Some (Return r, s1)
                 }
             | None \<Rightarrow>
                 do {
                   a \<leftarrow> arg_at (argv s) (optind s);
                   if \<not> long_only \<or> char_at a 1 = CHR ''-''
                      \<or> my_index optstring (char_at nc 0) = None
                   then
                     do {
                       s1 \<leftarrow> (if print_errors then
                                if char_at a 1 = CHR ''-''
                                then complain (Unrecognized_long nc) s
                                else complain (Unrecognized_short (char_at a 0) nc) s
                              else Some s);
                       Some (Return (char_int (CHR ''?'')),
                             s1\<lparr>nextchar := Some [], optind := optind s1 + 1, optopt := 0\<rparr>)
                     }
                   else Some (Proceed, s)
                 })
     }"

section \<open>Short options\<close>

text \<open>
  The convenience \<open>-W foo\<close>: the option table is searched with every second inexact match
  ambiguous, and the argument has been consumed before the search.
\<close>

definition find_long_W ::
  "string \<Rightarrow> nat \<Rightarrow> long_option list \<Rightarrow> long_option option \<times> int \<times> bool \<times> bool" where
  "find_long_W nc n longopts = find_long True nc n longopts 0 (None, 0, False)"

definition W_found :: "nat \<Rightarrow> string \<Rightarrow> bool \<Rightarrow> bool \<Rightarrow> long_option \<Rightarrow> int \<Rightarrow> string \<Rightarrow>
    getopt_state \<Rightarrow> (int \<times> getopt_state) option" where
  "W_found argc optstring longind print_errors pfound option_index rest s =
     (if rest \<noteq> [] then
        if has_arg pfound \<noteq> 0 then
          long_done longind pfound option_index (s\<lparr>optarg := Some (tl rest)\<rparr>)
        else
          do {
            s1 \<leftarrow> (if print_errors then complain (W_no_arg_allowed (opt_name pfound)) s
                   else Some s);
            Some (char_int (CHR ''?''), s1\<lparr>nextchar := Some []\<rparr>)
          }
      else if has_arg pfound = 1 then
        if optind s < argc then
          do {
            a \<leftarrow> arg_at (argv s) (optind s);
            long_done longind pfound option_index
              (s\<lparr>optarg := Some a, optind := optind s + 1\<rparr>)
          }
        else
          do {
            s1 \<leftarrow> (if print_errors then
                     do { a \<leftarrow> arg_at (argv s) (optind s - 1); complain (Requires_arg a) s }
                   else Some s);
            Some (missing_arg_code optstring, s1\<lparr>nextchar := Some []\<rparr>)
          }
      else long_done longind pfound option_index s)"

text \<open>\<open>arg\<close> is the argument just stored in \<open>optarg\<close>; a null \<open>longopts\<close> is followed.\<close>

definition W_search :: "nat \<Rightarrow> string \<Rightarrow> long_option list option \<Rightarrow> bool \<Rightarrow> bool \<Rightarrow> string \<Rightarrow>
    getopt_state \<Rightarrow> (int \<times> getopt_state) option" where
  "W_search argc optstring longopts longind print_errors arg s =
     do {
       los \<leftarrow> longopts;
       (let name = takeWhile (\<lambda>c. c \<noteq> CHR ''='') arg;
            nameend = dropWhile (\<lambda>c. c \<noteq> CHR ''='') arg;
            (pfound, indfound, exact, ambig) = find_long_W arg (length name) los
        in if ambig \<and> \<not> exact then
             do {
               s1 \<leftarrow> (if print_errors then
                        do { a \<leftarrow> arg_at (argv s) (optind s); complain (W_ambiguous a) s }
                      else Some s);
               Some (char_int (CHR ''?''), s1\<lparr>nextchar := Some [], optind := optind s1 + 1\<rparr>)
             }
           else
             case pfound of
               Some p \<Rightarrow> W_found argc optstring longind print_errors p indfound nameend s
             | None \<Rightarrow> Some (char_int (CHR ''W''), s\<lparr>nextchar := None\<rparr>))
     }"

definition W_option :: "nat \<Rightarrow> string \<Rightarrow> long_option list option \<Rightarrow> bool \<Rightarrow> bool \<Rightarrow> char \<Rightarrow>
    string \<Rightarrow> getopt_state \<Rightarrow> (int \<times> getopt_state) option" where
  "W_option argc optstring longopts longind print_errors c nc s =
     (if nc \<noteq> [] then
        W_search argc optstring longopts longind print_errors nc
          (s\<lparr>optarg := Some nc, optind := optind s + 1\<rparr>)
      else if optind s = argc then
        do {
          s1 \<leftarrow> (if print_errors then complain (Requires_arg_char c) s else Some s);
          Some (missing_arg_code optstring, s1\<lparr>optopt := char_int c\<rparr>)
        }
      else
        do {
          a \<leftarrow> arg_at (argv s) (optind s);
          W_search argc optstring longopts longind print_errors a
            (s\<lparr>optarg := Some a, optind := optind s + 1\<rparr>)
        })"

text \<open>An option that wants an argument, after the option character \<open>c\<close>.\<close>

definition required_arg :: "nat \<Rightarrow> string \<Rightarrow> bool \<Rightarrow> char \<Rightarrow> string \<Rightarrow> getopt_state \<Rightarrow>
    (int \<times> getopt_state) option" where
  "required_arg argc optstring print_errors c nc s =
     (if nc \<noteq> [] then
        Some (char_int c, s\<lparr>optarg := Some nc, optind := optind s + 1, nextchar := None\<rparr>)
      else if optind s = argc then
        do {
          s1 \<leftarrow> (if print_errors then complain (Requires_arg_char c) s else Some s);
          Some (missing_arg_code optstring, s1\<lparr>optopt := char_int c, nextchar := None\<rparr>)
        }
      else
        do {
          a \<leftarrow> arg_at (argv s) (optind s);
          Some (char_int c, s\<lparr>optarg := Some a, optind := optind s + 1, nextchar := None\<rparr>)
        })"

definition optional_arg :: "char \<Rightarrow> string \<Rightarrow> getopt_state \<Rightarrow> int \<times> getopt_state" where
  "optional_arg c nc s =
     (if nc \<noteq> [] then
        (char_int c, s\<lparr>optarg := Some nc, optind := optind s + 1, nextchar := None\<rparr>)
      else (char_int c, s\<lparr>optarg := None, nextchar := None\<rparr>))"

text \<open>A character that is not an option: the block under \<open>temp == NULL || c == ':'\<close>.\<close>

definition bad_option :: "bool \<Rightarrow> char \<Rightarrow> getopt_state \<Rightarrow> (int \<times> getopt_state) option" where
  "bad_option print_errors c s =
     do {
       s1 \<leftarrow> (if print_errors then
                if posixly_correct s \<noteq> None then complain (Illegal_option c) s
                else complain (Invalid_option c) s
              else Some s);
       Some (char_int (CHR ''?''), s1\<lparr>optopt := char_int c\<rparr>)
     }"

text \<open>
  The short-option block.  Reading past an exhausted \<open>nextchar\<close> would run over the
  terminator, hence \<^const>\<open>None\<close> there.
\<close>

definition short_option :: "nat \<Rightarrow> string \<Rightarrow> long_option list option \<Rightarrow> bool \<Rightarrow> bool \<Rightarrow>
    getopt_state \<Rightarrow> (int \<times> getopt_state) option" where
  "short_option argc optstring longopts longind print_errors s =
     (case nextchar s of
        None \<Rightarrow> None
      | Some [] \<Rightarrow> None
      | Some (c # nc) \<Rightarrow>
          (let s1 = s\<lparr>nextchar := Some nc,
                     optind := (if nc = [] then optind s + 1 else optind s)\<rparr>
           in case my_index optstring c of
                None \<Rightarrow> bad_option print_errors c s1
              | Some temp \<Rightarrow>
                  if c = CHR '':'' then bad_option print_errors c s1
                  else if char_at temp 0 = CHR ''W'' \<and> char_at temp 1 = CHR '';'' then
                    W_option argc optstring longopts longind print_errors c nc s1
                  else if char_at temp 1 = CHR '':'' then
                    if char_at temp 2 = CHR '':'' then Some (optional_arg c nc s1)
                    else required_arg argc optstring print_errors c nc s1
                  else Some (char_int c, s1)))"

section \<open>The whole scanner\<close>

definition decode :: "nat \<Rightarrow> string \<Rightarrow> long_option list option \<Rightarrow> bool \<Rightarrow> bool \<Rightarrow> bool \<Rightarrow>
    getopt_state \<Rightarrow> (int \<times> getopt_state) option" where
  "decode argc optstring longopts longind long_only print_errors s =
     do {
       (f, s1) \<leftarrow>
         (case longopts of
            None \<Rightarrow> Some (Proceed, s)
          | Some los \<Rightarrow>
              do {
                a \<leftarrow> arg_at (argv s) (optind s);
                if char_at a 1 = CHR ''-''
                   \<or> (long_only \<and> (char_at a 2 \<noteq> NUL \<or> my_index optstring (char_at a 1) = None))
                then try_long argc optstring los longind long_only print_errors s
                else Some (Proceed, s)
              });
       case f of
         Return r \<Rightarrow> Some (r, s1)
       | Proceed \<Rightarrow> short_option argc optstring longopts longind print_errors s1
     }"

text \<open>
  The first call initialises, and the flag character it strips from \<open>optstring\<close> is stripped
  from the local variable of that call only.
\<close>

definition first_call ::
  "string option \<Rightarrow> string \<Rightarrow> getopt_state \<Rightarrow> string \<times> getopt_state" where
  "first_call env optstring s =
     (if optind s = 0 \<or> \<not> getopt_initialized s then
        (let s1 = (if optind s = 0 then s\<lparr>optind := 1\<rparr> else s);
             (optstring1, s2) = getopt_initialize env optstring s1
         in (optstring1, s2\<lparr>getopt_initialized := True\<rparr>))
      else (optstring, s))"

definition getopt_internal :: "string option \<Rightarrow> nat \<Rightarrow> string \<Rightarrow> long_option list option \<Rightarrow>
    bool \<Rightarrow> bool \<Rightarrow> getopt_state \<Rightarrow> (int \<times> getopt_state) option" where
  "getopt_internal env argc optstring longopts longind long_only s =
     (let print_errors = (if char_at optstring 0 = CHR '':'' then False else opterr s \<noteq> 0) in
      if argc < 1 then Some (- 1, s)
      else
        (let (optstring1, s1) = first_call env optstring (s\<lparr>optarg := None\<rparr>) in
         do {
           (f, s2) \<leftarrow> (if nextchar s1 = None \<or> nextchar s1 = Some []
                       then advance argc (longopts \<noteq> None) s1
                       else Some (Proceed, s1));
           case f of
             Return r \<Rightarrow> Some (r, s2)
           | Proceed \<Rightarrow> decode argc optstring1 longopts longind long_only print_errors s2
         }))"

definition getopt ::
  "string option \<Rightarrow> nat \<Rightarrow> string \<Rightarrow> getopt_state \<Rightarrow> (int \<times> getopt_state) option" where
  "getopt env argc optstring s = getopt_internal env argc optstring None False False s"

end
