(* ===== verification/Getopt_Reference.thy ===== *)
theory Getopt_Reference
  imports Getopt
begin

text \<open>
  What a program may expect of \<open>getopt\<close> in its default mode: a pure parser of the argument
  list, by recursion over the list, and the same parser as a machine that yields one event at a
  time, which is the shape of the scanner's calls.  The locale \<open>option_scanner\<close> is the
  contract of a scanner with this machine; its client lemma runs the scanner to the end.
\<close>

section \<open>The reference parser\<close>

datatype opt_kind = No_option | Flag_option | Optional_option | Required_option | W_long

definition kind_of :: "string \<Rightarrow> char \<Rightarrow> opt_kind" where
  "kind_of os c =
     (case my_index os c of
        None \<Rightarrow> No_option
      | Some temp \<Rightarrow>
          if c = CHR '':'' then No_option
          else if c = CHR ''W'' \<and> char_at temp 1 = CHR '';'' then W_long
          else if char_at temp 1 \<noteq> CHR '':'' then Flag_option
          else if char_at temp 2 = CHR '':'' then Optional_option
          else Required_option)"

text \<open>An option with its argument, an unknown option, an option that lacks its argument.\<close>

datatype event = Opt char "string option" | Bad char | Missing char

text \<open>
  One cluster of option characters, with the arguments that follow it: the events, the
  arguments it consumes, the arguments that are left.
\<close>

fun parse_cluster :: "string \<Rightarrow> string \<Rightarrow> string list \<Rightarrow>
    event list \<times> string list \<times> string list" where
  "parse_cluster os [] rest = ([], [], rest)"
| "parse_cluster os (c # cs) rest =
     (case kind_of os c of
        Required_option \<Rightarrow>
          if cs \<noteq> [] then ([Opt c (Some cs)], [], rest)
          else (case rest of
                  [] \<Rightarrow> ([Missing c], [], [])
                | b # bs \<Rightarrow> ([Opt c (Some b)], [b], bs))
      | Optional_option \<Rightarrow> ([Opt c (if cs = [] then None else Some cs)], [], rest)
      | k \<Rightarrow>
          let (evs, used, rest') = parse_cluster os cs rest
          in ((if k = No_option then Bad c else Opt c None) # evs, used, rest'))"

lemma parse_cluster_shorter:
  "parse_cluster os cs rest = (evs, used, rest') \<Longrightarrow> length rest' \<le> length rest"
  by (induction os cs rest arbitrary: evs used rule: parse_cluster.induct)
    (auto split: opt_kind.splits if_splits list.splits prod.splits)

text \<open>
  The whole argument list: the events, the options with their arguments in the order they were
  given, the operands in the order they were given.
\<close>

function parse_args :: "string \<Rightarrow> string list \<Rightarrow> event list \<times> string list \<times> string list" where
  "parse_args os [] = ([], [], [])"
| "parse_args os (a # rest) =
     (if nonoption_p a then
        let (evs, opts, operands) = parse_args os rest in (evs, opts, a # operands)
      else if a = ''--'' then ([], [a], rest)
      else
        let (evs1, used, rest') = parse_cluster os (tl a) rest;
            (evs2, opts, operands) = parse_args os rest'
        in (evs1 @ evs2, a # used @ opts, operands))"
  by pat_completeness auto
termination
  by (relation "measure (\<lambda>(os, args). length args)")
    (auto dest: parse_cluster_shorter [OF sym] simp: less_Suc_eq_le)

section \<open>One event at a time\<close>

text \<open>
  A configuration: the options done, the operands skipped, the characters left of the cluster
  being scanned, and the arguments not done, with the cluster's element first if there is one.
\<close>

type_synonym config = "string list \<times> string list \<times> string \<times> string list"

definition next_char :: "string \<Rightarrow> char \<Rightarrow> string \<Rightarrow> string list \<Rightarrow> string list \<Rightarrow> string \<Rightarrow>
    string list \<Rightarrow> event \<times> config" where
  "next_char os c cs opts operands a rest =
     (case kind_of os c of
        Required_option \<Rightarrow>
          if cs \<noteq> [] then (Opt c (Some cs), (opts @ [a], operands, [], rest))
          else (case rest of
                  [] \<Rightarrow> (Missing c, (opts @ [a], operands, [], []))
                | b # bs \<Rightarrow> (Opt c (Some b), (opts @ [a, b], operands, [], bs)))
      | Optional_option \<Rightarrow>
          if cs \<noteq> [] then (Opt c (Some cs), (opts @ [a], operands, [], rest))
          else (Opt c None, (opts @ [a], operands, [], rest))
      | k \<Rightarrow>
          (if k = No_option then Bad c else Opt c None,
           if cs = [] then (opts @ [a], operands, [], rest)
           else (opts, operands, cs, a # rest)))"

fun next_event :: "string \<Rightarrow> config \<Rightarrow> event option \<times> config" where
  "next_event os (opts, operands, c # cs, a # rest) =
     (let (e, cfg) = next_char os c cs opts operands a rest in (Some e, cfg))"
| "next_event os (opts, operands, cs, args) =
     (let operands' = operands @ takeWhile nonoption_p args in
      case dropWhile nonoption_p args of
        [] \<Rightarrow> (None, (opts, operands', [], []))
      | a # rest \<Rightarrow>
          if a = ''--'' then (None, (opts @ [a], operands' @ rest, [], []))
          else (case tl a of
                  [] \<Rightarrow> (None, (opts, operands', [], a # rest))
                | c # cs \<Rightarrow>
                    let (e, cfg) = next_char os c cs opts operands' a rest in (Some e, cfg)))"

text \<open>What the parser makes of a configuration.\<close>

definition meaning :: "string \<Rightarrow> config \<Rightarrow> event list \<times> string list \<times> string list" where
  "meaning os cfg =
     (case cfg of (opts, operands, cs, args) \<Rightarrow>
        if cs = [] then
          let (evs, opts', operands') = parse_args os args
          in (evs, opts @ opts', operands @ operands')
        else
          let (evs1, used, rest) = parse_cluster os cs (tl args);
              (evs2, opts', operands') = parse_args os rest
          in (evs1 @ evs2, opts @ hd args # used @ opts', operands @ operands'))"

lemma parse_args_operands:
  "parse_args os args =
     (let (evs, opts, operands) = parse_args os (dropWhile nonoption_p args)
      in (evs, opts, takeWhile nonoption_p args @ operands))"
  by (induction args) (auto split: prod.splits)

lemma kind_of_no_W: "kind_of os c = W_long \<Longrightarrow> c = CHR ''W''"
  by (auto simp: kind_of_def split: option.splits if_splits)

lemma next_char_meaning:
  assumes "next_char os c cs opts operands a rest = (e, cfg)"
    and "parse_cluster os (c # cs) rest = (evs1, used, rest')"
    and "parse_args os rest' = (evs2, opts', operands')"
  shows "meaning os cfg = (tl evs1 @ evs2, opts @ a # used @ opts', operands @ operands')
       \<and> evs1 \<noteq> [] \<and> hd evs1 = e"
  using assms
  by (auto simp: next_char_def meaning_def Let_def split: opt_kind.splits if_splits list.splits prod.splits)

definition wf_config :: "config \<Rightarrow> bool" where
  "wf_config cfg \<longleftrightarrow> (case cfg of (opts, operands, cs, args) \<Rightarrow> cs = [] \<or> args \<noteq> [])"

lemma option_element_chars: "\<not> nonoption_p a \<Longrightarrow> \<exists>c cs. a = CHR ''-'' # c # cs"
  by (cases a; cases "tl a") (auto simp: nonoption_p_def)

lemma dropWhile_hd: "dropWhile P xs = y # ys \<Longrightarrow> \<not> P y"
  by (metis dropWhile_eq_Cons_conv)

text \<open>Meanings: of a cluster's first character, and of a configuration between clusters.\<close>

lemma next_char_step:
  assumes "next_char os c cs opts operands a rest = (e, cfg)"
  shows "\<exists>evs opts' operands'. meaning os (opts, operands, c # cs, a # rest) = (e # evs, opts', operands')
           \<and> meaning os cfg = (evs, opts', operands')"
proof -
  obtain evs1 used rest' where pc: "parse_cluster os (c # cs) rest = (evs1, used, rest')"
    by (metis prod_cases3)
  obtain evs2 opts' operands' where pa: "parse_args os rest' = (evs2, opts', operands')"
    by (metis prod_cases3)
  have "meaning os (opts, operands, c # cs, a # rest)
      = (evs1 @ evs2, opts @ a # used @ opts', operands @ operands')"
    by (simp add: meaning_def pc pa del: parse_cluster.simps)
  then show ?thesis
    using next_char_meaning [OF assms pc pa] by (cases evs1) auto
qed

lemma meaning_between:
  "meaning os (opts, operands, [], args)
   = meaning os (opts, operands @ takeWhile nonoption_p args, [], dropWhile nonoption_p args)"
proof -
  obtain evs opts' operands' where
    pa: "parse_args os (dropWhile nonoption_p args) = (evs, opts', operands')"
    by (metis prod_cases3)
  have "parse_args os args = (evs, opts', takeWhile nonoption_p args @ operands')"
    by (subst parse_args_operands) (simp add: pa)
  then show ?thesis by (simp add: meaning_def pa)
qed

lemma meaning_element:
  assumes "\<not> nonoption_p a" "a \<noteq> ''--''"
  shows "meaning os (opts, operands, [], a # rest) = meaning os (opts, operands, tl a, a # rest)"
proof -
  obtain c cs where a: "a = CHR ''-'' # c # cs"
    using option_element_chars [OF assms(1)] by blast
  show ?thesis
    using assms by (auto simp: a meaning_def Let_def case_prod_beta simp del: parse_cluster.simps)
qed

text \<open>
  The machine's steps: the end yields what was collected, an event is the head of the meaning
  and the rest is the meaning of the next configuration.
\<close>

lemma next_event_end:
  assumes "next_event os cfg = (None, (opts, operands, cs, args))" "wf_config cfg"
  shows "meaning os cfg = ([], opts, operands)"
proof -
  obtain D N k R where cfg: "cfg = (D, N, k, R)" by (cases cfg)
  have k: "k = []" using assms by (cases k; cases R) (auto simp: cfg wf_config_def split: prod.splits)
  show ?thesis
  proof (cases "dropWhile nonoption_p R")
    case Nil
    show ?thesis
      using assms by (subst cfg, subst k, subst meaning_between) (simp add: cfg k meaning_def Nil)
  next
    case (Cons a rest)
    then obtain c cs where a: "a = CHR ''-'' # c # cs" "\<not> nonoption_p a"
      using dropWhile_hd [OF Cons] option_element_chars by blast
    show ?thesis
      using a assms Cons
      by (subst cfg, subst k, subst meaning_between)
        (auto simp: cfg k meaning_def Let_def split: if_splits prod.splits)
  qed
qed

lemma next_event_some:
  assumes "next_event os cfg = (Some e, cfg')" "wf_config cfg"
  shows "\<exists>evs opts operands. meaning os cfg = (e # evs, opts, operands)
           \<and> meaning os cfg' = (evs, opts, operands)"
proof -
  obtain D N k R where cfg: "cfg = (D, N, k, R)" by (cases cfg)
  show ?thesis
  proof (cases k)
    case (Cons c cs)
    then obtain a rest where R: "R = a # rest"
      using assms(2) by (cases R) (auto simp: cfg wf_config_def)
    have "next_char os c cs D N a rest = (e, cfg')"
      using assms(1) by (simp add: cfg Cons R split: prod.splits)
    then show ?thesis
      using next_char_step by (simp add: cfg Cons R)
  next
    case Nil
    obtain a rest where dw: "dropWhile nonoption_p R = a # rest"
      using assms(1) by (cases "dropWhile nonoption_p R") (auto simp: cfg Nil)
    then obtain c cs where a: "a = CHR ''-'' # c # cs" "\<not> nonoption_p a"
      using dropWhile_hd [OF dw] option_element_chars by blast
    have ne: "a \<noteq> ''--''" and nc: "next_char os c cs D (N @ takeWhile nonoption_p R) a rest = (e, cfg')"
      using assms(1) by (auto simp: cfg Nil dw a Let_def split: if_splits prod.splits)
    have "meaning os cfg = meaning os (D, N @ takeWhile nonoption_p R, c # cs, a # rest)"
      using meaning_between [of os D N R] meaning_element [OF a(2) ne] by (simp add: cfg Nil dw a(1))
    then show ?thesis
      using next_char_step [OF nc] by simp
  qed
qed

lemma next_event_wf:
  "next_event os cfg = (Some e, cfg') \<Longrightarrow> wf_config cfg'"
  by (induction os cfg rule: next_event.induct)
    (auto simp: next_char_def wf_config_def Let_def split: opt_kind.splits if_splits list.splits prod.splits)

section \<open>The contract of a scanner\<close>

definition event_code :: "string \<Rightarrow> event \<Rightarrow> int" where
  "event_code os e =
     (case e of Opt c a \<Rightarrow> char_int c | Bad c \<Rightarrow> char_int (CHR ''?'')
      | Missing c \<Rightarrow> missing_arg_code os)"

definition event_arg :: "event \<Rightarrow> string option" where
  "event_arg e = (case e of Opt c a \<Rightarrow> a | _ \<Rightarrow> None)"

text \<open>
  The caller's loop \<open>while ((opt = getopt (...)) != EOF)\<close>: the returned values with the
  \<open>optarg\<close> each came with.  \<^const>\<open>None\<close> when the scanner fails or the fuel runs out.
\<close>

fun scan_all :: "('s \<Rightarrow> (int \<times> string option \<times> 's) option) \<Rightarrow> nat \<Rightarrow> 's \<Rightarrow>
    ((int \<times> string option) list \<times> 's) option" where
  "scan_all scanner 0 s = None"
| "scan_all scanner (Suc fuel) s =
     do {
       (r, a, s1) \<leftarrow> scanner s;
       if r = - 1 then Some ([], s1)
       else do { (evs, s2) \<leftarrow> scan_all scanner fuel s1; Some ((r, a) # evs, s2) }
     }"

locale option_scanner =
  fixes scanner :: "'s \<Rightarrow> (int \<times> string option \<times> 's) option"
    and config_of :: "'s \<Rightarrow> config"
    and ready :: "'s \<Rightarrow> bool"
    and finished :: "'s \<Rightarrow> string list \<Rightarrow> string list \<Rightarrow> bool"
    and os :: string
  assumes config_wf: "ready s \<Longrightarrow> wf_config (config_of s)"
    and scan_event: "ready s \<Longrightarrow> next_event os (config_of s) = (Some e, cfg) \<Longrightarrow>
      \<exists>s1. scanner s = Some (event_code os e, event_arg e, s1) \<and> ready s1 \<and> config_of s1 = cfg"
    and scan_end: "ready s \<Longrightarrow> next_event os (config_of s) = (None, (opts, operands, cs, args)) \<Longrightarrow>
      \<exists>s1. scanner s = Some (- 1, None, s1) \<and> finished s1 opts operands"
    and codes: "ready s \<Longrightarrow> next_event os (config_of s) = (Some e, cfg) \<Longrightarrow> event_code os e \<noteq> - 1"
begin

lemma scan_all_meaning:
  "ready s \<Longrightarrow> meaning os (config_of s) = (evs, opts, operands) \<Longrightarrow> length evs < fuel \<Longrightarrow>
   \<exists>t. scan_all scanner fuel s = Some (map (\<lambda>e. (event_code os e, event_arg e)) evs, t)
       \<and> finished t opts operands"
proof (induction fuel arbitrary: s evs)
  case 0
  then show ?case by simp
next
  case (Suc fuel)
  show ?case
  proof -
    obtain oe cfg where cfg: "next_event os (config_of s) = (oe, cfg)"
      by (cases "next_event os (config_of s)")
    show ?thesis
    proof (cases oe)
      case None
      obtain D N k R where cfg0: "cfg = (D, N, k, R)" by (cases cfg)
      have ne: "next_event os (config_of s) = (None, (D, N, k, R))"
        using cfg None cfg0 by simp
      show ?thesis
        using next_event_end [OF ne config_wf] scan_end [OF Suc.prems(1) ne] Suc.prems by auto
    next
      case (Some e)
      have ne: "next_event os (config_of s) = (Some e, cfg)" using cfg Some by simp
      obtain s1 where s1: "scanner s = Some (event_code os e, event_arg e, s1)"
          "ready s1" "config_of s1 = cfg"
        using scan_event [OF Suc.prems(1) ne] by blast
      obtain evs' where evs: "evs = e # evs'" and m: "meaning os cfg = (evs', opts, operands)"
        using next_event_some [OF ne config_wf] Suc.prems by auto
      have "length evs' < fuel" using Suc.prems(3) by (simp add: evs)
      then obtain t where "scan_all scanner fuel s1
            = Some (map (\<lambda>e. (event_code os e, event_arg e)) evs', t)" "finished t opts operands"
        using Suc.IH [OF s1(2)] m s1(3) by blast
      then show ?thesis
        using s1 codes [OF Suc.prems(1) ne] by (simp add: evs)
    qed
  qed
qed

end

text \<open>At most one event per character: the fuel a caller needs.\<close>

lemma parse_cluster_events:
  "parse_cluster os cs rest = (evs, used, rest') \<Longrightarrow>
     length evs \<le> length cs \<and> sum_list (map length rest') \<le> sum_list (map length rest)"
  by (induction os cs rest arbitrary: evs used rule: parse_cluster.induct)
    (auto split: opt_kind.splits if_splits list.splits prod.splits)

lemma parse_args_events:
  "parse_args os args = (evs, opts, operands) \<Longrightarrow> length evs \<le> sum_list (map length args)"
proof (induction os args arbitrary: evs opts operands rule: parse_args.induct)
  case (1 os)
  then show ?case by simp
next
  case (2 os a rest)
  show ?case
  proof (cases "nonoption_p a \<or> a = ''--''")
    case True
    then show ?thesis using 2 by (fastforce split: if_splits prod.splits)
  next
    case False
    obtain evs1 used rest' where pc: "parse_cluster os (tl a) rest = (evs1, used, rest')"
      by (metis prod_cases3)
    obtain evs2 opts' operands' where pa: "parse_args os rest' = (evs2, opts', operands')"
      by (metis prod_cases3)
    have "length evs2 \<le> sum_list (map length rest')"
      using 2(2) [OF _ _ pc [symmetric] _ _ pa] False by simp
    then show ?thesis
      using 2(3) False parse_cluster_events [OF pc] by (auto simp: pc pa)
  qed
qed

end
