(* ===== verification/Getopt_Safety.thy ===== *)
theory Getopt_Safety
  imports Getopt
begin

text \<open>
  Memory safety of the scanner and the invariant of its indices, for every ordering mode and
  every table of long options, as long as \<open>optstring\<close> does not ask for the \<open>-W foo\<close>
  convenience.  Each block of the scanner gets one lemma in the shape \<^const>\<open>yields\<close>.
\<close>

section \<open>What exchange does\<close>

lemma exchange_loop_slices:
  assumes "i \<le> j" "j \<le> k" "k \<le> length xs"
  shows "exchange_loop i j k xs = Some (take i xs @ slice j k xs @ slice i j xs @ drop k xs)"
proof -
  have "exchange_loop (length (take i xs)) (length (take i xs) + length (slice i j xs))
      (length (take i xs) + length (slice i j xs) + length (slice j k xs))
      (take i xs @ slice i j xs @ slice j k xs @ drop k xs)
    = Some (take i xs @ slice j k xs @ slice i j xs @ drop k xs)"
    by (rule exchange_loop_segments)
  then show ?thesis
    using assms by (simp add: slice_split [OF assms, symmetric])
qed

definition nonopts_ordered :: "getopt_state \<Rightarrow> bool" where
  "nonopts_ordered s \<longleftrightarrow>
     first_nonopt s \<le> last_nonopt s \<and> last_nonopt s \<le> optind s \<and> optind s \<le> length (argv s)"

lemma exchange_eq:
  assumes "nonopts_ordered s"
  shows "exchange s = Some (s\<lparr>
      argv := take (first_nonopt s) (argv s) @ slice (last_nonopt s) (optind s) (argv s)
              @ slice (first_nonopt s) (last_nonopt s) (argv s) @ drop (optind s) (argv s),
      first_nonopt := first_nonopt s + (optind s - last_nonopt s),
      last_nonopt := optind s\<rparr>)"
  using assms by (simp add: exchange_def nonopts_ordered_def exchange_loop_slices)

lemma mset_slices:
  assumes "i \<le> j" "j \<le> k" "k \<le> length xs"
  shows "mset (take i xs @ slice j k xs @ slice i j xs @ drop k xs) = mset xs"
proof -
  have "mset xs = mset (take i xs @ slice i j xs @ slice j k xs @ drop k xs)"
    using slice_split [OF assms] by simp
  then show ?thesis by simp
qed

section \<open>The invariant between calls\<close>

definition scanning :: "getopt_state \<Rightarrow> bool" where
  "scanning s \<longleftrightarrow> nextchar s \<noteq> None \<and> nextchar s \<noteq> Some []"

definition getopt_inv :: "nat \<Rightarrow> getopt_state \<Rightarrow> bool" where
  "getopt_inv argc s \<longleftrightarrow>
     argc = length (argv s) \<and> 1 \<le> argc \<and> optind s \<le> argc
     \<and> (getopt_initialized s \<and> optind s \<noteq> 0 \<longrightarrow>
          1 \<le> first_nonopt s \<and> first_nonopt s \<le> last_nonopt s \<and> last_nonopt s \<le> argc
          \<and> (scanning s \<longrightarrow> optind s < argc))"

text \<open>Within a call, after initialisation.\<close>

definition call_inv :: "nat \<Rightarrow> getopt_state \<Rightarrow> bool" where
  "call_inv argc s \<longleftrightarrow>
     argc = length (argv s) \<and> 1 \<le> argc \<and> 1 \<le> optind s \<and> optind s \<le> argc
     \<and> 1 \<le> first_nonopt s \<and> first_nonopt s \<le> last_nonopt s \<and> last_nonopt s \<le> argc
     \<and> getopt_initialized s"

text \<open>The part of the state a call leaves alone, up to the permutation of \<open>argv\<close>.\<close>

definition permuted :: "getopt_state \<Rightarrow> getopt_state \<Rightarrow> bool" where
  "permuted s t \<longleftrightarrow> mset (argv t) = mset (argv s) \<and> argv t ! 0 = argv s ! 0"

lemma permuted_refl [simp]: "permuted s s"
  by (simp add: permuted_def)

lemma permuted_trans: "permuted s t \<Longrightarrow> permuted t u \<Longrightarrow> permuted s u"
  by (simp add: permuted_def)

lemma permuted_same [simp]: "argv t = argv s \<Longrightarrow> permuted s t"
  by (simp add: permuted_def)

lemma permuted_update [simp]:
  "permuted s (t\<lparr>optind := a\<rparr>) = permuted s t"
  "permuted s (t\<lparr>first_nonopt := a\<rparr>) = permuted s t"
  "permuted s (t\<lparr>last_nonopt := a\<rparr>) = permuted s t"
  "permuted s (t\<lparr>nextchar := nc\<rparr>) = permuted s t"
  "permuted s (t\<lparr>optarg := oa\<rparr>) = permuted s t"
  "permuted s (t\<lparr>optopt := i\<rparr>) = permuted s t"
  "permuted s (t\<lparr>err_out := es\<rparr>) = permuted s t"
  "permuted s (t\<lparr>longind_cell := i\<rparr>) = permuted s t"
  "permuted s (t\<lparr>flag_cells := fs\<rparr>) = permuted s t"
  by (simp_all add: permuted_def)

lemma mset_length: "mset xs = mset ys \<Longrightarrow> length xs = length ys"
  by (metis size_mset)

lemma permuted_length: "permuted s t \<Longrightarrow> length (argv t) = length (argv s)"
  by (auto simp: permuted_def dest: mset_length)

text \<open>The blocks before the decoding also keep \<open>nextchar\<close> and \<open>ordering\<close>.\<close>

definition moved :: "getopt_state \<Rightarrow> getopt_state \<Rightarrow> bool" where
  "moved s t \<longleftrightarrow> permuted s t \<and> nextchar t = nextchar s \<and> ordering t = ordering s"

lemma moved_refl [simp]: "moved s s"
  by (simp add: moved_def)

lemma moved_update [simp]:
  "moved s (t\<lparr>optind := a\<rparr>) = moved s t"
  "moved s (t\<lparr>first_nonopt := a\<rparr>) = moved s t"
  "moved s (t\<lparr>last_nonopt := a\<rparr>) = moved s t"
  by (simp_all add: moved_def)

lemma moved_trans: "moved s t \<Longrightarrow> moved t u \<Longrightarrow> moved s u"
  by (auto simp: moved_def intro: permuted_trans)

section \<open>The blocks\<close>

lemma complain_eq [simp]:
  "argv s \<noteq> [] \<Longrightarrow> complain m s = Some (s\<lparr>err_out := err_out s @ [(argv s ! 0, m)]\<rparr>)"
  by (simp add: complain_def arg_at_def)

lemma exchange_yields:
  assumes "call_inv argc s" "last_nonopt s \<le> optind s"
  shows "yields (exchange s) (\<lambda>t. call_inv argc t \<and> moved s t
           \<and> last_nonopt t = optind t \<and> optind t = optind s)"
proof -
  have o: "nonopts_ordered s"
    using assms by (simp add: nonopts_ordered_def call_inv_def)
  have m: "mset (take (first_nonopt s) (argv s) @ slice (last_nonopt s) (optind s) (argv s)
      @ slice (first_nonopt s) (last_nonopt s) (argv s) @ drop (optind s) (argv s))
    = mset (argv s)" (is "mset ?args = _")
    using o by (intro mset_slices) (auto simp: nonopts_ordered_def)
  have h: "?args ! 0 = argv s ! 0"
    using assms by (simp add: call_inv_def nth_append)
  show ?thesis
    using assms m h mset_length [OF m]
    by (simp add: exchange_eq [OF o] call_inv_def moved_def permuted_def del: mset_append) arith
qed

lemma skip_nonoptions_bounds:
  "i \<le> argc \<Longrightarrow> argc = length args \<Longrightarrow>
   yields (skip_nonoptions argc args i) (\<lambda>j. i \<le> j \<and> j \<le> argc)"
proof (induction argc args i rule: skip_nonoptions.induct)
  case (1 argc args i)
  show ?case
  proof (cases "i < argc \<and> nonoption_p (args ! i)")
    case True
    then have "yields (skip_nonoptions argc args (Suc i)) (\<lambda>j. Suc i \<le> j \<and> j \<le> argc)"
      using 1 by (auto simp: arg_at_def)
    then have "yields (skip_nonoptions argc args (Suc i)) (\<lambda>j. i \<le> j \<and> j \<le> argc)"
      by (rule yields_mono) simp
    then show ?thesis
      using True 1 by (subst skip_nonoptions.simps) (simp add: arg_at_def)
  next
    case False
    then show ?thesis
      using 1 by (subst skip_nonoptions.simps) (auto simp: arg_at_def)
  qed
qed

lemma clip_nonopts_inv:
  "call_inv argc s \<Longrightarrow> call_inv argc (clip_nonopts s) \<and> moved s (clip_nonopts s)
     \<and> last_nonopt (clip_nonopts s) \<le> optind (clip_nonopts s)"
  by (auto simp: clip_nonopts_def call_inv_def Let_def moved_def)

lemma permute_nonopts_yields:
  assumes "call_inv argc s" "last_nonopt s \<le> optind s"
  shows "yields (permute_nonopts argc s) (\<lambda>t. call_inv argc t \<and> moved s t
           \<and> last_nonopt t \<le> optind t)"
proof -
  have skip: "yields (skip_nonoptions argc (argv t) (optind t))
      (\<lambda>i. call_inv argc (t\<lparr>optind := i, last_nonopt := i\<rparr>) \<and> moved s t)"
    if "call_inv argc t" "moved s t" "first_nonopt t \<le> optind t" for t
    using that by (intro yields_mono [OF skip_nonoptions_bounds]) (auto simp: call_inv_def)
  show ?thesis
  proof (cases "ordering s = PERMUTE")
    case False
    then show ?thesis using assms by (simp add: permute_nonopts_def)
  next
    case True
    consider (exch) "first_nonopt s \<noteq> last_nonopt s \<and> last_nonopt s \<noteq> optind s"
      | (first) "first_nonopt s = last_nonopt s \<and> last_nonopt s \<noteq> optind s"
      | (none) "last_nonopt s = optind s" by auto
    then show ?thesis
    proof cases
      case exch
      have "yields (exchange s) (\<lambda>t. yields (skip_nonoptions argc (argv t) (optind t))
          (\<lambda>i. call_inv argc (t\<lparr>optind := i, last_nonopt := i\<rparr>) \<and> moved s t))"
        by (rule yields_mono [OF exchange_yields [OF assms]], rule skip)
          (auto simp: call_inv_def)
      then show ?thesis
        using True exch by (simp add: permute_nonopts_def)
    next
      case first
      have "yields (skip_nonoptions argc (argv s) (optind s))
          (\<lambda>i. i \<le> argc \<and> optind s \<le> i)"
        using assms by (intro yields_mono [OF skip_nonoptions_bounds]) (auto simp: call_inv_def)
      then have "yields (skip_nonoptions argc (argv s) (optind s))
          (\<lambda>i. call_inv argc (s\<lparr>first_nonopt := optind s, optind := i, last_nonopt := i\<rparr>))"
        by (rule yields_mono) (use assms in \<open>auto simp: call_inv_def\<close>)
      then show ?thesis
        using True first by (simp add: permute_nonopts_def)
    next
      case none
      then show ?thesis
        using True skip [of s] assms by (simp add: permute_nonopts_def call_inv_def)
    qed
  qed
qed

lemma skip_dashdash_yields:
  assumes "call_inv argc s" "last_nonopt s \<le> optind s"
  shows "yields (skip_dashdash argc s) (\<lambda>t. call_inv argc t \<and> moved s t
           \<and> (optind t = argc \<or> argv t ! optind t \<noteq> ''--''))"
proof (cases "optind s \<noteq> argc \<and> argv s ! optind s = ''--''")
  case False
  then show ?thesis using assms by (auto simp: skip_dashdash_def call_inv_def)
next
  case True
  let ?s1 = "s\<lparr>optind := optind s + 1\<rparr>"
  have i: "call_inv argc ?s1" "last_nonopt ?s1 \<le> optind ?s1"
    using assms True by (auto simp: call_inv_def)
  have e: "yields (exchange ?s1)
      (\<lambda>t. call_inv argc (t\<lparr>last_nonopt := argc, optind := argc\<rparr>) \<and> moved s t)"
    using exchange_yields [OF i] by (rule yields_mono) (auto simp: call_inv_def moved_def permuted_def)
  show ?thesis
    using True assms e by (auto simp: skip_dashdash_def call_inv_def)
qed

text \<open>An option element has a character after its punctuation.\<close>

lemma option_element_rest:
  assumes "\<not> nonoption_p a" "a \<noteq> ''--''"
  shows "drop (1 + (if lo \<and> char_at a 1 = CHR ''-'' then 1 else 0)) a \<noteq> []"
proof -
  obtain b c where a: "a = CHR ''-'' # b # c"
    using assms(1) by (cases a; cases "tl a") (auto simp: nonoption_p_def)
  then show ?thesis using assms(2) by auto
qed

lemma advance_yields:
  assumes "call_inv argc s" "\<not> scanning s"
  shows "yields (advance argc lo s) (\<lambda>(f, t). permuted s t \<and>
           (case f of Return r \<Rightarrow> getopt_inv argc t
            | Proceed \<Rightarrow> call_inv argc t \<and> optind t < argc \<and> scanning t))"
proof -
  have "yields (permute_nonopts argc (clip_nonopts s)) (\<lambda>t. yields (skip_dashdash argc t)
      (\<lambda>u. call_inv argc u \<and> moved s u \<and> (optind u = argc \<or> argv u ! optind u \<noteq> ''--'')))"
    using clip_nonopts_inv [OF assms(1)]
    by (intro yields_mono [OF permute_nonopts_yields])
      (auto intro!: yields_mono [OF skip_dashdash_yields] intro: moved_trans)
  then show ?thesis
    unfolding advance_def yields_bind
    by (elim yields_mono)
      (use assms(2) in \<open>auto simp: call_inv_def getopt_inv_def moved_def scanning_def
         simp del: drop_eq_Nil dest: option_element_rest [where lo = lo]\<close>)
qed

section \<open>Decoding\<close>

lemma call_inv_update [simp]:
  "call_inv argc (t\<lparr>nextchar := nc\<rparr>) = call_inv argc t"
  "call_inv argc (t\<lparr>optarg := oa\<rparr>) = call_inv argc t"
  "call_inv argc (t\<lparr>optopt := i\<rparr>) = call_inv argc t"
  "call_inv argc (t\<lparr>err_out := es\<rparr>) = call_inv argc t"
  "call_inv argc (t\<lparr>longind_cell := i\<rparr>) = call_inv argc t"
  "call_inv argc (t\<lparr>flag_cells := fs\<rparr>) = call_inv argc t"
  by (simp_all add: call_inv_def)

lemma call_inv_argv: "call_inv argc t \<Longrightarrow> argv t \<noteq> [] \<and> length (argv t) = argc"
  by (auto simp: call_inv_def)

lemma call_inv_optind: "call_inv argc t \<Longrightarrow> optind t < argc \<Longrightarrow> call_inv argc (t\<lparr>optind := Suc (optind t)\<rparr>)"
  by (simp add: call_inv_def)

lemma call_inv_getopt_inv:
  "call_inv argc t \<Longrightarrow> (scanning t \<Longrightarrow> optind t < argc) \<Longrightarrow> getopt_inv argc t"
  by (auto simp: call_inv_def getopt_inv_def)

text \<open>What every way of ending a call after the decoding establishes.\<close>

definition call_done :: "nat \<Rightarrow> getopt_state \<Rightarrow> getopt_state \<Rightarrow> bool" where
  "call_done argc s t \<longleftrightarrow> call_inv argc t \<and> argv t = argv s \<and> (scanning t \<longrightarrow> optind t < argc)"

lemma scanning_update [simp]:
  "\<not> scanning (t\<lparr>nextchar := None\<rparr>)"
  "\<not> scanning (t\<lparr>nextchar := Some []\<rparr>)"
  "scanning (t\<lparr>nextchar := Some (c # cs)\<rparr>)"
  "scanning (t\<lparr>optarg := oa\<rparr>) = scanning t"
  "scanning (t\<lparr>optind := a\<rparr>) = scanning t"
  "scanning (t\<lparr>optopt := i\<rparr>) = scanning t"
  "scanning (t\<lparr>err_out := es\<rparr>) = scanning t"
  "scanning (t\<lparr>longind_cell := i\<rparr>) = scanning t"
  "scanning (t\<lparr>flag_cells := fs\<rparr>) = scanning t"
  by (simp_all add: scanning_def)

lemma long_done_yields:
  "call_inv argc s \<Longrightarrow> yields (long_done longind p i s) (\<lambda>(r, t). call_done argc s t)"
  by (auto simp: long_done_def Let_def call_done_def split: option.split)

lemma call_done_same_argv: "call_done argc s t \<Longrightarrow> argv s = argv s' \<Longrightarrow> call_done argc s' t"
  by (simp add: call_done_def)

lemma long_found_yields:
  assumes "call_inv argc s" "optind s < argc"
  shows "yields (long_found argc os longind pr p i rest s) (\<lambda>(r, t). call_done argc s t)"
proof -
  let ?s1 = "s\<lparr>optind := Suc (optind s)\<rparr>"
  have s1: "call_inv argc ?s1" using assms by (rule call_inv_optind)
  have done1: "yields (long_done longind p i (?s1\<lparr>optarg := oa\<rparr>)) (\<lambda>(r, t). call_done argc s t)" for oa
    using s1 by (intro yields_mono [OF long_done_yields]) (auto elim: call_done_same_argv)
  have done2: "yields (long_done longind p i ?s1) (\<lambda>(r, t). call_done argc s t)"
    using s1 by (intro yields_mono [OF long_done_yields]) (auto elim: call_done_same_argv)
  have done3: "yields (long_done longind p i (?s1\<lparr>optarg := oa, optind := Suc (Suc (optind s))\<rparr>))
      (\<lambda>(r, t). call_done argc s t)" if "Suc (optind s) < argc" for oa
    using that assms(1) by (intro yields_mono [OF long_done_yields])
      (auto simp: call_inv_def call_done_def)
  show ?thesis
    using done1 done2 done3 s1 call_inv_argv [OF assms(1)] assms
    by (auto simp: long_found_def Let_def yields_if call_done_def)
qed

lemma try_long_yields:
  assumes "call_inv argc s" "optind s < argc" "scanning s"
  shows "yields (try_long argc os los longind lo pr s) (\<lambda>(f, t).
           case f of Return r \<Rightarrow> call_done argc s t | Proceed \<Rightarrow> t = s)"
proof -
  obtain nc where nc: "nextchar s = Some nc" using assms(3) by (auto simp: scanning_def)
  have one: "yields (long_found argc os longind pr p i rest s) (\<lambda>x.
      yields (case x of (r, t) \<Rightarrow> Some (Return r, t)) (\<lambda>(f, t).
        case f of Return r \<Rightarrow> call_done argc s t | Proceed \<Rightarrow> t = s))" for p i rest
    by (rule yields_mono [OF long_found_yields [OF assms(1,2)]]) auto
  have bad: "call_done argc s
      (s\<lparr>err_out := es, nextchar := Some [], optind := Suc (optind s), optopt := 0\<rparr>)"
    "call_done argc s (s\<lparr>nextchar := Some [], optind := Suc (optind s), optopt := 0\<rparr>)" for es
    using assms(1,2) by (auto simp: call_done_def call_inv_def)
  show ?thesis
    using one bad nc call_inv_argv [OF assms(1)] assms(2)
    by (auto simp: try_long_def Let_def yields_if split: prod.split option.split)
qed

text \<open>\<open>optstring\<close> contains \<open>W;\<close> at the first \<open>W\<close>.\<close>

definition wants_W :: "string \<Rightarrow> bool" where
  "wants_W os \<longleftrightarrow>
     (case my_index os (CHR ''W'') of None \<Rightarrow> False | Some temp \<Rightarrow> char_at temp 1 = CHR '';'')"

lemma my_index_hd: "my_index os c = Some temp \<Longrightarrow> char_at temp 0 = c"
  by (induction os) (auto split: if_splits)

lemma not_wants_W:
  "\<not> wants_W os \<Longrightarrow> my_index os c = Some temp \<Longrightarrow>
     \<not> (char_at temp 0 = CHR ''W'' \<and> char_at temp 1 = CHR '';'')"
  using my_index_hd [of os c temp] by (auto simp: wants_W_def)

lemma bad_option_yields:
  "call_inv argc s \<Longrightarrow> (scanning s \<Longrightarrow> optind s < argc) \<Longrightarrow>
     yields (bad_option pr c s) (\<lambda>(r, t). call_done argc s t)"
  using call_inv_argv [of argc s] by (auto simp: bad_option_def call_done_def)

lemma short_option_yields:
  assumes "call_inv argc s" "optind s < argc" "scanning s" "\<not> wants_W os"
  shows "yields (short_option argc os los longind pr s) (\<lambda>(r, t). call_done argc s t)"
proof -
  obtain c nc where nc: "nextchar s = Some (c # nc)"
    using assms(3) by (cases "the (nextchar s)") (auto simp: scanning_def)
  define s1 where "s1 = s\<lparr>nextchar := Some nc,
      optind := (if nc = [] then optind s + 1 else optind s)\<rparr>"
  have s1: "call_inv argc s1" "scanning s1 \<longrightarrow> optind s1 < argc" "argv s1 = argv s"
    "nc \<noteq> [] \<longrightarrow> optind s1 < argc" "optind s1 \<le> argc"
    using assms(1,2) by (auto simp: s1_def call_inv_def scanning_def)
  have lift: "yields m (\<lambda>(r, t). call_done argc s1 t) \<Longrightarrow> yields m (\<lambda>(r, t). call_done argc s t)"
    for m :: "('a \<times> getopt_state) option"
    by (erule yields_mono) (auto simp: s1(3) elim: call_done_same_argv)
  have bad: "yields (bad_option pr c s1) (\<lambda>(r, t). call_done argc s1 t)"
    using s1 by (intro bad_option_yields) auto
  have opt: "call_done argc s1 (snd (optional_arg c nc s1))"
    using s1 by (auto simp: optional_arg_def call_done_def call_inv_def)
  have req: "yields (required_arg argc os pr c nc s1) (\<lambda>(r, t). call_done argc s1 t)"
    using s1 call_inv_argv [OF s1(1)]
    by (auto simp: required_arg_def call_done_def call_inv_def)
  have plain: "call_done argc s1 s1" using s1 by (simp add: call_done_def)
  have "yields (short_option argc os los longind pr s) (\<lambda>(r, t). call_done argc s1 t)"
  proof (cases "my_index os c")
    case None
    then show ?thesis
      using bad unfolding short_option_def nc Let_def list.case option.case s1_def [symmetric]
      by simp
  next
    case (Some temp)
    then show ?thesis
      using bad opt req plain not_wants_W [OF assms(4) Some]
      unfolding short_option_def nc Let_def list.case option.case s1_def [symmetric]
      by (auto simp: case_prod_beta yields_if)
  qed
  then show ?thesis by (rule lift)
qed

lemma decode_yields:
  assumes "call_inv argc s" "optind s < argc" "scanning s" "\<not> wants_W os"
  shows "yields (decode argc os los longind lo pr s) (\<lambda>(r, t). call_done argc s t)"
proof -
  have short: "yields (short_option argc os los longind pr s) (\<lambda>(r, t). call_done argc s t)"
    by (rule short_option_yields [OF assms])
  have long: "yields (try_long argc os l longind lo pr s) (\<lambda>x.
      yields (case x of (f, t) \<Rightarrow>
        (case f of Return r \<Rightarrow> Some (r, t) | Proceed \<Rightarrow> short_option argc os los longind pr t))
        (\<lambda>(r, t). call_done argc s t))" for l
    by (rule yields_mono [OF try_long_yields [OF assms(1-3)]])
      (use short in \<open>auto split: flow.splits\<close>)
  show ?thesis
    using short long assms(2) call_inv_argv [OF assms(1)]
    by (auto simp: decode_def yields_if split: option.split)
qed

section \<open>The whole call\<close>

text \<open>The \<open>optstring\<close> a call decodes with, and that it asks for \<open>W;\<close> iff the given one does.\<close>

lemma wants_W_tl: "char_at os 0 \<noteq> CHR ''W'' \<Longrightarrow> wants_W (tl os) = wants_W os"
  by (cases os) (auto simp: wants_W_def)

lemma first_call_inv:
  assumes "getopt_inv argc s" "first_call env os s = (os1, s1)"
  shows "call_inv argc s1 \<and> argv s1 = argv s \<and> (scanning s1 \<longrightarrow> optind s1 < argc)
    \<and> wants_W os1 = wants_W os"
  using assms
  by (auto simp: first_call_def getopt_initialize_def getopt_inv_def call_inv_def Let_def
      scanning_def wants_W_tl split: if_splits)

lemma call_done_inv: "call_done argc s t \<Longrightarrow> getopt_inv argc t"
  by (auto simp: call_done_def intro: call_inv_getopt_inv)

lemma getopt_inv_optarg [simp]: "getopt_inv argc (s\<lparr>optarg := oa\<rparr>) = getopt_inv argc s"
  by (simp add: getopt_inv_def)

lemma getopt_inv_argv: "getopt_inv argc s \<Longrightarrow> argc = length (argv s) \<and> 1 \<le> argc"
  by (simp add: getopt_inv_def)

lemma getopt_internal_yields:
  assumes "getopt_inv argc s" "\<not> wants_W os"
  shows "yields (getopt_internal env argc os los longind lo s)
    (\<lambda>(r, t). getopt_inv argc t \<and> permuted s t)"
proof -
  obtain os1 s1 where fc: "first_call env os (s\<lparr>optarg := None\<rparr>) = (os1, s1)" by fastforce
  have s1: "call_inv argc s1" "argv s1 = argv s" "scanning s1 \<longrightarrow> optind s1 < argc" "\<not> wants_W os1"
    using first_call_inv [OF _ fc, of argc] assms by simp_all
  have dec: "yields (decode argc os1 los longind lo pr t) (\<lambda>(r, u). getopt_inv argc u \<and> permuted s u)"
    if "call_inv argc t" "optind t < argc" "scanning t" "permuted s t" for t pr
    using that s1(4)
    by (intro yields_mono [OF decode_yields])
      (auto simp: permuted_def call_done_def intro: call_done_inv)
  have adv: "yields (advance argc (los \<noteq> None) s1) (\<lambda>x.
      yields (case x of (f, t) \<Rightarrow>
        (case f of Return r \<Rightarrow> Some (r, t) | Proceed \<Rightarrow> decode argc os1 los longind lo pr t))
        (\<lambda>(r, t). getopt_inv argc t \<and> permuted s t))" if "\<not> scanning s1" for pr
    by (rule yields_mono [OF advance_yields [OF s1(1) that]])
      (use dec s1(2) in \<open>auto simp: permuted_def split: flow.splits\<close>)
  have "nextchar s1 = None \<or> nextchar s1 = Some [] \<longleftrightarrow> \<not> scanning s1"
    by (auto simp: scanning_def)
  then show ?thesis
    using adv dec s1 getopt_inv_argv [OF assms(1)]
    by (auto simp: getopt_internal_def Let_def fc yields_if)
qed

end
