(* ===== verification/Getopt_Refine.thy ===== *)
theory Getopt_Refine
  imports Getopt_Reference Getopt_Safety
begin

text \<open>
  The scanner with short options in its default mode implements the reference parser: the
  layout of \<open>argv\<close> during a scan (options done, operands skipped, options done since, the
  rest) gives the configuration of the reference machine, and every call makes the machine's
  step.  The interpretation of \<open>option_scanner\<close> at the end carries this to whole scans.
\<close>

section \<open>The layout of argv\<close>

definition laid_out ::
  "getopt_state \<Rightarrow> string list \<Rightarrow> string list \<Rightarrow> string list \<Rightarrow> string list \<Rightarrow> bool" where
  "laid_out s P N Q R \<longleftrightarrow> argv s = P @ N @ Q @ R \<and> first_nonopt s = length P
     \<and> last_nonopt s = length P + length N \<and> optind s = length P + length N + length Q"

definition config_in_call :: "getopt_state \<Rightarrow> config" where
  "config_in_call s =
     (take (first_nonopt s) (argv s) @ slice (last_nonopt s) (optind s) (argv s),
      slice (first_nonopt s) (last_nonopt s) (argv s),
      (case nextchar s of None \<Rightarrow> [] | Some cs \<Rightarrow> cs),
      drop (optind s) (argv s))"

lemma slice_in_append:
  "slice (length p) (length p + length a) (p @ a @ s) = a"
  "slice (length p + length n) (length p + length n + length a) (p @ n @ a @ s) = a"
  by (simp_all add: slice_def)

lemma laid_out_config:
  "laid_out s P N Q R \<Longrightarrow>
     config_in_call s = (P @ Q, N, (case nextchar s of None \<Rightarrow> [] | Some cs \<Rightarrow> cs), R)"
  by (simp add: laid_out_def config_in_call_def slice_in_append)

lemma ordered_laid_out:
  assumes "nonopts_ordered s"
  shows "laid_out s (take (first_nonopt s) (argv s)) (slice (first_nonopt s) (last_nonopt s) (argv s))
           (slice (last_nonopt s) (optind s) (argv s)) (drop (optind s) (argv s))"
  using assms slice_split [of "first_nonopt s" "last_nonopt s" "optind s" "argv s"]
  by (simp add: laid_out_def nonopts_ordered_def)

lemma laid_out_ordered: "laid_out s P N Q R \<Longrightarrow> nonopts_ordered s"
  by (simp add: laid_out_def nonopts_ordered_def)

lemma laid_out_update [simp]:
  "laid_out (t\<lparr>nextchar := nc\<rparr>) P N Q R = laid_out t P N Q R"
  "laid_out (t\<lparr>optarg := oa\<rparr>) P N Q R = laid_out t P N Q R"
  "laid_out (t\<lparr>optopt := i\<rparr>) P N Q R = laid_out t P N Q R"
  "laid_out (t\<lparr>err_out := es\<rparr>) P N Q R = laid_out t P N Q R"
  by (simp_all add: laid_out_def)

text \<open>An element, and an element with its argument, are done.\<close>

lemma laid_out_done:
  "laid_out s P N Q (a # R) \<Longrightarrow> laid_out (s\<lparr>optind := Suc (optind s)\<rparr>) P N (Q @ [a]) R"
  by (simp add: laid_out_def)

section \<open>Advancing\<close>

lemma skip_nonoptions_takeWhile:
  "argc = length args \<Longrightarrow> i \<le> argc \<Longrightarrow>
   skip_nonoptions argc args i = Some (i + length (takeWhile nonoption_p (drop i args)))"
proof (induction argc args i rule: skip_nonoptions.induct)
  case (1 argc args i)
  show ?case
  proof (cases "i < argc")
    case True
    then have d: "drop i args = args ! i # drop (Suc i) args"
      using 1 by (simp add: Cons_nth_drop_Suc)
    show ?thesis
      using 1 True by (subst skip_nonoptions.simps) (simp add: d arg_at_def)
  next
    case False
    then show ?thesis using 1 by (subst skip_nonoptions.simps) simp
  qed
qed

text \<open>The permuting block, with the fields it writes.\<close>

lemma permute_nonopts_laid_out:
  assumes "laid_out s P N Q R" "ordering s = PERMUTE" "argc = length (argv s)"
  shows "\<exists>t. permute_nonopts argc s = Some t
    \<and> laid_out t (P @ Q) (N @ takeWhile nonoption_p R) [] (dropWhile nonoption_p R)
    \<and> nextchar t = nextchar s \<and> optarg t = optarg s \<and> ordering t = ordering s
    \<and> getopt_initialized t = getopt_initialized s"
proof -
  have skip: "skip_nonoptions argc (X @ R) (length X)
      = Some (length X + length (takeWhile nonoption_p R))" if "argc = length (X @ R)" for X
    using that by (simp add: skip_nonoptions_takeWhile)
  have lay: "laid_out (s\<lparr>argv := P' @ N' @ R, first_nonopt := length P',
        optind := length P' + length N' + length (takeWhile nonoption_p R),
        last_nonopt := length P' + length N' + length (takeWhile nonoption_p R)\<rparr>)
      P' (N' @ takeWhile nonoption_p R) [] (dropWhile nonoption_p R)" for P' N'
    by (simp add: laid_out_def)
  consider (exch) "N \<noteq> []" "Q \<noteq> []" | (first) "N = []" "Q \<noteq> []" | (none) "Q = []" by auto
  then show ?thesis
  proof cases
    case exch
    have "exchange s = Some (s\<lparr>argv := (P @ Q) @ N @ R, first_nonopt := length P + length Q,
        last_nonopt := length P + length N + length Q\<rparr>)"
      using exchange_eq [OF laid_out_ordered [OF assms(1)]] assms(1)
      by (simp add: laid_out_def slice_in_append)
    moreover have "skip_nonoptions argc (P @ Q @ N @ R) (length P + length N + length Q)
        = Some (length P + length Q + length N + length (takeWhile nonoption_p R))"
      using skip [of "P @ Q @ N"] assms by (simp add: laid_out_def add.commute add.left_commute)
    ultimately show ?thesis
      using exch assms lay [of "P @ Q" N]
      by (simp add: permute_nonopts_def laid_out_def)
  next
    case first
    then show ?thesis
      using assms lay [of "P @ Q" "[]"] skip [of "P @ Q"]
      by (simp add: permute_nonopts_def laid_out_def)
  next
    case none
    then show ?thesis
      using assms lay [of P N] skip [of "P @ N"]
      by (simp add: permute_nonopts_def laid_out_def)
  qed
qed

lemma clip_laid_out: "laid_out s P N Q R \<Longrightarrow> clip_nonopts s = s"
  by (simp add: clip_nonopts_def laid_out_def)

text \<open>After \<open>--\<close> everything is an operand.\<close>

lemma skip_dashdash_laid_out:
  assumes "laid_out s P N [] (''--'' # R)" "argc = length (argv s)"
  shows "\<exists>t. skip_dashdash argc s = Some t \<and> argv t = (P @ [''--'']) @ (N @ R)
    \<and> first_nonopt t = length (P @ [''--'']) \<and> last_nonopt t = argc \<and> optind t = argc
    \<and> optarg t = optarg s"
proof (cases "N = []")
  case True
  then show ?thesis using assms by (simp add: skip_dashdash_def laid_out_def)
next
  case False
  let ?s1 = "s\<lparr>optind := Suc (optind s)\<rparr>"
  have l: "laid_out ?s1 P N [''--''] R" using laid_out_done [OF assms(1)] by simp
  have e: "exchange ?s1 = Some (?s1\<lparr>argv := (P @ [''--'']) @ N @ R,
      first_nonopt := length P + 1, last_nonopt := length P + length N + 1\<rparr>)"
    using exchange_eq [OF laid_out_ordered [OF l]] l assms(1)
    by (simp add: laid_out_def slice_def)
  show ?thesis
    using False assms e by (simp add: skip_dashdash_def laid_out_def nth_append arg_at_def)
qed

text \<open>The three ways the advancing block ends.\<close>

lemma advance_end:
  assumes "laid_out s P N Q R" "ordering s = PERMUTE" "argc = length (argv s)"
    and "dropWhile nonoption_p R = []"
  shows "\<exists>t. advance argc False s = Some (Return (- 1), t) \<and> optarg t = optarg s
    \<and> argv t = (P @ Q) @ (N @ R) \<and> optind t = length (P @ Q)"
proof -
  have tw: "takeWhile nonoption_p R = R"
    using assms(4) by (simp add: takeWhile_eq_all_conv)
  obtain t where t: "permute_nonopts argc s = Some t" "laid_out t (P @ Q) (N @ R) [] []"
      "optarg t = optarg s"
    using permute_nonopts_laid_out [OF assms(1-3)] assms(4) tw by auto
  have o: "optind t = argc" using t(2) assms by (auto simp: laid_out_def)
  have "skip_dashdash argc t = Some t" using o by (simp add: skip_dashdash_def)
  then show ?thesis
    using t o by (auto simp: advance_def clip_laid_out [OF assms(1)] laid_out_def)
qed

lemma advance_dashdash:
  assumes "laid_out s P N Q R" "ordering s = PERMUTE" "argc = length (argv s)"
    and "dropWhile nonoption_p R = ''--'' # rest"
  shows "\<exists>t. advance argc False s = Some (Return (- 1), t) \<and> optarg t = optarg s
    \<and> argv t = (P @ Q @ [''--'']) @ (N @ takeWhile nonoption_p R @ rest)
    \<and> optind t = length (P @ Q @ [''--''])"
proof -
  obtain t where t: "permute_nonopts argc s = Some t" "optarg t = optarg s"
      "laid_out t (P @ Q) (N @ takeWhile nonoption_p R) [] (''--'' # rest)"
    using permute_nonopts_laid_out [OF assms(1-3)] assms(4) by auto
  have l: "length (takeWhile nonoption_p R) + length (''--'' # rest) = length R"
    by (metis assms(4) length_append takeWhile_dropWhile_id)
  have "argc = length (argv t)"
    using t(3) assms(1,3) l by (auto simp: laid_out_def)
  then obtain u where u: "skip_dashdash argc t = Some u" "optarg u = optarg s"
      "argv u = ((P @ Q) @ [''--'']) @ ((N @ takeWhile nonoption_p R) @ rest)"
      "first_nonopt u = length ((P @ Q) @ [''--''])" "last_nonopt u = argc" "optind u = argc"
    using skip_dashdash_laid_out [OF t(3)] t(2) by auto
  show ?thesis
    using t(1) u by (auto simp: advance_def clip_laid_out [OF assms(1)])
qed

lemma advance_option:
  assumes "laid_out s P N Q R" "ordering s = PERMUTE" "argc = length (argv s)"
    and "dropWhile nonoption_p R = a # rest" "a \<noteq> ''--''"
  shows "\<exists>t. advance argc False s = Some (Proceed, t)
    \<and> laid_out t (P @ Q) (N @ takeWhile nonoption_p R) [] (a # rest)
    \<and> nextchar t = Some (tl a) \<and> optarg t = optarg s \<and> ordering t = ordering s
    \<and> getopt_initialized t = getopt_initialized s"
proof -
  obtain t where t: "permute_nonopts argc s = Some t" "optarg t = optarg s"
      "laid_out t (P @ Q) (N @ takeWhile nonoption_p R) [] (a # rest)"
      "ordering t = ordering s" "getopt_initialized t = getopt_initialized s"
    using permute_nonopts_laid_out [OF assms(1-3)] assms(4) by auto
  have l: "length (takeWhile nonoption_p R) + length (a # rest) = length R"
    by (metis assms(4) length_append takeWhile_dropWhile_id)
  have o: "optind t < argc" "arg_at (argv t) (optind t) = Some a"
    using t(3) assms(1,3) l by (auto simp: laid_out_def nth_append arg_at_def)
  then have "skip_dashdash argc t = Some t" using assms(5) by (simp add: skip_dashdash_def)
  then show ?thesis
    using t o dropWhile_hd [OF assms(4)]
    by (simp add: advance_def clip_laid_out [OF assms(1)] drop_Suc)
qed

section \<open>Decoding\<close>

text \<open>The strings this refinement covers.\<close>

definition plain_optstring :: "string \<Rightarrow> bool" where
  "plain_optstring os \<longleftrightarrow> char_at os 0 \<noteq> CHR ''-'' \<and> char_at os 0 \<noteq> CHR ''+''
     \<and> \<not> wants_W os \<and> kind_of os (CHR 0xFF) = No_option"

lemma not_W_kind: "\<not> wants_W os \<Longrightarrow> kind_of os c \<noteq> W_long"
  by (auto simp: kind_of_def wants_W_def split: option.splits if_splits)

text \<open>The outcome of a decoding step, given the layout it leaves.\<close>

definition step_outcome :: "nat \<Rightarrow> getopt_state \<Rightarrow> event \<Rightarrow> config \<Rightarrow> getopt_state \<Rightarrow> bool" where
  "step_outcome argc s e cfg t \<longleftrightarrow>
     optarg t = event_arg e \<and> config_in_call t = cfg \<and> nonopts_ordered t
     \<and> ordering t = ordering s \<and> getopt_initialized t = getopt_initialized s
     \<and> argv t = argv s \<and> (scanning t \<longrightarrow> optind t < argc) \<and> optind s \<le> optind t"

lemma step_outcome_between:
  assumes "laid_out t P N Q R" "nextchar t = None \<or> nextchar t = Some []" "optarg t = event_arg e"
    "ordering t = ordering s" "getopt_initialized t = getopt_initialized s" "argv t = argv s"
    "optind s \<le> optind t"
  shows "step_outcome argc s e (P @ Q, N, [], R) t"
  using assms laid_out_config [OF assms(1)] laid_out_ordered [OF assms(1)]
  by (auto simp: step_outcome_def scanning_def)

lemma step_outcome_within:
  assumes "laid_out t P N Q (a # R)" "nextchar t = Some cs" "optarg t = event_arg e"
    "ordering t = ordering s" "getopt_initialized t = getopt_initialized s" "argv t = argv s"
    "argc = length (argv s)" "optind s \<le> optind t"
  shows "step_outcome argc s e (P @ Q, N, cs, a # R) t"
proof -
  have "length (argv t) = argc" using assms(6,7) by simp
  then have "optind t < argc" using assms(1) by (auto simp: laid_out_def)
  then show ?thesis
    using assms laid_out_config [OF assms(1)] laid_out_ordered [OF assms(1)]
    by (simp add: step_outcome_def)
qed

lemma bad_option_eq:
  "argv s \<noteq> [] \<Longrightarrow> \<exists>es. bad_option pr c s =
     Some (char_int (CHR ''?''), s\<lparr>err_out := es, optopt := char_int c\<rparr>)"
  by (auto simp: bad_option_def intro: exI [of _ "err_out s"])

lemma kind_of_cases:
  "kind_of os c = No_option \<Longrightarrow> my_index os c = None \<or> c = CHR '':''"
  "kind_of os c = Flag_option \<Longrightarrow> \<exists>temp. my_index os c = Some temp \<and> c \<noteq> CHR '':''
     \<and> char_at temp 1 \<noteq> CHR '':'' \<and> \<not> (c = CHR ''W'' \<and> char_at temp 1 = CHR '';'')"
  "kind_of os c = Optional_option \<Longrightarrow> \<exists>temp. my_index os c = Some temp \<and> c \<noteq> CHR '':''
     \<and> char_at temp 1 = CHR '':'' \<and> char_at temp 2 = CHR '':''"
  "kind_of os c = Required_option \<Longrightarrow> \<exists>temp. my_index os c = Some temp \<and> c \<noteq> CHR '':''
     \<and> char_at temp 1 = CHR '':'' \<and> char_at temp 2 \<noteq> CHR '':''"
  by (auto simp: kind_of_def split: option.splits if_splits)

lemma short_option_refines:
  assumes lay: "laid_out s P N Q (a # rest)" and nc: "nextchar s = Some (c # cs)"
    and argc: "argc = length (argv s)" and oa: "optarg s = None" and W: "\<not> wants_W os"
    and step: "next_char os c cs (P @ Q) N a rest = (e, cfg)"
  shows "\<exists>t. short_option argc os None longind pr s = Some (event_code os e, t)
    \<and> step_outcome argc s e cfg t"
proof -
  define s1 where "s1 = s\<lparr>nextchar := Some cs,
      optind := (if cs = [] then optind s + 1 else optind s)\<rparr>"
  have ne: "argv s1 \<noteq> []" using lay by (simp add: s1_def laid_out_def)
  have fin: "laid_out s1 P N (Q @ [a]) rest" if "cs = []"
    using lay that by (simp add: s1_def laid_out_def)
  have mid: "laid_out s1 P N Q (a # rest)" if "cs \<noteq> []"
    using lay that by (simp add: s1_def laid_out_def)
  have same: "ordering s1 = ordering s" "getopt_initialized s1 = getopt_initialized s"
    "argv s1 = argv s" "optarg s1 = None" "nextchar s1 = Some cs" "optind s \<le> optind s1"
    using oa by (simp_all add: s1_def)
  have flag: "step_outcome argc s e' (if cs = [] then (P @ (Q @ [a]), N, [], rest)
      else (P @ Q, N, cs, a # rest)) (s1\<lparr>err_out := es, optopt := i\<rparr>)"
    "step_outcome argc s e' (if cs = [] then (P @ (Q @ [a]), N, [], rest)
      else (P @ Q, N, cs, a # rest)) s1"
    if "event_arg e' = None" for e' es i
    using that same fin mid argc by (auto intro!: step_outcome_between step_outcome_within)
  show ?thesis
  proof (cases "kind_of os c")
    case No_option
    have e: "e = Bad c" "cfg = (if cs = [] then (P @ (Q @ [a]), N, [], rest) else (P @ Q, N, cs, a # rest))"
      using step No_option by (auto simp: next_char_def)
    obtain es where "short_option argc os None longind pr s =
        Some (char_int (CHR ''?''), s1\<lparr>err_out := es, optopt := char_int c\<rparr>)"
      using bad_option_eq [OF ne] kind_of_cases(1) [OF No_option]
      unfolding short_option_def nc Let_def list.case option.case s1_def [symmetric]
      by (cases "my_index os c") auto
    then show ?thesis
      using flag(1) [where e' = "Bad c"]
      by (simp add: e event_code_def event_arg_def)
  next
    case Flag_option
    have e: "e = Opt c None" "cfg = (if cs = [] then (P @ (Q @ [a]), N, [], rest) else (P @ Q, N, cs, a # rest))"
      using step Flag_option by (auto simp: next_char_def)
    obtain temp where "my_index os c = Some temp" "c \<noteq> CHR '':''" "char_at temp 1 \<noteq> CHR '':''"
      "\<not> (c = CHR ''W'' \<and> char_at temp 1 = CHR '';'')"
      using kind_of_cases(2) [OF Flag_option] by blast
    then have "short_option argc os None longind pr s = Some (char_int c, s1)"
      using my_index_hd [of os c temp]
      unfolding short_option_def nc Let_def list.case option.case s1_def [symmetric] by auto
    then show ?thesis
      using flag(2) [where e' = "Opt c None"] by (simp add: e event_code_def event_arg_def)
  next
    case Optional_option
    obtain temp where "my_index os c = Some temp" "c \<noteq> CHR '':''" "char_at temp 1 = CHR '':''"
      "char_at temp 2 = CHR '':''"
      using kind_of_cases(3) [OF Optional_option] by blast
    then have eq: "short_option argc os None longind pr s = Some (optional_arg c cs s1)"
      unfolding short_option_def nc Let_def list.case option.case s1_def [symmetric] by auto
    show ?thesis
      using Optional_option step lay fin same unfolding eq
      by (auto simp: next_char_def optional_arg_def event_code_def event_arg_def s1_def laid_out_def
          intro!: step_outcome_between [where Q = "Q @ [a]" and P = P, simplified]
          split: if_splits)
  next
    case Required_option
    obtain temp where "my_index os c = Some temp" "c \<noteq> CHR '':''" "char_at temp 1 = CHR '':''"
      "char_at temp 2 \<noteq> CHR '':''"
      using kind_of_cases(4) [OF Required_option] by blast
    then have eq: "short_option argc os None longind pr s = required_arg argc os pr c cs s1"
      unfolding short_option_def nc Let_def list.case option.case s1_def [symmetric] by auto
    show ?thesis
    proof (cases "cs = [] \<and> rest \<noteq> []")
      case True
      then obtain b bs where rest: "rest = b # bs" by (cases rest) auto
      have "step_outcome argc s (Opt c (Some b)) (P @ (Q @ [a, b]), N, [], bs)
          (s1\<lparr>optarg := Some b, optind := Suc (optind s1), nextchar := None\<rparr>)"
        using fin True same by (intro step_outcome_between)
          (auto simp: laid_out_def rest event_arg_def)
      moreover have "required_arg argc os pr c cs s1
          = Some (char_int c, s1\<lparr>optarg := Some b, optind := Suc (optind s1), nextchar := None\<rparr>)"
        using fin True argc same by (simp add: required_arg_def laid_out_def rest nth_append)
      ultimately show ?thesis
        using step Required_option True unfolding eq
        by (auto simp: next_char_def rest event_code_def)
    next
      case False
      have missing: "step_outcome argc s (Missing c) (P @ (Q @ [a]), N, [], [])
          (s1\<lparr>err_out := es, optopt := i, nextchar := None\<rparr>)"
        "step_outcome argc s (Missing c) (P @ (Q @ [a]), N, [], [])
          (s1\<lparr>optopt := i, nextchar := None\<rparr>)" if "cs = []" "rest = []" for es i
        using fin that same by (auto intro!: step_outcome_between simp: event_arg_def)
      have given: "step_outcome argc s (Opt c (Some cs)) (P @ (Q @ [a]), N, [], rest)
          (s1\<lparr>optarg := Some cs, optind := Suc (optind s1), nextchar := None\<rparr>)" if "cs \<noteq> []"
        using mid that same by (intro step_outcome_between) (auto simp: laid_out_def event_arg_def)
      have o: "cs = [] \<Longrightarrow> rest = [] \<Longrightarrow> optind s1 = argc"
        using fin argc same by (auto simp: laid_out_def)
      show ?thesis
        using step Required_option False missing given o ne unfolding eq
        by (cases cs; cases rest) (auto simp: next_char_def required_arg_def event_code_def)
    qed
  next
    case W_long
    then show ?thesis using not_W_kind [OF W] by blast
  qed
qed

section \<open>Whole calls\<close>

text \<open>The scanner as a step function, and what it is ready for between two calls.\<close>

definition getopt_step ::
  "nat \<Rightarrow> string \<Rightarrow> getopt_state \<Rightarrow> (int \<times> string option \<times> getopt_state) option" where
  "getopt_step argc os s =
     do { (r, t) \<leftarrow> getopt None argc os s; Some (r, optarg t, t) }"

definition initialised_view :: "getopt_state \<Rightarrow> getopt_state" where
  "initialised_view s = snd (first_call None [] (s\<lparr>optarg := None\<rparr>))"

definition getopt_config :: "getopt_state \<Rightarrow> config" where
  "getopt_config s = config_in_call (initialised_view s)"

definition getopt_ready :: "nat \<Rightarrow> string \<Rightarrow> getopt_state \<Rightarrow> bool" where
  "getopt_ready argc os s \<longleftrightarrow>
     plain_optstring os \<and> argc = length (argv s) \<and> 1 \<le> argc
     \<and> nonopts_ordered (initialised_view s) \<and> ordering (initialised_view s) = PERMUTE
     \<and> (scanning (initialised_view s) \<longrightarrow> optind (initialised_view s) < argc)"

definition getopt_finished :: "getopt_state \<Rightarrow> string list \<Rightarrow> string list \<Rightarrow> bool" where
  "getopt_finished s opts operands \<longleftrightarrow> argv s = opts @ operands \<and> optind s = length opts"

lemma first_call_plain:
  "plain_optstring os \<Longrightarrow>
     first_call None os (s\<lparr>optarg := None\<rparr>) = (os, initialised_view s)"
  by (auto simp: first_call_def initialised_view_def getopt_initialize_def plain_optstring_def Let_def)

lemma initialised_view_keeps [simp]:
  "argv (initialised_view s) = argv s" "optarg (initialised_view s) = None"
  "getopt_initialized (initialised_view s)" "optind (initialised_view s) \<noteq> 0"
  by (auto simp: first_call_def initialised_view_def getopt_initialize_def Let_def)

text \<open>A call on the initialised view of the state is the call itself.\<close>

lemma decode_short [simp]:
  "decode argc os None longind lo pr s = short_option argc os None longind pr s"
  by (simp add: decode_def)

lemma getopt_unfold:
  assumes "plain_optstring os" "1 \<le> argc"
  shows "getopt None argc os s =
    (let pr = (if char_at os 0 = CHR '':'' then False else opterr s \<noteq> 0) in
     do {
       (f, t) \<leftarrow> (if \<not> scanning (initialised_view s)
                   then advance argc False (initialised_view s)
                   else Some (Proceed, initialised_view s));
       case f of Return r \<Rightarrow> Some (r, t)
       | Proceed \<Rightarrow> short_option argc os None False pr t
     })"
proof -
  have sc: "nextchar (initialised_view s) = None \<or> nextchar (initialised_view s) = Some []
      \<longleftrightarrow> \<not> scanning (initialised_view s)"
    by (auto simp: scanning_def)
  show ?thesis
    using assms(2)
    by (simp add: getopt_def getopt_internal_def Let_def first_call_plain [OF assms(1)] sc
        cong: flow.case_cong)
qed

lemma initialised_view_id:
  "getopt_initialized t \<Longrightarrow> optind t \<noteq> 0 \<Longrightarrow> initialised_view t = t\<lparr>optarg := None\<rparr>"
  by (simp add: initialised_view_def first_call_def)

lemma laid_out_view:
  assumes "getopt_ready argc os s"
  obtains P N Q R where "laid_out (initialised_view s) P N Q R"
    "getopt_config s = (P @ Q, N, (case nextchar (initialised_view s) of None \<Rightarrow> [] | Some cs \<Rightarrow> cs), R)"
    "scanning (initialised_view s) \<Longrightarrow> R \<noteq> []"
proof -
  let ?v = "initialised_view s"
  have o: "nonopts_ordered ?v" using assms by (simp add: getopt_ready_def)
  note lay = ordered_laid_out [OF o]
  have "scanning ?v \<Longrightarrow> drop (optind ?v) (argv ?v) \<noteq> []"
    using assms by (simp add: getopt_ready_def)
  then show thesis
    using that [OF lay] laid_out_config [OF lay] by (simp add: getopt_config_def)
qed

lemma step_outcome_ready:
  assumes "step_outcome argc v e cfg t" "ordering v = PERMUTE" "getopt_initialized v"
    "length (argv v) = argc" "plain_optstring os" "1 \<le> argc" "optind t \<noteq> 0"
  shows "getopt_ready argc os t \<and> getopt_config t = cfg \<and> optarg t = event_arg e"
proof -
  have "initialised_view t = t\<lparr>optarg := None\<rparr>"
    using assms by (intro initialised_view_id) (auto simp: step_outcome_def)
  then show ?thesis
    using assms by (auto simp: getopt_ready_def getopt_config_def step_outcome_def
        nonopts_ordered_def config_in_call_def)
qed

text \<open>The step law and the end law of the contract.\<close>

lemma event_code_not_eof:
  assumes "plain_optstring os" "next_char os c cs D N a rest = (e, cfg)"
  shows "event_code os e \<noteq> - 1"
proof -
  have ci: "c = CHR 0xFF" if "char_int c = - 1" for c
  proof -
    have "int (of_char c) = int 255"
      using that by (simp add: char_int_def Let_def split: if_splits)
    then have "(of_char c :: nat) = 255" by linarith
    then have "c = char_of (255 :: nat)" by (metis char_of_char)
    then show ?thesis by (simp add: char_of_def bit_0)
  qed
  have "event_code os (Bad c) \<noteq> - 1" "event_code os (Missing c) \<noteq> - 1" for c
    by (simp_all add: event_code_def missing_arg_code_def char_int_def)
  moreover have "kind_of os c \<noteq> No_option \<Longrightarrow> event_code os (Opt c x) \<noteq> - 1" for x
    using assms(1) ci [of c] by (auto simp: event_code_def plain_optstring_def)
  ultimately show ?thesis
    using assms(2) by (auto simp: next_char_def split: opt_kind.splits if_splits list.splits)
qed

lemma laid_out_nonzero:
  assumes "laid_out v P N Q R" "laid_out t (P @ Q) (N @ K) [] T" "optind v \<noteq> 0"
  shows "optind t \<noteq> 0"
  using assms by (auto simp: laid_out_def)

lemma getopt_step_event:
  assumes "getopt_ready argc os s" "next_event os (getopt_config s) = (Some e, cfg)"
  shows "(\<exists>t. getopt_step argc os s = Some (event_code os e, event_arg e, t)
           \<and> getopt_ready argc os t \<and> getopt_config t = cfg) \<and> event_code os e \<noteq> - 1"
proof -
  let ?v = "initialised_view s"
  define pr where "pr = (if char_at os 0 = CHR '':'' then False else opterr s \<noteq> 0)"
  obtain P N Q R where v: "laid_out ?v P N Q R" "scanning ?v \<Longrightarrow> R \<noteq> []"
    and cfg: "getopt_config s = (P @ Q, N, (case nextchar ?v of None \<Rightarrow> [] | Some cs \<Rightarrow> cs), R)"
    using laid_out_view [OF assms(1)] by metis
  have r: "plain_optstring os" "argc = length (argv ?v)" "1 \<le> argc" "ordering ?v = PERMUTE"
    using assms(1) by (auto simp: getopt_ready_def)
  obtain u P' N' Q' a rest c cs where u:
      "(if \<not> scanning ?v then advance argc False ?v else Some (Proceed, ?v)) = Some (Proceed, u)"
      "laid_out u P' N' Q' (a # rest)" "nextchar u = Some (c # cs)" "optarg u = None"
      "ordering u = PERMUTE" "getopt_initialized u" "length (argv u) = argc"
      "next_char os c cs (P' @ Q') N' a rest = (e, cfg)" "optind u \<noteq> 0"
  proof (cases "scanning ?v")
    case True
    then obtain c cs a rest where "nextchar ?v = Some (c # cs)" "R = a # rest"
      using v(2) by (cases "the (nextchar ?v)"; cases R) (auto simp: scanning_def)
    then show thesis
      using that [of ?v P N Q a rest c cs] v cfg r assms(2) True
      by (auto split: prod.splits)
  next
    case False
    then have cfg': "getopt_config s = (P @ Q, N, [], R)"
      using cfg by (auto simp: scanning_def)
    obtain a rest where dw: "dropWhile nonoption_p R = a # rest"
      using assms(2) by (cases "dropWhile nonoption_p R") (auto simp: cfg')
    obtain c cs where a: "a = CHR ''-'' # c # cs"
      using dropWhile_hd [OF dw] option_element_chars by blast
    have ne: "a \<noteq> ''--''" and nc: "next_char os c cs (P @ Q) (N @ takeWhile nonoption_p R) a rest = (e, cfg)"
      using assms(2) by (auto simp: cfg' dw a Let_def split: if_splits prod.splits)
    obtain t where t: "advance argc False ?v = Some (Proceed, t)"
        "laid_out t (P @ Q) (N @ takeWhile nonoption_p R) [] (a # rest)"
        "nextchar t = Some (tl a)" "optarg t = None" "ordering t = PERMUTE" "getopt_initialized t"
      using advance_option [OF v(1) r(4) r(2) dw ne] r(4) by auto
    have "length (argv t) = argc"
      using t(2) v(1) r(2) arg_cong [OF takeWhile_dropWhile_id [of nonoption_p R], of length]
      by (simp add: laid_out_def dw del: takeWhile_dropWhile_id)
    then show thesis
      using that [of t "P @ Q" "N @ takeWhile nonoption_p R" "[]" a rest c cs] t nc False a
        laid_out_nonzero [OF v(1) t(2)]
      by simp
  qed
  have W: "\<not> wants_W os" using r(1) by (simp add: plain_optstring_def)
  obtain t where t: "short_option argc os None False pr u = Some (event_code os e, t)"
      "step_outcome argc u e cfg t"
    using short_option_refines [OF u(2,3) u(7) [symmetric] u(4) W u(8)] by blast
  have "optind t \<noteq> 0"
    using t(2) u(9) by (simp add: step_outcome_def)
  then have "getopt_ready argc os t \<and> getopt_config t = cfg \<and> optarg t = event_arg e"
    using step_outcome_ready [OF t(2) u(5,6,7) r(1,3)] by blast
  then show ?thesis
    using getopt_unfold [OF r(1,3), of s] u(1) t(1) event_code_not_eof [OF r(1) u(8)]
    by (simp add: getopt_step_def pr_def Let_def)
qed

lemma getopt_step_end:
  assumes "getopt_ready argc os s"
    and "next_event os (getopt_config s) = (None, (opts, operands, cs, args))"
  shows "\<exists>t. getopt_step argc os s = Some (- 1, None, t) \<and> getopt_finished t opts operands"
proof -
  let ?v = "initialised_view s"
  obtain P N Q R where v: "laid_out ?v P N Q R" "scanning ?v \<Longrightarrow> R \<noteq> []"
    and cfg: "getopt_config s = (P @ Q, N, (case nextchar ?v of None \<Rightarrow> [] | Some cs \<Rightarrow> cs), R)"
    using laid_out_view [OF assms(1)] by metis
  have r: "plain_optstring os" "argc = length (argv ?v)" "1 \<le> argc" "ordering ?v = PERMUTE"
    using assms(1) by (auto simp: getopt_ready_def)
  have nsc: "\<not> scanning ?v"
  proof
    assume "scanning ?v"
    then obtain c cs a rest where "nextchar ?v = Some (c # cs)" "R = a # rest"
      using v(2) by (cases "the (nextchar ?v)"; cases R) (auto simp: scanning_def)
    then show False using assms(2) by (simp add: cfg split: prod.splits)
  qed
  then have cfg': "getopt_config s = (P @ Q, N, [], R)"
    using cfg by (auto simp: scanning_def)
  have "\<exists>t. advance argc False ?v = Some (Return (- 1), t) \<and> optarg t = None
      \<and> argv t = opts @ operands \<and> optind t = length opts"
  proof (cases "dropWhile nonoption_p R")
    case Nil
    have tw: "takeWhile nonoption_p R = R" using Nil by (simp add: takeWhile_eq_all_conv)
    have "opts = P @ Q" "operands = N @ R"
      using assms(2) by (simp_all add: cfg' Nil tw)
    then show ?thesis
      using advance_end [OF v(1) r(4,2) Nil] by auto
  next
    case (Cons a rest)
    obtain c cs where a: "a = CHR ''-'' # c # cs"
      using dropWhile_hd [OF Cons] option_element_chars by blast
    have dd: "a = ''--''" "opts = (P @ Q) @ [''--'']" "operands = (N @ takeWhile nonoption_p R) @ rest"
      using assms(2) by (auto simp: cfg' Cons a Let_def split: if_splits prod.splits)
    have "dropWhile nonoption_p R = ''--'' # rest" using Cons dd(1) by simp
    from advance_dashdash [OF v(1) r(4,2) this] show ?thesis by (simp add: dd)
  qed
  then show ?thesis
    using getopt_unfold [OF r(1,3), of s] nsc
    by (auto simp: getopt_step_def getopt_finished_def Let_def)
qed

lemma getopt_config_wf: "getopt_ready argc os s \<Longrightarrow> wf_config (getopt_config s)"
  by (auto simp: wf_config_def scanning_def elim!: laid_out_view [of argc os s]
      split: option.splits)

interpretation gs: option_scanner "getopt_step argc os" getopt_config "getopt_ready argc os"
  getopt_finished os
  for argc :: nat and os :: string
proof unfold_locales
  fix s e cfg
  assume "getopt_ready argc os s" "next_event os (getopt_config s) = (Some e, cfg)"
  note s = getopt_step_event [OF this]
  from s show "\<exists>t. getopt_step argc os s = Some (event_code os e, event_arg e, t)
      \<and> getopt_ready argc os t \<and> getopt_config t = cfg"
    by (rule conjunct1)
  from s show "event_code os e \<noteq> - 1" by (rule conjunct2)
qed (blast intro: getopt_config_wf getopt_step_end)+

section \<open>A whole scan\<close>

lemma getopt_start_ready:
  assumes "plain_optstring os"
  shows "getopt_ready (length (prog # args)) os (getopt_start (prog # args))"
    "getopt_config (getopt_start (prog # args)) = ([prog], [], [], args)"
  using assms
  by (simp_all add: getopt_ready_def getopt_config_def initialised_view_def first_call_def
      getopt_initialize_def getopt_start_def nonopts_ordered_def scanning_def config_in_call_def
      slice_def Let_def)

text \<open>
  C1.  Scanning a command line to its end with \<open>getopt\<close> (short options, default mode) is the
  reference parser: the values returned and the \<open>optarg\<close>s they come with are the parser's
  events in order, the scan ends, \<open>argv\<close> then holds the program name, the options with their
  arguments in the order given and the operands in the order given, and \<open>optind\<close> is the index
  of the first operand.  One call per character of the arguments is enough.
\<close>

theorem getopt_scan_is_parse:
  assumes "plain_optstring os" and "sum_list (map length args) < fuel"
    and "parse_args os args = (evs, opts, operands)"
  shows "\<exists>t. scan_all (getopt_step (length (prog # args)) os) fuel (getopt_start (prog # args))
             = Some (map (\<lambda>e. (event_code os e, event_arg e)) evs, t)
           \<and> argv t = prog # opts @ operands \<and> optind t = Suc (length opts)"
proof -
  note start = getopt_start_ready [OF assms(1), of prog args]
  have "meaning os (getopt_config (getopt_start (prog # args))) = (evs, prog # opts, operands)"
    using assms(3) by (simp add: start(2) meaning_def)
  moreover have "length evs < fuel"
    using parse_args_events [OF assms(3)] assms(2) by simp
  ultimately show ?thesis
    using gs.scan_all_meaning [OF start(1)] by (auto simp: getopt_finished_def)
qed

theorem getopt_scan_is_parse_witness:
  "\<exists>t. scan_all (getopt_step 5 ''i:b'') 20 (getopt_start [''kmeans'', ''x'', ''-bi'', ''f'', ''-z''])
      = Some ([(98, None), (105, Some ''f''), (63, None)], t)
    \<and> argv t = [''kmeans'', ''-bi'', ''f'', ''-z'', ''x''] \<and> optind t = 4"
proof -
  have p: "plain_optstring ''i:b''" by code_simp
  have a: "parse_args ''i:b'' [''x'', ''-bi'', ''f'', ''-z''] =
      ([Opt (CHR ''b'') None, Opt (CHR ''i'') (Some ''f''), Bad (CHR ''z'')],
       [''-bi'', ''f'', ''-z''], [''x''])"
    by code_simp
  have c: "char_int (CHR ''b'') = 98" "char_int (CHR ''i'') = 105" "char_int (CHR ''?'') = 63"
    by code_simp+
  show ?thesis
    using getopt_scan_is_parse [OF p _ a, of 20 "''kmeans''"]
    by (simp add: event_code_def event_arg_def c eval_nat_numeral)
qed

end
