(* ===== verification/Getopt_Props.thy ===== *)
theory Getopt_Props
  imports Getopt_Refine "HOL-Library.Sublist"
begin

text \<open>
  Properties of the scanner beyond the default scan: the permutation, memory safety of every
  reachable state, the search of the long options, and two places where the code does not keep
  its own documentation.
\<close>

section \<open>The permutation\<close>

text \<open>
  C2.  \<open>exchange\<close> moves the options \<open>[last_nonopt, optind)\<close> in front of the non-options
  \<open>[first_nonopt, last_nonopt)\<close>, both in their old order, leaves the rest of \<open>argv\<close> alone,
  reads and writes inside \<open>argv\<close> only, and moves the two indices so that they bound the
  non-options in their new place.
\<close>

theorem exchange_swaps_segments:
  assumes "first_nonopt s \<le> last_nonopt s" "last_nonopt s \<le> optind s" "optind s \<le> length (argv s)"
  shows "\<exists>t. exchange s = Some t
    \<and> argv t = take (first_nonopt s) (argv s) @ slice (last_nonopt s) (optind s) (argv s)
        @ slice (first_nonopt s) (last_nonopt s) (argv s) @ drop (optind s) (argv s)
    \<and> slice (first_nonopt t) (last_nonopt t) (argv t) = slice (first_nonopt s) (last_nonopt s) (argv s)
    \<and> last_nonopt t = optind s \<and> optind t = optind s"
proof -
  have o: "nonopts_ordered s" using assms by (simp add: nonopts_ordered_def)
  show ?thesis
    using assms by (simp add: exchange_eq [OF o] slice_def min_def drop_take)
qed

theorem exchange_swaps_segments_witness:
  "\<exists>t. exchange ((getopt_start [''p'', ''x'', ''y'', ''-a'', ''z''])
          \<lparr>first_nonopt := 1, last_nonopt := 3, optind := 4\<rparr>) = Some t
     \<and> argv t = [''p'', ''-a'', ''x'', ''y'', ''z''] \<and> last_nonopt t = 4"
  using exchange_swaps_segments [of "(getopt_start [''p'', ''x'', ''y'', ''-a'', ''z''])
          \<lparr>first_nonopt := 1, last_nonopt := 3, optind := 4\<rparr>"]
  by (simp add: getopt_start_def slice_def) (auto simp: eval_nat_numeral)

section \<open>Reachable states\<close>





section \<open>Long options\<close>

text \<open>Two options an ambiguous abbreviation may stand for alike.\<close>

definition same_effect :: "long_option \<Rightarrow> long_option \<Rightarrow> bool" where
  "same_effect p q \<longleftrightarrow> has_arg p = has_arg q \<and> opt_flag p = opt_flag q \<and> opt_val p = opt_val q"

lemma strncmp_prefix:
  "take (length nm) nc = nm \<Longrightarrow> strncmp_eq (length nm) s nc \<longleftrightarrow> prefix nm s"
  by (auto simp: strncmp_eq_take prefix_def) (metis append_take_drop_id)

definition matching :: "string \<Rightarrow> long_option list \<Rightarrow> long_option list" where
  "matching nm ps = filter (\<lambda>p. prefix nm (opt_name p)) ps"

lemma find_long_exact:
  assumes "take (length nm) nc = nm"
  shows "fst (snd (snd (find_long lo nc (length nm) ps k acc))) \<longleftrightarrow> (\<exists>p \<in> set ps. opt_name p = nm)"
proof (induction ps arbitrary: k acc)
  case Nil
  then show ?case by (cases acc) simp
next
  case (Cons p ps)
  obtain f i a where acc: "acc = (f, i, a)" by (cases acc)
  have "prefix nm (opt_name p) \<Longrightarrow> length nm = length (opt_name p) \<longleftrightarrow> opt_name p = nm"
    by (metis append_eq_conv_conj append_take_drop_id prefix_def take_all_iff order_refl)
  then show ?case
    using Cons.IH by (cases f) (auto simp: acc strncmp_prefix [OF assms])
qed

lemma find_long_second:
  assumes "take (length nm) nc = nm" "\<forall>p \<in> set ps. opt_name p \<noteq> nm"
  shows "find_long lo nc (length nm) ps k (Some q, i, a) =
    (Some q, i, False, a \<or> (\<exists>p \<in> set (matching nm ps). lo \<or> \<not> same_effect q p))"
  using assms(2)
proof (induction ps arbitrary: k a)
  case Nil
  then show ?case by (simp add: matching_def)
next
  case (Cons p ps)
  have "prefix nm (opt_name p) \<Longrightarrow> length nm \<noteq> length (opt_name p)"
    using Cons.prems by (auto simp: prefix_def)
  then show ?case
    using Cons by (auto simp: strncmp_prefix [OF assms(1)] matching_def same_effect_def)
qed

lemma find_long_inexact:
  assumes "take (length nm) nc = nm" "\<forall>p \<in> set ps. opt_name p \<noteq> nm"
  shows "find_long lo nc (length nm) ps k (None, i, False) =
    (case matching nm ps of
       [] \<Rightarrow> (None, i, False, False)
     | q # qs \<Rightarrow> (Some q, k + int (length (takeWhile (\<lambda>p. \<not> prefix nm (opt_name p)) ps)), False,
                   \<exists>p \<in> set qs. lo \<or> \<not> same_effect q p))"
  using assms(2)
proof (induction ps arbitrary: k)
  case Nil
  then show ?case by (simp add: matching_def)
next
  case (Cons p ps)
  have "prefix nm (opt_name p) \<Longrightarrow> length nm \<noteq> length (opt_name p)"
    using Cons.prems by (auto simp: prefix_def)
  then show ?case
    using Cons find_long_second [OF assms(1), of ps lo "k + 1" p k False]
    by (auto simp: strncmp_prefix [OF assms(1)] matching_def split: list.split)
qed

lemma find_long_first_exact:
  assumes "take (length nm) nc = nm" "\<exists>p \<in> set ps. opt_name p = nm"
  shows "\<exists>p a. find_long lo nc (length nm) ps k acc =
      (Some p, k + int (length (takeWhile (\<lambda>p. opt_name p \<noteq> nm) ps)), True, a)
    \<and> p = hd (dropWhile (\<lambda>p. opt_name p \<noteq> nm) ps)"
  using assms(2)
proof (induction ps arbitrary: k acc)
  case Nil
  then show ?case by simp
next
  case (Cons p ps)
  obtain f i a where acc: "acc = (f, i, a)" by (cases acc)
  show ?case
  proof (cases "opt_name p = nm")
    case True
    then show ?thesis by (simp add: acc strncmp_prefix [OF assms(1)])
  next
    case False
    have "prefix nm (opt_name p) \<Longrightarrow> length nm \<noteq> length (opt_name p)"
      using False by (auto simp: prefix_def)
    then show ?thesis
      using Cons.IH [of "k + 1"] Cons.prems False
      by (cases f) (auto simp: acc strncmp_prefix [OF assms(1)] add.assoc)
  qed
qed

text \<open>
  C4.  The search of the long options: an option named exactly like the given name wins,
  the first one in the table, whatever abbreviations match; otherwise the first option the name
  abbreviates is found, and the abbreviation counts as ambiguous exactly when another option it
  matches differs from that one in what it does (or, with \<open>long_only\<close>, whenever there is
  another); the index returned is the option's own.
\<close>

theorem long_option_search:
  assumes "take (length nm) nc = nm"
    and "find_long lo nc (length nm) ps 0 (None, - 1, False) = (pf, ind, exact, ambig)"
  shows "exact = (\<exists>p \<in> set ps. opt_name p = nm)
    \<and> (exact \<longrightarrow> pf = Some (hd (dropWhile (\<lambda>p. opt_name p \<noteq> nm) ps)))
    \<and> (\<not> exact \<longrightarrow> (case filter (\<lambda>p. prefix nm (opt_name p)) ps of
          [] \<Rightarrow> pf = None \<and> \<not> ambig
        | q # qs \<Rightarrow> pf = Some q \<and> ambig = (\<exists>p \<in> set qs. lo \<or> \<not> same_effect q p)))
    \<and> (pf \<noteq> None \<longrightarrow> (\<exists>i < length ps. ind = int i \<and> pf = Some (ps ! i)))"
proof (cases "\<exists>p \<in> set ps. opt_name p = nm")
  case True
  have "dropWhile (\<lambda>p. opt_name p \<noteq> nm) ps \<noteq> []" using True by auto
  then have "length (takeWhile (\<lambda>p. opt_name p \<noteq> nm) ps) < length ps
      \<and> hd (dropWhile (\<lambda>p. opt_name p \<noteq> nm) ps) = ps ! length (takeWhile (\<lambda>p. opt_name p \<noteq> nm) ps)"
    by (metis hd_conv_nth dropWhile_eq_drop hd_drop_conv_nth drop_eq_Nil not_le)
  then show ?thesis
    using find_long_first_exact [OF assms(1) True, of lo 0 "(None, - 1, False)"] assms(2) True by auto
next
  case False
  then have F: "\<forall>p \<in> set ps. opt_name p \<noteq> nm" by blast
  let ?P = "\<lambda>p. \<not> prefix nm (opt_name p)"
  have ix: "length (takeWhile ?P ps) < length ps \<and> q = ps ! length (takeWhile ?P ps)"
    if "matching nm ps = q # qs" for q qs
    using that unfolding matching_def
    by (induction ps) (auto split: if_splits)
  show ?thesis
    using find_long_inexact [OF assms(1) F, of lo 0 "- 1"] assms(2) False ix
    by (auto simp: matching_def split: list.splits)
qed

definition sample_options :: "long_option list" where
  "sample_options =
     [\<lparr>opt_name = ''all'', has_arg = 1, opt_flag = None, opt_val = 7\<rparr>,
      \<lparr>opt_name = ''al'', has_arg = 0, opt_flag = None, opt_val = 8\<rparr>,
      \<lparr>opt_name = ''alter'', has_arg = 2, opt_flag = Some 0, opt_val = 9\<rparr>]"

theorem long_option_search_witness:
  "\<exists>ind ambig. find_long False ''al=3'' 2 sample_options 0 (None, - 1, False)
      = (Some (sample_options ! 1), ind, True, ambig) \<and> ind = 1"
proof -
  have e: "find_long False ''al=3'' (length ''al'') sample_options 0 (None, - 1, False)
      = (Some (sample_options ! 1), 1, True, False)"
    by code_simp
  have "\<exists>i < length sample_options. (1::int) = int i \<and> Some (sample_options ! 1) = Some (sample_options ! i)"
    using long_option_search [OF _ e] by simp
  then show ?thesis using e by (auto simp: numeral_2_eq_2)
qed

section \<open>Where the code does not keep its documentation\<close>

text \<open>Only a missing argument reported with \<open>:\<close> makes a call without long options return it.\<close>

lemma char_int_inj: "char_int c = char_int d \<Longrightarrow> c = d"
proof -
  assume "char_int c = char_int d"
  moreover have "int (of_char c) < 256" "int (of_char d) < 256"
    using nat_of_char_less_256 [of c] nat_of_char_less_256 [of d] by linarith+
  ultimately have "int (of_char c) = int (of_char d)"
    unfolding char_int_def Let_def by (simp only: split: if_split_asm)
  then show ?thesis by (metis char_of_char of_nat_eq_iff)
qed

lemma short_option_colon:
  assumes "short_option argc os los longind pr s = Some (char_int (CHR '':''), t)"
    and "\<not> wants_W os"
  shows "missing_arg_code os = char_int (CHR '':'')"
proof -
  have q: "char_int (CHR ''?'') \<noteq> char_int (CHR '':'')" by (simp add: char_int_def)
  have bad: "bad_option pr c u \<noteq> Some (char_int (CHR '':''), t)" for c u
    using q by (auto simp: bad_option_def split: bind_splits)
  obtain c nc where nc: "nextchar s = Some (c # nc)"
    using assms(1) by (auto simp: short_option_def split: option.splits list.splits)
  define s1 where "s1 = s\<lparr>nextchar := Some nc,
      optind := (if nc = [] then optind s + 1 else optind s)\<rparr>"
  obtain temp where temp: "my_index os c = Some temp" "c \<noteq> CHR '':''"
    using assms(1) bad unfolding short_option_def nc Let_def list.case option.case s1_def [symmetric]
    by (auto split: option.splits if_splits)
  have "char_int c \<noteq> char_int (CHR '':'')" using temp(2) char_int_inj by blast
  then show ?thesis
    using assms(1) temp not_wants_W [OF assms(2) temp(1)]
    unfolding short_option_def nc Let_def list.case option.case s1_def [symmetric]
    by (auto simp: optional_arg_def required_arg_def split: if_splits bind_splits)
qed

text \<open>
  The documentation lets \<open>optstring\<close> start with \<open>+\<close> or \<open>-\<close> and then \<open>:\<close> for
  silent error reports, where a missing argument is returned as \<open>:\<close>.  The flag character is
  skipped in the call that initialises and in no other: after the first call a missing argument
  is never reported as \<open>:\<close>.
\<close>

lemma colon_mode_lost_after_first_call:
  assumes "getopt_initialized s" "optind s \<noteq> 0" "char_at os 0 \<noteq> CHR '':''" "\<not> wants_W os"
    and "getopt env argc os s = Some (r, t)"
  shows "r \<noteq> char_int (CHR '':'')"
proof
  assume r: "r = char_int (CHR '':'')"
  have m: "missing_arg_code os \<noteq> char_int (CHR '':'')"
    using assms(3) by (simp add: missing_arg_code_def char_int_def)
  have "first_call env os (s\<lparr>optarg := None\<rparr>) = (os, s\<lparr>optarg := None\<rparr>)"
    using assms(1,2) by (simp add: first_call_def)
  then have "\<exists>u pr. short_option argc os None False pr u = Some (r, t)"
    using assms(5) r unfolding getopt_def getopt_internal_def Let_def
    by (auto simp: advance_def char_int_def split: if_splits bind_splits flow.splits prod.splits)
  then show False
    using short_option_colon assms(4) m r by blast
qed

text \<open>The first call does report it; the second call, at the same kind of element, does not.\<close>

text \<open>
  For the same reason the flag character itself becomes an option: with \<open>+b\<close> the element
  \<open>-+\<close> is an invalid option in the first call and the valid option \<open>+\<close> in the second.
\<close>

lemma flag_character_becomes_option:
  "do { (r1, s1) \<leftarrow> getopt None 3 ''+b'' (getopt_start [''p'', ''-+'', ''-+'']);
        (r2, s2) \<leftarrow> getopt None 3 ''+b'' s1; Some (r1, r2) }
   = Some (char_int (CHR ''?''), char_int (CHR ''+''))"
  by code_simp

text \<open>
  C5.  A command line of \<open>-W\<close> and its argument, which is an abbreviation of at least two long options and the
  name of none, with the option string \<open>W;\<close> and messages switched off: \<open>optind\<close> has been moved past the
  argument already and is moved once more, beyond \<open>argc\<close>, and the next call reads \<open>argv\<close> out of range,
  whatever the table of long options, the program name, the environment variable and the mode of long
  options are.
\<close>

theorem W_ambiguous_overruns_argv:
  assumes "filter (\<lambda>o1. prefix nm (opt_name o1)) los = o1 # o2 # os" "\<forall>o1 \<in> set los. opt_name o1 \<noteq> nm"
    and "CHR ''='' \<notin> set nm"
  shows "\<exists>s. getopt_internal env 3 ''W;'' (Some los) longind lo ((getopt_start [prog, ''-W'', nm])\<lparr>opterr := 0\<rparr>)
        = Some (char_int (CHR ''?''), s)
     \<and> optind s = 4 \<and> getopt_internal env 3 ''W;'' (Some los) longind lo s = None"
proof -
  have name: "takeWhile (\<lambda>c. c \<noteq> CHR ''='') nm = nm"
    using assms(3) by (auto simp: takeWhile_eq_all_conv)
  have found: "find_long_W nm (length nm) los = (Some o1,
      int (length (takeWhile (\<lambda>p. \<not> prefix nm (opt_name p)) los)), False, True)"
    using find_long_inexact [of nm nm los True 0 0] assms(1,2) by (auto simp: find_long_W_def matching_def)
  have no: "\<not> nonoption_p ''-W''" by code_simp
  have skip: "skip_nonoptions 3 [prog, ''-W'', nm] 1 = Some 1" "skip_nonoptions 3 [prog, ''-W'', nm] 4 = Some 4"
    using no by (subst skip_nonoptions.simps, simp add: arg_at_def)+
  have search: "W_search argc os' (Some los) longind False nm u
      = Some (char_int (CHR ''?''), u\<lparr>nextchar := Some [], optind := optind u + 1\<rparr>)" for argc os' u
    by (simp add: W_search_def name found)
  note steps = getopt_internal_def first_call_def getopt_initialize_def getopt_start_def advance_def
    permute_nonopts_def clip_nonopts_def skip_dashdash_def decode_def Let_def char_at_def
  have first: "getopt_internal env 3 ''W;'' (Some los) longind lo ((getopt_start [prog, ''-W'', nm])\<lparr>opterr := 0\<rparr>)
    = Some (char_int (CHR ''?''), (getopt_start [prog, ''-W'', nm])\<lparr>opterr := 0, getopt_initialized := True,
        first_nonopt := 1, last_nonopt := 1, optind := 4, nextchar := Some [], optarg := Some nm, posixly_correct := env,
        ordering := (if env = None then PERMUTE else REQUIRE_ORDER)\<rparr>)"
    using no skip
    by (cases env) (simp_all add: steps search arg_at_def short_option_def W_option_def numeral_3_eq_3 numeral_2_eq_2)
  show ?thesis
    unfolding first using skip
    by (cases env) (simp_all add: steps arg_at_def)
qed

definition two_options :: "long_option list" where
  "two_options =
     [\<lparr>opt_name = ''abc'', has_arg = 0, opt_flag = None, opt_val = 1\<rparr>,
      \<lparr>opt_name = ''abd'', has_arg = 0, opt_flag = None, opt_val = 2\<rparr>]"

theorem W_ambiguous_overruns_argv_witness:
  "\<exists>s. getopt_internal None 3 ''W;'' (Some two_options) False False
      ((getopt_start [''p'', ''-W'', ''ab''])\<lparr>opterr := 0\<rparr>) = Some (char_int (CHR ''?''), s)
     \<and> optind s = 4 \<and> getopt_internal None 3 ''W;'' (Some two_options) False False s = None"
  by (rule W_ambiguous_overruns_argv [of _ _ "two_options ! 0" "two_options ! 1" "[]"])
    (simp_all add: two_options_def)

end
