(* ===== verification/Floats.thy ===== *)
theory Floats
  imports Prelude Complex_Main
begin

text \<open>
  The floating-point arithmetic of C that the numerical code uses, on IEEE 754 formats with
  rounding to nearest, ties to even: a finite number is the rational it denotes, with the
  negative zero apart.  Everything is executable.  The lemmas show that rounding is monotone,
  keeps the numbers of the format, and commutes with the sign, and that the order is the one of
  the rationals.
\<close>

section \<open>Numbers and formats\<close>

datatype flt = NaN | Infinity bool | NegZero | Fin rat

text \<open>
  A format: \<open>precision\<close> bits of significand, \<open>unit_exp\<close> the exponent of the least subnormal,
  and \<open>limit_exp\<close> the exponent of the least power of two beyond the range.
\<close>

record format =
  precision :: nat
  unit_exp :: int
  limit_exp :: int

definition binary32 :: format where
  "binary32 = \<lparr>precision = 24, unit_exp = - 149, limit_exp = 128\<rparr>"

definition binary64 :: format where
  "binary64 = \<lparr>precision = 53, unit_exp = - 1074, limit_exp = 1024\<rparr>"

definition wf_format :: "format \<Rightarrow> bool" where
  "wf_format fmt \<longleftrightarrow> 0 < precision fmt \<and> unit_exp fmt + int (precision fmt) \<le> limit_exp fmt"

lemma wf_binary32 [simp]: "wf_format binary32"
  by (simp add: wf_format_def binary32_def)

lemma wf_binary64 [simp]: "wf_format binary64"
  by (simp add: wf_format_def binary64_def)

fun is_negative :: "flt \<Rightarrow> bool" where
  "is_negative NaN = False"
| "is_negative (Infinity b) = b"
| "is_negative NegZero = True"
| "is_negative (Fin q) = (q < 0)"

fun finite_value :: "flt \<Rightarrow> rat" where
  "finite_value (Fin q) = q"
| "finite_value x = 0"

fun is_finite :: "flt \<Rightarrow> bool" where
  "is_finite (Fin q) = True"
| "is_finite NegZero = True"
| "is_finite x = False"

definition signed_zero :: "bool \<Rightarrow> flt" where
  "signed_zero neg = (if neg then NegZero else Fin 0)"

section \<open>Rounding\<close>

function bits :: "int \<Rightarrow> int" where
  "bits n = (if n \<le> 0 then 0 else bits (n div 2) + 1)"
  by pat_completeness auto
termination
  by (relation "measure nat") auto

declare bits.simps [simp del]

lemma bits_bounds: "0 < n \<Longrightarrow> \<exists>k. bits n = int (Suc k) \<and> 2 ^ k \<le> n \<and> n < 2 ^ Suc k"
proof (induction n rule: bits.induct)
  case (1 n)
  show ?case
  proof (cases "n div 2 \<le> 0")
    case True
    then have "n = 1" using 1 by linarith
    then show ?thesis by (intro exI [of _ 0]) (simp add: bits.simps [of 1] bits.simps [of 0])
  next
    case False
    then obtain k where k: "bits (n div 2) = int (Suc k)" "2 ^ k \<le> n div 2" "n div 2 < 2 ^ Suc k"
      using 1 by auto
    have "2 ^ Suc k \<le> n" "n < 2 ^ Suc (Suc k)" using k(2,3) by simp_all
    then show ?thesis using k(1) 1 by (intro exI [of _ "Suc k"]) (simp add: bits.simps [of n])
  qed
qed

text \<open>Powers of two, evaluated by squaring and with one division.\<close>

definition square :: "int \<Rightarrow> int" where
  "square x = x * x"

function int_pow2 :: "int \<Rightarrow> int" where
  "int_pow2 n =
     (if n \<le> 0 then 1
      else if even n then square (int_pow2 (n div 2)) else 2 * square (int_pow2 (n div 2)))"
  by pat_completeness auto
termination
  by (relation "measure nat") auto

declare int_pow2.simps [simp del]

lemma int_pow2_eq: "int_pow2 n = 2 ^ nat n"
proof (induction n rule: int_pow2.induct)
  case (1 n)
  show ?case
  proof (cases "n \<le> 0")
    case True
    then show ?thesis by (simp add: int_pow2.simps [of n])
  next
    case False
    have sq: "square (2 ^ nat (n div 2)) = 2 ^ (2 * nat (n div 2))"
      by (simp add: square_def power_add mult_2)
    have "nat n = 2 * nat (n div 2) + (if even n then 0 else 1)"
      using False by (auto elim!: evenE oddE)
    then show ?thesis
      using 1 False sq by (simp add: int_pow2.simps [of n])
  qed
qed

definition pow2 :: "int \<Rightarrow> rat" where
  "pow2 e = (if 0 \<le> e then of_int (int_pow2 e) else 1 / of_int (int_pow2 (- e)))"

lemma pow2_powi [simp]: "pow2 e = 2 powi e"
  unfolding pow2_def power_int_def int_pow2_eq of_int_power of_int_numeral power_inverse
    inverse_eq_divide power_one_over
  by (rule sym) (rule refl)

text \<open>The exponent of the leading bit of a positive number.\<close>

definition ilog2 :: "rat \<Rightarrow> int" where
  "ilog2 q =
     (let (n, d) = quotient_of q
      in if pow2 (bits n - bits d) \<le> q then bits n - bits d else bits n - bits d - 1)"

lemma powi_less_iff [simp]: "(2::rat) powi m < 2 powi n \<longleftrightarrow> m < n"
  using power_int_strict_increasing [of m n "2::rat"] power_int_strict_increasing [of n m "2::rat"]
  by (cases m n rule: linorder_cases) auto

lemma powi_le_iff [simp]: "(2::rat) powi m \<le> 2 powi n \<longleftrightarrow> m \<le> n"
  by (simp flip: not_less)

lemma powi_pos [simp]: "0 < (2::rat) powi e"
  by (simp add: zero_less_power_int)

lemma ilog2_bounds:
  assumes "0 < q"
  shows "2 powi ilog2 q \<le> q" "q < 2 powi (ilog2 q + 1)"
proof -
  obtain n d where nd: "quotient_of q = (n, d)" by fastforce
  have d: "0 < d" using quotient_of_denom_pos [OF nd] .
  have q: "q = of_int n / of_int d" using quotient_of_div [OF nd] .
  have n: "0 < n" using assms d unfolding q by (simp add: zero_less_divide_iff)
  let ?bn = "bits n" and ?bd = "bits d"
  have pw: "(2::rat) powi (bits m - 1) \<le> of_int m \<and> of_int m < (2::rat) powi bits m"
    if pos: "0 < m" for m
  proof -
    obtain k where b: "bits m = int (Suc k)" "2 ^ k \<le> m" "m < 2 ^ Suc k"
      using bits_bounds [OF pos] by auto
    have "(2::rat) ^ k \<le> of_int m"
      using b(2) by (metis of_int_le_iff of_int_numeral of_int_power)
    moreover have "(of_int m :: rat) < 2 ^ Suc k"
      using b(3) by (metis of_int_less_iff of_int_numeral of_int_power)
    ultimately show ?thesis
      using power_int_of_nat [of "2::rat" k] power_int_of_nat [of "2::rat" "Suc k"] unfolding b(1)
      by (simp only: of_nat_Suc add_diff_cancel_left')
  qed
  have bn: "(2::rat) powi (?bn - 1) \<le> of_int n" "of_int n < (2::rat) powi ?bn"
    using pw [OF n] by simp_all
  have bd: "(2::rat) powi (?bd - 1) \<le> of_int d" "of_int d < (2::rat) powi ?bd"
    using pw [OF d] by simp_all
  have dpos: "(0::rat) < of_int d" using d by simp
  have up: "q < 2 powi (?bn - ?bd + 1)"
  proof -
    have "of_int n < (2::rat) powi ?bn" by (rule bn(2))
    also have "\<dots> = 2 powi (?bn - ?bd + 1) * 2 powi (?bd - 1)"
      by (simp flip: power_int_add)
    also have "\<dots> \<le> 2 powi (?bn - ?bd + 1) * of_int d"
      using bd(1) by (intro mult_left_mono) simp_all
    finally show ?thesis using dpos unfolding q by (simp add: divide_less_eq)
  qed
  have lo: "2 powi (?bn - ?bd - 1) \<le> q"
  proof -
    have "2 powi (?bn - ?bd - 1) * of_int d \<le> 2 powi (?bn - ?bd - 1) * (2::rat) powi ?bd"
      using bd(2) by (intro mult_left_mono) simp_all
    also have "\<dots> = (2::rat) powi (?bn - 1)"
      using power_int_add [of "2::rat" "?bn - ?bd - 1" ?bd] by (simp del: power_int_of_nat)
    also have "\<dots> \<le> of_int n" by (rule bn(1))
    finally show ?thesis using dpos unfolding q by (simp add: le_divide_eq)
  qed
  show "2 powi ilog2 q \<le> q" "q < 2 powi (ilog2 q + 1)"
    using up lo by (auto simp: ilog2_def nd Let_def not_le)
qed

lemma ilog2_mono: "0 < q \<Longrightarrow> q \<le> r \<Longrightarrow> ilog2 q \<le> ilog2 r"
proof -
  assume a: "0 < q" "q \<le> r"
  then have "2 powi ilog2 q < (2::rat) powi (ilog2 r + 1)"
    using ilog2_bounds(1) [of q] ilog2_bounds(2) [of r] by linarith
  then show ?thesis by simp
qed

lemma ilog2_unique: "2 powi e \<le> q \<Longrightarrow> q < 2 powi (e + 1) \<Longrightarrow> ilog2 q = e"
proof -
  assume a: "2 powi e \<le> q" "q < 2 powi (e + 1)"
  then have p: "0 < q" using powi_pos [of e] by linarith
  have "2 powi e < (2::rat) powi (ilog2 q + 1)" "2 powi ilog2 q < (2::rat) powi (e + 1)"
    using a ilog2_bounds [OF p] by linarith+
  then show ?thesis by simp
qed

text \<open>To the nearest integer, ties to even.\<close>

definition nearest_even_parts :: "int \<Rightarrow> rat \<Rightarrow> int" where
  "nearest_even_parts m f =
     (if f < 1 / 2 then m else if f > 1 / 2 then m + 1 else if even m then m else m + 1)"

definition nearest_even :: "rat \<Rightarrow> int" where
  "nearest_even q = nearest_even_parts \<lfloor>q\<rfloor> (q - of_int \<lfloor>q\<rfloor>)"

lemma nearest_even_of_int [simp]: "nearest_even (of_int m) = m"
  by (simp add: nearest_even_def nearest_even_parts_def)

lemma nearest_even_close: "\<bar>of_int (nearest_even q) - q\<bar> \<le> 1 / 2"
proof -
  have "of_int \<lfloor>q\<rfloor> \<le> q \<and> q < of_int \<lfloor>q\<rfloor> + 1" using floor_correct [of q] by simp
  then show ?thesis unfolding nearest_even_def nearest_even_parts_def by (auto simp: abs_if) linarith+
qed

lemma nearest_even_mono: "q \<le> r \<Longrightarrow> nearest_even q \<le> nearest_even r"
proof -
  assume le: "q \<le> r"
  consider "\<lfloor>q\<rfloor> = \<lfloor>r\<rfloor>" | "\<lfloor>q\<rfloor> + 1 \<le> \<lfloor>r\<rfloor>" using floor_mono [OF le] by linarith
  then show ?thesis
  proof cases
    case 1
    then have "q - of_int \<lfloor>q\<rfloor> \<le> r - of_int \<lfloor>r\<rfloor>" using le by simp
    then show ?thesis using 1 unfolding nearest_even_def nearest_even_parts_def by auto
  next
    case 2
    have "nearest_even q \<le> \<lfloor>q\<rfloor> + 1" "\<lfloor>r\<rfloor> \<le> nearest_even r"
      unfolding nearest_even_def nearest_even_parts_def by auto
    then show ?thesis using 2 by linarith
  qed
qed

lemma nearest_even_nonneg: "0 \<le> q \<Longrightarrow> 0 \<le> nearest_even q"
  using nearest_even_mono [of 0 q] nearest_even_of_int [of 0] by simp

text \<open>The spacing of the format around \<open>q\<close>, and the magnitude rounded to it.\<close>

definition ulp_exp :: "format \<Rightarrow> rat \<Rightarrow> int" where
  "ulp_exp fmt q = max (unit_exp fmt) (ilog2 q - int (precision fmt) + 1)"

definition round_unit :: "int \<Rightarrow> rat \<Rightarrow> rat" where
  "round_unit u q = of_int (nearest_even (q / pow2 u)) * pow2 u"

definition round_mag :: "format \<Rightarrow> rat \<Rightarrow> rat" where
  "round_mag fmt q = (if q = 0 then 0 else round_unit (ulp_exp fmt q) q)"

text \<open>The number with the sign \<open>neg\<close> and the rounded magnitude \<open>r\<close>.\<close>

definition with_sign :: "format \<Rightarrow> bool \<Rightarrow> rat \<Rightarrow> flt" where
  "with_sign fmt neg r =
     (if pow2 (limit_exp fmt) \<le> r then Infinity neg
      else if r = 0 then signed_zero neg
      else Fin (if neg then - r else r))"

definition round_to :: "format \<Rightarrow> rat \<Rightarrow> flt" where
  "round_to fmt q = with_sign fmt (q < 0) (round_mag fmt \<bar>q\<bar>)"

text \<open>The finite numbers of a format.\<close>

definition representable :: "format \<Rightarrow> rat \<Rightarrow> bool" where
  "representable fmt q \<longleftrightarrow>
     (\<exists>m e. q = of_int m * 2 powi e \<and> \<bar>m\<bar> < 2 ^ precision fmt \<and> unit_exp fmt \<le> e
            \<and> \<bar>q\<bar> < 2 powi limit_exp fmt)"

lemma grid_multiple: "e \<le> k \<Longrightarrow> (2::rat) powi k = of_int (2 ^ nat (k - e)) * 2 powi e"
  using power_int_add [of "2::rat" "k - e" e] by (simp add: power_int_def [of 2 "k - e"])

lemma round_on_grid:
  assumes "0 < q" "q = of_int m * 2 powi e" "ulp_exp fmt q \<le> e"
  shows "round_mag fmt q = q"
proof -
  define u where "u = ulp_exp fmt q"
  have q: "q = of_int (m * 2 ^ nat (e - u)) * 2 powi u"
    unfolding assms(2) using grid_multiple [of u e] assms(3) by (simp add: u_def)
  have "q / 2 powi u = of_int (m * 2 ^ nat (e - u))"
    by (subst q) simp
  then have "nearest_even (q / 2 powi u) = m * 2 ^ nat (e - u)"
    by (simp only: nearest_even_of_int)
  then have "of_int (nearest_even (q / 2 powi u)) * 2 powi u = q"
    by (simp only: q [symmetric])
  then show ?thesis
    using assms(1) by (simp add: round_mag_def round_unit_def u_def)
qed

lemma ulp_exp_mono: "0 < q \<Longrightarrow> q \<le> r \<Longrightarrow> ulp_exp fmt q \<le> ulp_exp fmt r"
  using ilog2_mono [of q r] unfolding ulp_exp_def by linarith

lemma round_mag_nonneg: "0 \<le> q \<Longrightarrow> 0 \<le> round_mag fmt q"
  using nearest_even_nonneg [of "q / 2 powi ulp_exp fmt q"] by (simp add: round_mag_def round_unit_def)

lemma round_mag_mono:
  assumes "0 \<le> q" "q \<le> r" "0 < precision fmt"
  shows "round_mag fmt q \<le> round_mag fmt r"
proof (cases "q = 0")
  case True
  then show ?thesis using assms round_mag_nonneg by (simp add: round_mag_def [of fmt 0])
next
  case False
  then have pos: "0 < q" "0 < r" using assms by linarith+
  let ?eq = "ulp_exp fmt q" and ?er = "ulp_exp fmt r"
  have le: "?eq \<le> ?er" using pos(1) assms(2) by (rule ulp_exp_mono)
  show ?thesis
  proof (cases "?eq = ?er")
    case True
    have "q / 2 powi ?er \<le> r / 2 powi ?er" using assms(2) by (simp add: divide_right_mono)
    then have "of_int (nearest_even (q / 2 powi ?er)) \<le> (of_int (nearest_even (r / 2 powi ?er)) :: rat)"
      using nearest_even_mono by simp
    then show ?thesis using True pos by (simp add: round_mag_def round_unit_def)
  next
    case False
    let ?k = "ilog2 r"
    have k: "?eq < ?er" "?er \<le> ?k"
    proof -
      show lt: "?eq < ?er" using le False by simp
      then have "?er = ?k - int (precision fmt) + 1" unfolding ulp_exp_def by linarith
      then show "?er \<le> ?k" using assms(3) by linarith
    qed
    have "ilog2 q < ?k" using k(1) unfolding ulp_exp_def by linarith
    then have "2 powi (ilog2 q + 1) \<le> (2::rat) powi ?k" by simp
    then have q: "q \<le> 2 powi ?k" using ilog2_bounds(2) [OF pos(1)] by linarith
    have kq: "(2::rat) powi ?k = of_int (2 ^ nat (?k - ?eq)) * 2 powi ?eq"
      using k by (intro grid_multiple) simp
    have kr: "(2::rat) powi ?k = of_int (2 ^ nat (?k - ?er)) * 2 powi ?er"
      using k by (intro grid_multiple) simp
    have "nearest_even (q / 2 powi ?eq) \<le> nearest_even (of_int (2 ^ nat (?k - ?eq)))"
      using q kq by (intro nearest_even_mono) (simp add: divide_le_eq)
    then have "nearest_even (q / 2 powi ?eq) \<le> 2 ^ nat (?k - ?eq)" by (simp only: nearest_even_of_int)
    then have "round_mag fmt q \<le> of_int (2 ^ nat (?k - ?eq)) * 2 powi ?eq"
      using pos unfolding round_mag_def round_unit_def by (simp del: of_int_power)
    moreover have "nearest_even (of_int (2 ^ nat (?k - ?er))) \<le> nearest_even (r / 2 powi ?er)"
      using ilog2_bounds(1) [OF pos(2)] kr by (intro nearest_even_mono) (simp add: le_divide_eq)
    then have "2 ^ nat (?k - ?er) \<le> nearest_even (r / 2 powi ?er)" by (simp only: nearest_even_of_int)
    then have "of_int (2 ^ nat (?k - ?er)) * 2 powi ?er \<le> round_mag fmt r"
      using pos unfolding round_mag_def round_unit_def by (simp del: of_int_power)
    ultimately show ?thesis using kq kr by linarith
  qed
qed

lemma representable_ulp:
  assumes "0 < q" "q = of_int m * 2 powi e" "\<bar>m\<bar> < 2 ^ precision fmt" "unit_exp fmt \<le> e"
  shows "ulp_exp fmt q \<le> e"
proof -
  have "of_int m < (2::rat) ^ precision fmt"
    using assms(3) by (metis abs_less_iff of_int_less_iff of_int_numeral of_int_power)
  then have "q < 2 powi (int (precision fmt)) * 2 powi e"
    using assms(2) by (simp add: mult_strict_right_mono)
  also have "\<dots> = 2 powi (int (precision fmt) + e)" by (simp add: power_int_add)
  finally have "2 powi ilog2 q < (2::rat) powi (int (precision fmt) + e)"
    using ilog2_bounds(1) [OF assms(1)] by linarith
  then show ?thesis using assms(4) by (simp add: ulp_exp_def)
qed

lemma representable_uminus [simp]: "representable fmt (- q) \<longleftrightarrow> representable fmt q"
proof -
  have "representable fmt (- r)" if rep: "representable fmt r" for r
  proof -
    from rep obtain m e where "r = of_int m * 2 powi e" "\<bar>m\<bar> < 2 ^ precision fmt" "unit_exp fmt \<le> e"
      "\<bar>r\<bar> < 2 powi limit_exp fmt" unfolding representable_def by blast
    then show ?thesis unfolding representable_def by (intro exI [of _ "- m"] exI [of _ e]) auto
  qed
  from this [of q] this [of "- q"] show ?thesis by auto
qed

lemma representable_abs: "representable fmt q \<Longrightarrow> representable fmt \<bar>q\<bar>"
  by (simp add: abs_if)

lemma round_mag_representable:
  assumes "representable fmt q" "0 \<le> q"
  shows "round_mag fmt q = q"
proof (cases "q = 0")
  case False
  then have "0 < q" using assms by simp
  then show ?thesis
    using assms representable_ulp round_on_grid unfolding representable_def by metis
qed (simp add: round_mag_def)

theorem round_to_representable:
  "representable fmt q \<Longrightarrow> q \<noteq> 0 \<Longrightarrow> round_to fmt q = Fin q"
  using round_mag_representable [OF representable_abs, of fmt q]
  by (auto simp: round_to_def with_sign_def representable_def abs_if)

lemma round_to_0 [simp]: "round_to fmt 0 = Fin 0"
  by (simp add: round_to_def with_sign_def round_mag_def signed_zero_def not_le)

section \<open>Arithmetic\<close>

fun f_neg :: "flt \<Rightarrow> flt" where
  "f_neg NaN = NaN"
| "f_neg (Infinity b) = Infinity (\<not> b)"
| "f_neg NegZero = Fin 0"
| "f_neg (Fin q) = (if q = 0 then NegZero else Fin (- q))"

fun f_add :: "format \<Rightarrow> flt \<Rightarrow> flt \<Rightarrow> flt" where
  "f_add fmt NaN y = NaN"
| "f_add fmt x NaN = NaN"
| "f_add fmt (Infinity a) (Infinity b) = (if a = b then Infinity a else NaN)"
| "f_add fmt (Infinity a) y = Infinity a"
| "f_add fmt x (Infinity b) = Infinity b"
| "f_add fmt NegZero NegZero = NegZero"
| "f_add fmt x y = round_to fmt (finite_value x + finite_value y)"

definition f_sub :: "format \<Rightarrow> flt \<Rightarrow> flt \<Rightarrow> flt" where
  "f_sub fmt x y = f_add fmt x (f_neg y)"

text \<open>Results of products and quotients carry the sign of the exact result, zero included.\<close>

definition signed_round :: "format \<Rightarrow> bool \<Rightarrow> rat \<Rightarrow> flt" where
  "signed_round fmt neg q = (if q = 0 then signed_zero neg else round_to fmt q)"

definition is_zero :: "flt \<Rightarrow> bool" where
  "is_zero x \<longleftrightarrow> is_finite x \<and> finite_value x = 0"

fun f_mul :: "format \<Rightarrow> flt \<Rightarrow> flt \<Rightarrow> flt" where
  "f_mul fmt NaN y = NaN"
| "f_mul fmt x NaN = NaN"
| "f_mul fmt (Infinity a) y = (if is_zero y then NaN else Infinity (a \<noteq> is_negative y))"
| "f_mul fmt x (Infinity b) = (if is_zero x then NaN else Infinity (is_negative x \<noteq> b))"
| "f_mul fmt x y =
     signed_round fmt (is_negative x \<noteq> is_negative y) (finite_value x * finite_value y)"

fun f_div :: "format \<Rightarrow> flt \<Rightarrow> flt \<Rightarrow> flt" where
  "f_div fmt NaN y = NaN"
| "f_div fmt x NaN = NaN"
| "f_div fmt (Infinity a) (Infinity b) = NaN"
| "f_div fmt (Infinity a) y = Infinity (a \<noteq> is_negative y)"
| "f_div fmt x (Infinity b) = signed_zero (is_negative x \<noteq> b)"
| "f_div fmt x y =
     (if finite_value y = 0 then
        if finite_value x = 0 then NaN else Infinity (is_negative x \<noteq> is_negative y)
      else signed_round fmt (is_negative x \<noteq> is_negative y) (finite_value x / finite_value y))"

fun f_lt :: "flt \<Rightarrow> flt \<Rightarrow> bool" where
  "f_lt NaN y = False"
| "f_lt x NaN = False"
| "f_lt (Infinity a) y = (a \<and> y \<noteq> Infinity True)"
| "f_lt x (Infinity b) = (\<not> b)"
| "f_lt x y = (finite_value x < finite_value y)"

section \<open>Conversions and the square root\<close>

definition f_of_int :: "format \<Rightarrow> int \<Rightarrow> flt" where
  "f_of_int fmt i = round_to fmt (of_int i)"

fun f_convert :: "format \<Rightarrow> flt \<Rightarrow> flt" where
  "f_convert fmt (Fin q) = (if q = 0 then Fin 0 else round_to fmt q)"
| "f_convert fmt x = x"

text \<open>Conversion to \<open>int\<close> truncates; a value that does not fit is undefined behaviour.\<close>

definition truncate_rat :: "rat \<Rightarrow> int" where
  "truncate_rat q = (if q < 0 then - \<lfloor>- q\<rfloor> else \<lfloor>q\<rfloor>)"

definition fits_int :: "int \<Rightarrow> bool" where
  "fits_int i \<longleftrightarrow> - (2 ^ 31) \<le> i \<and> i < 2 ^ 31"

definition f_to_int :: "flt \<Rightarrow> int option" where
  "f_to_int x =
     (if is_finite x \<and> fits_int (truncate_rat (finite_value x))
      then Some (truncate_rat (finite_value x)) else None)"

definition next_bit :: "int \<Rightarrow> int \<Rightarrow> int" where
  "next_bit n r = (if (r + 1) * (r + 1) \<le> n then r + 1 else r)"

function isqrt :: "int \<Rightarrow> int" where
  "isqrt n = (if n \<le> 0 then 0 else next_bit n (2 * isqrt (n div 4)))"
  by pat_completeness auto
termination
  by (relation "measure nat") auto

declare isqrt.simps [simp del]

lemma isqrt_correct: "0 \<le> n \<Longrightarrow> 0 \<le> isqrt n \<and> isqrt n * isqrt n \<le> n \<and> n < (isqrt n + 1) * (isqrt n + 1)"
proof (induction n rule: isqrt.induct)
  case (1 n)
  show ?case
  proof (cases "n = 0")
    case True
    then show ?thesis by (simp add: isqrt.simps [of 0])
  next
    case False
    define r where "r = isqrt (n div 4)"
    have ih: "0 \<le> r" "r * r \<le> n div 4" "n div 4 < (r + 1) * (r + 1)"
      using 1 False by (auto simp: r_def)
    have "4 * (r * r) \<le> n" "n < 4 * ((r + 1) * (r + 1))" using ih by linarith+
    then show ?thesis
      using False ih(1) 1 unfolding isqrt.simps [of n] r_def [symmetric] next_bit_def
      by (simp add: algebra_simps)
  qed
qed

text \<open>
  The root of \<open>q\<close> to the nearest multiple of \<open>2 ^ e\<close>: \<open>t = q / 4 ^ e\<close>, and \<open>s\<close> the integer
  root of its floor.
\<close>

definition sqrt_parts :: "rat \<Rightarrow> int \<Rightarrow> int" where
  "sqrt_parts t s =
     (if t < (of_int s + 1 / 2) * (of_int s + 1 / 2) then s
      else if (of_int s + 1 / 2) * (of_int s + 1 / 2) < t then s + 1
      else if even s then s else s + 1)"

definition sqrt_unit :: "rat \<Rightarrow> int \<Rightarrow> rat" where
  "sqrt_unit q e = of_int (sqrt_parts (q / pow2 (2 * e)) (isqrt \<lfloor>q / pow2 (2 * e)\<rfloor>)) * pow2 e"

definition sqrt_mag :: "format \<Rightarrow> rat \<Rightarrow> rat" where
  "sqrt_mag fmt q = sqrt_unit q (max (unit_exp fmt) (ilog2 q div 2 - int (precision fmt) + 1))"

fun f_sqrt :: "format \<Rightarrow> flt \<Rightarrow> flt" where
  "f_sqrt fmt (Fin q) = (if q = 0 then Fin 0 else if q < 0 then NaN else Fin (sqrt_mag fmt q))"
| "f_sqrt fmt NegZero = NegZero"
| "f_sqrt fmt (Infinity b) = (if b then NaN else Infinity False)"
| "f_sqrt fmt NaN = NaN"

text \<open>The largest finite number of \<^const>\<open>binary32\<close>, \<open>FLT_MAX\<close>.\<close>

definition flt_max :: flt where
  "flt_max = Fin ((2 ^ 24 - 1) * 2 ^ 104)"

section \<open>Order\<close>

definition f_le :: "flt \<Rightarrow> flt \<Rightarrow> bool" where
  "f_le x y \<longleftrightarrow> x \<noteq> NaN \<and> y \<noteq> NaN \<and> \<not> f_lt y x"

lemma f_lt_irrefl [simp]: "\<not> f_lt x x"
  by (cases x) auto

lemma f_lt_NaN [simp]: "\<not> f_lt x NaN"
  by (cases x) auto

lemma f_lt_imp_le: "f_lt x y \<Longrightarrow> f_le x y"
  by (cases x; cases y) (auto simp: f_le_def)

lemma f_lt_trans: "f_lt x y \<Longrightarrow> f_lt y z \<Longrightarrow> f_lt x z"
  by (cases x; cases y; cases z) (auto split: if_splits)

lemma f_le_trans: "f_le x y \<Longrightarrow> f_le y z \<Longrightarrow> f_le x z"
  by (cases x; cases y; cases z) (auto simp: f_le_def split: if_splits)

lemma f_lt_le_trans: "f_lt x y \<Longrightarrow> f_le y z \<Longrightarrow> f_lt x z"
  by (cases x; cases y; cases z) (auto simp: f_le_def split: if_splits)

lemma f_le_lt_trans: "f_le x y \<Longrightarrow> f_lt y z \<Longrightarrow> f_lt x z"
  by (cases x; cases y; cases z) (auto simp: f_le_def split: if_splits)

lemma f_le_refl [simp]: "f_le x x \<longleftrightarrow> x \<noteq> NaN"
  by (simp add: f_le_def)

section \<open>Signs\<close>

lemma round_mag_abs_uminus: "round_mag fmt \<bar>- q\<bar> = round_mag fmt \<bar>q\<bar>"
  by simp

lemma round_to_uminus: "q \<noteq> 0 \<Longrightarrow> round_to fmt (- q) = f_neg (round_to fmt q)"
  using round_mag_nonneg [of "\<bar>q\<bar>" fmt]
  by (auto simp: round_to_def with_sign_def signed_zero_def not_less)

lemma f_neg_neg [simp]: "f_neg (f_neg x) = x"
  by (cases x) auto

lemma is_negative_neg [simp]: "x \<noteq> NaN \<Longrightarrow> is_negative (f_neg x) \<longleftrightarrow> \<not> is_negative x"
  by (cases x) auto

lemma f_mul_neg_neg: "f_mul fmt (f_neg x) (f_neg x) = f_mul fmt x x"
  by (cases x) (auto simp: is_zero_def signed_round_def)

lemma finite_value_neg [simp]: "finite_value (f_neg x) = - finite_value x"
  by (cases x) auto

lemma is_finite_neg [simp]: "is_finite (f_neg x) = is_finite x"
  by (cases x) auto

lemma f_add_finite:
  "is_finite x \<Longrightarrow> is_finite y \<Longrightarrow> f_add fmt x y =
     (if x = NegZero \<and> y = NegZero then NegZero else round_to fmt (finite_value x + finite_value y))"
  by (cases x; cases y) auto

lemma f_neg_eq_NegZero [simp]: "f_neg x = NegZero \<longleftrightarrow> x = Fin 0"
  by (cases x) auto

lemma f_sub_finite:
  assumes "is_finite x" "is_finite y"
  shows "if finite_value x = finite_value y then is_zero (f_sub fmt x y)
         else f_sub fmt x y = round_to fmt (finite_value x - finite_value y)"
  using assms by (auto simp: f_sub_def f_add_finite is_zero_def)

lemma f_sub_swap:
  "f_sub fmt y x = f_neg (f_sub fmt x y) \<or> is_zero (f_sub fmt x y) \<and> is_zero (f_sub fmt y x)"
proof (cases "is_finite x \<and> is_finite y")
  case True
  then show ?thesis
    using f_sub_finite [of x y fmt] f_sub_finite [of y x fmt]
      round_to_uminus [of "finite_value x - finite_value y" fmt]
    by (auto split: if_splits)
next
  case False
  then show ?thesis by (cases x; cases y) (auto simp: f_sub_def)
qed

lemma f_mul_zero: "is_zero x \<Longrightarrow> f_mul fmt x x = Fin 0"
  by (cases x) (auto simp: is_zero_def signed_round_def signed_zero_def)

text \<open>The square of a difference does not depend on its direction.\<close>

lemma f_sub_square_swap:
  "f_mul fmt (f_sub fmt x y) (f_sub fmt x y) = f_mul fmt (f_sub fmt y x) (f_sub fmt y x)"
  using f_sub_swap [of fmt y x] f_mul_zero f_mul_neg_neg by metis

lemma f_sub_self_square: "is_finite x \<Longrightarrow> f_mul fmt (f_sub fmt x x) (f_sub fmt x x) = Fin 0"
  using f_sub_finite [of x x fmt] by (simp add: f_mul_zero)

text \<open>Values at least (positive) zero, infinity included.\<close>

fun f_nonneg :: "flt \<Rightarrow> bool" where
  "f_nonneg (Fin q) = (0 \<le> q)"
| "f_nonneg (Infinity b) = (\<not> b)"
| "f_nonneg x = False"

lemma round_to_nonneg: "0 \<le> q \<Longrightarrow> f_nonneg (round_to fmt q)"
  using round_mag_nonneg [of q fmt] by (auto simp: round_to_def with_sign_def signed_zero_def)

lemma f_mul_self_nonneg: "x \<noteq> NaN \<Longrightarrow> f_nonneg (f_mul fmt x x)"
  by (cases x) (auto simp: is_zero_def signed_round_def signed_zero_def round_to_nonneg)

lemma f_add_nonneg: "f_nonneg x \<Longrightarrow> f_nonneg y \<Longrightarrow> f_nonneg (f_add fmt x y)"
  by (cases x; cases y) (auto simp: round_to_nonneg)

text \<open>Rounding is monotone in the order of the numbers.\<close>

lemma finite_value_round_mono:
  assumes "wf_format fmt" "q \<le> r"
  shows "f_le (round_to fmt q) (round_to fmt r)"
proof -
  have p: "0 < precision fmt" using assms(1) by (simp add: wf_format_def)
  note nn = round_mag_nonneg [of "\<bar>q\<bar>" fmt] round_mag_nonneg [of "\<bar>r\<bar>" fmt]
  consider "0 \<le> q" | "q < 0" "0 \<le> r" | "r < 0" by linarith
  then show ?thesis
  proof cases
    case 1
    then have "round_mag fmt \<bar>q\<bar> \<le> round_mag fmt \<bar>r\<bar>" using assms p by (simp add: round_mag_mono)
    then show ?thesis
      using 1 assms nn by (auto simp: round_to_def with_sign_def signed_zero_def f_le_def not_less)
  next
    case 2
    then show ?thesis
      using nn by (auto simp: round_to_def with_sign_def signed_zero_def f_le_def not_less)
  next
    case 3
    then have "round_mag fmt \<bar>r\<bar> \<le> round_mag fmt \<bar>q\<bar>" using assms p by (simp add: round_mag_mono)
    then show ?thesis
      using 3 assms nn by (auto simp: round_to_def with_sign_def signed_zero_def f_le_def not_less)
  qed
qed

end
