(* ===== verification/Kmeans_Rmse.thy ===== *)
theory Kmeans_Rmse
  imports Floats
begin

text \<open>
  \<open>cl_testbench/kmeans/rmse.c\<close>: squared distances, the nearest of a list of points, and the
  root mean squared error of a clustering.  A row of features is a list of \<open>binary32\<close> numbers;
  rows are read with a bounds check.  \<^const>\<open>None\<close> is undefined behaviour; in
  \<open>find_nearest_point\<close> that includes the use of \<open>index\<close> before it has been assigned.
\<close>

section \<open>The functions\<close>

definition dist_step :: "flt list \<Rightarrow> flt list \<Rightarrow> nat \<Rightarrow> flt \<Rightarrow> flt option" where
  "dist_step pt1 pt2 i ans =
     do {
       a \<leftarrow> arg_at pt1 i;
       b \<leftarrow> arg_at pt2 i;
       Some (f_add binary32 ans (f_mul binary32 (f_sub binary32 a b) (f_sub binary32 a b)))
     }"

definition euclid_dist_2 :: "flt list \<Rightarrow> flt list \<Rightarrow> nat \<Rightarrow> flt option" where
  "euclid_dist_2 pt1 pt2 numdims = for_loop 0 numdims (dist_step pt1 pt2) (Fin 0)"

text \<open>The state of the loop is \<open>(index, max_dist)\<close>; \<^const>\<open>None\<close> is the unassigned index.\<close>

definition nearest_step ::
  "flt list \<Rightarrow> nat \<Rightarrow> flt list list \<Rightarrow> nat \<Rightarrow> nat option \<times> flt \<Rightarrow> (nat option \<times> flt) option" where
  "nearest_step pt nfeatures pts i acc =
     (let (index, max_dist) = acc in
      do {
        p \<leftarrow> arg_at pts i;
        dist \<leftarrow> euclid_dist_2 pt p nfeatures;
        Some (if f_lt dist max_dist then (Some i, dist) else (index, max_dist))
      })"

definition find_nearest_point :: "flt list \<Rightarrow> nat \<Rightarrow> flt list list \<Rightarrow> nat \<Rightarrow> nat option" where
  "find_nearest_point pt nfeatures pts npts =
     do {
       (index, max_dist) \<leftarrow> for_loop 0 npts (nearest_step pt nfeatures pts) (None, flt_max);
       index
     }"

definition rms_step :: "flt list list \<Rightarrow> nat \<Rightarrow> flt list list \<Rightarrow> nat \<Rightarrow> nat \<Rightarrow> flt \<Rightarrow> flt option" where
  "rms_step feature nfeatures cluster_centres nclusters i sum_euclid =
     do {
       pt \<leftarrow> arg_at feature i;
       nearest_cluster_index \<leftarrow> find_nearest_point pt nfeatures cluster_centres nclusters;
       centre \<leftarrow> arg_at cluster_centres nearest_cluster_index;
       d \<leftarrow> euclid_dist_2 pt centre nfeatures;
       Some (f_add binary32 sum_euclid d)
     }"

text \<open>\<open>sqrt\<close> is the function on \<open>double\<close>; its result is converted to \<open>float\<close>.\<close>

definition root_mean :: "flt \<Rightarrow> nat \<Rightarrow> flt" where
  "root_mean sum_euclid npoints =
     f_convert binary32 (f_sqrt binary64 (f_convert binary64
       (f_div binary32 sum_euclid (f_of_int binary32 (int npoints)))))"

definition rms_err :: "flt list list \<Rightarrow> nat \<Rightarrow> nat \<Rightarrow> flt list list \<Rightarrow> nat \<Rightarrow> flt option" where
  "rms_err feature nfeatures npoints cluster_centres nclusters =
     do {
       sum_euclid \<leftarrow>
         for_loop 0 npoints (rms_step feature nfeatures cluster_centres nclusters) (Fin 0);
       Some (root_mean sum_euclid npoints)
     }"

section \<open>Distances\<close>

definition square_diff :: "flt \<Rightarrow> flt \<Rightarrow> flt" where
  "square_diff a b = f_mul binary32 (f_sub binary32 a b) (f_sub binary32 a b)"

text \<open>The distance as a value: the rounded sum, in index order, of the rounded squares.\<close>

definition sq_dist :: "nat \<Rightarrow> flt list \<Rightarrow> flt list \<Rightarrow> flt" where
  "sq_dist n p q = fold (\<lambda>i s. f_add binary32 s (square_diff (p ! i) (q ! i))) [0..<n] (Fin 0)"

lemma euclid_dist_2_eq:
  "n \<le> length p \<Longrightarrow> n \<le> length q \<Longrightarrow> euclid_dist_2 p q n = Some (sq_dist n p q)"
  unfolding euclid_dist_2_def for_loop_def sq_dist_def
  by (rule foldM_Some) (simp add: dist_step_def square_diff_def)

lemma sq_dist_commute: "sq_dist n p q = sq_dist n q p"
  unfolding sq_dist_def square_diff_def by (simp add: f_sub_square_swap)

lemma sq_dist_self:
  "\<forall>i < n. is_finite (p ! i) \<Longrightarrow> sq_dist n p p = Fin 0"
  by (induction n) (simp_all add: sq_dist_def square_diff_def f_sub_self_square)

lemma f_add_NaN [simp]: "f_add fmt x NaN = NaN"
  by (cases x) auto

lemma square_diff_nonneg: "square_diff a b = NaN \<or> f_nonneg (square_diff a b)"
  unfolding square_diff_def using f_mul_self_nonneg by (cases "f_sub binary32 a b") force+

lemma sq_dist_nonneg: "sq_dist n p q = NaN \<or> f_nonneg (sq_dist n p q)"
proof (induction n)
  case 0
  then show ?case by (simp add: sq_dist_def)
next
  case (Suc n)
  then show ?case
    using square_diff_nonneg [of "p ! n" "q ! n"] f_add_nonneg by (auto simp: sq_dist_def)
qed

section \<open>The nearest point\<close>

text \<open>What the loop has found among the first \<open>i\<close> distances.\<close>

definition nearest_so_far :: "(nat \<Rightarrow> flt) \<Rightarrow> nat \<Rightarrow> nat option \<times> flt \<Rightarrow> bool" where
  "nearest_so_far d i acc \<longleftrightarrow>
     (case acc of
        (None, m) \<Rightarrow> m = flt_max \<and> (\<forall>j < i. \<not> f_lt (d j) flt_max)
      | (Some k, m) \<Rightarrow> k < i \<and> m = d k \<and> f_lt (d k) flt_max
          \<and> (\<forall>j < i. \<not> f_lt (d j) (d k)) \<and> (\<forall>j < k. \<not> f_le (d j) (d k)))"

lemma nearest_so_far_step:
  assumes "nearest_so_far d i (index, m)"
  shows "nearest_so_far d (Suc i) (if f_lt (d i) m then (Some i, d i) else (index, m))"
proof (cases "f_lt (d i) m")
  case True
  have beats: "\<not> f_lt (d j) m" if "j < i" for j
    using assms that by (cases index) (auto simp: nearest_so_far_def)
  have "f_lt (d i) flt_max"
    using assms True f_lt_trans by (cases index) (auto simp: nearest_so_far_def)
  moreover have "\<not> f_lt (d j) (d i)" "\<not> f_le (d j) (d i)" if "j < i" for j
    using beats [OF that] True f_lt_trans f_le_lt_trans by blast+
  ultimately show ?thesis using True by (simp add: nearest_so_far_def less_Suc_eq)
next
  case False
  then show ?thesis using assms by (cases index) (auto simp: nearest_so_far_def less_Suc_eq)
qed

lemma nearest_loop:
  assumes "length pt = nf" "shaped n nf pts"
  shows "yields (for_loop 0 n (nearest_step pt nf pts) (None, flt_max))
           (nearest_so_far (\<lambda>i. sq_dist nf pt (pts ! i)) n)"
proof (rule for_loop_yields [where I = "nearest_so_far (\<lambda>i. sq_dist nf pt (pts ! i))"])
  show "nearest_so_far (\<lambda>i. sq_dist nf pt (pts ! i)) 0 (None, flt_max)"
    by (simp add: nearest_so_far_def)
next
  fix i acc
  assume i: "i < n" and I: "nearest_so_far (\<lambda>i. sq_dist nf pt (pts ! i)) i acc"
  obtain index m where acc: "acc = (index, m)" by fastforce
  have "euclid_dist_2 pt (pts ! i) nf = Some (sq_dist nf pt (pts ! i))"
    using assms i by (simp add: euclid_dist_2_eq)
  then show "yields (nearest_step pt nf pts i acc) (nearest_so_far (\<lambda>i. sq_dist nf pt (pts ! i)) (Suc i))"
    using nearest_so_far_step [OF I [unfolded acc]] i assms(2)
    by (simp add: nearest_step_def acc shaped_length)
qed simp

lemma find_nearest_point_cases:
  assumes "length pt = nf" "shaped n nf pts"
  shows "nearest_so_far (\<lambda>i. sq_dist nf pt (pts ! i)) n
     (find_nearest_point pt nf pts n,
      case find_nearest_point pt nf pts n of None \<Rightarrow> flt_max | Some k \<Rightarrow> sq_dist nf pt (pts ! k))"
proof -
  obtain index m where l: "for_loop 0 n (nearest_step pt nf pts) (None, flt_max) = Some (index, m)"
      "nearest_so_far (\<lambda>i. sq_dist nf pt (pts ! i)) n (index, m)"
    using yields_ex [OF nearest_loop [OF assms]] by auto
  then show ?thesis by (cases index) (auto simp: find_nearest_point_def nearest_so_far_def)
qed

section \<open>The error of a clustering\<close>

text \<open>The index the code finds, as a total function.\<close>

definition nearest :: "nat \<Rightarrow> flt list list \<Rightarrow> nat \<Rightarrow> flt list \<Rightarrow> nat" where
  "nearest nf pts n pt = (case find_nearest_point pt nf pts n of None \<Rightarrow> 0 | Some k \<Rightarrow> k)"

definition has_nearest :: "nat \<Rightarrow> flt list list \<Rightarrow> nat \<Rightarrow> flt list \<Rightarrow> bool" where
  "has_nearest nf pts n pt \<longleftrightarrow> (\<exists>k < n. f_lt (sq_dist nf pt (pts ! k)) flt_max)"

lemma has_nearest_iff:
  assumes "length pt = nf" "shaped n nf pts"
  shows "find_nearest_point pt nf pts n \<noteq> None \<longleftrightarrow> has_nearest nf pts n pt"
  using find_nearest_point_cases [OF assms]
  by (cases "find_nearest_point pt nf pts n") (auto simp: nearest_so_far_def has_nearest_def)

lemma rms_err_eq:
  assumes "shaped np nf feature" "shaped nc nf cs" "\<forall>pt \<in> set feature. has_nearest nf cs nc pt"
  shows "rms_err feature nf np cs nc =
    Some (root_mean (fold (\<lambda>i s. f_add binary32 s
      (sq_dist nf (feature ! i) (cs ! nearest nf cs nc (feature ! i)))) [0..<np] (Fin 0)) np)"
proof -
  have "for_loop 0 np (rms_step feature nf cs nc) (Fin 0)
    = Some (fold (\<lambda>i s. f_add binary32 s
        (sq_dist nf (feature ! i) (cs ! nearest nf cs nc (feature ! i)))) [0..<np] (Fin 0))"
    unfolding for_loop_def
  proof (rule foldM_Some)
    fix i s assume "i \<in> set [0..<np]"
    then have i: "i < length feature" "i < np" using shaped_length [OF assms(1)] by auto
    have len: "length (feature ! i) = nf" using assms(1) i by simp
    obtain k where k: "find_nearest_point (feature ! i) nf cs nc = Some k"
      using has_nearest_iff [OF len assms(2)] assms(3) i nth_mem by fastforce
    have "k < nc" using find_nearest_point_cases [OF len assms(2)] k by (simp add: nearest_so_far_def)
    then show "rms_step feature nf cs nc i s
        = Some (f_add binary32 s (sq_dist nf (feature ! i) (cs ! nearest nf cs nc (feature ! i))))"
      using i k len assms(2) by (simp add: rms_step_def nearest_def euclid_dist_2_eq shaped_length)
  qed
  then show ?thesis by (simp add: rms_err_def)
qed

lemma f_of_int_pos:
  assumes "0 < n"
  shows "f_le (Fin 1) (f_of_int binary32 (int n))"
proof -
  have "round_to binary32 1 = Fin 1" by code_simp
  then show ?thesis
    using finite_value_round_mono [of binary32 1 "of_int (int n)"] assms
    by (simp add: f_of_int_def Suc_leI)
qed

lemma root_mean_0: "0 < n \<Longrightarrow> root_mean (Fin 0) n = Fin 0"
proof -
  assume "0 < n"
  then have "f_div binary32 (Fin 0) (f_of_int binary32 (int n)) = Fin 0"
    using f_of_int_pos [of n]
    by (cases "f_of_int binary32 (int n)")
      (auto simp: f_le_def signed_round_def signed_zero_def split: if_splits)
  then show ?thesis by (simp add: root_mean_def)
qed

lemma zero_distance_nearest:
  assumes "length pt = nf" "shaped n nf pts" "\<forall>x \<in> set pt. is_finite x" "pt \<in> set pts"
  shows "has_nearest nf pts n pt \<and> sq_dist nf pt (pts ! nearest nf pts n pt) = Fin 0"
proof -
  let ?d = "\<lambda>i. sq_dist nf pt (pts ! i)"
  obtain j where j: "j < n" "pts ! j = pt" using assms(2,4) by (auto simp: in_set_conv_nth shaped_def)
  have dj: "?d j = Fin 0" using sq_dist_self assms(1,3) j(2) by simp
  have max: "f_lt (Fin 0) flt_max" by (simp add: flt_max_def)
  then have has: "has_nearest nf pts n pt" using j dj by (auto simp: has_nearest_def)
  then obtain k where k: "find_nearest_point pt nf pts n = Some k"
    using has_nearest_iff [OF assms(1,2)] by auto
  have "f_lt (?d k) flt_max" "\<not> f_lt (Fin 0) (?d k)"
    using find_nearest_point_cases [OF assms(1,2)] k j(1) dj by (auto simp: nearest_so_far_def)
  then have "?d k = Fin 0"
    using sq_dist_nonneg [of nf pt "pts ! k"] by (cases "?d k") auto
  then show ?thesis using has k by (simp add: nearest_def)
qed

lemma rms_err_of_centres:
  assumes "shaped np nf feature" "shaped nc nf cs" "0 < np"
    and "\<forall>pt \<in> set feature. pt \<in> set cs \<and> (\<forall>x \<in> set pt. is_finite x)"
  shows "rms_err feature nf np cs nc = Some (Fin 0)"
proof -
  have z: "has_nearest nf cs nc pt \<and> sq_dist nf pt (cs ! nearest nf cs nc pt) = Fin 0"
    if "pt \<in> set feature" for pt
    using zero_distance_nearest [of pt nf nc cs] assms(1,2,4) that by (auto simp: shaped_def)
  have "fold (\<lambda>i s. f_add binary32 s (sq_dist nf (feature ! i) (cs ! nearest nf cs nc (feature ! i))))
      [0..<n] (Fin 0) = Fin 0" if "n \<le> np" for n
    using that
  proof (induction n)
    case (Suc n)
    then have "feature ! n \<in> set feature" using assms(1) by (simp add: shaped_def)
    then show ?case using Suc z by simp
  qed simp
  then show ?thesis using rms_err_eq [OF assms(1,2)] z root_mean_0 [OF assms(3)] by simp
qed

end
