(* ===== verification/Kmeans_Kernel.thy ===== *)
theory Kmeans_Kernel
  imports Kmeans_Rmse
begin

text \<open>
  The device side of the clustering, \<open>cl_testbench/kmeans/kmeans.cl\<close>.  A buffer is a flat list
  read and written with a bounds check; a kernel is what one work item does to the buffer it
  writes.  A launch runs the work items \<open>0 .. global - 1\<close> in the order of a schedule that the
  runtime chooses.  The arithmetic is \<open>binary32\<close> as written, without contraction or flushing
  of subnormals.
\<close>

section \<open>The kernels\<close>

definition kernel_dist_step ::
  "flt list \<Rightarrow> flt list \<Rightarrow> nat \<Rightarrow> nat \<Rightarrow> nat \<Rightarrow> nat \<Rightarrow> nat \<Rightarrow> flt \<Rightarrow> flt option" where
  "kernel_dist_step feature clusters npoints nfeatures point_id i l ans =
     do {
       a \<leftarrow> arg_at feature (l * npoints + point_id);
       b \<leftarrow> arg_at clusters (i * nfeatures + l);
       Some (f_add binary32 ans (f_mul binary32 (f_sub binary32 a b) (f_sub binary32 a b)))
     }"

definition kernel_nearest_step ::
  "flt list \<Rightarrow> flt list \<Rightarrow> nat \<Rightarrow> nat \<Rightarrow> nat \<Rightarrow> nat \<Rightarrow> nat \<times> flt \<Rightarrow> (nat \<times> flt) option" where
  "kernel_nearest_step feature clusters npoints nfeatures point_id i acc =
     (let (index, min_dist) = acc in
      do {
        dist \<leftarrow> for_loop 0 nfeatures
                  (kernel_dist_step feature clusters npoints nfeatures point_id i) (Fin 0);
        Some (if f_lt dist min_dist then (i, dist) else (index, min_dist))
      })"

definition kmeans_kernel_c :: "flt list \<Rightarrow> flt list \<Rightarrow> nat \<Rightarrow> nat \<Rightarrow> nat \<Rightarrow> nat \<Rightarrow> int list \<Rightarrow>
    int list option" where
  "kmeans_kernel_c feature clusters npoints nclusters nfeatures point_id membership =
     (if point_id < npoints then
        do {
          (index, min_dist) \<leftarrow> for_loop 0 nclusters
             (kernel_nearest_step feature clusters npoints nfeatures point_id) (0, flt_max);
          set_at membership point_id (int index)
        }
      else Some membership)"

definition kmeans_swap :: "flt list \<Rightarrow> nat \<Rightarrow> nat \<Rightarrow> nat \<Rightarrow> flt list \<Rightarrow> flt list option" where
  "kmeans_swap feature npoints nfeatures tid feature_swap =
     (if tid < npoints then
        for_loop 0 nfeatures
          (\<lambda>i m. do { x \<leftarrow> arg_at feature (tid * nfeatures + i); set_at m (i * npoints + tid) x })
          feature_swap
      else Some feature_swap)"

section \<open>Launches\<close>

text \<open>The host rounds the number of work items up to whole work groups (in \<open>kmeans.cpp\<close>).\<close>

definition global_work_size :: "nat \<Rightarrow> nat \<Rightarrow> nat" where
  "global_work_size n local_work_size =
     (if n mod local_work_size \<noteq> 0 then (n div local_work_size + 1) * local_work_size else n)"

lemma global_work_size_bounds:
  assumes "0 < w"
  shows "n \<le> global_work_size n w \<and> global_work_size n w < n + w \<and> w dvd global_work_size n w"
proof -
  have n: "n = n div w * w + n mod w" by simp
  have m: "n mod w < w" using assms by simp
  show ?thesis
  proof (cases "n mod w = 0")
    case True
    then show ?thesis using assms by (simp add: global_work_size_def mod_eq_0_iff_dvd)
  next
    case False
    have "(n div w + 1) * w = n div w * w + w" by simp
    then have "n \<le> (n div w + 1) * w \<and> (n div w + 1) * w < n + w"
      using n m False by linarith
    then show ?thesis using False by (simp add: global_work_size_def del: add_mult_distrib mult_Suc)
  qed
qed

text \<open>A schedule runs every work item once, in any order.\<close>

definition is_schedule :: "nat \<Rightarrow> nat list \<Rightarrow> bool" where
  "is_schedule global sched \<longleftrightarrow> mset sched = mset [0..<global]"

lemma is_schedule_set: "is_schedule g sched \<Longrightarrow> set sched = {0..<g} \<and> distinct sched"
  by (metis atLeastLessThan_upt distinct_upt is_schedule_def mset_eq_imp_distinct_iff set_mset_mset)

text \<open>
  The contract of a data-parallel kernel: under the arguments \<open>p\<close> the work item \<open>t\<close> writes
  the slots it owns with values that do not depend on the buffer, and leaves the others alone.
  Then a launch fills every slot whose owner runs, whatever the schedule.
\<close>

locale slotted_kernel =
  fixes kern :: "'p \<Rightarrow> nat \<Rightarrow> 'm list \<Rightarrow> 'm list option"
    and ok :: "'p \<Rightarrow> bool"
    and slots :: "'p \<Rightarrow> nat"
    and owner :: "'p \<Rightarrow> nat \<Rightarrow> nat"
    and slot_value :: "'p \<Rightarrow> nat \<Rightarrow> 'm"
  assumes item: "ok p \<Longrightarrow> length m = slots p \<Longrightarrow>
      \<exists>m'. kern p t m = Some m' \<and> length m' = slots p
        \<and> (\<forall>k < slots p. m' ! k = (if owner p k = t then slot_value p k else m ! k))"
begin

lemma items:
  assumes "ok p" "length m = slots p"
  shows "\<exists>m'. foldM (kern p) ts m = Some m' \<and> length m' = slots p
    \<and> (\<forall>k < slots p. m' ! k = (if owner p k \<in> set ts then slot_value p k else m ! k))"
  using assms(2)
proof (induction ts arbitrary: m)
  case Nil
  then show ?case by simp
next
  case (Cons t ts)
  obtain m1 where m1: "kern p t m = Some m1" "length m1 = slots p"
      "\<forall>k < slots p. m1 ! k = (if owner p k = t then slot_value p k else m ! k)"
    using item [OF assms(1) Cons.prems, of t] by auto
  obtain m2 where m2: "foldM (kern p) ts m1 = Some m2" "length m2 = slots p"
      "\<forall>k < slots p. m2 ! k = (if owner p k \<in> set ts then slot_value p k else m1 ! k)"
    using Cons.IH [OF m1(2)] by auto
  have "m2 ! k = (if owner p k \<in> set (t # ts) then slot_value p k else m ! k)" if "k < slots p" for k
    using m1(3) m2(3) that by simp
  then show ?case using m1(1) m2(1,2) by auto
qed

lemma launch:
  assumes "ok p" "length m = slots p" "is_schedule global sched" "\<And>k. k < slots p \<Longrightarrow> owner p k < global"
  shows "foldM (kern p) sched m = Some (map (slot_value p) [0..<slots p])"
proof -
  obtain m' where m': "foldM (kern p) sched m = Some m'" "length m' = slots p"
      "\<forall>k < slots p. m' ! k = (if owner p k \<in> set sched then slot_value p k else m ! k)"
    using items [OF assms(1,2)] by blast
  moreover have "m' = map (slot_value p) [0..<slots p]"
    using m' assms(4) is_schedule_set [OF assms(3)] by (intro nth_equalityI) auto
  ultimately show ?thesis by simp
qed

end

section \<open>The swap kernel transposes\<close>

type_synonym swap_args = "flt list list \<times> nat \<times> nat"

definition swap_item :: "swap_args \<Rightarrow> nat \<Rightarrow> flt list \<Rightarrow> flt list option" where
  "swap_item p = (case p of (rows, npoints, nfeatures) \<Rightarrow> kmeans_swap (concat rows) npoints nfeatures)"

definition swap_ok :: "swap_args \<Rightarrow> bool" where
  "swap_ok p = (case p of (rows, npoints, nfeatures) \<Rightarrow> shaped npoints nfeatures rows)"

definition swap_slots :: "swap_args \<Rightarrow> nat" where
  "swap_slots p = (case p of (rows, npoints, nfeatures) \<Rightarrow> nfeatures * npoints)"

definition swap_owner :: "swap_args \<Rightarrow> nat \<Rightarrow> nat" where
  "swap_owner p k = (case p of (rows, npoints, nfeatures) \<Rightarrow> k mod npoints)"

definition swap_value :: "swap_args \<Rightarrow> nat \<Rightarrow> flt" where
  "swap_value p k = (case p of (rows, npoints, nfeatures) \<Rightarrow> rows ! (k mod npoints) ! (k div npoints))"

lemma swap_loop_item:
  assumes "shaped np nf rows" "t < np" "length m = nf * np" "n \<le> nf"
  shows "\<exists>m'. for_loop 0 n
      (\<lambda>i m. do { x \<leftarrow> arg_at (concat rows) (t * nf + i); set_at m (i * np + t) x }) m = Some m'
    \<and> length m' = nf * np
    \<and> (\<forall>k < nf * np. m' ! k =
        (if k mod np = t \<and> k div np < n then rows ! t ! (k div np) else m ! k))"
  using assms(4)
proof (induction n)
  case 0
  then show ?case using assms(3) by simp
next
  case (Suc n)
  then obtain m' where m': "for_loop 0 n
      (\<lambda>i m. do { x \<leftarrow> arg_at (concat rows) (t * nf + i); set_at m (i * np + t) x }) m = Some m'"
      "length m' = nf * np" "\<forall>k < nf * np. m' ! k =
        (if k mod np = t \<and> k div np < n then rows ! t ! (k div np) else m ! k)" by auto
  have r: "t * nf + n < np * nf" "n * np + t < nf * np"
    using flat_index_bound assms(2) Suc.prems by simp_all
  have e: "n * np + t = k \<longleftrightarrow> k mod np = t \<and> k div np = n" for k
    using assms(2) by (metis add.commute div_mult_mod_eq div_mult_self3 div_less mod_less
        mod_mult_self3 add.left_neutral less_nat_zero_code)
  let ?m = "m'[n * np + t := rows ! t ! n]"
  have "?m ! k = (if k mod np = t \<and> k div np < Suc n then rows ! t ! (k div np) else m ! k)"
    if "k < nf * np" for k
    using m'(3) that e [of k] m'(2) by (cases "n * np + t = k") (auto simp: less_Suc_eq)
  moreover have "for_loop 0 (Suc n)
      (\<lambda>i m. do { x \<leftarrow> arg_at (concat rows) (t * nf + i); set_at m (i * np + t) x }) m = Some ?m"
    using m'(1,2) r assms(1,2) Suc.prems
    by (simp add: for_loop_last length_concat_shaped concat_nth_shaped)
  ultimately show ?case using m'(2) by auto
qed

interpretation swap: slotted_kernel swap_item swap_ok swap_slots swap_owner swap_value
proof
  fix p t and m :: "flt list"
  assume ok: "swap_ok p" and len: "length m = swap_slots p"
  obtain rows np nf where p: "p = (rows, np, nf)" by (cases p) auto
  show "\<exists>m'. swap_item p t m = Some m' \<and> length m' = swap_slots p
    \<and> (\<forall>k < swap_slots p. m' ! k = (if swap_owner p k = t then swap_value p k else m ! k))"
  proof (cases "t < np")
    case True
    have "k div np < nf" if "k < nf * np" for k
      using that by (simp add: less_mult_imp_div_less)
    then show ?thesis
      using swap_loop_item [of np nf rows t m nf] ok len True
      by (auto simp: p swap_ok_def swap_slots_def swap_item_def swap_owner_def swap_value_def
          kmeans_swap_def)
  next
    case False
    then show ?thesis
      using len by (auto simp: p swap_slots_def swap_item_def swap_owner_def kmeans_swap_def)
        (metis less_nat_zero_code mod_less_divisor mult_0_right not_gr_zero)
  qed
qed

section \<open>The clustering kernel finds the nearest centre\<close>

type_synonym near_args = "flt list \<times> flt list list \<times> nat \<times> nat \<times> nat"

definition near_item :: "near_args \<Rightarrow> nat \<Rightarrow> int list \<Rightarrow> int list option" where
  "near_item p = (case p of (feature, clusters, npoints, nclusters, nfeatures) \<Rightarrow>
     kmeans_kernel_c feature (concat clusters) npoints nclusters nfeatures)"

definition near_ok :: "near_args \<Rightarrow> bool" where
  "near_ok p = (case p of (feature, clusters, npoints, nclusters, nfeatures) \<Rightarrow>
     length feature = nfeatures * npoints \<and> shaped nclusters nfeatures clusters)"

definition near_slots :: "near_args \<Rightarrow> nat" where
  "near_slots p = (case p of (feature, clusters, npoints, nclusters, nfeatures) \<Rightarrow> npoints)"

definition near_owner :: "near_args \<Rightarrow> nat \<Rightarrow> nat" where
  "near_owner p k = k"

text \<open>Column \<open>k\<close> of the transposed features.\<close>

definition column :: "nat \<Rightarrow> nat \<Rightarrow> flt list \<Rightarrow> nat \<Rightarrow> flt list" where
  "column nfeatures npoints feature k = map (\<lambda>l. feature ! (l * npoints + k)) [0..<nfeatures]"

definition near_value :: "near_args \<Rightarrow> nat \<Rightarrow> int" where
  "near_value p k = (case p of (feature, clusters, npoints, nclusters, nfeatures) \<Rightarrow>
     int (nearest nfeatures clusters nclusters (column nfeatures npoints feature k)))"

lemma nearest_so_far_unique:
  assumes "nearest_so_far d n (ix, m)" "nearest_so_far d n (ix', m')"
  shows "ix = ix'"
proof -
  have no: "\<not> k < k'" if "nearest_so_far d n (Some k, m)" "nearest_so_far d n (Some k', m')" for k k' m m'
    using that by (auto simp: nearest_so_far_def f_le_def)
  show ?thesis
  proof (cases ix; cases ix')
    fix k k' assume "ix = Some k" "ix' = Some k'"
    then show ?thesis using no assms by (metis linorder_neqE_nat)
  qed (use assms in \<open>auto simp: nearest_so_far_def\<close>)
qed

lemma kernel_dist_eq:
  assumes "length feature = nf * np" "shaped nc nf cs" "t < np" "i < nc"
  shows "for_loop 0 nf (kernel_dist_step feature (concat cs) np nf t i) (Fin 0)
    = Some (sq_dist nf (column nf np feature t) (cs ! i))"
  unfolding for_loop_def sq_dist_def
proof (rule foldM_Some)
  fix l s assume "l \<in> set [0..<nf]"
  then have l: "l < nf" by simp
  have "l * np + t < nf * np" "i * nf + l < nc * nf"
    using flat_index_bound assms(3,4) l by simp_all
  then show "kernel_dist_step feature (concat cs) np nf t i l s
      = Some (f_add binary32 s (square_diff (column nf np feature t ! l) (cs ! i ! l)))"
    using assms l
    by (simp add: kernel_dist_step_def square_diff_def column_def length_concat_shaped
        concat_nth_shaped)
qed

lemma kernel_nearest:
  assumes "length feature = nf * np" "shaped nc nf cs" "t < np"
  shows "\<exists>m. for_loop 0 nc (kernel_nearest_step feature (concat cs) np nf t) (0, flt_max)
    = Some (nearest nf cs nc (column nf np feature t), m)"
proof -
  let ?d = "\<lambda>i. sq_dist nf (column nf np feature t) (cs ! i)"
  let ?I = "\<lambda>i (index, m). \<exists>ix. nearest_so_far ?d i (ix, m) \<and> index = (case ix of None \<Rightarrow> 0 | Some k \<Rightarrow> k)"
  have "yields (for_loop 0 nc (kernel_nearest_step feature (concat cs) np nf t) (0, flt_max)) (?I nc)"
  proof (rule for_loop_yields [where I = ?I])
    show "?I 0 (0, flt_max)"
      by (auto simp: nearest_so_far_def intro: exI [of _ None])
  next
    fix i acc assume i: "i < nc" and I: "?I i acc"
    obtain index m ix where acc: "acc = (index, m)" "nearest_so_far ?d i (ix, m)"
        "index = (case ix of None \<Rightarrow> 0 | Some k \<Rightarrow> k)" using I by auto
    show "yields (kernel_nearest_step feature (concat cs) np nf t i acc) (?I (Suc i))"
      using nearest_so_far_step [OF acc(2)] kernel_dist_eq [OF assms i] acc(1,3)
      by (auto simp: kernel_nearest_step_def split: if_splits)
  qed simp
  then obtain index m ix where l:
      "for_loop 0 nc (kernel_nearest_step feature (concat cs) np nf t) (0, flt_max) = Some (index, m)"
      "nearest_so_far ?d nc (ix, m)" "index = (case ix of None \<Rightarrow> 0 | Some k \<Rightarrow> k)"
    by (auto dest: yields_ex)
  have "length (column nf np feature t) = nf" by (simp add: column_def)
  then have "ix = find_nearest_point (column nf np feature t) nf cs nc"
    using nearest_so_far_unique [OF l(2) find_nearest_point_cases] assms(2) by blast
  then show ?thesis using l by (simp add: nearest_def)
qed

interpretation near: slotted_kernel near_item near_ok near_slots near_owner near_value
proof
  fix p t and m :: "int list"
  assume ok: "near_ok p" and len: "length m = near_slots p"
  obtain feature cs np nc nf where p: "p = (feature, cs, np, nc, nf)" by (cases p) auto
  have f: "length feature = nf * np" "shaped nc nf cs" "length m = np"
    using ok len by (auto simp: p near_ok_def near_slots_def)
  show "\<exists>m'. near_item p t m = Some m' \<and> length m' = near_slots p
    \<and> (\<forall>k < near_slots p. m' ! k = (if near_owner p k = t then near_value p k else m ! k))"
  proof (cases "t < np")
    case True
    obtain d where "for_loop 0 nc (kernel_nearest_step feature (concat cs) np nf t) (0, flt_max)
        = Some (nearest nf cs nc (column nf np feature t), d)"
      using kernel_nearest [OF f(1,2) True] by blast
    then show ?thesis
      using f(3) True
      by (auto simp: p near_item_def near_slots_def near_owner_def near_value_def
          kmeans_kernel_c_def nth_list_update)
  qed (use f in \<open>auto simp: p near_item_def near_slots_def near_owner_def kmeans_kernel_c_def\<close>)
qed

section \<open>The two launches together\<close>

lemma swap_launch:
  assumes "shaped np nf rows" "length m = nf * np" "is_schedule global sched" "np \<le> global"
  shows "foldM (kmeans_swap (concat rows) np nf) sched m
    = Some (map (\<lambda>k. rows ! (k mod np) ! (k div np)) [0..<nf * np])"
proof -
  have "k mod np < global" if "k < nf * np" for k
    using that assms(4) by (metis less_le_trans mod_less_divisor mult_0_right not_gr_zero not_less_zero)
  then show ?thesis
    using swap.launch [of "(rows, np, nf)" m global sched] assms
    by (simp add: swap_item_def swap_ok_def swap_slots_def swap_owner_def swap_value_def)
qed

lemma column_swapped:
  assumes "shaped np nf rows" "k < np"
  shows "column nf np (map (\<lambda>k. rows ! (k mod np) ! (k div np)) [0..<nf * np]) k = rows ! k"
proof (rule nth_equalityI)
  fix l assume "l < length (column nf np (map (\<lambda>k. rows ! (k mod np) ! (k div np)) [0..<nf * np]) k)"
  then have l: "l < nf" by (simp add: column_def)
  then have "l * np + k < nf * np" using flat_index_bound assms(2) by simp
  then show "column nf np (map (\<lambda>k. rows ! (k mod np) ! (k div np)) [0..<nf * np]) k ! l = rows ! k ! l"
    using assms(2) l by (simp add: column_def)
qed (use assms in \<open>simp add: column_def\<close>)

lemma near_launch:
  assumes "shaped np nf rows" "shaped nc nf cs" "length m = np" "is_schedule global sched" "np \<le> global"
  shows "foldM (kmeans_kernel_c (map (\<lambda>k. rows ! (k mod np) ! (k div np)) [0..<nf * np]) (concat cs) np nc nf)
      sched m = Some (map (\<lambda>pt. int (nearest nf cs nc pt)) rows)"
proof -
  let ?f = "map (\<lambda>k. rows ! (k mod np) ! (k div np)) [0..<nf * np]"
  have "foldM (near_item (?f, cs, np, nc, nf)) sched m = Some (map (near_value (?f, cs, np, nc, nf)) [0..<np])"
    using near.launch [of "(?f, cs, np, nc, nf)" m global sched] assms
    by (simp add: near_ok_def near_slots_def near_owner_def)
  moreover have "map (near_value (?f, cs, np, nc, nf)) [0..<np] = map (\<lambda>pt. int (nearest nf cs nc pt)) rows"
    using assms(1) column_swapped [OF assms(1)]
    by (intro nth_equalityI) (auto simp: near_value_def shaped_length)
  ultimately show ?thesis by (simp add: near_item_def)
qed

end
