(* ===== verification/Kmeans_Host.thy ===== *)
theory Kmeans_Host
  imports Kmeans_Kernel
begin

text \<open>
  The host side of the clustering: \<open>allocate\<close> and \<open>kmeansOCL\<close> of \<open>kmeans.cpp\<close>,
  \<open>kmeans_clustering\<close> of \<open>kmeans_clustering.c\<close> and \<open>cluster\<close> of \<open>cluster.c\<close>.  What the
  OpenCL runtime answers (an error code for each call, the order in which work items run, the
  contents of fresh buffers) is a parameter, a record per sequence of calls.  \<^const>\<open>None\<close> is
  undefined behaviour; sizes and counts are unbounded.
\<close>

section \<open>The device and the runtime\<close>

text \<open>The device buffers and the host array \<open>membership_OCL\<close> (\<^const>\<open>None\<close> before its \<open>malloc\<close>).\<close>

record ocl_device =
  d_feature :: "flt list"
  d_feature_swap :: "flt list"
  d_cluster :: "flt list"
  d_membership :: "int list"
  membership_OCL :: "int list option"

text \<open>
  The answers to the calls of \<open>kmeansOCL\<close>, 0 for \<open>CL_SUCCESS\<close>, and the order in which a
  launch of a given global size runs its work items.
\<close>

record ocl_run =
  write_err :: int
  launch_err :: int
  read_err :: int
  run_schedule :: "nat \<Rightarrow> nat list"

text \<open>
  The answers to the calls of \<open>allocate\<close>, in the order of the calls: reading the source,
  \<open>initialize\<close>, the program and its build, the two kernels, the four buffers, the write and the
  launch; then the contents of fresh memory.  \<open>end_returns\<close> is not the runtime's but the compiler's:
  \<open>allocate\<close> reaches its end without the \<open>return\<close> its type asks for, which C++ leaves undefined, and
  only where the compiled code returns to the caller there is anything to say of what follows.
\<close>

record ocl_setup =
  setup_errs :: "nat \<Rightarrow> int"
  swap_schedule :: "nat \<Rightarrow> nat list"
  junk_flt :: "nat \<Rightarrow> flt"
  junk_int :: "nat \<Rightarrow> int"
  end_returns :: bool

definition write_buffer :: "'a list \<Rightarrow> 'a list \<Rightarrow> 'a list option" where
  "write_buffer buf xs = (if length xs \<le> length buf then Some (xs @ drop (length xs) buf) else None)"

text \<open>The work-group sizes the build passes.\<close>

definition BLOCK_SIZE :: nat where
  "BLOCK_SIZE = 256"

definition BLOCK_SIZE2 :: nat where
  "BLOCK_SIZE2 = 256"

text \<open>
  \<open>allocate\<close>: the first call that fails ends it with \<open>- 1\<close>.  The features are written and the swap
  kernel is launched after the buffers exist.  The end of the function has no \<open>return\<close>: undefined,
  unless the compiled code returns there, and then without a value (\<^const>\<open>None\<close> as the returned
  one; \<open>cluster\<close> does not use it).
\<close>

definition allocate :: "ocl_setup \<Rightarrow> nat \<Rightarrow> nat \<Rightarrow> nat \<Rightarrow> flt list list \<Rightarrow> ocl_device \<Rightarrow>
    (int option \<times> ocl_device) option" where
  "allocate rt n_points n_features n_clusters feature dev =
     (let ok = (\<lambda>k. \<forall>i \<in> set [0..<k]. setup_errs rt i = 0);
          dev1 = (if ok 7 then dev\<lparr>d_feature := map (junk_flt rt) [0..<n_points * n_features]\<rparr> else dev);
          dev2 = (if ok 8 then dev1\<lparr>d_feature_swap := map (junk_flt rt) [0..<n_points * n_features]\<rparr>
                  else dev1);
          dev3 = (if ok 9 then dev2\<lparr>d_cluster := map (junk_flt rt) [0..<n_clusters * n_features]\<rparr>
                  else dev2);
          dev4 = (if ok 10 then dev3\<lparr>d_membership := map (junk_int rt) [0..<n_points]\<rparr> else dev3)
      in if \<not> ok 11 then Some (Some (- 1), dev4)
         else
           do {
             buf \<leftarrow> write_buffer (d_feature dev4) (concat feature);
             dev5 \<leftarrow> Some (dev4\<lparr>d_feature := buf\<rparr>);
             if \<not> ok 12 then Some (Some (- 1), dev5)
             else
               do {
                 sw \<leftarrow> foldM (kmeans_swap buf n_points n_features) 
                   (swap_schedule rt (global_work_size n_points BLOCK_SIZE)) (d_feature_swap dev5);
                 (if end_returns rt
                  then Some (None, dev5\<lparr>d_feature_swap := sw,
                                        membership_OCL := Some (map (junk_int rt) [0..<n_points])\<rparr>)
                  else None)
               }
           })"

section \<open>kmeansOCL\<close>

text \<open>The host arrays that \<open>kmeans_clustering\<close> passes around.\<close>

record km_state =
  membership :: "int list"
  clusters :: "flt list list"
  new_centers_len :: "int list"
  new_centers :: "flt list list"

definition add_row :: "nat \<Rightarrow> flt list \<Rightarrow> flt list \<Rightarrow> flt list option" where
  "add_row n_features pt row =
     for_loop 0 n_features
       (\<lambda>j row. do {
          x \<leftarrow> arg_at row j;
          y \<leftarrow> arg_at pt j;
          set_at row j (f_add binary32 x y)
        }) row"

definition accumulate_step :: "flt list list \<Rightarrow> nat \<Rightarrow> int list \<Rightarrow> nat \<Rightarrow> int \<times> km_state \<Rightarrow>
    (int \<times> km_state) option" where
  "accumulate_step feature n_features mocl i acc =
     (let (delta, st) = acc in
      do {
        cluster_id \<leftarrow> arg_at mocl i;
        if cluster_id < 0 then None
        else
          do {
            n \<leftarrow> arg_at (new_centers_len st) (nat cluster_id);
            lens \<leftarrow> set_at (new_centers_len st) (nat cluster_id) (n + 1);
            old \<leftarrow> arg_at (membership st) i;
            pt \<leftarrow> arg_at feature i;
            row \<leftarrow> arg_at (new_centers st) (nat cluster_id);
            row1 \<leftarrow> add_row n_features pt row;
            Some (if cluster_id \<noteq> old then delta + 1 else delta,
                  st\<lparr>new_centers_len := lens,
                     membership := (if cluster_id \<noteq> old then (membership st)[i := cluster_id]
                                    else membership st),
                     new_centers := (new_centers st)[nat cluster_id := row1]\<rparr>)
          }
      })"

definition kmeansOCL :: "ocl_run \<Rightarrow> flt list list \<Rightarrow> nat \<Rightarrow> nat \<Rightarrow> nat \<Rightarrow> km_state \<Rightarrow> ocl_device \<Rightarrow>
    (int \<times> km_state \<times> ocl_device) option" where
  "kmeansOCL rt feature n_features n_points n_clusters st dev =
     (if write_err rt \<noteq> 0 then Some (- 1, st, dev)
      else
        do {
          buf \<leftarrow> write_buffer (d_cluster dev) (concat (clusters st));
          dev1 \<leftarrow> Some (dev\<lparr>d_cluster := buf\<rparr>);
          if launch_err rt \<noteq> 0 then Some (- 1, st, dev1)
          else
            do {
              m \<leftarrow> foldM (kmeans_kernel_c (d_feature_swap dev1) (d_cluster dev1) n_points n_clusters
                     n_features) (run_schedule rt (global_work_size n_points BLOCK_SIZE2)) (d_membership dev1);
              dev2 \<leftarrow> Some (dev1\<lparr>d_membership := m\<rparr>);
              if read_err rt \<noteq> 0 then Some (- 1, st, dev2)
              else
                do {
                  host \<leftarrow> membership_OCL dev2;
                  mocl \<leftarrow> write_buffer host (take n_points m);
                  (delta, st1) \<leftarrow> for_loop 0 n_points (accumulate_step feature n_features mocl) (0, st);
                  Some (delta, st1, dev2\<lparr>membership_OCL := Some mocl\<rparr>)
                }
            }
        })"

section \<open>kmeans_clustering\<close>

text \<open>
  The loop that picks the initial centres; the state is
  \<open>(clusters, initial, initial_points, n)\<close>.  An access through a negative index is undefined.
\<close>

definition pick_step :: "flt list list \<Rightarrow> nat \<Rightarrow> nat \<Rightarrow> flt list list \<times> nat list \<times> int \<times> nat \<Rightarrow>
    (flt list list \<times> nat list \<times> int \<times> nat) option" where
  "pick_step feature nfeatures i acc =
     (let (cs, initial, initial_points, n) = acc in
      if initial_points \<ge> 0 then
        do {
          temp \<leftarrow> arg_at initial n;
          pt \<leftarrow> arg_at feature temp;
          row \<leftarrow> (if nfeatures \<le> length pt then Some (take nfeatures pt) else None);
          (if initial_points < 1 then None
           else
             do {
               final \<leftarrow> arg_at initial (nat (initial_points - 1));
               init1 \<leftarrow> set_at initial n final;
               init2 \<leftarrow> set_at init1 (nat (initial_points - 1)) temp;
               Some (cs @ [row], init2, initial_points - 1, n + 1)
             })
        }
      else Some acc)"

definition pick_centers :: "flt list list \<Rightarrow> nat \<Rightarrow> nat \<Rightarrow> nat \<Rightarrow> flt list list option" where
  "pick_centers feature nfeatures npoints nclusters =
     do {
       (cs, initial, initial_points, n) \<leftarrow>
         for_loop 0 nclusters (pick_step feature nfeatures) ([], [0..<npoints], int npoints, 0);
       Some cs
     }"

text \<open>The new centres become averages, and the accumulators are cleared.\<close>

definition average_row :: "nat \<Rightarrow> int \<Rightarrow> flt list \<times> flt list \<Rightarrow> (flt list \<times> flt list) option" where
  "average_row nfeatures len rows =
     for_loop 0 nfeatures
       (\<lambda>j (crow, nrow).
          do {
            x \<leftarrow> arg_at nrow j;
            crow1 \<leftarrow> (if len > 0 then set_at crow j (f_div binary32 x (f_of_int binary32 len))
                      else Some crow);
            nrow1 \<leftarrow> set_at nrow j (Fin 0);
            Some (crow1, nrow1)
          }) rows"

definition average_step :: "nat \<Rightarrow> nat \<Rightarrow> km_state \<Rightarrow> km_state option" where
  "average_step nfeatures i st =
     do {
       len \<leftarrow> arg_at (new_centers_len st) i;
       crow \<leftarrow> arg_at (clusters st) i;
       nrow \<leftarrow> arg_at (new_centers st) i;
       (crow1, nrow1) \<leftarrow> average_row nfeatures len (crow, nrow);
       Some (st\<lparr>clusters := (clusters st)[i := crow1], new_centers := (new_centers st)[i := nrow1],
                new_centers_len := (new_centers_len st)[i := 0]\<rparr>)
     }"

definition average_centers :: "nat \<Rightarrow> nat \<Rightarrow> km_state \<Rightarrow> km_state option" where
  "average_centers nfeatures nclusters st = for_loop 0 nclusters (average_step nfeatures) st"

text \<open>
  The \<open>do\<close> loop; \<open>loop\<close> is its counter, \<open>rt\<close> gives the runtime's answers by iteration, and
  the result adds the number of iterations printed at the end.
\<close>

function km_iterate :: "(nat \<Rightarrow> ocl_run) \<Rightarrow> flt list list \<Rightarrow> nat \<Rightarrow> nat \<Rightarrow> nat \<Rightarrow> flt \<Rightarrow> nat \<Rightarrow>
    km_state \<Rightarrow> ocl_device \<Rightarrow> (nat \<times> km_state \<times> ocl_device) option" where
  "km_iterate rt feature nfeatures npoints nclusters threshold loop st dev =
     (case kmeansOCL (rt loop) feature nfeatures npoints nclusters st dev of
        None \<Rightarrow> None
      | Some (delta, st1, dev1) \<Rightarrow>
          (case average_centers nfeatures nclusters st1 of
             None \<Rightarrow> None
           | Some st2 \<Rightarrow>
               if f_lt threshold (f_of_int binary32 delta) \<and> loop < 500
               then km_iterate rt feature nfeatures npoints nclusters threshold (loop + 1) st2 dev1
               else Some (loop + 1, st2, dev1)))"
  by pat_completeness auto
termination
  by (relation "measure (\<lambda>(rt, feature, nfeatures, npoints, nclusters, threshold, loop, st, dev).
    500 - loop)") auto

declare km_iterate.simps [simp del]

text \<open>
  \<open>clusters[0]\<close> is assigned before any other use, so there must be one.  The membership of the
  caller is overwritten.
\<close>

definition kmeans_clustering :: "(nat \<Rightarrow> ocl_run) \<Rightarrow> flt list list \<Rightarrow> nat \<Rightarrow> nat \<Rightarrow> int \<Rightarrow> flt \<Rightarrow>
    ocl_device \<Rightarrow> (nat \<times> km_state \<times> ocl_device) option" where
  "kmeans_clustering rt feature nfeatures npoints nclusters0 threshold dev =
     (let nclusters = (if nclusters0 > int npoints then int npoints else nclusters0)
      in if nclusters < 1 then None
         else
           do {
             cs \<leftarrow> pick_centers feature nfeatures npoints (nat nclusters);
             km_iterate rt feature nfeatures npoints (nat nclusters) threshold 0
               \<lparr>membership = replicate npoints (- 1), clusters = cs,
                new_centers_len = replicate (nat nclusters) 0,
                new_centers = replicate (nat nclusters) (replicate nfeatures (Fin 0))\<rparr> dev
           })"

section \<open>cluster\<close>

text \<open>
  The outputs of \<open>cluster\<close> with the file's variable \<open>min_rmse_ref\<close>; \<open>min_rmse\<close> is
  \<^const>\<open>None\<close> until it is assigned, and \<open>cluster_centres\<close> while it is a null pointer.
\<close>

record best =
  min_rmse_ref :: flt
  min_rmse :: "flt option"
  best_nclusters :: int
  best_index :: nat
  cluster_centres :: "flt list list option"

text \<open>\<open>rmse\<close> is an \<open>int\<close>: the error is truncated when it is stored.\<close>

definition consider_rmse :: "int \<Rightarrow> nat \<Rightarrow> flt \<Rightarrow> best \<Rightarrow> best option" where
  "consider_rmse nclusters i err b =
     do {
       rmse \<leftarrow> f_to_int err;
       Some (if f_lt (f_of_int binary32 rmse) (min_rmse_ref b)
             then b\<lparr>min_rmse_ref := f_of_int binary32 rmse,
                    min_rmse := Some (f_of_int binary32 rmse),
                    best_nclusters := nclusters, best_index := i\<rparr>
             else b)
     }"

definition cluster_trial :: "(nat \<Rightarrow> nat \<Rightarrow> ocl_run) \<Rightarrow> nat \<Rightarrow> nat \<Rightarrow> flt list list \<Rightarrow> flt \<Rightarrow> bool \<Rightarrow>
    int \<Rightarrow> nat \<Rightarrow> best \<times> ocl_device \<Rightarrow> (best \<times> ocl_device) option" where
  "cluster_trial rt npoints nfeatures features threshold isRMSE nclusters i acc =
     (let (b, dev) = acc in
      do {
        (c, st, dev1) \<leftarrow>
          kmeans_clustering (rt i) features nfeatures npoints nclusters threshold dev;
        b1 \<leftarrow> Some (b\<lparr>cluster_centres := Some (clusters st)\<rparr>);
        (if isRMSE then
           do {
             err \<leftarrow> rms_err features nfeatures npoints (clusters st) (nat nclusters);
             b2 \<leftarrow> consider_rmse nclusters i err b1;
             Some (b2, dev1)
           }
         else Some (b1, dev1))
      })"

text \<open>
  The sweep over \<open>nclusters\<close>; \<open>rts\<close> gives the runtime's answers to \<open>allocate\<close>, \<open>rt\<close> those
  to \<open>kmeansOCL\<close> by number of clusters, trial and iteration.  \<open>deallocateMemory\<close> releases
  the buffers and the array.
\<close>

function cluster_sweep :: "(int \<Rightarrow> ocl_setup) \<Rightarrow> (int \<Rightarrow> nat \<Rightarrow> nat \<Rightarrow> ocl_run) \<Rightarrow> nat \<Rightarrow> nat \<Rightarrow>
    flt list list \<Rightarrow> int \<Rightarrow> int \<Rightarrow> flt \<Rightarrow> bool \<Rightarrow> nat \<Rightarrow> best \<Rightarrow> ocl_device \<Rightarrow> best option" where
  "cluster_sweep rts rt npoints nfeatures features nclusters max_nclusters threshold
     isRMSE nloops b dev =
     (if nclusters \<le> max_nclusters \<and> nclusters \<le> int npoints then
        (case allocate (rts nclusters) npoints nfeatures (nat nclusters) features dev of
           None \<Rightarrow> None
         | Some (r, dev1) \<Rightarrow>
             (case for_loop 0 nloops
                 (cluster_trial (rt nclusters) npoints nfeatures features threshold isRMSE nclusters)
                 (b, dev1) of
                None \<Rightarrow> None
              | Some (b1, dev2) \<Rightarrow>
                  cluster_sweep rts rt npoints nfeatures features (nclusters + 1)
                    max_nclusters threshold isRMSE nloops b1
                    \<lparr>d_feature = [], d_feature_swap = [], d_cluster = [], d_membership = [],
                     membership_OCL = None\<rparr>))
      else Some b)"
  by pat_completeness auto
termination
  by (relation "measure (\<lambda>(rts, rt, npoints, nf, fs, nclusters, max_nclusters, th, ir, nl, b, dev).
    nat (max_nclusters + 1 - nclusters))") auto

declare cluster_sweep.simps [simp del]

end
