(* ===== verification/Kmeans_Host_Facts.thy ===== *)
theory Kmeans_Host_Facts
  imports Kmeans_Host
begin

text \<open>
  What the host functions of the clustering do, branch by branch: the accumulation of sums and
  counts, the averages, the choice of the initial centres, one round on the device, and the
  invariant of the iteration.
\<close>

section \<open>Rows\<close>

lemma add_row_eq:
  "length row = nf \<Longrightarrow> length pt = nf \<Longrightarrow> add_row nf pt row = Some (map2 (f_add binary32) row pt)"
  unfolding add_row_def
  using for_loop_map_all [of row "\<lambda>j row. do { x \<leftarrow> arg_at row j; y \<leftarrow> arg_at pt j;
      set_at row j (f_add binary32 x y) }" "\<lambda>j x. f_add binary32 x (pt ! j)"]
  by (auto intro!: nth_equalityI)

lemma average_row_eq:
  assumes "length crow = nf" "length nrow = nf"
  shows "average_row nf len (crow, nrow) =
    Some (if len > 0 then map (\<lambda>x. f_div binary32 x (f_of_int binary32 len)) nrow else crow,
          replicate nf (Fin 0))"
proof -
  let ?c = "\<lambda>i. if len > 0 then map (\<lambda>x. f_div binary32 x (f_of_int binary32 len)) (take i nrow) @ drop i crow
                else crow"
  let ?I = "\<lambda>i t. t = (?c i, replicate i (Fin 0) @ drop i nrow)"
  have "yields (average_row nf len (crow, nrow)) (?I nf)"
    unfolding average_row_def
  proof (rule for_loop_yields [where I = ?I])
    fix i t assume i: "i < nf" and t: "?I i t"
    have d: "drop i crow = crow ! i # drop (Suc i) crow" "drop i nrow = nrow ! i # drop (Suc i) nrow"
      using i assms by (simp_all add: Cons_nth_drop_Suc)
    show "yields (case t of (crow, nrow) \<Rightarrow>
        do {
          x \<leftarrow> arg_at nrow i;
          crow1 \<leftarrow> (if len > 0 then set_at crow i (f_div binary32 x (f_of_int binary32 len)) else Some crow);
          nrow1 \<leftarrow> set_at nrow i (Fin 0);
          Some (crow1, nrow1)
        }) (?I (Suc i))"
      using i assms d by (simp add: t nth_append list_update_append take_Suc_conv_app_nth)
        (simp flip: replicate_append_same)
  qed simp_all
  then show ?thesis using assms by (auto simp: yields_def)
qed

section \<open>Averages\<close>

text \<open>The shapes of the host arrays.\<close>

definition host_ok :: "nat \<Rightarrow> nat \<Rightarrow> nat \<Rightarrow> km_state \<Rightarrow> bool" where
  "host_ok np nf nc st \<longleftrightarrow> length (membership st) = np \<and> shaped nc nf (clusters st)
     \<and> length (new_centers_len st) = nc \<and> shaped nc nf (new_centers st)"

definition average_of :: "km_state \<Rightarrow> nat \<Rightarrow> flt list" where
  "average_of st c =
     (if new_centers_len st ! c > 0
      then map (\<lambda>x. f_div binary32 x (f_of_int binary32 (new_centers_len st ! c))) (new_centers st ! c)
      else clusters st ! c)"

lemma average_centers_eq:
  assumes "host_ok np nf nc st"
  shows "average_centers nf nc st = Some (st\<lparr>clusters := map (average_of st) [0..<nc],
     new_centers_len := replicate nc 0, new_centers := replicate nc (replicate nf (Fin 0))\<rparr>)"
proof -
  let ?I = "\<lambda>i t. t = st\<lparr>clusters := map (average_of st) [0..<i] @ drop i (clusters st),
     new_centers_len := replicate i 0 @ drop i (new_centers_len st),
     new_centers := replicate i (replicate nf (Fin 0)) @ drop i (new_centers st)\<rparr>"
  have len: "length (clusters st) = nc" "length (new_centers_len st) = nc" "length (new_centers st) = nc"
    using assms by (auto simp: host_ok_def shaped_def)
  have "yields (average_centers nf nc st) (?I nc)"
    unfolding average_centers_def
  proof (rule for_loop_yields [where I = ?I])
    fix i t assume i: "i < nc" and t: "?I i t"
    have d: "drop i xs = xs ! i # drop (Suc i) xs" if "length xs = nc" for xs :: "'b list"
      using that i by (simp add: Cons_nth_drop_Suc)
    have row: "average_row nf (new_centers_len st ! i) (clusters st ! i, new_centers st ! i)
        = Some (average_of st i, replicate nf (Fin 0))"
      using average_row_eq [of "clusters st ! i" nf "new_centers st ! i" "new_centers_len st ! i"] assms i
      by (auto simp: host_ok_def average_of_def)
    show "yields (average_step nf i t) (?I (Suc i))"
      unfolding average_step_def t
      using i len row d [OF len(1)] d [OF len(2)] d [OF len(3)]
      by (simp add: nth_append list_update_append replicate_append_same)
  qed simp_all
  then show ?thesis using len by (auto simp: yields_def)
qed

section \<open>Sums and counts\<close>

text \<open>
  The sum, in index order, of the first \<open>i\<close> points that belong to \<open>c\<close>, the number of those
  points, and the number of points that changed sides.
\<close>

definition member_sum :: "flt list list \<Rightarrow> nat list \<Rightarrow> flt list \<Rightarrow> nat \<Rightarrow> nat \<Rightarrow> flt list" where
  "member_sum feature ids row c i =
     fold (\<lambda>j r. if ids ! j = c then map2 (f_add binary32) r (feature ! j) else r) [0..<i] row"

definition member_count :: "nat list \<Rightarrow> nat \<Rightarrow> nat \<Rightarrow> nat" where
  "member_count ids c i = length (filter (\<lambda>j. ids ! j = c) [0..<i])"

definition moved_count :: "nat list \<Rightarrow> int list \<Rightarrow> nat \<Rightarrow> nat" where
  "moved_count ids old i = length (filter (\<lambda>j. int (ids ! j) \<noteq> old ! j) [0..<i])"

lemma length_member_sum:
  "length row = nf \<Longrightarrow> shaped np nf feature \<Longrightarrow> i \<le> np \<Longrightarrow> length (member_sum feature ids row c i) = nf"
  by (induction i) (auto simp: member_sum_def)

lemma member_sum_Suc:
  "member_sum feature ids row c (Suc i) =
     (if ids ! i = c then map2 (f_add binary32) (member_sum feature ids row c i) (feature ! i)
      else member_sum feature ids row c i)"
  by (simp add: member_sum_def)

lemma member_count_Suc:
  "member_count ids c (Suc i) = (if ids ! i = c then Suc (member_count ids c i) else member_count ids c i)"
  by (simp add: member_count_def)

lemma moved_count_Suc:
  "moved_count ids old (Suc i) =
     (if int (ids ! i) \<noteq> old ! i then Suc (moved_count ids old i) else moved_count ids old i)"
  by (simp add: moved_count_def)

definition accumulated :: "flt list list \<Rightarrow> nat list \<Rightarrow> nat \<Rightarrow> km_state \<Rightarrow> nat \<Rightarrow> km_state" where
  "accumulated feature ids nc st i =
     st\<lparr>membership := map int (take i ids) @ drop i (membership st),
        new_centers_len := map (\<lambda>c. new_centers_len st ! c + int (member_count ids c i)) [0..<nc],
        new_centers := map (\<lambda>c. member_sum feature ids (new_centers st ! c) c i) [0..<nc]\<rparr>"

lemma map_upt_update:
  "k < n \<Longrightarrow> (map f [0..<n])[k := x] = map (\<lambda>i. if i = k then x else f i) [0..<n]"
  by (auto intro!: nth_equalityI simp: nth_list_update)

lemma accumulate_step_eq:
  assumes "host_ok np nf nc st" "shaped np nf feature" "length ids = np" "\<forall>k \<in> set ids. k < nc" "i < np"
  shows "accumulate_step feature nf (map int ids) i
      (int (moved_count ids (membership st) i), accumulated feature ids nc st i)
    = Some (int (moved_count ids (membership st) (Suc i)), accumulated feature ids nc st (Suc i))"
proof -
  let ?k = "ids ! i"
  have k: "?k < nc" using assms(3-5) by simp
  have old: "(map int (take i ids) @ drop i (membership st)) ! i = membership st ! i"
    using assms by (simp add: nth_append host_ok_def)
  have mem: "(map int (take i ids) @ drop i (membership st))[i := int ?k]
      = map int (take (Suc i) ids) @ drop (Suc i) (membership st)"
    using assms by (simp add: list_update_append take_Suc_conv_app_nth host_ok_def
        flip: Cons_nth_drop_Suc)
  have mem_same: "map int (take i ids) @ drop i (membership st)
      = map int (take (Suc i) ids) @ drop (Suc i) (membership st)" if "int ?k = membership st ! i"
    using mem that old assms by (metis list_update_id)
  have row: "add_row nf (feature ! i) (member_sum feature ids (new_centers st ! ?k) ?k i)
      = Some (map2 (f_add binary32) (member_sum feature ids (new_centers st ! ?k) ?k i) (feature ! i))"
    using assms k by (intro add_row_eq) (auto simp: host_ok_def intro: length_member_sum)
  have lens: "(map (\<lambda>c. new_centers_len st ! c + int (member_count ids c i)) [0..<nc])
      [?k := new_centers_len st ! ?k + int (member_count ids ?k i) + 1]
    = map (\<lambda>c. new_centers_len st ! c + int (member_count ids c (Suc i))) [0..<nc]"
    using k by (auto simp: map_upt_update member_count_Suc)
  have rows: "(map (\<lambda>c. member_sum feature ids (new_centers st ! c) c i) [0..<nc])
      [?k := map2 (f_add binary32) (member_sum feature ids (new_centers st ! ?k) ?k i) (feature ! i)]
    = map (\<lambda>c. member_sum feature ids (new_centers st ! c) c (Suc i)) [0..<nc]"
    using k by (auto simp: map_upt_update member_sum_Suc)
  show ?thesis
    using assms k mem mem_same old row lens rows
    by (auto simp: accumulate_step_def accumulated_def moved_count_Suc host_ok_def shaped_length)
qed

lemma accumulate_eq:
  assumes "host_ok np nf nc st" "shaped np nf feature" "length ids = np" "\<forall>k \<in> set ids. k < nc"
  shows "for_loop 0 np (accumulate_step feature nf (map int ids)) (0, st)
    = Some (int (moved_count ids (membership st) np), accumulated feature ids nc st np)"
proof -
  let ?I = "\<lambda>i acc. acc = (int (moved_count ids (membership st) i), accumulated feature ids nc st i)"
  have start: "accumulated feature ids nc st 0 = st"
    using assms(1) map_nth [of "new_centers_len st"] map_nth [of "new_centers st"]
    by (simp add: accumulated_def member_count_def member_sum_def host_ok_def shaped_def)
  have "yields (for_loop 0 np (accumulate_step feature nf (map int ids)) (0, st)) (?I np)"
    by (rule for_loop_yields [where I = ?I])
      (use accumulate_step_eq [OF assms] start in \<open>auto simp: moved_count_def\<close>)
  then show ?thesis by (auto simp: yields_def)
qed

section \<open>One round on the device\<close>

text \<open>
  The device after a successful \<open>allocate\<close>: the features transposed, buffers of the sizes of
  the problem.
\<close>

definition dev_ok :: "flt list list \<Rightarrow> nat \<Rightarrow> nat \<Rightarrow> nat \<Rightarrow> ocl_device \<Rightarrow> bool" where
  "dev_ok feature nf np nc dev \<longleftrightarrow>
     d_feature_swap dev = map (\<lambda>k. feature ! (k mod np) ! (k div np)) [0..<nf * np]
     \<and> length (d_cluster dev) = nc * nf \<and> length (d_membership dev) = np
     \<and> (\<exists>h. membership_OCL dev = Some h \<and> length h = np)"

text \<open>The law of the runtime: a launch runs every work item once.\<close>

definition fair_run :: "ocl_run \<Rightarrow> bool" where
  "fair_run rt \<longleftrightarrow> (\<forall>g. is_schedule g (run_schedule rt g))"

definition run_succeeds :: "ocl_run \<Rightarrow> bool" where
  "run_succeeds rt \<longleftrightarrow> write_err rt = 0 \<and> launch_err rt = 0 \<and> read_err rt = 0"

definition assignment :: "nat \<Rightarrow> flt list list \<Rightarrow> nat \<Rightarrow> flt list list \<Rightarrow> nat list" where
  "assignment nf cs nc feature = map (nearest nf cs nc) feature"

lemma nearest_less:
  assumes "length pt = nf" "shaped nc nf cs" "0 < nc"
  shows "nearest nf cs nc pt < nc"
  using find_nearest_point_cases [OF assms(1,2)] assms(3)
  by (auto simp: nearest_def nearest_so_far_def split: option.splits)

lemma assignment_less:
  assumes "shaped np nf feature" "shaped nc nf cs" "0 < nc"
  shows "\<forall>k \<in> set (assignment nf cs nc feature). k < nc"
  using assms nearest_less [of _ nf nc cs] by (auto simp: assignment_def shaped_def)

lemma kernel_writes:
  assumes "dev_ok feature nf np nc dev" "shaped np nf feature" "shaped nc nf cs" "fair_run rt"
  shows "write_buffer (d_cluster dev) (concat cs) = Some (concat cs)"
    and "foldM (kmeans_kernel_c (d_feature_swap dev) (concat cs) np nc nf)
           (run_schedule rt (global_work_size np BLOCK_SIZE2)) (d_membership dev)
         = Some (map int (assignment nf cs nc feature))"
proof -
  show "write_buffer (d_cluster dev) (concat cs) = Some (concat cs)"
    using assms by (simp add: write_buffer_def dev_ok_def length_concat_shaped)
  have "np \<le> global_work_size np BLOCK_SIZE2"
    using global_work_size_bounds [of BLOCK_SIZE2 np] by (simp add: BLOCK_SIZE2_def)
  then show "foldM (kmeans_kernel_c (d_feature_swap dev) (concat cs) np nc nf)
           (run_schedule rt (global_work_size np BLOCK_SIZE2)) (d_membership dev)
         = Some (map int (assignment nf cs nc feature))"
    using near_launch [OF assms(2,3), of "d_membership dev" "global_work_size np BLOCK_SIZE2"] assms(1,4)
    by (simp add: dev_ok_def fair_run_def assignment_def)
qed

lemma kmeansOCL_success:
  assumes "run_succeeds rt" "fair_run rt" "dev_ok feature nf np nc dev" "host_ok np nf nc st"
    and "shaped np nf feature" "0 < nc"
  defines "ids \<equiv> assignment nf (clusters st) nc feature"
  shows "\<exists>dev1. kmeansOCL rt feature nf np nc st dev
      = Some (int (moved_count ids (membership st) np), accumulated feature ids nc st np, dev1)
    \<and> dev_ok feature nf np nc dev1"
proof -
  have c: "shaped nc nf (clusters st)" using assms(4) by (simp add: host_ok_def)
  note kw = kernel_writes [OF assms(3,5) c assms(2)]
  have len: "length ids = np" using assms(5) by (simp add: ids_def assignment_def shaped_def)
  have acc: "for_loop 0 np (accumulate_step feature nf (map int ids)) (0, st)
    = Some (int (moved_count ids (membership st) np), accumulated feature ids nc st np)"
    using accumulate_eq [OF assms(4,5) len] assignment_less [OF assms(5) c assms(6)] by (simp add: ids_def)
  obtain h where h: "membership_OCL dev = Some h" "length h = np" using assms(3) by (auto simp: dev_ok_def)
  show ?thesis
    using assms(1,3) kw h acc len length_concat_shaped [OF c]
    by (simp add: kmeansOCL_def run_succeeds_def ids_def [symmetric] write_buffer_def dev_ok_def)
qed

lemma kmeansOCL_error:
  assumes "\<not> run_succeeds rt" "fair_run rt" "dev_ok feature nf np nc dev" "host_ok np nf nc st"
    and "shaped np nf feature"
  shows "\<exists>dev1. kmeansOCL rt feature nf np nc st dev = Some (- 1, st, dev1) \<and> dev_ok feature nf np nc dev1"
proof -
  have c: "shaped nc nf (clusters st)" using assms(4) by (simp add: host_ok_def)
  have len: "length (assignment nf (clusters st) nc feature) = np"
    using assms(5) by (simp add: assignment_def shaped_def)
  show ?thesis
    using assms(1,3) kernel_writes [OF assms(3,5) c assms(2)] length_concat_shaped [OF c] len
    by (auto simp: kmeansOCL_def run_succeeds_def dev_ok_def)
qed

section \<open>Allocation\<close>

definition fair_setup :: "ocl_setup \<Rightarrow> bool" where
  "fair_setup rt \<longleftrightarrow> (\<forall>g. is_schedule g (swap_schedule rt g))"

lemma allocate_success:
  assumes "\<forall>i < 12. setup_errs rt i = 0" "fair_setup rt" "shaped np nf feature"
  shows "if end_returns rt
    then \<exists>dev1. allocate rt np nf nc feature dev = Some (None, dev1) \<and> dev_ok feature nf np nc dev1
    else allocate rt np nf nc feature dev = None"
proof -
  have le: "np \<le> global_work_size np BLOCK_SIZE"
    using global_work_size_bounds [of BLOCK_SIZE np] by (simp add: BLOCK_SIZE_def)
  have "foldM (kmeans_swap (concat feature) np nf) (swap_schedule rt (global_work_size np BLOCK_SIZE))
      (map (junk_flt rt) [0..<np * nf]) = Some (map (\<lambda>k. feature ! (k mod np) ! (k div np)) [0..<nf * np])"
    using swap_launch [OF assms(3) _ _ le] assms(2) by (simp add: fair_setup_def mult.commute)
  then show ?thesis
    using assms(1) length_concat_shaped [OF assms(3)]
    by (simp add: allocate_def write_buffer_def dev_ok_def)
qed

lemma allocate_returns:
  assumes "\<forall>i < 12. setup_errs rt i = 0" "fair_setup rt" "shaped np nf feature" "end_returns rt"
  shows "\<exists>dev1. allocate rt np nf nc feature dev = Some (None, dev1) \<and> dev_ok feature nf np nc dev1"
  using allocate_success [OF assms(1-3)] assms(4) by (simp only: if_True)

section \<open>The initial centres\<close>

text \<open>The point picked for centre \<open>i\<close> of \<open>n\<close> points.\<close>

definition pick_index :: "nat \<Rightarrow> nat \<Rightarrow> nat" where
  "pick_index n i = (if 2 * i < n then i else n - 1 - i)"

text \<open>The array \<open>initial\<close> after \<open>i\<close> exchanges.\<close>

definition exchanged :: "nat \<Rightarrow> nat \<Rightarrow> nat list" where
  "exchanged n i = map (\<lambda>k. if (k < i) \<noteq> (n - 1 - k < i) then n - 1 - k else k) [0..<n]"

lemma exchanged_step:
  assumes "i < n"
  shows "(exchanged n i)[i := exchanged n i ! (n - 1 - i), n - 1 - i := exchanged n i ! i]
    = exchanged n (Suc i)"
proof (rule nth_equalityI)
  fix k assume "k < length ((exchanged n i)[i := exchanged n i ! (n - 1 - i), n - 1 - i := exchanged n i ! i])"
  then have k: "k < n" by (simp add: exchanged_def)
  show "(exchanged n i)[i := exchanged n i ! (n - 1 - i), n - 1 - i := exchanged n i ! i] ! k
      = exchanged n (Suc i) ! k"
    using k assms by (auto simp: exchanged_def nth_list_update)
qed (simp add: exchanged_def)

lemma pick_step_eq:
  assumes "shaped np nf feature" "i < np"
  shows "pick_step feature nf i
      (map (\<lambda>k. feature ! pick_index np k) [0..<i], exchanged np i, int np - int i, i)
    = Some (map (\<lambda>k. feature ! pick_index np k) [0..<Suc i], exchanged np (Suc i),
            int np - int (Suc i), Suc i)"
proof -
  have t: "exchanged np i ! i = pick_index np i" using assms(2) by (auto simp: exchanged_def pick_index_def)
  have l: "length (exchanged np i) = np" by (simp add: exchanged_def)
  have p: "pick_index np i < np" using assms(2) by (simp add: pick_index_def)
  have n: "nat (int np - int i - 1) = np - 1 - i" using assms(2) by simp
  show ?thesis
    using assms p exchanged_step [OF assms(2)] unfolding pick_step_def
    by (simp add: t l n shaped_length)
qed

lemma pick_centers_eq:
  assumes "shaped np nf feature" "nc \<le> np"
  shows "pick_centers feature nf np nc = Some (map (\<lambda>k. feature ! pick_index np k) [0..<nc])"
proof -
  let ?I = "\<lambda>i acc. acc = (map (\<lambda>k. feature ! pick_index np k) [0..<i], exchanged np i, int np - int i, i)"
  have start: "[0..<np] = exchanged np 0" by (auto simp: exchanged_def intro!: nth_equalityI)
  have "yields (for_loop 0 nc (pick_step feature nf) ([], [0..<np], int np, 0)) (?I nc)"
    by (rule for_loop_yields [where I = ?I])
      (use pick_step_eq [OF assms(1)] assms(2) start in auto)
  then show ?thesis by (auto simp: yields_def pick_centers_def)
qed

lemma pick_index_less: "k < np \<Longrightarrow> pick_index np k < np"
  by (simp add: pick_index_def)

lemma picked_shape:
  "shaped np nf feature \<Longrightarrow> nc \<le> np \<Longrightarrow> shaped nc nf (map (\<lambda>k. feature ! pick_index np k) [0..<nc])"
  using pick_index_less [of _ np] by (auto simp: shaped_def)

text \<open>No point is picked twice exactly when at most half the points (rounded up) are picked.\<close>

lemma pick_index_distinct:
  assumes "nc \<le> np"
  shows "distinct (map (pick_index np) [0..<nc]) \<longleftrightarrow> 2 * nc \<le> np + 1"
proof
  assume "2 * nc \<le> np + 1"
  then show "distinct (map (pick_index np) [0..<nc])"
    by (auto simp: distinct_map inj_on_def pick_index_def)
next
  assume d: "distinct (map (pick_index np) [0..<nc])"
  show "2 * nc \<le> np + 1"
  proof (rule ccontr)
    assume "\<not> 2 * nc \<le> np + 1"
    then have o: "np - nc < nc - 1" "np - nc < nc" "nc - 1 < nc" using assms by arith+
    have f: "2 * (np - nc) < np" "\<not> 2 * (nc - 1) < np" "np - 1 - (nc - 1) = np - nc"
      using \<open>\<not> 2 * nc \<le> np + 1\<close> assms by arith+
    have "pick_index np (np - nc) = np - nc"
      unfolding pick_index_def by (rule if_P) (rule f)
    moreover have "pick_index np (nc - 1) = np - 1 - (nc - 1)"
      unfolding pick_index_def by (rule if_not_P) (rule f)
    ultimately have e: "pick_index np (np - nc) = pick_index np (nc - 1)" using f(3) by metis
    have "inj_on (pick_index np) {0..<nc}" using d by (simp add: distinct_map)
    then have "np - nc = nc - 1"
      by (rule inj_onD [of "pick_index np" "{0..<nc}"]) (use e o in simp_all)
    then show False using o by linarith
  qed
qed

end
