(* ===== verification/Kmeans_Props.thy ===== *)
theory Kmeans_Props
  imports Kmeans_Host_Facts
begin

text \<open>
  The iteration of \<open>kmeans_clustering\<close>: its invariant, and the properties of the clustering as
  a whole.
\<close>

section \<open>One round of the loop\<close>

definition zero_rows :: "nat \<Rightarrow> nat \<Rightarrow> flt list list" where
  "zero_rows nc nf = replicate nc (replicate nf (Fin 0))"

text \<open>Between rounds the accumulators are clear.\<close>

definition km_ready :: "nat \<Rightarrow> nat \<Rightarrow> nat \<Rightarrow> km_state \<Rightarrow> bool" where
  "km_ready np nf nc st \<longleftrightarrow> host_ok np nf nc st
     \<and> new_centers_len st = replicate nc 0 \<and> new_centers st = zero_rows nc nf"

text \<open>The mean of the points that \<open>ids\<close> assigns to \<open>c\<close>: the rounded sum over the count.\<close>

definition mean_of :: "flt list list \<Rightarrow> nat \<Rightarrow> nat list \<Rightarrow> nat \<Rightarrow> flt list" where
  "mean_of feature nf ids c =
     map (\<lambda>x. f_div binary32 x (f_of_int binary32 (int (member_count ids c (length ids)))))
       (member_sum feature ids (replicate nf (Fin 0)) c (length ids))"

definition means :: "flt list list \<Rightarrow> nat \<Rightarrow> nat list \<Rightarrow> flt list list \<Rightarrow> nat \<Rightarrow> flt list list" where
  "means feature nf ids cs nc =
     map (\<lambda>c. if 0 < member_count ids c (length ids) then mean_of feature nf ids c else cs ! c) [0..<nc]"

lemma length_mean_of: "shaped (length ids) nf feature \<Longrightarrow> length (mean_of feature nf ids c) = nf"
  by (simp add: mean_of_def length_member_sum)

lemma means_shape:
  "shaped (length ids) nf feature \<Longrightarrow> shaped nc nf cs \<Longrightarrow> shaped nc nf (means feature nf ids cs nc)"
  by (auto simp: means_def shaped_def length_mean_of)

lemma zero_rows_nth [simp]: "c < nc \<Longrightarrow> zero_rows nc nf ! c = replicate nf (Fin 0)"
  by (simp add: zero_rows_def)

lemma shaped_zero_rows [simp]: "shaped nc nf (zero_rows nc nf)"
  by (auto simp: shaped_def zero_rows_def)

lemma average_accumulated:
  assumes "km_ready np nf nc st" "shaped np nf feature" "length ids = np"
  shows "average_centers nf nc (accumulated feature ids nc st np)
    = Some \<lparr>membership = map int ids, clusters = means feature nf ids (clusters st) nc,
            new_centers_len = replicate nc 0, new_centers = zero_rows nc nf\<rparr>"
proof -
  let ?a = "accumulated feature ids nc st np"
  have h: "host_ok np nf nc ?a"
    using assms by (auto simp: host_ok_def km_ready_def accumulated_def shaped_def length_member_sum)
  have "map (average_of ?a) [0..<nc] = means feature nf ids (clusters st) nc"
    using assms by (auto simp: means_def mean_of_def average_of_def accumulated_def km_ready_def)
  then show ?thesis
    using assms average_centers_eq [OF h]
    by (simp add: accumulated_def zero_rows_def host_ok_def km_ready_def)
qed

lemma average_idle:
  assumes "km_ready np nf nc st"
  shows "average_centers nf nc st = Some st"
proof -
  have h: "host_ok np nf nc st" using assms by (simp add: km_ready_def)
  have "map (average_of st) [0..<nc] = clusters st"
    using assms by (intro nth_equalityI) (auto simp: average_of_def km_ready_def host_ok_def shaped_def)
  then show ?thesis
    using average_centers_eq [OF h] assms by (simp add: km_ready_def zero_rows_def)
qed

text \<open>What a round makes of the host arrays, and the number of moved points it reports.\<close>

definition round_state :: "ocl_run \<Rightarrow> flt list list \<Rightarrow> nat \<Rightarrow> nat \<Rightarrow> km_state \<Rightarrow> km_state" where
  "round_state rt feature nf nc st =
     (if run_succeeds rt then
        (let ids = assignment nf (clusters st) nc feature
         in \<lparr>membership = map int ids, clusters = means feature nf ids (clusters st) nc,
             new_centers_len = replicate nc 0, new_centers = zero_rows nc nf\<rparr>)
      else st)"

definition round_delta :: "ocl_run \<Rightarrow> flt list list \<Rightarrow> nat \<Rightarrow> nat \<Rightarrow> km_state \<Rightarrow> int" where
  "round_delta rt feature nf nc st =
     (if run_succeeds rt
      then int (moved_count (assignment nf (clusters st) nc feature) (membership st) (length feature))
      else - 1)"

lemma length_assignment [simp]: "length (assignment nf cs nc feature) = length feature"
  by (simp add: assignment_def)

lemma km_round:
  assumes "fair_run rt" "dev_ok feature nf np nc dev" "km_ready np nf nc st" "shaped np nf feature" "0 < nc"
  shows "\<exists>st1 dev1. kmeansOCL rt feature nf np nc st dev = Some (round_delta rt feature nf nc st, st1, dev1)
    \<and> average_centers nf nc st1 = Some (round_state rt feature nf nc st)
    \<and> dev_ok feature nf np nc dev1"
proof (cases "run_succeeds rt")
  case True
  have h: "host_ok np nf nc st" using assms(3) by (simp add: km_ready_def)
  show ?thesis
    using kmeansOCL_success [OF True assms(1,2) h assms(4,5)] True
      average_accumulated [OF assms(3,4), of "assignment nf (clusters st) nc feature"] assms(4)
    by (auto simp: round_state_def round_delta_def Let_def shaped_length)
next
  case False
  have h: "host_ok np nf nc st" using assms(3) by (simp add: km_ready_def)
  show ?thesis
    using kmeansOCL_error [OF False assms(1,2) h assms(4)] average_idle [OF assms(3)] False
    by (auto simp: round_state_def round_delta_def)
qed

lemma round_ready:
  assumes "km_ready np nf nc st" "shaped np nf feature"
  shows "km_ready np nf nc (round_state rt feature nf nc st)"
  using assms means_shape [of "assignment nf (clusters st) nc feature" nf feature nc "clusters st"]
  by (auto simp: round_state_def km_ready_def host_ok_def Let_def shaped_length)

text \<open>The loop as a function of the host arrays alone.\<close>

lemma km_iterate_step:
  assumes "fair_run (rt loop)" "dev_ok feature nf np nc dev" "km_ready np nf nc st"
    and "shaped np nf feature" "0 < nc"
  shows "\<exists>dev1. dev_ok feature nf np nc dev1 \<and> km_iterate rt feature nf np nc th loop st dev =
    (if f_lt th (f_of_int binary32 (round_delta (rt loop) feature nf nc st)) \<and> loop < 500
     then km_iterate rt feature nf np nc th (loop + 1) (round_state (rt loop) feature nf nc st) dev1
     else Some (loop + 1, round_state (rt loop) feature nf nc st, dev1))"
  using km_round [OF assms] by (subst km_iterate.simps) fastforce

text \<open>An invariant of the rounds holds of the result, which the last round produced.\<close>

lemma km_iterate_result:
  assumes "\<forall>l. fair_run (rt l)" "dev_ok feature nf np nc dev" "km_ready np nf nc st"
    and "shaped np nf feature" "0 < nc" "loop \<le> 500" "I st"
    and inv: "\<And>l s. I s \<Longrightarrow> km_ready np nf nc s \<Longrightarrow> I (round_state (rt l) feature nf nc s)"
  shows "\<exists>c st0 dev1 l. km_iterate rt feature nf np nc th loop st dev
      = Some (c, round_state (rt l) feature nf nc st0, dev1)
    \<and> dev_ok feature nf np nc dev1 \<and> loop < c \<and> c \<le> 501 \<and> c = l + 1
    \<and> I st0 \<and> km_ready np nf nc st0
    \<and> (c < 501 \<longrightarrow> \<not> f_lt th (f_of_int binary32 (round_delta (rt l) feature nf nc st0)))"
  using assms(2,3,6,7)
proof (induction "500 - loop" arbitrary: loop st dev)
  case 0
  then have "loop = 500" by simp
  then show ?case
    using km_iterate_step [of rt loop feature nf np nc dev st th] 0 assms(1,4,5) by fastforce
next
  case (Suc n)
  let ?st = "round_state (rt loop) feature nf nc st"
  obtain dev1 where d: "dev_ok feature nf np nc dev1"
    "km_iterate rt feature nf np nc th loop st dev =
      (if f_lt th (f_of_int binary32 (round_delta (rt loop) feature nf nc st)) \<and> loop < 500
       then km_iterate rt feature nf np nc th (loop + 1) ?st dev1 else Some (loop + 1, ?st, dev1))"
    using km_iterate_step [of rt loop feature nf np nc dev st th] Suc.prems assms(1,4,5) by blast
  show ?case
  proof (cases "f_lt th (f_of_int binary32 (round_delta (rt loop) feature nf nc st)) \<and> loop < 500")
    case True
    have n: "n = 500 - (loop + 1)" "loop + 1 \<le> 500" using Suc.hyps(2) by simp_all
    have r: "km_ready np nf nc ?st" using round_ready Suc.prems(2) assms(4) .
    have i: "I ?st" using inv Suc.prems(2,4) by blast
    have "\<exists>c st0 dev2 l. km_iterate rt feature nf np nc th (loop + 1) ?st dev1
      = Some (c, round_state (rt l) feature nf nc st0, dev2)
    \<and> dev_ok feature nf np nc dev2 \<and> loop + 1 < c \<and> c \<le> 501 \<and> c = l + 1
    \<and> I st0 \<and> km_ready np nf nc st0
    \<and> (c < 501 \<longrightarrow> \<not> f_lt th (f_of_int binary32 (round_delta (rt l) feature nf nc st0)))"
      by (rule Suc.hyps(1) [OF n(1) d(1) r n(2) i])
    then obtain c st0 dev2 l where "km_iterate rt feature nf np nc th (loop + 1) ?st dev1
        = Some (c, round_state (rt l) feature nf nc st0, dev2)" "dev_ok feature nf np nc dev2"
        "loop + 1 < c" "c \<le> 501" "c = l + 1" "I st0" "km_ready np nf nc st0"
        "c < 501 \<longrightarrow> \<not> f_lt th (f_of_int binary32 (round_delta (rt l) feature nf nc st0))" by blast
    moreover have "loop < c" using calculation by linarith
    moreover have "km_iterate rt feature nf np nc th loop st dev
        = km_iterate rt feature nf np nc th (loop + 1) ?st dev1"
      using d(2) True by (simp only: if_True simp_thms)
    ultimately show ?thesis by (intro exI [of _ c] exI [of _ st0] exI [of _ dev2] exI [of _ l]) simp
  next
    case False
    have "loop < 500" using Suc.hyps(2) by simp
    then show ?thesis
      using d False Suc.prems(2,4)
      by (intro exI [of _ "loop + 1"] exI [of _ st] exI [of _ dev1] exI [of _ loop]) simp
  qed
qed

section \<open>Nearest points\<close>

text \<open>
  C6.  \<open>find_nearest_point\<close> on rows of the right shape: it returns an index exactly when some
  distance is below \<open>FLT_MAX\<close> (otherwise \<open>index\<close> is used without a value); the index is in
  range, its distance is below \<open>FLT_MAX\<close>, no point is strictly nearer, and no earlier point is as
  near.
\<close>

theorem find_nearest_point_correct:
  assumes "length pt = nf" "shaped n nf pts"
  shows "case find_nearest_point pt nf pts n of
      None \<Rightarrow> \<forall>j < n. \<not> f_lt (sq_dist nf pt (pts ! j)) flt_max
    | Some k \<Rightarrow> k < n \<and> f_lt (sq_dist nf pt (pts ! k)) flt_max
        \<and> (\<forall>j < n. \<not> f_lt (sq_dist nf pt (pts ! j)) (sq_dist nf pt (pts ! k)))
        \<and> (\<forall>j < k. \<not> f_le (sq_dist nf pt (pts ! j)) (sq_dist nf pt (pts ! k)))"
  using find_nearest_point_cases [OF assms]
  by (cases "find_nearest_point pt nf pts n") (simp_all add: nearest_so_far_def)

theorem find_nearest_point_correct_witness:
  "find_nearest_point [Fin 2] 1 [[Fin 5], [Fin 3], [Fin 1]] 3 = Some 1
   \<and> \<not> f_le (sq_dist 1 [Fin 2] [Fin 5]) (sq_dist 1 [Fin 2] [Fin 3])"
proof -
  have e: "find_nearest_point [Fin 2] 1 [[Fin 5], [Fin 3], [Fin 1]] 3 = Some 1" by code_simp
  show ?thesis
    using find_nearest_point_correct [of "[Fin 2]" 1 3 "[[Fin 5], [Fin 3], [Fin 1]]"] e
    by (simp add: shaped_def)
qed

text \<open>
  C7.  The two kernels together agree with the host: after the swap kernel has filled
  \<open>feature_swap\<close> and the clustering kernel \<open>membership\<close>, each launched over a global size of at
  least \<open>npoints\<close> in any order of the work items, \<open>membership\<close> holds for every point what
  \<open>find_nearest_point\<close> returns for it, and 0 where that has no value.
\<close>

theorem device_finds_nearest_points:
  assumes "shaped np nf feature" "shaped nc nf cs"
    and "is_schedule g1 sched1" "np \<le> g1" "is_schedule g2 sched2" "np \<le> g2"
    and "length fresh = nf * np" "length old = np"
  shows "do { swapped \<leftarrow> foldM (kmeans_swap (concat feature) np nf) sched1 fresh;
              foldM (kmeans_kernel_c swapped (concat cs) np nc nf) sched2 old }
    = Some (map (\<lambda>pt. case find_nearest_point pt nf cs nc of None \<Rightarrow> 0 | Some k \<Rightarrow> int k) feature)"
  using swap_launch [OF assms(1,7,3,4)] near_launch [OF assms(1,2,8,5,6)]
  by (auto simp: nearest_def split: option.split)

theorem device_finds_nearest_points_witness:
  "do { swapped \<leftarrow> foldM (kmeans_swap [Fin 1, Fin 2, Fin 8, Fin 9] 2 2) [2, 1, 0] [NaN, NaN, NaN, NaN];
        foldM (kmeans_kernel_c swapped [Fin 0, Fin 0, Fin 9, Fin 9] 2 2 2) [1, 2, 0] [7, 7] }
   = Some (map (\<lambda>pt. case find_nearest_point pt 2 [[Fin 0, Fin 0], [Fin 9, Fin 9]] 2 of
                 None \<Rightarrow> 0 | Some k \<Rightarrow> int k) [[Fin 1, Fin 2], [Fin 8, Fin 9]])"
  using device_finds_nearest_points [of 2 2 "[[Fin 1, Fin 2], [Fin 8, Fin 9]]" 2 "[[Fin 0, Fin 0], [Fin 9, Fin 9]]"
      3 "[2, 1, 0]" 3 "[1, 2, 0]" "[NaN, NaN, NaN, NaN]" "[7, 7]"]
  by (simp add: shaped_def is_schedule_def upt_rec)

text \<open>
  The error of a clustering whose centres include every point is zero, the case of as
  many clusters as (finite) points.
\<close>

lemma rms_err_zero:
  assumes "shaped np nf feature" "shaped nc nf cs" "0 < np"
    and "\<forall>pt \<in> set feature. pt \<in> set cs \<and> (\<forall>x \<in> set pt. is_finite x)"
  shows "rms_err feature nf np cs nc = Some (Fin 0)"
  using rms_err_of_centres assms .

section \<open>The initial centres\<close>

text \<open>
  The loop that picks the initial centres takes the points
  \<open>0, 1, 2, ...\<close> up to the middle and then goes back down to \<open>0\<close>: a point is picked twice as
  soon as more than half of the points (rounded up) are wanted, although the array of indices
  is kept to prevent it.
\<close>

lemma initial_centers:
  assumes "shaped np nf feature" "nc \<le> np"
  shows "pick_centers feature nf np nc = Some (map (\<lambda>k. feature ! pick_index np k) [0..<nc])
    \<and> (distinct (map (pick_index np) [0..<nc]) \<longleftrightarrow> 2 * nc \<le> np + 1)"
  using pick_centers_eq [OF assms] pick_index_distinct [OF assms(2)] by simp

section \<open>A round on the device\<close>

lemma member_count_total:
  assumes "\<forall>k \<in> set ids. k < nc" "n \<le> length ids"
  shows "(\<Sum>c<nc. member_count ids c n) = n"
  using assms(2)
proof (induction n)
  case 0
  then show ?case by (simp add: member_count_def)
next
  case (Suc n)
  have k: "ids ! n < nc" using assms(1) Suc.prems by simp
  have "(\<Sum>c<nc. member_count ids c (Suc n))
      = (\<Sum>c<nc. member_count ids c n + (if ids ! n = c then 1 else 0))"
    by (rule sum.cong) (simp_all add: member_count_Suc)
  also have "\<dots> = n + 1"
    using Suc k by (simp add: sum.distrib)
  finally show ?case by simp
qed

text \<open>
  C8.  One call of \<open>kmeansOCL\<close>, whatever the runtime answers and in whatever order it runs the
  work items.  If a call fails, the result is \<open>- 1\<close> and no host array has changed.  Otherwise
  every point has the nearest centre as its membership, the result is the number of points
  whose membership changed, every centre has the count and the sum of its points added, and
  the counts grow by \<open>npoints\<close> in all.
\<close>

theorem kmeansOCL_outcome:
  assumes "fair_run rt" "dev_ok feature nf np nc dev" "host_ok np nf nc st" "shaped np nf feature" "0 < nc"
  defines "ids \<equiv> map (nearest nf (clusters st) nc) feature"
  shows "\<exists>delta st1 dev1. kmeansOCL rt feature nf np nc st dev = Some (delta, st1, dev1)
    \<and> dev_ok feature nf np nc dev1 \<and> clusters st1 = clusters st
    \<and> (\<not> run_succeeds rt \<longrightarrow> delta = - 1 \<and> st1 = st)
    \<and> (run_succeeds rt \<longrightarrow>
         membership st1 = map int ids
       \<and> delta = int (length (filter (\<lambda>i. membership st1 ! i \<noteq> membership st ! i) [0..<np]))
       \<and> (\<forall>c < nc. new_centers_len st1 ! c
            = new_centers_len st ! c + int (length (filter (\<lambda>i. ids ! i = c) [0..<np])))
       \<and> (\<forall>c < nc. new_centers st1 ! c = member_sum feature ids (new_centers st ! c) c np)
       \<and> sum_list (new_centers_len st1) = sum_list (new_centers_len st) + int np)"
proof (cases "run_succeeds rt")
  case True
  have c: "shaped nc nf (clusters st)" using assms(3) by (simp add: host_ok_def)
  have ids: "ids = assignment nf (clusters st) nc feature" "length ids = np"
    using assms(4) by (simp_all add: ids_def assignment_def shaped_def)
  have b: "\<forall>k \<in> set ids. k < nc" using assignment_less [OF assms(4) c assms(5)] ids by simp
  have "sum_list (map (\<lambda>c. new_centers_len st ! c + int (member_count ids c np)) [0..<nc])
      = sum_list (map (\<lambda>c. new_centers_len st ! c) [0..<nc]) + int (\<Sum>c<nc. member_count ids c np)"
    by (simp add: sum_list_addf interv_sum_list_conv_sum_set_nat atLeast0LessThan)
  also have "map (\<lambda>c. new_centers_len st ! c) [0..<nc] = new_centers_len st"
    using assms(3) map_nth [of "new_centers_len st"] by (simp add: host_ok_def)
  also have "(\<Sum>c<nc. member_count ids c np) = np" using member_count_total [OF b] ids by simp
  finally have total: "sum_list (map (\<lambda>c. new_centers_len st ! c + int (member_count ids c np)) [0..<nc])
      = sum_list (new_centers_len st) + int np" .
  have moved: "moved_count ids (membership st) np
      = length (filter (\<lambda>i. map int ids ! i \<noteq> membership st ! i) [0..<np])"
    unfolding moved_count_def using ids(2) by (intro arg_cong [of _ _ length] filter_cong) auto
  obtain dev1 where "kmeansOCL rt feature nf np nc st dev
      = Some (int (moved_count ids (membership st) np), accumulated feature ids nc st np, dev1)"
    "dev_ok feature nf np nc dev1"
    using kmeansOCL_success [OF True assms(1-5)] ids(1) by auto
  then show ?thesis
    using True total moved ids(2) assms(3)
    by (simp add: accumulated_def member_count_def host_ok_def)
next
  case False
  then show ?thesis using kmeansOCL_error [OF False assms(1-4)] by auto
qed

definition sample_device :: ocl_device where
  "sample_device = \<lparr>d_feature = [Fin 1, Fin 2, Fin 8], d_feature_swap = [Fin 1, Fin 2, Fin 8],
     d_cluster = [NaN, NaN], d_membership = [0, 0, 0], membership_OCL = Some [0, 0, 0]\<rparr>"

definition sample_host :: km_state where
  "sample_host = \<lparr>membership = [0, 0, - 1], clusters = [[Fin 1], [Fin 2]],
     new_centers_len = [0, 0], new_centers = [[Fin 0], [Fin 0]]\<rparr>"

definition quiet_run :: ocl_run where
  "quiet_run = \<lparr>write_err = 0, launch_err = 0, read_err = 0, run_schedule = (\<lambda>g. rev [0..<g])\<rparr>"

lemma quiet_run_fair: "fair_run quiet_run"
  by (simp add: quiet_run_def fair_run_def is_schedule_def)

theorem kmeansOCL_outcome_witness:
  "\<exists>delta st1 dev1. kmeansOCL quiet_run [[Fin 1], [Fin 2], [Fin 8]] 1 3 2 sample_host sample_device
      = Some (delta, st1, dev1)
   \<and> sum_list (new_centers_len st1) = 3"
proof -
  have d: "dev_ok [[Fin 1], [Fin 2], [Fin 8]] 1 3 2 sample_device"
    by (simp add: dev_ok_def sample_device_def upt_rec)
  have h: "host_ok 3 1 2 sample_host" by (simp add: host_ok_def sample_host_def shaped_def)
  show ?thesis
    using kmeansOCL_outcome [OF quiet_run_fair d h] 
    by (auto simp: shaped_def run_succeeds_def quiet_run_def sample_host_def)
qed

section \<open>The clustering\<close>

text \<open>The number of clusters the code works with.\<close>

definition used_clusters :: "int \<Rightarrow> nat \<Rightarrow> nat" where
  "used_clusters nclusters npoints = nat (min nclusters (int npoints))"

definition initial_state :: "flt list list \<Rightarrow> nat \<Rightarrow> nat \<Rightarrow> nat \<Rightarrow> km_state" where
  "initial_state feature np nf nc =
     \<lparr>membership = replicate np (- 1), clusters = map (\<lambda>k. feature ! pick_index np k) [0..<nc],
      new_centers_len = replicate nc 0, new_centers = zero_rows nc nf\<rparr>"

lemma kmeans_clustering_eq:
  assumes "shaped np nf feature" "1 \<le> ncl" "0 < np"
  defines "nc \<equiv> used_clusters ncl np"
  shows "kmeans_clustering rt feature nf np ncl th dev
    = km_iterate rt feature nf np nc th 0 (initial_state feature np nf nc) dev"
    and "km_ready np nf nc (initial_state feature np nf nc)" "0 < nc"
proof -
  have nc: "nc \<le> np" "0 < nc" using assms by (simp_all add: nc_def used_clusters_def)
  show "kmeans_clustering rt feature nf np ncl th dev
    = km_iterate rt feature nf np nc th 0 (initial_state feature np nf nc) dev"
    using assms pick_centers_eq [OF assms(1) nc(1)]
    by (auto simp: kmeans_clustering_def initial_state_def zero_rows_def nc_def used_clusters_def min_def)
  show "km_ready np nf nc (initial_state feature np nf nc)"
    using picked_shape [OF assms(1) nc(1)] by (simp add: km_ready_def host_ok_def initial_state_def)
  show "0 < nc" by (rule nc(2))
qed

definition members_in_range :: "nat \<Rightarrow> km_state \<Rightarrow> bool" where
  "members_in_range nc st \<longleftrightarrow> (\<forall>m \<in> set (membership st). - 1 \<le> m \<and> m < int nc)"

lemma members_in_range_round:
  assumes "shaped np nf feature" "0 < nc" "members_in_range nc st" "km_ready np nf nc st"
  shows "members_in_range nc (round_state rt feature nf nc st)"
  using assms assignment_less [of np nf feature nc "clusters st"]
  by (fastforce simp: members_in_range_def round_state_def Let_def km_ready_def host_ok_def)

lemma kmeans_clustering_total:
  assumes "shaped np nf feature" "1 \<le> ncl" "0 < np" "\<forall>l. fair_run (rt l)"
    and "dev_ok feature nf np (used_clusters ncl np) dev"
  shows "\<exists>c st dev1. kmeans_clustering rt feature nf np ncl th dev = Some (c, st, dev1)
    \<and> dev_ok feature nf np (used_clusters ncl np) dev1
    \<and> 1 \<le> c \<and> c \<le> 501 \<and> shaped (used_clusters ncl np) nf (clusters st)
    \<and> length (membership st) = np
    \<and> (\<forall>m \<in> set (membership st). - 1 \<le> m \<and> m < int (used_clusters ncl np))"
proof -
  let ?nc = "used_clusters ncl np"
  note k = kmeans_clustering_eq [OF assms(1-3)]
  have i: "members_in_range ?nc (initial_state feature np nf ?nc)"
    by (auto simp: members_in_range_def initial_state_def)
  obtain c st0 dev1 l where r: "kmeans_clustering rt feature nf np ncl th dev
      = Some (c, round_state (rt l) feature nf ?nc st0, dev1)" "0 < c" "c \<le> 501"
      "members_in_range ?nc st0" "km_ready np nf ?nc st0" "dev_ok feature nf np ?nc dev1"
    using km_iterate_result [OF assms(4,5) k(2) assms(1) k(3), of 0 "members_in_range ?nc" th]
      i members_in_range_round [OF assms(1) k(3)] k(1) by auto
  then show ?thesis
    using round_ready [OF r(5) assms(1), of "rt l"] members_in_range_round [OF assms(1) k(3) r(4,5), of "rt l"]
    by (auto simp: km_ready_def host_ok_def members_in_range_def)
qed

text \<open>
  C9.  The clustering ends: after at most 501 rounds (the counter stops it even if points keep
  moving) it returns, whatever the runtime answers, and what it returns has the shape the
  caller expects: one row for each cluster, memberships among the clusters (or \<open>- 1\<close> where no
  round succeeded).
\<close>

theorem kmeans_clustering_returns:
  assumes "shaped np nf feature" "1 \<le> ncl" "0 < np" "\<forall>l. fair_run (rt l)"
    and "dev_ok feature nf np (used_clusters ncl np) dev"
  shows "\<exists>c st dev1. kmeans_clustering rt feature nf np ncl th dev = Some (c, st, dev1)
    \<and> 1 \<le> c \<and> c \<le> 501 \<and> shaped (used_clusters ncl np) nf (clusters st)
    \<and> length (membership st) = np
    \<and> (\<forall>m \<in> set (membership st). - 1 \<le> m \<and> m < int (used_clusters ncl np))"
  using kmeans_clustering_total [OF assms, of th] by blast

theorem kmeans_clustering_returns_witness:
  "\<exists>c st dev1. kmeans_clustering (\<lambda>_. quiet_run) [[Fin 1], [Fin 2], [Fin 8]] 1 3 2 NaN sample_device
      = Some (c, st, dev1) \<and> c \<le> 501"
proof -
  have d: "dev_ok [[Fin 1], [Fin 2], [Fin 8]] 1 3 (used_clusters 2 3) sample_device"
    by (simp add: dev_ok_def sample_device_def upt_rec used_clusters_def)
  show ?thesis
    using kmeans_clustering_returns [OF _ _ _ _ d, of "\<lambda>_. quiet_run" NaN] quiet_run_fair
    by (auto simp: shaped_def)
qed

section \<open>Convergence\<close>

text \<open>
  Either no round has succeeded, or the centres of the clusters that have members are the means
  of their members.
\<close>

definition means_of_members :: "flt list list \<Rightarrow> nat \<Rightarrow> nat \<Rightarrow> km_state \<Rightarrow> bool" where
  "means_of_members feature nf nc st \<longleftrightarrow>
     membership st = replicate (length feature) (- 1)
     \<or> (\<exists>ids. length ids = length feature \<and> membership st = map int ids
          \<and> (\<forall>c < nc. 0 < member_count ids c (length ids) \<longrightarrow> clusters st ! c = mean_of feature nf ids c))"

lemma means_of_members_round:
  "means_of_members feature nf nc st \<Longrightarrow> means_of_members feature nf nc (round_state rt feature nf nc st)"
  unfolding round_state_def Let_def
  by (cases "run_succeeds rt")
    (auto simp: means_of_members_def means_def intro!: exI [of _ "assignment nf (clusters st) nc feature"])

lemma moved_count_0: "moved_count ids old n = 0 \<longleftrightarrow> (\<forall>i < n. int (ids ! i) = old ! i)"
  by (auto simp: moved_count_def filter_empty_conv)

lemma below_one_delta:
  assumes "f_lt th (Fin 1)" "\<not> f_lt th (f_of_int binary32 (int n))"
  shows "n = 0"
  using assms f_of_int_pos [of n] f_lt_le_trans by blast

lemma means_fixed:
  assumes "\<forall>c < nc. 0 < member_count ids c (length ids) \<longrightarrow> cs ! c = mean_of feature nf ids c"
    and "length cs = nc"
  shows "means feature nf ids cs nc = cs"
  using assms by (intro nth_equalityI) (auto simp: means_def)

text \<open>
  C10.  A clustering that converged is a fixed point: if the runtime reports no error, the
  threshold is below one and the loop ended before its counter did, then every point belongs
  to the nearest of the centres returned, and every centre with members is the mean of its
  members, computed in the code's order.
\<close>

theorem converged_clustering_is_fixed_point:
  assumes "shaped np nf feature" "1 \<le> ncl" "0 < np" "\<forall>l. fair_run (rt l) \<and> run_succeeds (rt l)"
    and "dev_ok feature nf np (used_clusters ncl np) dev" "f_lt th (Fin 1)"
    and "kmeans_clustering rt feature nf np ncl th dev = Some (c, st, dev1)" "c < 501"
  defines "nc \<equiv> used_clusters ncl np" and "ids \<equiv> map (nearest nf (clusters st) (used_clusters ncl np)) feature"
  shows "membership st = map int ids
    \<and> (\<forall>k < nc. k \<in> set ids \<longrightarrow> clusters st ! k = mean_of feature nf ids k)"
proof -
  note k = kmeans_clustering_eq [OF assms(1-3)]
  have np: "length feature = np" using assms(1) by (simp add: shaped_def)
  have i: "means_of_members feature nf nc (initial_state feature np nf nc)"
    by (simp add: means_of_members_def initial_state_def np)
  obtain st0 l where r: "st = round_state (rt l) feature nf nc st0"
      "\<not> f_lt th (f_of_int binary32 (round_delta (rt l) feature nf nc st0))"
      "means_of_members feature nf nc st0" "km_ready np nf nc st0"
    using km_iterate_result [OF _ assms(5) k(2) assms(1) k(3), of rt 0 "means_of_members feature nf nc" th]
      i means_of_members_round assms(4,7,8) k(1) by (fastforce simp: nc_def)
  define new where "new = assignment nf (clusters st0) nc feature"
  have len: "length new = np" by (simp add: new_def np)
  have "moved_count new (membership st0) np = 0"
    using below_one_delta [OF assms(6)] r(2) assms(4) by (simp add: round_delta_def new_def np)
  then have same: "map int new = membership st0"
    using r(4) len by (intro nth_equalityI) (auto simp: moved_count_0 km_ready_def host_ok_def)
  have "membership st0 \<noteq> replicate np (- 1)"
  proof
    assume "membership st0 = replicate np (- 1)"
    then have "int (new ! 0) = - 1" using same len assms(3) by (metis nth_map nth_replicate)
    then show False by simp
  qed
  then obtain old where old: "membership st0 = map int old"
      "\<forall>c < nc. 0 < member_count old c (length old) \<longrightarrow> clusters st0 ! c = mean_of feature nf old c"
    using r(3) by (auto simp: means_of_members_def np)
  have "old = new" using same old(1) by (simp add: inj_map_eq_map inj_def)
  then have "means feature nf new (clusters st0) nc = clusters st0"
    using old(2) r(4) by (intro means_fixed) (auto simp: km_ready_def host_ok_def shaped_def)
  then have st: "membership st = map int new" "clusters st = clusters st0"
    using r(1) assms(4) by (simp_all add: round_state_def new_def)
  moreover have "new = ids" by (simp add: new_def ids_def assignment_def st(2) nc_def)
  moreover have "0 < member_count ids k (length ids)" if "k \<in> set ids" for k
    using that by (auto simp: member_count_def in_set_conv_nth filter_empty_conv)
  ultimately show ?thesis using old(2) \<open>old = new\<close> by simp
qed

theorem converged_clustering_is_fixed_point_witness:
  "\<exists>c st dev1. kmeans_clustering (\<lambda>_. quiet_run) [[Fin 1], [Fin 2], [Fin 8]] 1 3 2 (Fin (1 / 1000))
      sample_device = Some (c, st, dev1)
   \<and> c < 501 \<and> membership st = map int (map (nearest 1 (clusters st) 2) [[Fin 1], [Fin 2], [Fin 8]])"
proof -
  let ?f = "[[Fin 1], [Fin 2], [Fin 8]]" and ?th = "Fin (1 / 1000)"
  let ?r = "round_state quiet_run ?f 1 2" and ?d = "round_delta quiet_run ?f 1 2"
  let ?s = "initial_state ?f 3 1 2"
  have f: "shaped 3 1 ?f" by (simp add: shaped_def)
  have u: "used_clusters 2 3 = 2" by (simp add: used_clusters_def)
  have d: "dev_ok ?f 1 3 (used_clusters 2 3) sample_device"
    by (simp add: dev_ok_def sample_device_def upt_rec used_clusters_def)
  have z: "zero_rows 2 1 = [[Fin 0], [Fin 0]]" by (simp add: zero_rows_def numeral_2_eq_2)
  have p: "clusters ?s = [[Fin 1], [Fin 2]]" "membership ?s = [- 1, - 1, - 1]"
    by (simp_all add: initial_state_def pick_index_def upt_rec numeral_3_eq_3)
  have s: "run_succeeds quiet_run" by (simp add: run_succeeds_def quiet_run_def)
  have n: "assignment 1 [[Fin 1], [Fin 2]] 2 ?f = [0, 1, 1]" "assignment 1 [[Fin 1], [Fin 5]] 2 ?f = [0, 0, 1]"
      "assignment 1 [[Fin (3 / 2)], [Fin 8]] 2 ?f = [0, 0, 1]" by code_simp+
  have m: "means ?f 1 [0, 1, 1] [[Fin 1], [Fin 2]] 2 = [[Fin 1], [Fin 5]]"
      "means ?f 1 [0, 0, 1] [[Fin 1], [Fin 5]] 2 = [[Fin (3 / 2)], [Fin 8]]" by code_simp+
  have r: "?r ?s = \<lparr>membership = [0, 1, 1], clusters = [[Fin 1], [Fin 5]],
      new_centers_len = replicate 2 0, new_centers = zero_rows 2 1\<rparr>"
    by (simp add: round_state_def s p n m Let_def del: One_nat_def)
  have rr: "?r (?r ?s) = \<lparr>membership = [0, 0, 1], clusters = [[Fin (3 / 2)], [Fin 8]],
      new_centers_len = replicate 2 0, new_centers = zero_rows 2 1\<rparr>"
    unfolding r by (simp add: round_state_def s n m Let_def del: One_nat_def)
  have dd: "?d ?s = 3" "?d (?r ?s) = 1" "?d (?r (?r ?s)) = 0"
    unfolding rr unfolding r
    by (simp_all add: round_delta_def s p n moved_count_def upt_rec del: One_nat_def)
  have go: "f_lt ?th (f_of_int binary32 (?d ?s))" "f_lt ?th (f_of_int binary32 (?d (?r ?s)))"
    and stop: "\<not> f_lt ?th (f_of_int binary32 (?d (?r (?r ?s))))"
    unfolding dd by code_simp+
  have r0: "km_ready 3 1 2 ?s" using kmeans_clustering_eq(2) [OF f, of 2] u by simp
  have r1: "km_ready 3 1 2 (?r ?s)" and r2: "km_ready 3 1 2 (?r (?r ?s))"
    using round_ready r0 f by blast+
  note step = km_iterate_step [where rt = "\<lambda>_. quiet_run" and th = ?th, OF quiet_run_fair _ _ f]
  obtain dev1 where 1: "dev_ok ?f 1 3 2 dev1" "km_iterate (\<lambda>_. quiet_run) ?f 1 3 2 ?th 0 ?s sample_device
      = km_iterate (\<lambda>_. quiet_run) ?f 1 3 2 ?th 1 (?r ?s) dev1"
    using step [OF d [unfolded u] r0, of 0] go(1) by auto
  obtain dev2 where 2: "dev_ok ?f 1 3 2 dev2" "km_iterate (\<lambda>_. quiet_run) ?f 1 3 2 ?th 1 (?r ?s) dev1
      = km_iterate (\<lambda>_. quiet_run) ?f 1 3 2 ?th 2 (?r (?r ?s)) dev2"
    using step [OF 1(1) r1, of 1] go(2) by (auto simp: numeral_2_eq_2)
  obtain dev3 where "km_iterate (\<lambda>_. quiet_run) ?f 1 3 2 ?th 2 (?r (?r ?s)) dev2
      = Some (3, ?r (?r (?r ?s)), dev3)"
    using step [OF 2(1) r2, of 2] stop by auto
  then have "\<exists>dev1. km_iterate (\<lambda>_. quiet_run) ?f 1 3 2 ?th 0 ?s sample_device
      = Some (3, ?r (?r (?r ?s)), dev1)" using 1(2) 2(2) by simp
  then obtain dev1 where e: "kmeans_clustering (\<lambda>_. quiet_run) ?f 1 3 2 ?th sample_device
      = Some (3, ?r (?r (?r ?s)), dev1)"
    using kmeans_clustering_eq(1) [OF f, of 2] u by auto
  have "membership (?r (?r (?r ?s)))
      = map int (map (nearest 1 (clusters (?r (?r (?r ?s)))) (used_clusters 2 3)) ?f)"
    using converged_clustering_is_fixed_point [OF f _ _ _ d _ e] quiet_run_fair
    by (simp add: run_succeeds_def quiet_run_def)
  then show ?thesis using e u by (intro exI conjI) (rule e, simp_all)
qed

section \<open>The sweep over the number of clusters\<close>

text \<open>
  The error is kept as an \<open>int\<close>: once a trial has been considered, no trial whose error
  has the same integer part is recorded, however much smaller it is.
\<close>

lemma truncated_rmse_hides_improvement:
  assumes "f_to_int err1 = Some k" "f_to_int err2 = Some k"
    and "consider_rmse n1 i1 err1 b = Some b1"
  shows "consider_rmse n2 i2 err2 b1 = Some b1"
  using assms by (auto simp: consider_rmse_def split: if_splits)

text \<open>All trials for one number of clusters.\<close>

lemma trials_without_rmse:
  assumes "shaped np nf feature" "1 \<le> ncl" "ncl \<le> int np" "\<forall>i l. fair_run (rt i l)"
    and "dev_ok feature nf np (nat ncl) dev" "0 < nloops"
  shows "\<exists>cs dev1. for_loop 0 nloops (cluster_trial rt np nf feature th False ncl) (b, dev)
    = Some (b\<lparr>cluster_centres := Some cs\<rparr>, dev1) \<and> shaped (nat ncl) nf cs"
proof -
  have np: "0 < np" and u: "used_clusters ncl np = nat ncl"
    using assms(2,3) by (simp_all add: used_clusters_def)
  let ?I = "\<lambda>i (b1, dev1). dev_ok feature nf np (nat ncl) dev1
     \<and> (if i = 0 then b1 = b else \<exists>cs. b1 = b\<lparr>cluster_centres := Some cs\<rparr> \<and> shaped (nat ncl) nf cs)"
  have "yields (for_loop 0 nloops (cluster_trial rt np nf feature th False ncl) (b, dev)) (?I nloops)"
  proof (rule for_loop_yields [where I = ?I])
    fix i :: nat and acc assume "?I i acc"
    then obtain b1 dev1 where acc: "acc = (b1, dev1)" "dev_ok feature nf np (nat ncl) dev1"
        "b1 = b \<or> (\<exists>cs. b1 = b\<lparr>cluster_centres := Some cs\<rparr>)"
      by (cases acc) (auto split: if_splits)
    obtain c st dev2 where k: "kmeans_clustering (rt i) feature nf np ncl th dev1 = Some (c, st, dev2)"
        "dev_ok feature nf np (nat ncl) dev2" "shaped (nat ncl) nf (clusters st)"
      using kmeans_clustering_total [OF assms(1,2) np, of "rt i" dev1 th] assms(4) acc(2) u by auto
    show "yields (cluster_trial rt np nf feature th False ncl i acc) (?I (Suc i))"
      using k acc(1,3) by (auto simp: cluster_trial_def)
  qed (use assms in auto)
  then show ?thesis using assms(6) by (auto simp: yields_def)
qed

text \<open>
  Without the option for the error, the sweep over the numbers of clusters from \<open>lo\<close> to
  \<open>hi\<close> always returns; the centres it leaves are those of the largest number tried (at most
  \<open>npoints\<close>), and \<open>best_nclusters\<close>, \<open>min_rmse\<close> and the index are never assigned, so the
  program reports the best number of clusters as 0.
\<close>

lemma cluster_sweep_total:
  assumes "shaped np nf feature" "1 \<le> lo" "lo \<le> hi" "lo \<le> int np" "0 < nloops"
    and "\<forall>k. fair_setup (rts k) \<and> (\<forall>i < 12. setup_errs (rts k) i = 0) \<and> end_returns (rts k)" "\<forall>k i l. fair_run (rt k i l)"
  shows "\<exists>b1 cs. cluster_sweep rts rt np nf feature lo hi th False nloops b dev = Some b1
    \<and> cluster_centres b1 = Some cs \<and> shaped (nat (min hi (int np))) nf cs
    \<and> best_nclusters b1 = best_nclusters b \<and> min_rmse b1 = min_rmse b \<and> best_index b1 = best_index b"
  using assms(2-4)
proof (induction "nat (hi - lo)" arbitrary: lo b dev)
  case 0
  then have "lo = hi" by simp
  obtain dev1 where a: "allocate (rts lo) np nf (nat lo) feature dev = Some (None, dev1)"
      "dev_ok feature nf np (nat lo) dev1"
    using allocate_returns assms(1,6) by blast
  obtain cs dev2 where t: "for_loop 0 nloops (cluster_trial (rt lo) np nf feature th False lo) (b, dev1)
      = Some (b\<lparr>cluster_centres := Some cs\<rparr>, dev2)" "shaped (nat lo) nf cs"
    using trials_without_rmse [OF assms(1) 0(2,4) _ a(2) assms(5), of "rt lo"] assms(7) by blast
  have "cluster_sweep rts rt np nf feature (lo + 1) hi th False nloops b1 d = Some b1" for b1 d
    by (subst cluster_sweep.simps) (simp add: \<open>lo = hi\<close>)
  then show ?case
    using 0 a(1) t \<open>lo = hi\<close> by (subst cluster_sweep.simps) (simp add: min_def)
next
  case (Suc n)
  obtain dev1 where a: "allocate (rts lo) np nf (nat lo) feature dev = Some (None, dev1)"
      "dev_ok feature nf np (nat lo) dev1"
    using allocate_returns assms(1,6) by blast
  obtain cs dev2 where t: "for_loop 0 nloops (cluster_trial (rt lo) np nf feature th False lo) (b, dev1)
      = Some (b\<lparr>cluster_centres := Some cs\<rparr>, dev2)" "shaped (nat lo) nf cs"
    using trials_without_rmse [OF assms(1) Suc.prems(1,3) _ a(2) assms(5), of "rt lo"] assms(7) by blast
  have step: "cluster_sweep rts rt np nf feature lo hi th False nloops b dev
      = cluster_sweep rts rt np nf feature (lo + 1) hi th False nloops (b\<lparr>cluster_centres := Some cs\<rparr>)
          \<lparr>d_feature = [], d_feature_swap = [], d_cluster = [], d_membership = [], membership_OCL = None\<rparr>"
    using Suc.prems a(1) t(1) by (subst cluster_sweep.simps) simp
  show ?case
  proof (cases "lo + 1 \<le> int np")
    case True
    have "n = nat (hi - (lo + 1))" "1 \<le> lo + 1" "lo + 1 \<le> hi" using Suc.hyps(2) Suc.prems by simp_all
    then show ?thesis
      using Suc.hyps(1) [of "lo + 1" "b\<lparr>cluster_centres := Some cs\<rparr>"] True step by simp
  next
    case False
    then have "lo = int np" using Suc.prems by simp
    moreover have "cluster_sweep rts rt np nf feature (lo + 1) hi th False nloops b1 d = Some b1" for b1 d
      using False by (subst cluster_sweep.simps) simp
    ultimately show ?thesis using step t(2) Suc.prems by (simp add: min_def)
  qed
qed

text \<open>Where the compiled \<open>allocate\<close> does not return, nor does the sweep.\<close>

lemma cluster_sweep_no_return:
  assumes "shaped np nf feature" "lo \<le> hi" "lo \<le> int np"
    and "fair_setup (rts lo)" "\<forall>i < 12. setup_errs (rts lo) i = 0" "\<not> end_returns (rts lo)"
  shows "cluster_sweep rts rt np nf feature lo hi th rmse nloops b dev = None"
  using allocate_success [OF assms(5,4,1)] assms by (subst cluster_sweep.simps) simp

end
