(* ===== verification/C_Stdlib.thy ===== *)
theory C_Stdlib
  imports Floats
begin

text \<open>
  The functions of the C library on strings and streams that the input code uses: \<open>fgets\<close>,
  \<open>strtok\<close>, \<open>atoi\<close>, \<open>atof\<close>, and the two byte formats \<open>read\<close> fills variables with.  A
  stream is the list of the characters still to be read.  The lemmas say how a stream falls
  into lines and a line into tokens.
\<close>

section \<open>Lines\<close>

abbreviation newline :: char where
  "newline \<equiv> CHR 0x0A"

text \<open>At most \<open>k\<close> characters, up to and including a newline, and the rest of the stream.\<close>

fun cut_line :: "nat \<Rightarrow> string \<Rightarrow> string \<times> string" where
  "cut_line 0 s = ([], s)"
| "cut_line (Suc k) [] = ([], [])"
| "cut_line (Suc k) (c # s) =
     (if c = newline then ([c], s) else (let (l, r) = cut_line k s in (c # l, r)))"

text \<open>\<open>fgets (line, n, stream)\<close>; the line read is a C string, so it ends at a NUL.\<close>

definition fgets :: "nat \<Rightarrow> string \<Rightarrow> (string \<times> string) option" where
  "fgets n s =
     (if s = [] then None
      else (let (l, r) = cut_line (n - 1) s in Some (takeWhile (\<lambda>c. c \<noteq> NUL) l, r)))"

lemma cut_line_length: "length (snd (cut_line k s)) \<le> length s"
  by (induction k s rule: cut_line.induct) (auto split: prod.splits)

lemma fgets_shorter:
  assumes "fgets n s = Some (l, r)" "1 < n"
  shows "length r < length s"
proof -
  obtain c t where s: "s = c # t" using assms(1) by (cases s) (auto simp: fgets_def)
  obtain k where k: "n - Suc 0 = Suc k" using assms(2) by (cases "n - Suc 0") auto
  show ?thesis
    using assms(1) cut_line_length [of k t]
    by (auto simp: fgets_def s k split: if_splits prod.splits)
qed

text \<open>The lines that a loop \<open>while (fgets (line, n, stream) != NULL)\<close> sees.\<close>

function read_lines :: "nat \<Rightarrow> string \<Rightarrow> string list" where
  "read_lines n s =
     (if n \<le> 1 then []
      else case fgets n s of None \<Rightarrow> [] | Some (l, r) \<Rightarrow> l # read_lines n r)"
  by pat_completeness auto
termination
  by (relation "measure (\<lambda>(n, s). length s)") (auto dest: fgets_shorter)

declare read_lines.simps [simp del]

section \<open>Tokens\<close>

text \<open>
  \<open>strtok\<close>: the token found and where the next call goes on.  Delimiters before the token are
  skipped; the one after it is dropped.
\<close>

definition strtok :: "string \<Rightarrow> string \<Rightarrow> string option \<times> string" where
  "strtok delims s =
     (let s1 = dropWhile (\<lambda>c. c \<in> set delims) s
      in if s1 = [] then (None, [])
         else (Some (takeWhile (\<lambda>c. c \<notin> set delims) s1),
               drop 1 (dropWhile (\<lambda>c. c \<notin> set delims) s1)))"

lemma strtok_shorter: "strtok delims s = (Some t, r) \<Longrightarrow> length r < length s"
proof -
  assume a: "strtok delims s = (Some t, r)"
  let ?s = "dropWhile (\<lambda>c. c \<in> set delims) s"
  have ne: "?s \<noteq> []" and r: "r = drop 1 (dropWhile (\<lambda>c. c \<notin> set delims) ?s)"
    using a by (auto simp: strtok_def Let_def split: if_splits)
  have "hd ?s \<notin> set delims" using hd_dropWhile [OF ne] by simp
  then have "length r < length ?s"
    using ne length_dropWhile_le [of "\<lambda>c. c \<notin> set delims" "tl ?s"]
    by (cases ?s) (auto simp: r)
  then show "length r < length s" using length_dropWhile_le [of "\<lambda>c. c \<in> set delims" s] by linarith
qed

text \<open>All tokens of repeated calls with the same delimiters.\<close>

function tokens :: "string \<Rightarrow> string \<Rightarrow> string list" where
  "tokens delims s = (case strtok delims s of (None, r) \<Rightarrow> [] | (Some t, r) \<Rightarrow> t # tokens delims r)"
  by pat_completeness auto
termination
  by (relation "measure (\<lambda>(d, s). length s)") (auto dest!: strtok_shorter [OF sym])

declare tokens.simps [simp del]

section \<open>Numbers\<close>

definition isspace :: "char \<Rightarrow> bool" where
  "isspace c \<longleftrightarrow> c = CHR '' '' \<or> (9 \<le> (of_char c :: nat) \<and> (of_char c :: nat) \<le> 13)"

definition isdigit :: "char \<Rightarrow> bool" where
  "isdigit c \<longleftrightarrow> 48 \<le> (of_char c :: nat) \<and> (of_char c :: nat) \<le> 57"

definition digit_value :: "char \<Rightarrow> int" where
  "digit_value c = int (of_char c) - 48"

text \<open>The value of a string of digits in a base.\<close>

definition digits_value :: "int \<Rightarrow> (char \<Rightarrow> int) \<Rightarrow> string \<Rightarrow> int" where
  "digits_value base val ds = fold (\<lambda>c n. base * n + val c) ds 0"

text \<open>An optional sign: whether it is negative, and what follows.\<close>

fun take_sign :: "string \<Rightarrow> bool \<times> string" where
  "take_sign [] = (False, [])"
| "take_sign (c # s) = (if c = CHR ''-'' then (True, s) else if c = CHR ''+'' then (False, s)
                        else (False, c # s))"

text \<open>\<open>atoi\<close>; a value that is no \<open>int\<close> is undefined behaviour.\<close>

definition atoi :: "string \<Rightarrow> int option" where
  "atoi s =
     (let (neg, s1) = take_sign (dropWhile isspace s);
          n = digits_value 10 digit_value (takeWhile isdigit s1);
          v = (if neg then - n else n)
      in if fits_int v then Some v else None)"

subsection \<open>Floating-point numbers\<close>

definition lower :: "char \<Rightarrow> char" where
  "lower c = (if 65 \<le> (of_char c :: nat) \<and> (of_char c :: nat) \<le> 90 then char_of (of_char c + 32 :: nat) else c)"

definition starts_with :: "string \<Rightarrow> string \<Rightarrow> bool" where
  "starts_with p s \<longleftrightarrow> map lower (take (length p) s) = p"

definition isxdigit :: "char \<Rightarrow> bool" where
  "isxdigit c \<longleftrightarrow> isdigit c \<or> (97 \<le> (of_char (lower c) :: nat) \<and> (of_char (lower c) :: nat) \<le> 102)"

definition xdigit_value :: "char \<Rightarrow> int" where
  "xdigit_value c = (if isdigit c then digit_value c else int (of_char (lower c)) - 87)"

text \<open>
  Digits with an optional point: the number they make without the point, how many are behind
  the point, how many there are, and the rest.
\<close>

definition mantissa :: "int \<Rightarrow> (char \<Rightarrow> bool) \<Rightarrow> (char \<Rightarrow> int) \<Rightarrow> string \<Rightarrow> int \<times> nat \<times> nat \<times> string" where
  "mantissa base isd val s =
     (let i = takeWhile isd s; r = dropWhile isd s
      in if r \<noteq> [] \<and> hd r = CHR ''.'' then
           (let f = takeWhile isd (tl r)
            in (digits_value base val (i @ f), length f, length i + length f, dropWhile isd (tl r)))
         else (digits_value base val i, 0, length i, r))"

text \<open>An exponent \<open>e\<close> (or \<open>p\<close>) with at least one digit; otherwise there is none.\<close>

definition exponent :: "char \<Rightarrow> string \<Rightarrow> int" where
  "exponent mark s =
     (if s \<noteq> [] \<and> lower (hd s) = mark then
        (let (neg, ds) = take_sign (tl s); n = digits_value 10 digit_value (takeWhile isdigit ds)
         in if neg then - n else n)
      else 0)"

text \<open>The exact value of a decimal or hexadecimal number; 0 where there is no number.\<close>

definition number_value :: "string \<Rightarrow> rat" where
  "number_value s =
     (if starts_with ''0x'' s \<and> fst (snd (snd (mantissa 16 isxdigit xdigit_value (drop 2 s)))) \<noteq> 0 then
        (let (m, k, n, r) = mantissa 16 isxdigit xdigit_value (drop 2 s)
         in of_int m * 2 powi (exponent (CHR ''p'') r - 4 * int k))
      else
        (let (m, k, n, r) = mantissa 10 isdigit digit_value s
         in if n = 0 then 0 else of_int m * 10 powi (exponent (CHR ''e'') r - int k)))"

text \<open>\<open>atof\<close>, rounded correctly to \<open>double\<close>.\<close>

definition atof :: "string \<Rightarrow> flt" where
  "atof s =
     (let (neg, s1) = take_sign (dropWhile isspace s)
      in if starts_with ''inf'' s1 then Infinity neg
         else if starts_with ''nan'' s1 then NaN
         else (let x = round_to binary64 (number_value s1) in if neg then f_neg x else x))"

section \<open>Bytes\<close>

text \<open>A 32-bit little-endian word, and the \<open>int\<close> or \<open>float\<close> it represents.\<close>

fun le_bytes :: "string \<Rightarrow> int" where
  "le_bytes [] = 0"
| "le_bytes (c # cs) = int (of_char c) + 256 * le_bytes cs"

definition bytes_int :: "string \<Rightarrow> int" where
  "bytes_int bs = (let n = le_bytes bs in if n < 2 ^ 31 then n else n - 2 ^ 32)"

definition bytes_float :: "string \<Rightarrow> flt" where
  "bytes_float bs =
     (let n = le_bytes bs; neg = (n div 2 ^ 31 = 1); e = n div 2 ^ 23 mod 256; m = n mod 2 ^ 23
      in if e = 255 then (if m = 0 then Infinity neg else NaN)
         else if e = 0 \<and> m = 0 then signed_zero neg
         else (let q = (if e = 0 then of_int m * 2 powi (- 149)
                        else of_int (m + 2 ^ 23) * 2 powi (e - 150))
               in Fin (if neg then - q else q)))"

section \<open>Writing numbers\<close>

text \<open>\<open>printf\<close> with \<open>"%d"\<close>.\<close>

definition digit_char :: "nat \<Rightarrow> char" where
  "digit_char d = char_of (48 + d)"

fun nat_text :: "nat \<Rightarrow> string" where
  "nat_text n = (if n < 10 then [digit_char n] else nat_text (n div 10) @ [digit_char (n mod 10)])"

declare nat_text.simps [simp del]

definition int_text :: "int \<Rightarrow> string" where
  "int_text i = (if i < 0 then CHR ''-'' # nat_text (nat (- i)) else nat_text (nat i))"

end
