(* ===== verification/Read_Input.thy ===== *)
theory Read_Input
  imports C_Stdlib Kmeans_Props Getopt_Refine
begin

text \<open>
  \<open>setup\<close> of \<open>cl_testbench/kmeans/read_input.c\<close>: the option loop over \<open>getopt\<close>, the two
  readers of the data file, and the calls and reports that follow.  An exit of the program is a
  value of \<open>outcome\<close>.  The files are a map from names to contents; \<^const>\<open>None\<close> is
  undefined behaviour (a null pointer used, an access out of range, an overflow of \<open>int\<close>).
\<close>

section \<open>Options\<close>

record settings =
  filename :: "string option"
  isBinaryFile :: bool
  threshold :: flt
  max_nclusters :: int
  min_nclusters :: int
  nloops :: int
  isRMSE :: bool
  isOutput :: bool

definition default_settings :: settings where
  "default_settings =
     \<lparr>filename = None, isBinaryFile = False,
      threshold = f_convert binary32 (round_to binary64 (1 / 1000)),
      max_nclusters = 5, min_nclusters = 5, nloops = 1, isRMSE = False, isOutput = False\<rparr>"

text \<open>How the program can end before the clustering.\<close>

datatype exit_reason = Usage | No_such_file string | Too_few_points int int

definition kmeans_optstring :: string where
  "kmeans_optstring = ''i:t:m:n:l:bro''"

text \<open>One round of the \<open>switch\<close>; \<open>atoi\<close> and \<open>atof\<close> of a null pointer are undefined.\<close>

definition setup_option :: "int \<Rightarrow> string option \<Rightarrow> settings \<Rightarrow> (exit_reason + settings) option" where
  "setup_option opt arg cfg =
     (if opt = char_int (CHR ''i'') then Some (Inr (cfg\<lparr>filename := arg\<rparr>))
      else if opt = char_int (CHR ''b'') then Some (Inr (cfg\<lparr>isBinaryFile := True\<rparr>))
      else if opt = char_int (CHR ''t'') then
        do { a \<leftarrow> arg; Some (Inr (cfg\<lparr>threshold := f_convert binary32 (atof a)\<rparr>)) }
      else if opt = char_int (CHR ''m'') then
        do { a \<leftarrow> arg; n \<leftarrow> atoi a; Some (Inr (cfg\<lparr>max_nclusters := n\<rparr>)) }
      else if opt = char_int (CHR ''n'') then
        do { a \<leftarrow> arg; n \<leftarrow> atoi a; Some (Inr (cfg\<lparr>min_nclusters := n\<rparr>)) }
      else if opt = char_int (CHR ''r'') then Some (Inr (cfg\<lparr>isRMSE := True\<rparr>))
      else if opt = char_int (CHR ''o'') then Some (Inr (cfg\<lparr>isOutput := True\<rparr>))
      else if opt = char_int (CHR ''l'') then
        do { a \<leftarrow> arg; n \<leftarrow> atoi a; Some (Inr (cfg\<lparr>nloops := n\<rparr>)) }
      else Some (Inl Usage))"

text \<open>
  \<open>while ((opt = getopt (...)) != EOF) switch (opt)\<close> over any scanner, with a bound on the
  number of calls; \<open>usage\<close> leaves the loop.
\<close>

fun option_loop :: "('s \<Rightarrow> (int \<times> string option \<times> 's) option) \<Rightarrow>
    (int \<Rightarrow> string option \<Rightarrow> 'c \<Rightarrow> ('x + 'c) option) \<Rightarrow> nat \<Rightarrow> 'c \<Rightarrow> 's \<Rightarrow> ('x + 'c) option" where
  "option_loop scanner handle 0 cfg s = None"
| "option_loop scanner handle (Suc fuel) cfg s =
     do {
       (r, a, s1) \<leftarrow> scanner s;
       if r = - 1 then Some (Inr cfg)
       else
         do {
           res \<leftarrow> handle r a cfg;
           (case res of Inl x \<Rightarrow> Some (Inl x) | Inr cfg1 \<Rightarrow> option_loop scanner handle fuel cfg1 s1)
         }
     }"

text \<open>What the loop makes of a list of options.\<close>

fun handle_all :: "(int \<Rightarrow> string option \<Rightarrow> 'c \<Rightarrow> ('x + 'c) option) \<Rightarrow> (int \<times> string option) list \<Rightarrow>
    'c \<Rightarrow> ('x + 'c) option" where
  "handle_all handle [] cfg = Some (Inr cfg)"
| "handle_all handle ((r, a) # evs) cfg =
     do {
       res \<leftarrow> handle r a cfg;
       (case res of Inl x \<Rightarrow> Some (Inl x) | Inr cfg1 \<Rightarrow> handle_all handle evs cfg1)
     }"

context option_scanner
begin

lemma option_loop_meaning:
  "ready s \<Longrightarrow> meaning os (config_of s) = (evs, opts, operands) \<Longrightarrow> length evs < fuel \<Longrightarrow>
   option_loop scanner handle fuel cfg s
   = handle_all handle (map (\<lambda>e. (event_code os e, event_arg e)) evs) cfg"
proof (induction fuel arbitrary: s evs cfg)
  case 0
  then show ?case by simp
next
  case (Suc fuel)
  obtain oe c1 where c1: "next_event os (config_of s) = (oe, c1)"
    by (cases "next_event os (config_of s)")
  show ?case
  proof (cases oe)
    case None
    obtain D N k R where "c1 = (D, N, k, R)" by (cases c1)
    then have ne: "next_event os (config_of s) = (None, (D, N, k, R))" using c1 None by simp
    show ?thesis
      using next_event_end [OF ne config_wf] scan_end [OF Suc.prems(1) ne] Suc.prems by auto
  next
    case (Some e)
    have ne: "next_event os (config_of s) = (Some e, c1)" using c1 Some by simp
    obtain s1 where s1: "scanner s = Some (event_code os e, event_arg e, s1)"
        "ready s1" "config_of s1 = c1" using scan_event [OF Suc.prems(1) ne] by blast
    obtain evs' where evs: "evs = e # evs'" "meaning os c1 = (evs', opts, operands)"
      using next_event_some [OF ne config_wf] Suc.prems by auto
    have "length evs' < fuel" using Suc.prems(3) by (simp add: evs(1))
    then have "option_loop scanner handle fuel c s1
        = handle_all handle (map (\<lambda>e. (event_code os e, event_arg e)) evs') c" for c
      using Suc.IH s1(2,3) evs(2) by blast
    then show ?thesis
      using s1(1) codes [OF Suc.prems(1) ne] by (simp add: evs(1))
  qed
qed

end

definition setup_options :: "string list \<Rightarrow> (exit_reason + settings) option" where
  "setup_options args =
     (case option_loop (getopt_step (length args) kmeans_optstring) setup_option
         (Suc (sum_list (map length args))) default_settings (getopt_start args) of
        None \<Rightarrow> None
      | Some (Inl x) \<Rightarrow> Some (Inl x)
      | Some (Inr cfg) \<Rightarrow> if filename cfg = None then Some (Inl Usage) else Some (Inr cfg))"

section \<open>The data file\<close>

text \<open>A product of two sizes, computed in \<open>int\<close>.\<close>

definition int_times :: "int \<Rightarrow> int \<Rightarrow> int option" where
  "int_times a b = (if fits_int (a * b) then Some (a * b) else None)"

text \<open>The rows \<open>features[i]\<close> of the flat buffer.\<close>

definition rows_of :: "nat \<Rightarrow> nat \<Rightarrow> flt list \<Rightarrow> flt list list" where
  "rows_of npoints nfeatures buf =
     map (\<lambda>i. map (\<lambda>j. buf ! (i * nfeatures + j)) [0..<nfeatures]) [0..<npoints]"

text \<open>
  The binary reader.  A short \<open>read\<close> leaves the rest of the variable as it was: zero for the
  counts, fresh memory for the buffer (\<open>junk\<close>).  \<open>features[0]\<close> is assigned in any case.
\<close>

definition load_binary :: "(nat \<Rightarrow> flt) \<Rightarrow> string \<Rightarrow> (nat \<times> nat \<times> flt list list) option" where
  "load_binary junk bytes =
     (let npoints = bytes_int (take 4 bytes); nfeatures = bytes_int (take 4 (drop 4 bytes))
      in do {
        size \<leftarrow> int_times npoints nfeatures;
        if npoints < 1 \<or> nfeatures < 0 then None
        else
          (let buf = map (\<lambda>k. if 12 + 4 * k \<le> length bytes
                              then bytes_float (take 4 (drop (8 + 4 * k) bytes)) else junk k)
                       [0..<nat size]
           in Some (nat npoints, nat nfeatures, rows_of (nat npoints) (nat nfeatures) buf))
      })"

text \<open>The first two passes over a text file: the number of points and of features.\<close>

definition id_delims :: string where
  "id_delims = [CHR '' '', CHR 0x09, newline]"

definition value_delims :: string where
  "value_delims = [CHR '' '', CHR '','', CHR 0x09, newline]"

definition is_data_line :: "string \<Rightarrow> bool" where
  "is_data_line line \<longleftrightarrow> fst (strtok id_delims line) \<noteq> None"

definition count_points :: "string \<Rightarrow> nat" where
  "count_points content = fold (\<lambda>line n. if is_data_line line then n + 1 else n) (read_lines 1024 content) 0"

fun count_features :: "string list \<Rightarrow> nat" where
  "count_features [] = 0"
| "count_features (line # ls) =
     (if is_data_line line then length (tokens value_delims (snd (strtok id_delims line)))
      else count_features ls)"

text \<open>
  The third pass: \<open>nfeatures\<close> values of each line into the buffer; the state is \<open>(buf, i)\<close>,
  and within a line the rest that \<open>strtok (NULL, ...)\<close> goes on with.
\<close>

definition value_step :: "nat \<Rightarrow> flt list \<times> nat \<times> string \<Rightarrow> (flt list \<times> nat \<times> string) option" where
  "value_step j acc =
     (let (buf, i, rest) = acc; (tok, rest1) = strtok value_delims rest in
      do {
        t \<leftarrow> tok;
        buf1 \<leftarrow> set_at buf i (f_convert binary32 (atof t));
        Some (buf1, i + 1, rest1)
      })"

definition line_step :: "nat \<Rightarrow> string \<Rightarrow> flt list \<times> nat \<Rightarrow> (flt list \<times> nat) option" where
  "line_step nfeatures line acc =
     (let (buf, i) = acc in
      if \<not> is_data_line line then Some acc
      else
        do {
          (buf1, i1, rest) \<leftarrow>
            for_loop 0 nfeatures value_step (buf, i, snd (strtok id_delims line));
          Some (buf1, i1)
        })"

definition load_text :: "(nat \<Rightarrow> flt) \<Rightarrow> string \<Rightarrow> (nat \<times> nat \<times> flt list list) option" where
  "load_text junk content =
     (let npoints = count_points content; nfeatures = count_features (read_lines 1024 content)
      in do {
        size \<leftarrow> int_times (int npoints) (int nfeatures);
        if npoints < 1 then None
        else
          do {
            (buf, i) \<leftarrow> foldM (line_step nfeatures) (read_lines 1024 content)
                          (map junk [0..<nat size], 0);
            Some (npoints, nfeatures, rows_of npoints nfeatures buf)
          }
      })"

section \<open>setup\<close>

text \<open>The reports on the standard output.\<close>

datatype report =
    Number_of_objects nat
  | Number_of_features nat
  | Centroid nat "flt list"
  | Number_of_iterations int
  | Best_number int
  | Trials_to_best flt nat
  | Rmse_report flt

datatype outcome = Exit "report list" exit_reason | Return "report list"

text \<open>The number of clusterings, \<open>(max_nclusters - min_nclusters + 1) * nloops\<close> in \<open>int\<close>.\<close>

definition clustering_count :: "settings \<Rightarrow> int option" where
  "clustering_count cfg =
     do {
       _ \<leftarrow> (if fits_int (max_nclusters cfg - min_nclusters cfg) then Some () else None);
       n \<leftarrow> (if fits_int (max_nclusters cfg - min_nclusters cfg + 1)
             then Some (max_nclusters cfg - min_nclusters cfg + 1) else None);
       int_times n (nloops cfg)
     }"

text \<open>
  The reports after the clustering; an unassigned \<open>rmse\<close>, a null centre pointer and an overflow of
  the number of clusterings, which is computed for the variable \<open>len\<close> that nothing uses, are
  undefined.
\<close>

definition final_reports :: "settings \<Rightarrow> nat \<Rightarrow> best \<Rightarrow> report list option" where
  "final_reports cfg nfeatures b =
     do {
       cs \<leftarrow> (if min_nclusters cfg = max_nclusters cfg \<and> isOutput cfg then
                foldM (\<lambda>i rs. do {
                    rows \<leftarrow> cluster_centres b;
                    row \<leftarrow> arg_at rows i;
                    (if nfeatures \<le> length row then Some (rs @ [Centroid i (take nfeatures row)]) else None)
                  }) [0..<nat (max_nclusters cfg)] []
              else Some []);
       len \<leftarrow> clustering_count cfg;
       iters \<leftarrow> Some [Number_of_iterations (nloops cfg)];
       best \<leftarrow> (if min_nclusters cfg \<noteq> max_nclusters cfg then Some [Best_number (best_nclusters b)]
                else if nloops cfg \<noteq> 1 then
                  (if isRMSE cfg then
                     do { r \<leftarrow> min_rmse b; Some [Trials_to_best r (best_index b + 1)] }
                   else Some [])
                else if isRMSE cfg then do { r \<leftarrow> min_rmse b; Some [Rmse_report r] }
                else Some []);
       Some (cs @ iters @ best)
     }"

definition no_device :: ocl_device where
  "no_device = \<lparr>d_feature = [], d_feature_swap = [], d_cluster = [], d_membership = [],
     membership_OCL = None\<rparr>"

definition start_best :: best where
  "start_best = \<lparr>min_rmse_ref = flt_max, min_rmse = None, best_nclusters = 0, best_index = 0,
     cluster_centres = None\<rparr>"

definition run_setup :: "(string \<Rightarrow> string option) \<Rightarrow> (nat \<Rightarrow> flt) \<Rightarrow> (int \<Rightarrow> ocl_setup) \<Rightarrow>
    (int \<Rightarrow> nat \<Rightarrow> nat \<Rightarrow> ocl_run) \<Rightarrow> string list \<Rightarrow> outcome option" where
  "run_setup files junk rts rt args =
     do {
       res \<leftarrow> setup_options args;
       (case res of
          Inl x \<Rightarrow> Some (Exit [] x)
        | Inr cfg \<Rightarrow>
            do {
              name \<leftarrow> filename cfg;
              (case files name of
                 None \<Rightarrow> Some (Exit [] (No_such_file name))
               | Some content \<Rightarrow>
                   do {
                     (npoints, nfeatures, features) \<leftarrow>
                       (if isBinaryFile cfg then load_binary junk content else load_text junk content);
                     (let io = [Number_of_objects npoints, Number_of_features nfeatures] in
                      if int npoints < min_nclusters cfg then
                        Some (Exit io (Too_few_points (min_nclusters cfg) (int npoints)))
                      else
                        do {
                          b \<leftarrow> cluster_sweep rts rt npoints nfeatures features (min_nclusters cfg)
                                 (max_nclusters cfg) (threshold cfg) (isRMSE cfg) (nat (nloops cfg))
                                 start_best no_device;
                          rs \<leftarrow> final_reports cfg nfeatures b;
                          Some (Return (io @ rs))
                        })
                   })
            })
     }"

end
