(* ===== verification/Read_Props.thy ===== *)
theory Read_Props
  imports Read_Input
begin

text \<open>
  Properties of \<open>setup\<close>: the options are those of the reference parser of command lines, the
  text reader yields exactly the values in the file or fails on a short line, and a run with a
  good file returns.
\<close>

section \<open>Options\<close>

text \<open>
  The arguments given with one letter, in their order, and whether a letter is given at all.  The
  events before the first unknown or incomplete option are the ones that count.
\<close>

definition is_option :: "event \<Rightarrow> bool" where
  "is_option e = (case e of Opt c a \<Rightarrow> True | _ \<Rightarrow> False)"

definition arguments :: "char \<Rightarrow> event list \<Rightarrow> string list" where
  "arguments c evs =
     List.map_filter (\<lambda>e. case e of Opt d a \<Rightarrow> if d = c then a else None | _ \<Rightarrow> None) evs"

definition given :: "char \<Rightarrow> event list \<Rightarrow> bool" where
  "given c evs \<longleftrightarrow> (\<exists>e \<in> set evs. case e of Opt d a \<Rightarrow> d = c | _ \<Rightarrow> False)"

definition last_or :: "'a \<Rightarrow> 'a list \<Rightarrow> 'a" where
  "last_or d xs = (if xs = [] then d else last xs)"

lemma last_or_simps [simp]: "last_or d [] = d" "last_or d (x # xs) = last_or x xs"
  by (simp_all add: last_or_def)

lemma arguments_simps [simp]:
  "arguments c [] = []"
  "arguments c (Opt d (Some a) # evs) = (if d = c then a # arguments c evs else arguments c evs)"
  "arguments c (Opt d None # evs) = arguments c evs"
  "d \<noteq> c \<Longrightarrow> arguments c (Opt d b # evs) = arguments c evs"
  "arguments c (Bad x # evs) = arguments c evs"
  "arguments c (Missing x # evs) = arguments c evs"
  by (simp_all add: arguments_def List.map_filter_simps)

lemma given_simps [simp]:
  "\<not> given c []" "given c (Opt d a # evs) \<longleftrightarrow> d = c \<or> given c evs"
  "given c (Bad x # evs) = given c evs" "given c (Missing x # evs) = given c evs"
  by (simp_all add: given_def)

lemma is_option_simps [simp]: "is_option (Opt c a)" "\<not> is_option (Bad c)" "\<not> is_option (Missing c)"
  by (simp_all add: is_option_def)






definition bad_number :: "event list \<Rightarrow> bool" where
  "bad_number evs \<longleftrightarrow> (\<exists>c \<in> set ''mnl''. \<exists>a \<in> set (arguments c evs). atoi a = None)"


lemma bad_number_simps [simp]:
  "\<not> bad_number []" "c \<notin> set ''mnl'' \<Longrightarrow> bad_number (Opt c b # evs) = bad_number evs"
  "bad_number (Opt c (Some a) # evs) \<longleftrightarrow> c \<in> set ''mnl'' \<and> atoi a = None \<or> bad_number evs"
  by (auto simp: bad_number_def)






section \<open>The text reader\<close>

definition data_lines :: "string \<Rightarrow> string list" where
  "data_lines content = filter is_data_line (read_lines 1024 content)"

text \<open>The values of a line: all tokens after the first.\<close>

definition line_values :: "string \<Rightarrow> string list" where
  "line_values line = tokens value_delims (snd (strtok id_delims line))"

definition to_float :: "string \<Rightarrow> flt" where
  "to_float t = f_convert binary32 (atof t)"

lemma tokens_None: "strtok d s = (None, r) \<Longrightarrow> tokens d s = []"
  by (simp add: tokens.simps [of d s])

lemma tokens_Some: "strtok d s = (Some t, r) \<Longrightarrow> tokens d s = t # tokens d r"
  by (simp add: tokens.simps [of d s])

lemma value_loop:
  assumes "length js \<le> length post"
  shows "if length js \<le> length (tokens value_delims rest)
    then \<exists>r. foldM value_step js (pre @ post, length pre, rest)
      = Some (pre @ map to_float (take (length js) (tokens value_delims rest)) @ drop (length js) post,
              length pre + length js, r)
    else foldM value_step js (pre @ post, length pre, rest) = None"
  using assms
proof (induction js arbitrary: pre post rest)
  case Nil
  then show ?case by simp
next
  case (Cons j js)
  obtain p post' where post: "post = p # post'" using Cons.prems by (cases post) auto
  obtain tok r where tok: "strtok value_delims rest = (tok, r)" by fastforce
  show ?case
  proof (cases tok)
    case None
    then show ?thesis using tok tokens_None by (auto simp: value_step_def)
  next
    case (Some t)
    have ts: "tokens value_delims rest = t # tokens value_delims r" using tok Some tokens_Some by simp
    have step: "value_step j (pre @ p # post', length pre, rest)
        = Some (pre @ to_float t # post', Suc (length pre), r)"
      using tok Some by (simp add: value_step_def to_float_def list_update_append)
    show ?thesis
      using Cons.IH [of post' r "pre @ [to_float t]"] Cons.prems post
      by (auto simp: step ts split: if_splits)
  qed
qed

lemma line_step_data:
  assumes "is_data_line line" "nf \<le> length post"
  shows "line_step nf line (pre @ post, length pre) =
    (if nf \<le> length (line_values line)
     then Some ((pre @ map to_float (take nf (line_values line))) @ drop nf post,
                length (pre @ map to_float (take nf (line_values line))))
     else None)"
  using value_loop [of "[0..<nf]" post "snd (strtok id_delims line)" pre] assms
  by (auto simp: line_step_def for_loop_def line_values_def split: if_splits)

lemma lines_loop:
  assumes "nf * length (filter is_data_line ls) \<le> length post"
  shows "foldM (line_step nf) ls (pre @ post, length pre) =
    (if \<forall>l \<in> set (filter is_data_line ls). nf \<le> length (line_values l)
     then let new = concat (map (\<lambda>l. map to_float (take nf (line_values l))) (filter is_data_line ls))
          in Some (pre @ new @ drop (length new) post, length pre + length new)
     else None)"
  using assms
proof (induction ls arbitrary: pre post)
  case Nil
  then show ?case by simp
next
  case (Cons l ls)
  show ?case
  proof (cases "is_data_line l")
    case False
    then have a: "foldM (line_step nf) (l # ls) (pre @ post, length pre)
        = foldM (line_step nf) ls (pre @ post, length pre)"
      and f: "filter is_data_line (l # ls) = filter is_data_line ls"
      by (simp_all add: line_step_def)
    show ?thesis
      unfolding a f by (rule Cons.IH) (use Cons.prems f in simp)
  next
    case True
    let ?v = "map to_float (take nf (line_values l))"
    have len: "nf \<le> length post" "nf * length (filter is_data_line ls) \<le> length (drop nf post)"
      using Cons.prems True by simp_all
    show ?thesis
    proof (cases "nf \<le> length (line_values l)")
      case short: False
      then show ?thesis using True line_step_data [OF True len(1)] by auto
    next
      case long: True
      then have v: "length ?v = nf" by simp
      have "foldM (line_step nf) (l # ls) (pre @ post, length pre)
          = foldM (line_step nf) ls ((pre @ ?v) @ drop nf post, length (pre @ ?v))"
        using line_step_data [OF True len(1), of pre] long by (simp del: append_assoc)
      also have "\<dots> = (if \<forall>l \<in> set (filter is_data_line ls). nf \<le> length (line_values l)
     then let new = concat (map (\<lambda>l. map to_float (take nf (line_values l))) (filter is_data_line ls))
          in Some ((pre @ ?v) @ new @ drop (length new) (drop nf post), length (pre @ ?v) + length new)
     else None)"
        by (rule Cons.IH [OF len(2)])
      finally show ?thesis
        using True long v by (auto simp: Let_def add.commute simp del: length_map length_take)
    qed
  qed
qed

lemma count_points_eq: "count_points content = length (data_lines content)"
proof -
  have "fold (\<lambda>line n. if is_data_line line then n + 1 else n) ls k = k + length (filter is_data_line ls)"
    for ls k by (induction ls arbitrary: k) auto
  then show ?thesis by (simp add: count_points_def data_lines_def)
qed

lemma count_features_eq:
  "count_features ls = (case filter is_data_line ls of [] \<Rightarrow> 0 | l # _ \<Rightarrow> length (line_values l))"
  by (induction ls) (auto simp: line_values_def)

lemma rows_of_concat: "shaped n m xss \<Longrightarrow> rows_of n m (concat xss) = xss"
  by (auto simp: rows_of_def concat_nth_shaped shaped_def intro!: nth_equalityI)

lemma load_text_eq:
  fixes content
  defines "ls \<equiv> data_lines content"
  defines "nf \<equiv> length (line_values (hd ls))"
  shows "load_text junk content =
    (if ls = [] \<or> \<not> fits_int (int (length ls) * int nf) \<or> (\<exists>l \<in> set ls. length (line_values l) < nf)
     then None
     else Some (length ls, nf, map (\<lambda>l. map to_float (take nf (line_values l))) ls))"
proof (cases "ls = []")
  case True
  then show ?thesis
    by (simp add: load_text_def count_points_eq ls_def [symmetric] int_times_def fits_int_def Let_def)
next
  case ne: False
  have nf: "count_features (read_lines 1024 content) = nf"
    using ne by (cases ls) (auto simp: count_features_eq nf_def ls_def data_lines_def)
  let ?buf = "map junk [0..<length ls * nf]"
  let ?rows = "map (\<lambda>l. map to_float (take nf (line_values l))) ls"
  have loop: "foldM (line_step nf) (read_lines 1024 content) (?buf, 0)
    = (if \<forall>l \<in> set ls. nf \<le> length (line_values l)
       then Some (concat ?rows @ drop (length (concat ?rows)) ?buf, length (concat ?rows)) else None)"
    using lines_loop [of nf "read_lines 1024 content" ?buf "[]"]
    by (simp add: ls_def data_lines_def mult.commute Let_def)
  show ?thesis
  proof (cases "\<forall>l \<in> set ls. nf \<le> length (line_values l)")
    case True
    then have s: "shaped (length ls) nf ?rows" by (auto simp: shaped_def)
    have "drop (length (concat ?rows)) ?buf = []"
      using length_concat_shaped [OF s] by simp
    then have "foldM (line_step nf) (read_lines 1024 content) (?buf, 0) = Some (concat ?rows, length (concat ?rows))"
      using loop True by simp
    then show ?thesis
      using ne True rows_of_concat [OF s]
      by (auto simp: load_text_def count_points_eq nf ls_def [symmetric] int_times_def Let_def
          nat_mult_distrib not_less simp flip: of_nat_mult)
  next
    case False
    then have "\<exists>l \<in> set ls. length (line_values l) < nf" by (auto simp: not_le)
    then show ?thesis
      using ne loop False
      by (auto simp: load_text_def count_points_eq nf ls_def [symmetric] int_times_def Let_def
          nat_mult_distrib simp flip: of_nat_mult)
  qed
qed

text \<open>
  C12.  The text reader: the points are the lines that hold anything, in order; a line's first
  token is dropped and the next \<open>nfeatures\<close>, as many as the first such line has, become its
  row, each converted by \<open>atof\<close> and rounded to \<open>float\<close>.  A shorter line makes the code
  convert a null pointer, and a file without points makes it write to an empty allocation.
  Nothing of the uninitialised buffer is left in the rows.
\<close>

theorem load_text_correct:
  fixes content
  defines "ls \<equiv> data_lines content"
  defines "nf \<equiv> length (line_values (hd ls))"
  shows "load_text junk content =
    (if ls = [] \<or> \<not> fits_int (int (length ls) * int nf) \<or> (\<exists>l \<in> set ls. length (line_values l) < nf)
     then None
     else Some (length ls, nf, map (\<lambda>l. map to_float (take nf (line_values l))) ls))"
  unfolding ls_def nf_def by (rule load_text_eq)

definition sample_file :: string where
  "sample_file = ''0 1.5 2'' @ [newline, newline] @ ''1 -3,4e1'' @ [newline]"

theorem load_text_correct_witness:
  "load_text (\<lambda>_. NaN) sample_file = Some (2, 2, [[Fin (3 / 2), Fin 2], [Fin (- 3), Fin 40]])"
proof -
  have d: "data_lines sample_file = [''0 1.5 2'' @ [newline], ''1 -3,4e1'' @ [newline]]" by code_simp
  have v: "line_values (''0 1.5 2'' @ [newline]) = [''1.5'', ''2'']"
    "line_values (''1 -3,4e1'' @ [newline]) = [''-3'', ''4e1'']" by code_simp+
  have f: "to_float ''1.5'' = Fin (3 / 2)" "to_float ''2'' = Fin 2" "to_float ''-3'' = Fin (- 3)"
    "to_float ''4e1'' = Fin 40" by code_simp+
  have "fits_int 4" by code_simp
  then show ?thesis
    using load_text_correct [of "\<lambda>_. NaN" sample_file] unfolding d by (simp add: v [simplified] f)
qed

section \<open>Whole runs\<close>

lemma centroid_reports:
  assumes "n \<le> length cs" "\<forall>row \<in> set cs. length row = nf" "cluster_centres b = Some cs"
  shows "foldM (\<lambda>i rs. do {
        rows \<leftarrow> cluster_centres b;
        row \<leftarrow> arg_at rows i;
        (if nf \<le> length row then Some (rs @ [Centroid i (take nf row)]) else None)
      }) [0..<n] [] = Some (map (\<lambda>i. Centroid i (cs ! i)) [0..<n])"
  using assms(1)
proof (induction n)
  case (Suc n)
  then have "length (cs ! n) = nf" using assms(2) by simp
  then show ?case using Suc assms(3) by (simp add: foldM_append)
qed simp

text \<open>
  C13.  A run of \<open>setup\<close> without \<open>-r\<close> on a text file that is read (fewer than \<open>INT_MAX\<close> points, each
  with a feature), with an OpenCL runtime that fails no call of \<open>allocate\<close>, \<open>min_nclusters\<close> at least
  one and at most \<open>max_nclusters\<close>, and some trials: if there are fewer points than \<open>min_nclusters\<close> it
  says so and exits.  Otherwise the behaviour is undefined where the compiled \<open>allocate\<close> does not
  return from the end it reaches without a \<open>return\<close> (as C++ allows), and undefined when the number of
  clusterings overflows \<open>int\<close>; in every other case \<open>setup\<close> returns, having reported the sizes and,
  for a range of numbers of clusters, 0 as the best number.
\<close>

theorem run_setup_returns:
  assumes "setup_options args = Some (Inr cfg)" "filename cfg = Some name" "files name = Some content"
    and "\<not> isBinaryFile cfg" "load_text junk content = Some (np, nf, rows)" "\<not> isRMSE cfg"
    and "1 \<le> min_nclusters cfg" "min_nclusters cfg \<le> max_nclusters cfg" "1 \<le> nloops cfg"
    and "\<forall>k. fair_setup (rts k) \<and> (\<forall>i < 12. setup_errs (rts k) i = 0) \<and> end_returns (rts k) = compiled"
    and "\<forall>k i l. fair_run (rt k i l)" "int np < 2 ^ 31 - 1" "1 \<le> nf" "fits_int (max_nclusters cfg)"
  shows "if int np < min_nclusters cfg
    then run_setup files junk rts rt args =
      Some (Exit [Number_of_objects np, Number_of_features nf] (Too_few_points (min_nclusters cfg) (int np)))
    else if \<not> compiled \<or> \<not> fits_int ((max_nclusters cfg - min_nclusters cfg + 1) * nloops cfg)
    then run_setup files junk rts rt args = None
    else \<exists>cs. run_setup files junk rts rt args =
      Some (Return ([Number_of_objects np, Number_of_features nf]
        @ (if min_nclusters cfg = max_nclusters cfg \<and> isOutput cfg
           then map (\<lambda>i. Centroid i (cs ! i)) [0..<nat (max_nclusters cfg)] else [])
        @ [Number_of_iterations (nloops cfg)]
        @ (if min_nclusters cfg < max_nclusters cfg then [Best_number 0] else [])))"
proof (cases "int np < min_nclusters cfg")
  case True
  then show ?thesis using assms(1-5) by (simp add: run_setup_def)
next
  case False
  let ?ls = "data_lines content"
  have np: "shaped np nf rows"
    using assms(5) load_text_eq [of junk content]
    by (auto simp: shaped_def not_less min_absorb2 split: if_splits)
  show ?thesis
  proof (cases compiled)
    case no: False
    then show ?thesis
      using cluster_sweep_no_return [OF np assms(8), of rts] False assms(1-6,10)
      by (simp add: run_setup_def)
  next
    case compiled: True
  have count: "clustering_count cfg = (if fits_int ((max_nclusters cfg - min_nclusters cfg + 1) * nloops cfg)
      then Some ((max_nclusters cfg - min_nclusters cfg + 1) * nloops cfg) else None)"
    using assms(7,8,14) by (simp add: clustering_count_def int_times_def fits_int_def)
  obtain b cs where b: "cluster_sweep rts rt np nf rows (min_nclusters cfg) (max_nclusters cfg)
      (threshold cfg) False (nat (nloops cfg)) start_best no_device = Some b"
      "cluster_centres b = Some cs" "shaped (nat (min (max_nclusters cfg) (int np))) nf cs"
      "best_nclusters b = 0"
    using cluster_sweep_total [OF np assms(7,8) _ _ _ assms(11), of "nat (nloops cfg)" rts
        "threshold cfg" start_best no_device] False assms(9,10) compiled
    by (auto simp: start_best_def)
  have reports: "final_reports cfg nf b =
      (if \<not> fits_int ((max_nclusters cfg - min_nclusters cfg + 1) * nloops cfg) then None else Some
      ((if min_nclusters cfg = max_nclusters cfg \<and> isOutput cfg
           then map (\<lambda>i. Centroid i (cs ! i)) [0..<nat (max_nclusters cfg)] else [])
        @ [Number_of_iterations (nloops cfg)]
        @ (if min_nclusters cfg < max_nclusters cfg then [Best_number 0] else [])))"
    using count centroid_reports [of "nat (max_nclusters cfg)" cs nf b] b(2-4) False assms(6,8)
    by (auto simp: final_reports_def shaped_def min_def split: if_splits)
  then show ?thesis
    using False assms(1-6) b(1) compiled by (auto simp: run_setup_def)
  qed
qed

lemma sample_file_text:
  "load_text junk sample_file = Some (2, 2, [[Fin (3 / 2), Fin 2], [Fin (- 3), Fin 40]])"
proof -
  have d: "data_lines sample_file = [''0 1.5 2'' @ [newline], ''1 -3,4e1'' @ [newline]]" by code_simp
  have v: "line_values (''0 1.5 2'' @ [newline]) = [''1.5'', ''2'']"
    "line_values (''1 -3,4e1'' @ [newline]) = [''-3'', ''4e1'']" by code_simp+
  have f: "to_float ''1.5'' = Fin (3 / 2)" "to_float ''2'' = Fin 2" "to_float ''-3'' = Fin (- 3)"
    "to_float ''4e1'' = Fin 40" by code_simp+
  have "fits_int 4" by code_simp
  then show ?thesis
    using load_text_eq [of junk sample_file] unfolding d by (simp add: v [simplified] f)
qed

theorem run_setup_returns_witness:
  "run_setup [''points'' \<mapsto> sample_file] (\<lambda>_. NaN)
      (\<lambda>_. \<lparr>setup_errs = (\<lambda>_. 0), swap_schedule = (\<lambda>g. [0..<g]), junk_flt = (\<lambda>_. NaN), junk_int = (\<lambda>_. 7), end_returns = True\<rparr>)
      (\<lambda>_ _ _. quiet_run) [''kmeans'', ''-ipoints'', ''-n1'']
    = Some (Return [Number_of_objects 2, Number_of_features 2, Number_of_iterations 1, Best_number 0])
  \<and> run_setup [''points'' \<mapsto> sample_file] (\<lambda>_. NaN)
      (\<lambda>_. \<lparr>setup_errs = (\<lambda>_. 0), swap_schedule = (\<lambda>g. [0..<g]), junk_flt = (\<lambda>_. NaN), junk_int = (\<lambda>_. 7), end_returns = True\<rparr>)
      (\<lambda>_ _ _. quiet_run) [''kmeans'', ''-ipoints'']
    = Some (Exit [Number_of_objects 2, Number_of_features 2] (Too_few_points 5 2))"
proof -
  let ?c = "\<lparr>filename = Some ''points'', isBinaryFile = False, threshold = Fin (8589935 / 8589934592),
      max_nclusters = 5, min_nclusters = 5, nloops = 1, isRMSE = False, isOutput = False\<rparr>"
  have o: "setup_options [''kmeans'', ''-ipoints'', ''-n1''] = Some (Inr (?c\<lparr>min_nclusters := 1\<rparr>))"
    "setup_options [''kmeans'', ''-ipoints''] = Some (Inr ?c)" by code_simp+
  show ?thesis
    using run_setup_returns [OF o(1), of "''points''" "[''points'' \<mapsto> sample_file]" sample_file "\<lambda>_. NaN" 2 2 _
        "\<lambda>_. \<lparr>setup_errs = (\<lambda>_. 0), swap_schedule = (\<lambda>g. [0..<g]), junk_flt = (\<lambda>_. NaN), junk_int = (\<lambda>_. 7),
               end_returns = True\<rparr>" True "\<lambda>_ _ _. quiet_run"]
      run_setup_returns [OF o(2), of "''points''" "[''points'' \<mapsto> sample_file]" sample_file "\<lambda>_. NaN" 2 2 _
        "\<lambda>_. \<lparr>setup_errs = (\<lambda>_. 0), swap_schedule = (\<lambda>g. [0..<g]), junk_flt = (\<lambda>_. NaN), junk_int = (\<lambda>_. 7),
               end_returns = True\<rparr>" True "\<lambda>_ _ _. quiet_run"]
      sample_file_text [of "\<lambda>_. NaN"] quiet_run_fair
    by (simp add: fair_setup_def is_schedule_def fits_int_def)
qed

end
