(* ===== verification/Sdk_Bitmap.thy ===== *)
theory Sdk_Bitmap
  imports Prelude Floats "HOL-Library.Word" "HOL-Library.Signed_Division"
begin

text \<open>
  The bitmap class of the SDK utilities, \<open>SDKBitMap\<close> (\<open>SDK/SDKUtil/SDKBitMap.cpp\<close> and its
  header): the two packed headers, the palette and the pixels as fields of an object, \<open>load\<close>
  and the two \<open>write\<close> functions on files that are lists of bytes.  A null pointer is
  \<^const>\<open>None\<close>.  A file that cannot be opened is \<^const>\<open>None\<close> too; \<open>bad n\<close> says that the error
  indicator of the stream is set after \<open>n\<close> bytes; \<open>fresh k\<close> are the bytes that the \<open>k\<close>-th
  array allocated by \<open>new\<close> happens to hold.  The result \<^const>\<open>None\<close> of \<open>load\<close>, \<open>write\<close> and the assignment
  is undefined behaviour: an access outside an array, an overflow of \<open>int\<close>, a shift beyond the
  width, an array of negative size.
\<close>

section \<open>Data\<close>

type_synonym byte = "8 word"

record uchar4 =
  px :: byte
  py :: byte
  pz :: byte
  pw :: byte

record bitmap_header =
  h_id :: "16 word"
  h_size :: "32 word"
  h_reserved1 :: "16 word"
  h_reserved2 :: "16 word"
  h_offset :: "32 word"

record bitmap_info =
  i_sizeInfo :: "32 word"
  i_width :: "32 word"
  i_height :: "32 word"
  i_planes :: "16 word"
  i_bitsPerPixel :: "16 word"
  i_compression :: "32 word"
  i_imageSize :: "32 word"
  i_xPelsPerMeter :: "32 word"
  i_yPelsPerMeter :: "32 word"
  i_clrUsed :: "32 word"
  i_clrImportant :: "32 word"

record bitmap =
  bm_header :: bitmap_header
  bm_info :: bitmap_info
  bm_pixels :: "uchar4 list option"
  bm_numColors :: "32 word"
  bm_colors :: "uchar4 list option"
  bm_isLoaded :: bool

definition bitMapID :: "16 word" where
  "bitMapID = 19778"

text \<open>The constructors leave the headers as the memory of the object happens to be.\<close>

definition new_bitmap :: "bitmap_header \<Rightarrow> bitmap_info \<Rightarrow> bitmap" where
  "new_bitmap h i =
     \<lparr>bm_header = h, bm_info = i, bm_pixels = None, bm_numColors = 0, bm_colors = None,
      bm_isLoaded = False\<rparr>"

subsection \<open>The packed layout of the structures\<close>

text \<open>Little-endian bytes of a word, least significant first, and back.\<close>

fun int_bytes :: "nat \<Rightarrow> int \<Rightarrow> byte list" where
  "int_bytes 0 n = []"
| "int_bytes (Suc k) n = word_of_int n # int_bytes k (n div 256)"

fun bytes_value :: "byte list \<Rightarrow> int" where
  "bytes_value [] = 0"
| "bytes_value (b # bs) = uint b + 256 * bytes_value bs"

definition short_bytes :: "16 word \<Rightarrow> byte list" where
  "short_bytes v = int_bytes 2 (uint v)"

definition int32_bytes :: "32 word \<Rightarrow> byte list" where
  "int32_bytes v = int_bytes 4 (uint v)"

definition header_bytes :: "bitmap_header \<Rightarrow> byte list" where
  "header_bytes h = short_bytes (h_id h) @ int32_bytes (h_size h) @ short_bytes (h_reserved1 h) @
     short_bytes (h_reserved2 h) @ int32_bytes (h_offset h)"

definition field :: "nat \<Rightarrow> nat \<Rightarrow> byte list \<Rightarrow> int" where
  "field i n bs = bytes_value (take n (drop i bs))"

definition header_of :: "byte list \<Rightarrow> bitmap_header" where
  "header_of bs =
     \<lparr>h_id = word_of_int (field 0 2 bs), h_size = word_of_int (field 2 4 bs),
      h_reserved1 = word_of_int (field 6 2 bs), h_reserved2 = word_of_int (field 8 2 bs),
      h_offset = word_of_int (field 10 4 bs)\<rparr>"

definition info_bytes :: "bitmap_info \<Rightarrow> byte list" where
  "info_bytes i = int32_bytes (i_sizeInfo i) @ int32_bytes (i_width i) @ int32_bytes (i_height i) @
     short_bytes (i_planes i) @ short_bytes (i_bitsPerPixel i) @ int32_bytes (i_compression i) @
     int32_bytes (i_imageSize i) @ int32_bytes (i_xPelsPerMeter i) @
     int32_bytes (i_yPelsPerMeter i) @ int32_bytes (i_clrUsed i) @ int32_bytes (i_clrImportant i)"

definition info_of :: "byte list \<Rightarrow> bitmap_info" where
  "info_of bs =
     \<lparr>i_sizeInfo = word_of_int (field 0 4 bs), i_width = word_of_int (field 4 4 bs),
      i_height = word_of_int (field 8 4 bs), i_planes = word_of_int (field 12 2 bs),
      i_bitsPerPixel = word_of_int (field 14 2 bs), i_compression = word_of_int (field 16 4 bs),
      i_imageSize = word_of_int (field 20 4 bs), i_xPelsPerMeter = word_of_int (field 24 4 bs),
      i_yPelsPerMeter = word_of_int (field 28 4 bs), i_clrUsed = word_of_int (field 32 4 bs),
      i_clrImportant = word_of_int (field 36 4 bs)\<rparr>"

definition color_bytes :: "uchar4 \<Rightarrow> byte list" where
  "color_bytes c = [px c, py c, pz c, pw c]"

fun colors_of :: "byte list \<Rightarrow> uchar4 list" where
  "colors_of (a # b # c # d # bs) = \<lparr>px = a, py = b, pz = c, pw = d\<rparr> # colors_of bs"
| "colors_of bs = []"

section \<open>Operations\<close>

definition releaseResources :: "bitmap \<Rightarrow> bitmap" where
  "releaseResources b = b\<lparr>bm_pixels := None, bm_colors := None, bm_isLoaded := False\<rparr>"

definition width_of :: "bitmap \<Rightarrow> int" where
  "width_of b = sint (i_width (bm_info b))"

definition height_of :: "bitmap \<Rightarrow> int" where
  "height_of b = sint (i_height (bm_info b))"

definition depth_of :: "bitmap \<Rightarrow> int" where
  "depth_of b = sint (i_bitsPerPixel (bm_info b))"

text \<open>
  \<open>new T[n]\<close> followed by \<open>memcpy\<close> of \<open>n\<close> elements: undefined for a count that is negative or no
  \<open>int\<close>, and when the source array has fewer.
\<close>

definition copy_array :: "int \<Rightarrow> 'a list \<Rightarrow> 'a list option" where
  "copy_array n xs =
     (if n < 0 \<or> \<not> fits_int n \<or> length xs < nat n then None else Some (take (nat n) xs))"

text \<open>
  The assignment operator; \<open>self\<close> says that both sides are the same object.  \<open>new\<close> does not
  return a null pointer, so the checks for one are never taken.
\<close>

definition assign :: "bool \<Rightarrow> bitmap \<Rightarrow> bitmap \<Rightarrow> bitmap option" where
  "assign self b rhs =
     (if self then Some b
      else let b1 = b\<lparr>bm_header := bm_header rhs, bm_info := bm_info rhs,
                      bm_numColors := bm_numColors rhs, bm_isLoaded := bm_isLoaded rhs,
                      bm_pixels := None, bm_colors := None\<rparr>
           in if \<not> bm_isLoaded b1 then Some b1
              else do { colors \<leftarrow> (case bm_colors rhs of None \<Rightarrow> Some None
                                  | Some cs \<Rightarrow> map_option Some (copy_array (sint (bm_numColors b1)) cs));
                        pixels \<leftarrow> bm_pixels rhs;
                        pixels1 \<leftarrow> copy_array (width_of b1 * height_of b1) pixels;
                        Some (b1\<lparr>bm_colors := colors, bm_pixels := Some pixels1\<rparr>) })"

text \<open>What \<open>fread\<close> leaves in an object: the bytes read over the ones it held.\<close>

definition overlay :: "byte list \<Rightarrow> byte list \<Rightarrow> byte list" where
  "overlay got old = got @ drop (length got) old"

definition fresh_bytes :: "(nat \<Rightarrow> byte) \<Rightarrow> nat \<Rightarrow> byte list" where
  "fresh_bytes junk n = map junk [0..<n]"

text \<open>\<open>(4 - (3 * width) % 4) % 4\<close>, with the remainder of C.\<close>

definition row_padding :: "int \<Rightarrow> nat" where
  "row_padding w = nat ((4 - (3 * w) smod 4) smod 4)"

subsection \<open>Loading\<close>

text \<open>
  A stage of \<open>load\<close> ends the function with the object as it is (\<^const>\<open>Inl\<close>), or goes on
  with the object and the position in the file (\<^const>\<open>Inr\<close>).
\<close>

definition load_header :: "byte list \<Rightarrow> (nat \<Rightarrow> bool) \<Rightarrow> bitmap \<Rightarrow> bitmap + bitmap \<times> nat" where
  "load_header file bad b =
     (let got = take 14 file;
          b1 = b\<lparr>bm_header := header_of (overlay got (header_bytes (bm_header b)))\<rparr>
      in if bad (length got) then Inl b1
         else if h_id (bm_header b1) \<noteq> bitMapID then Inl b1
         else Inr (b1, length got))"

definition load_info :: "byte list \<Rightarrow> (nat \<Rightarrow> bool) \<Rightarrow> bitmap \<times> nat \<Rightarrow> bitmap + bitmap \<times> nat" where
  "load_info file bad = (\<lambda>(b, pos).
     let got = take 40 (drop pos file); pos' = pos + length got;
         b1 = b\<lparr>bm_info := info_of (overlay got (info_bytes (bm_info b)))\<rparr>
     in if bad pos' then Inl b1
        else if i_compression (bm_info b1) \<noteq> 0 then Inl b1
        else if depth_of b1 < 8 then Inl b1
        else Inr (b1, pos'))"

definition load_palette ::
  "byte list \<Rightarrow> (nat \<Rightarrow> bool) \<Rightarrow> (nat \<Rightarrow> byte) \<Rightarrow> bitmap \<times> nat \<Rightarrow> (bitmap + bitmap \<times> nat) option" where
  "load_palette file bad junk = (\<lambda>(b, pos).
     if 32 \<le> depth_of b then None
     else Some
       (let b1 = b\<lparr>bm_numColors := push_bit (nat (depth_of b)) 1\<rparr>
        in if depth_of b1 = 8 then
             let n = 4 * unat (bm_numColors b1); got = take n (drop pos file); pos' = pos + length got;
                 b2 = b1\<lparr>bm_colors := Some (colors_of (overlay got (fresh_bytes junk n)))\<rparr>
             in if bad pos' then Inl b2 else Inr (b2, pos')
           else Inr (b1, pos)))"

text \<open>\<open>index++\<close> on an \<open>unsigned int\<close>.\<close>

definition index_next :: "nat \<Rightarrow> nat" where
  "index_next i = unat (word_of_nat i + 1 :: 32 word)"

definition load_pixel ::
  "bitmap \<Rightarrow> byte list \<Rightarrow> nat \<Rightarrow> nat \<Rightarrow> uchar4 list \<times> nat \<Rightarrow> (uchar4 list \<times> nat) option" where
  "load_pixel b tmp y x = (\<lambda>(pixels, index).
     let k = y * nat (width_of b) + x
     in if depth_of b = 8 then
          do { t \<leftarrow> arg_at tmp index;
               colors \<leftarrow> bm_colors b;
               c \<leftarrow> arg_at colors (unat t);
               pixels' \<leftarrow> set_at pixels k c;
               Some (pixels', index_next index) }
        else
          do { c \<leftarrow> arg_at pixels k;
               z \<leftarrow> arg_at tmp index;
               yy \<leftarrow> arg_at tmp (index_next index);
               xx \<leftarrow> arg_at tmp (index_next (index_next index));
               pixels' \<leftarrow> set_at pixels k (c\<lparr>pz := z, py := yy, px := xx\<rparr>);
               Some (pixels', index_next (index_next (index_next index))) })"

definition load_row ::
  "bitmap \<Rightarrow> byte list \<Rightarrow> nat \<Rightarrow> uchar4 list \<times> nat \<Rightarrow> (uchar4 list \<times> nat) option" where
  "load_row b tmp y st =
     do { (pixels, index) \<leftarrow> for_loop 0 (nat (width_of b)) (load_pixel b tmp y) st;
          if fits_int (3 * width_of b)
          then Some (pixels, (index_next ^^ row_padding (width_of b)) index) else None }"

definition white :: uchar4 where
  "white = \<lparr>px = 0xFF, py = 0xFF, pz = 0xFF, pw = 0xFF\<rparr>"

text \<open>
  \<open>size - offset\<close> is a difference of two \<open>int\<close>s, converted to \<open>unsigned int\<close>.  When reading fails,
  \<open>tmpPixels\<close>, which comes from \<open>new[]\<close>, is freed with \<open>delete\<close>, which is undefined.
\<close>

definition buffer_fits :: "bitmap_header \<Rightarrow> bool" where
  "buffer_fits h \<longleftrightarrow> fits_int (sint (h_size h) - sint (h_offset h))"

definition load_pixels ::
  "byte list \<Rightarrow> (nat \<Rightarrow> bool) \<Rightarrow> (nat \<Rightarrow> byte) \<Rightarrow> bitmap \<times> nat \<Rightarrow> bitmap option" where
  "load_pixels file bad junk = (\<lambda>(b, pos).
     let sizeBuffer = unat (h_size (bm_header b) - h_offset (bm_header b));
         got = take sizeBuffer (drop pos file);
         tmp = overlay got (fresh_bytes junk sizeBuffer);
         n = width_of b * height_of b
     in if \<not> buffer_fits (bm_header b) then None
        else if bad (pos + length got) then None
        else if n < 0 \<or> \<not> fits_int n then None
        else do { (pixels, index) \<leftarrow>
                    for_loop 0 (nat (height_of b)) (load_row b tmp) (replicate (nat n) white, 0);
                  Some (b\<lparr>bm_pixels := Some pixels, bm_isLoaded := True\<rparr>) })"

definition load ::
  "byte list option \<Rightarrow> (nat \<Rightarrow> bool) \<Rightarrow> (nat \<Rightarrow> nat \<Rightarrow> byte) \<Rightarrow> bitmap \<Rightarrow> bitmap option" where
  "load f bad fresh b =
     (let b0 = releaseResources b
      in case f of None \<Rightarrow> Some b0
         | Some file \<Rightarrow>
           (case load_header file bad b0 of Inl b1 \<Rightarrow> Some b1
            | Inr s1 \<Rightarrow>
              (case load_info file bad s1 of Inl b2 \<Rightarrow> Some b2
               | Inr s2 \<Rightarrow>
                 do { r \<leftarrow> load_palette file bad (fresh 0) s2;
                      case r of Inl b3 \<Rightarrow> Some b3 | Inr s3 \<Rightarrow> load_pixels file bad (fresh 1) s3 })))"

subsection \<open>Writing\<close>

fun color_search :: "uchar4 list \<Rightarrow> uchar4 \<Rightarrow> nat \<Rightarrow> nat \<Rightarrow> nat option" where
  "color_search colors c i 0 = Some 0"
| "color_search colors c i (Suc n) =
     do { d \<leftarrow> arg_at colors i;
          if px d = px c \<and> py d = py c \<and> pz d = pz c \<and> pw d = pw c then Some i
          else color_search colors c (Suc i) n }"

definition colorIndex :: "bitmap \<Rightarrow> uchar4 \<Rightarrow> nat option" where
  "colorIndex b c =
     (if sint (bm_numColors b) \<le> 0 then Some 0
      else do { colors \<leftarrow> bm_colors b; color_search colors c 0 (nat (sint (bm_numColors b))) })"

text \<open>The state of \<open>write\<close>: whether it has not yet returned false, and the bytes written.\<close>

definition write_pixel ::
  "bitmap \<Rightarrow> (nat \<Rightarrow> bool) \<Rightarrow> nat \<Rightarrow> nat \<Rightarrow> bool \<times> byte list \<Rightarrow> (bool \<times> byte list) option" where
  "write_pixel b bad y x = (\<lambda>(going, out).
     if \<not> going then Some (going, out)
     else do { pixels \<leftarrow> bm_pixels b;
               c \<leftarrow> arg_at pixels (y * nat (width_of b) + x);
               if depth_of b = 8 then
                 do { i \<leftarrow> colorIndex b c; Some (True, out @ [word_of_nat i]) }
               else
                 let out' = out @ [pz c, py c, px c]
                 in Some (\<not> bad (length out'), out') })"

definition write_row ::
  "bitmap \<Rightarrow> (nat \<Rightarrow> bool) \<Rightarrow> nat \<Rightarrow> bool \<times> byte list \<Rightarrow> (bool \<times> byte list) option" where
  "write_row b bad y st =
     do { (going, out) \<leftarrow> for_loop 0 (nat (width_of b)) (write_pixel b bad y) st;
          if \<not> going then Some (going, out)
          else if fits_int (3 * width_of b)
          then Some (going, out @ replicate (row_padding (width_of b)) 0) else None }"

definition write_palette ::
  "bitmap \<Rightarrow> (nat \<Rightarrow> bool) \<Rightarrow> byte list \<Rightarrow> (bool \<times> byte list) option" where
  "write_palette b bad out =
     (if depth_of b = 8 then
        do { colors \<leftarrow> bm_colors b;
             let n = unat (bm_numColors b)
             in if length colors < n then None
                else let out' = out @ concat (map color_bytes (take n colors))
                     in Some (\<not> bad (length out'), out') }
      else Some (True, out))"

definition write_stream :: "bool \<Rightarrow> (nat \<Rightarrow> bool) \<Rightarrow> bitmap \<Rightarrow> (bool \<times> byte list) option" where
  "write_stream opens bad b =
     (if \<not> bm_isLoaded b then Some (False, [])
      else if \<not> opens then Some (False, [])
      else let out1 = header_bytes (bm_header b)
           in if bad (length out1) then Some (False, out1)
              else let out2 = out1 @ info_bytes (bm_info b)
                   in if bad (length out2) then Some (False, out2)
                      else do { st \<leftarrow> write_palette b bad out2;
                                if fst st then for_loop 0 (nat (height_of b)) (write_row b bad) st
                                else Some st })"

text \<open>
  The result of \<open>write\<close>, what the file holds when it returns, and what is still to come.  The
  early returns close the stream, which hands on everything that was written to it.  The last
  one does not: the stream stays open and keeps the last \<open>held n\<close> of the \<open>n\<close> bytes in its
  buffer, until the end of the program flushes it.
\<close>

definition write_bitmap ::
  "bool \<Rightarrow> (nat \<Rightarrow> bool) \<Rightarrow> (nat \<Rightarrow> nat) \<Rightarrow> bitmap \<Rightarrow> (bool \<times> byte list \<times> byte list) option" where
  "write_bitmap opens bad held b =
     do { (result, out) \<leftarrow> write_stream opens bad b;
          Some (if result
                then (let n = length out - held (length out) in (True, take n out, drop n out))
                else (False, out, [])) }"

text \<open>
  The other \<open>write\<close>, which makes a file of 32-bit pixels out of an array.  The shape of the
  array is \<open>width\<close> and \<open>height\<close>; \<open>alignSize\<close> is computed on \<open>int\<close>.
\<close>

definition alignSize :: "32 word \<Rightarrow> 32 word" where
  "alignSize w = and (xor (w * 4) 3 + 1) 3"

definition rowLength :: "32 word \<Rightarrow> 32 word" where
  "rowLength w = w * 4 + alignSize w"

definition pixels_header :: "32 word \<Rightarrow> 32 word \<Rightarrow> bitmap_header" where
  "pixels_header w h =
     \<lparr>h_id = bitMapID, h_size = 14 + 40 + rowLength w * h, h_reserved1 = 0, h_reserved2 = 0,
      h_offset = 14 + 40\<rparr>"

definition pixels_info :: "32 word \<Rightarrow> 32 word \<Rightarrow> bitmap_info" where
  "pixels_info w h =
     \<lparr>i_sizeInfo = 40, i_width = w, i_height = h, i_planes = 1, i_bitsPerPixel = 32,
      i_compression = 0, i_imageSize = rowLength w * h, i_xPelsPerMeter = 0, i_yPelsPerMeter = 0,
      i_clrUsed = 0, i_clrImportant = 0\<rparr>"

definition pixels_row ::
  "32 word \<Rightarrow> 32 word list \<Rightarrow> (nat \<Rightarrow> bool) \<Rightarrow> nat \<Rightarrow> bool \<times> byte list \<Rightarrow> (bool \<times> byte list) option" where
  "pixels_row w ptr bad y st =
     do { (going, out) \<leftarrow>
            for_loop 0 (nat (sint w))
              (\<lambda>x (going, out).
                 if \<not> going then Some (going, out)
                 else do { p \<leftarrow> arg_at ptr (y * nat (sint w) + x);
                           let out' = out @ int32_bytes p in Some (\<not> bad (length out'), out') }) st;
          if \<not> going then Some (going, out)
          else Some (going, out @ replicate (unat (alignSize w)) 0) }"

definition write_pixels ::
  "bool \<Rightarrow> (nat \<Rightarrow> bool) \<Rightarrow> 32 word \<Rightarrow> 32 word \<Rightarrow> 32 word list \<Rightarrow> (bool \<times> byte list) option" where
  "write_pixels opens bad w h ptr =
     (if \<not> fits_int (sint w * 4) then None
      else if \<not> opens then Some (False, [])
      else if \<not> fits_int (sint (rowLength w) * sint h) then None
      else let out1 = header_bytes (pixels_header w h)
           in if bad (length out1) then Some (False, out1)
              else let out2 = out1 @ info_bytes (pixels_info w h)
                   in if bad (length out2) then Some (False, out2)
                      else for_loop 0 (nat (sint h)) (pixels_row w ptr bad) (True, out2))"

subsection \<open>Queries\<close>

definition getWidth :: "bitmap \<Rightarrow> int" where
  "getWidth b = (if bm_isLoaded b then width_of b else - 1)"

definition getHeight :: "bitmap \<Rightarrow> int" where
  "getHeight b = (if bm_isLoaded b then height_of b else - 1)"

definition getNumChannels :: "bitmap \<Rightarrow> int" where
  "getNumChannels b = (if bm_isLoaded b then depth_of b div 8 else 1)"

end
