(* ===== verification/Sdk_Bitmap_Facts.thy ===== *)
theory Sdk_Bitmap_Facts
  imports Sdk_Bitmap
begin

text \<open>
  Facts about the bitmap class: the packed layouts are inverse to the readers, the pixel loop of
  \<open>load\<close> and the one of \<open>write\<close> computed in closed form, the invariant \<open>bitmap_ok\<close> of a loaded
  object, and that a loaded object survives being written and loaded again.
\<close>

section \<open>Layouts\<close>

named_theorems layout

lemma length_int_bytes [simp]: "length (int_bytes k n) = k"
  by (induction k arbitrary: n) auto

lemma bytes_value_int_bytes: "bytes_value (int_bytes k n) = n mod 256 ^ k"
proof (induction k arbitrary: n)
  case (Suc k)
  have "n mod (256 * 256 ^ k) = 256 * (n div 256 mod 256 ^ k) + n mod 256"
    by (simp add: zmod_zmult2_eq)
  then show ?case using Suc by (simp add: unsigned_of_int take_bit_eq_mod)
qed simp

lemma int32_value [layout]: "word_of_int (bytes_value (int32_bytes v)) = v"
  using uint_bounded [of v] by (simp add: int32_bytes_def bytes_value_int_bytes)

lemma short_value [layout]: "word_of_int (bytes_value (short_bytes v)) = v"
  using uint_bounded [of v] by (simp add: short_bytes_def bytes_value_int_bytes)

lemma length_short_bytes [simp]: "length (short_bytes v) = 2"
  by (simp add: short_bytes_def)

lemma length_int32_bytes [simp]: "length (int32_bytes v) = 4"
  by (simp add: int32_bytes_def)

lemma length_header_bytes [simp]: "length (header_bytes h) = 14"
  by (simp add: header_bytes_def)

lemma length_info_bytes [simp]: "length (info_bytes i) = 40"
  by (simp add: info_bytes_def)

lemma header_of_bytes [layout]: "header_of (header_bytes h) = h"
  by (simp add: header_of_def header_bytes_def field_def layout)

lemma info_of_bytes [layout]: "info_of (info_bytes i) = i"
  by (simp add: info_of_def info_bytes_def field_def layout)

lemma colors_of_bytes [layout]: "colors_of (concat (map color_bytes cs)) = cs"
  by (induction cs) (simp_all add: color_bytes_def)

lemma length_color_bytes [simp]: "length (concat (map color_bytes cs)) = 4 * length cs"
  by (induction cs) (simp_all add: color_bytes_def)

lemma length_colors_of: "length bs = 4 * n \<Longrightarrow> length (colors_of bs) = n"
proof (induction n arbitrary: bs)
  case (Suc n)
  then obtain a b c d cs where "bs = a # b # c # d # cs" "length cs = 4 * n"
    by (auto simp: numeral_eq_Suc length_Suc_conv)
  then show ?case using Suc.IH [of cs] by simp
qed simp

lemma overlay_full [simp]: "length old \<le> length got \<Longrightarrow> overlay got old = got"
  by (simp add: overlay_def)

lemma length_overlay: "length got \<le> length old \<Longrightarrow> length (overlay got old) = length old"
  by (simp add: overlay_def)

lemma nth_overlay: "i < length got \<Longrightarrow> overlay got old ! i = got ! i"
  by (simp add: overlay_def nth_append)

lemma length_fresh_bytes [simp]: "length (fresh_bytes junk n) = n"
  by (simp add: fresh_bytes_def)

section \<open>Where the pixels lie\<close>

definition pixel_size :: "bitmap \<Rightarrow> nat" where
  "pixel_size b = (if depth_of b = 8 then 1 else 3)"

definition columns :: "bitmap \<Rightarrow> nat" where
  "columns b = nat (width_of b)"

definition rows :: "bitmap \<Rightarrow> nat" where
  "rows b = nat (height_of b)"

definition stride :: "bitmap \<Rightarrow> nat" where
  "stride b = columns b * pixel_size b + row_padding (width_of b)"

definition pixel_pos :: "bitmap \<Rightarrow> nat \<Rightarrow> nat" where
  "pixel_pos b k = k div columns b * stride b + k mod columns b * pixel_size b"

definition pixel_at :: "bitmap \<Rightarrow> byte list \<Rightarrow> nat \<Rightarrow> uchar4" where
  "pixel_at b tmp i =
     (if depth_of b = 8 then the (bm_colors b) ! unat (tmp ! i)
      else white\<lparr>pz := tmp ! i, py := tmp ! (i + 1), px := tmp ! (i + 2)\<rparr>)"

lemma row_padding_le: "row_padding w \<le> 3"
proof -
  have "\<bar>(4 - (3 * w) smod 4) smod 4\<bar> < (4 :: int)"
    using smod_int_range [of 4 "4 - (3 * w) smod 4"] by auto
  then show ?thesis by (simp add: row_padding_def)
qed

lemma row_padding_0 [simp]: "row_padding 0 = 0"
  by (simp add: row_padding_def)

lemma pixel_pos_at:
  "x < columns b \<Longrightarrow> pixel_pos b (y * columns b + x) = y * stride b + x * pixel_size b"
  by (simp add: pixel_pos_def)

section \<open>The pixel loop of load\<close>

lemma index_next [simp]: "i + 1 < 2 ^ 32 \<Longrightarrow> index_next i = i + 1"
proof -
  assume i: "i + 1 < 2 ^ 32"
  have "(word_of_nat i + 1 :: 32 word) = word_of_nat (i + 1)" by simp
  then show ?thesis unfolding index_next_def using i by (simp only: unat_of_nat) simp
qed

lemma funpow_index_next: "i + n < 2 ^ 32 \<Longrightarrow> (index_next ^^ n) i = i + n"
  by (induction n) simp_all

definition palette_ok :: "bitmap \<Rightarrow> bool" where
  "palette_ok b \<longleftrightarrow> (depth_of b = 8 \<longrightarrow> (\<exists>cs. bm_colors b = Some cs \<and> length cs = 256))"

lemma byte_index: "unat (t :: byte) < 256"
  using unsigned_less [of t] by simp

lemma load_pixel_eq:
  assumes "palette_ok b" "length tmp \<le> 2 ^ 32 - 4" "k < length pixels" "pixels ! k = white"
    and "k = y * columns b + x"
  shows "load_pixel b tmp y x (pixels, index) =
    (if index + pixel_size b \<le> length tmp
     then Some (pixels[k := pixel_at b tmp index], index + pixel_size b) else None)"
proof (cases "depth_of b = 8")
  case True
  then obtain cs where cs: "bm_colors b = Some cs" "length cs = 256"
    using assms(1) by (auto simp: palette_ok_def)
  show ?thesis
    using True cs assms(2,3,5) byte_index
    by (simp add: load_pixel_def arg_at_def set_at_def pixel_at_def pixel_size_def
        columns_def)
next
  case False
  then show ?thesis
    using assms(2-5)
    by (auto simp: load_pixel_def arg_at_def set_at_def pixel_at_def pixel_size_def
        columns_def)
qed

text \<open>The pixels before the \<open>k\<close>-th have been read, from inside the buffer.\<close>

definition pixels_read ::
  "bitmap \<Rightarrow> byte list \<Rightarrow> nat \<Rightarrow> nat \<Rightarrow> uchar4 list \<Rightarrow> bool" where
  "pixels_read b tmp n m pixels \<longleftrightarrow>
     length pixels = n \<and>
     (\<forall>k < m. pixel_pos b k + pixel_size b \<le> length tmp \<and> pixels ! k = pixel_at b tmp (pixel_pos b k)) \<and>
     (\<forall>k. m \<le> k \<longrightarrow> k < n \<longrightarrow> pixels ! k = white)"

lemma pixels_read_unique: "pixels_read b tmp n m ps \<Longrightarrow> pixels_read b tmp n m qs \<Longrightarrow> ps = qs"
  unfolding pixels_read_def by (rule nth_equalityI) (auto simp: not_less [symmetric] | metis not_less)+

definition reading :: "bitmap \<Rightarrow> byte list \<Rightarrow> nat \<Rightarrow> nat \<Rightarrow> nat \<Rightarrow> uchar4 list \<times> nat \<Rightarrow> bool" where
  "reading b tmp n y x = (\<lambda>(pixels, index).
     pixels_read b tmp n (y * columns b + x) pixels \<and> index = y * stride b + x * pixel_size b)"

text \<open>A buffer of pixels that the loop can run on, for an array of \<open>n\<close> pixels.\<close>

definition readable :: "bitmap \<Rightarrow> byte list \<Rightarrow> nat \<Rightarrow> bool" where
  "readable b tmp n \<longleftrightarrow> palette_ok b \<and> length tmp \<le> 2 ^ 32 - 4 \<and> rows b * columns b \<le> n \<and> 0 \<le> width_of b"

lemma reading_index:
  assumes "readable b tmp n" "y < rows b" "x < columns b"
  shows "y * columns b + x < n"
  using flat_index_bound [OF assms(2,3)] assms(1) by (simp add: readable_def)

lemma reading_pixel:
  assumes "readable b tmp n" "y < rows b" "x < columns b" "reading b tmp n y x st"
  shows "load_pixel b tmp y x st =
    (if pixel_pos b (y * columns b + x) + pixel_size b \<le> length tmp
     then Some ((fst st)[y * columns b + x := pixel_at b tmp (snd st)], snd st + pixel_size b)
     else None)"
  using load_pixel_eq [of b tmp "y * columns b + x" "fst st" y x "snd st"]
    reading_index [OF assms(1-3)] assms
  by (auto simp: readable_def reading_def pixels_read_def pixel_pos_at split: prod.splits)

lemma reading_step:
  assumes "readable b tmp n" "y < rows b" "x < columns b" "reading b tmp n y x st"
    and "pixel_pos b (y * columns b + x) + pixel_size b \<le> length tmp"
  shows "reading b tmp n y (Suc x)
     ((fst st)[y * columns b + x := pixel_at b tmp (snd st)], snd st + pixel_size b)"
  using assms reading_index [OF assms(1-3)]
  by (auto simp: reading_def pixels_read_def pixel_pos_at nth_list_update less_Suc_eq
      split: prod.splits)

lemma reading_row_end:
  assumes ok: "readable b tmp n" and assms: "reading b tmp n y (columns b) (pixels, index)"
  shows "reading b tmp n (Suc y) 0 (pixels, (index_next ^^ row_padding (width_of b)) index)"
proof -
  have "index + row_padding (width_of b) < 2 ^ 32"
  proof (cases "columns b")
    case 0
    then have "width_of b = 0" using ok by (simp add: readable_def columns_def)
    then show ?thesis using assms by (simp add: reading_def stride_def columns_def)
  next
    case (Suc w)
    then have "pixel_pos b (y * columns b + w) + pixel_size b \<le> length tmp"
      using assms by (auto simp: reading_def pixels_read_def)
    then have "index \<le> length tmp"
      using assms Suc pixel_pos_at [of w b y] by (simp add: reading_def)
    then show ?thesis using ok row_padding_le [of "width_of b"] by (simp add: readable_def)
  qed
  then show ?thesis
    using assms by (simp add: reading_def funpow_index_next stride_def algebra_simps)
qed

lemma load_rows_read:
  assumes ok: "readable b tmp n"
    and run: "for_loop 0 (rows b) (load_row b tmp) (replicate n white, 0) = Some st"
  shows "reading b tmp n (rows b) 0 st"
proof (rule for_loop_partial [OF run])
  show "reading b tmp n 0 0 (replicate n white, 0)" by (simp add: reading_def pixels_read_def)
  fix y s s'
  assume y: "y < rows b" and s: "reading b tmp n y 0 s" and row: "load_row b tmp y s = Some s'"
  obtain ps i where loop: "for_loop 0 (columns b) (load_pixel b tmp y) s = Some (ps, i)"
      and s': "s' = (ps, (index_next ^^ row_padding (width_of b)) i)"
    using row by (auto simp: load_row_def columns_def bind_eq_Some_conv split: if_splits)
  have "reading b tmp n y (columns b) (ps, i)"
  proof (rule for_loop_partial [OF loop])
    fix x u u'
    assume x: "x < columns b" and u: "reading b tmp n y x u" "load_pixel b tmp y x u = Some u'"
    then show "reading b tmp n y (Suc x) u'"
      using reading_pixel [OF ok y x u(1)] reading_step [OF ok y x u(1)] by (auto split: if_splits)
  qed (use s in simp_all)
  then show "reading b tmp n (Suc y) 0 s'" unfolding s' by (rule reading_row_end [OF ok])
qed simp

lemma load_rows_succeeds:
  assumes ok: "readable b tmp n"
    and room: "\<And>k. k < rows b * columns b \<Longrightarrow> pixel_pos b k + pixel_size b \<le> length tmp"
    and fits: "fits_int (3 * width_of b)"
  shows "yields (for_loop 0 (rows b) (load_row b tmp) (replicate n white, 0))
    (reading b tmp n (rows b) 0)"
proof (rule for_loop_yields)
  show "reading b tmp n 0 0 (replicate n white, 0)" by (simp add: reading_def pixels_read_def)
  fix y s
  assume y: "y < rows b" and s: "reading b tmp n y 0 s"
  have "yields (for_loop 0 (columns b) (load_pixel b tmp y) s) (reading b tmp n y (columns b))"
  proof (rule for_loop_yields)
    fix x u
    assume x: "x < columns b" and u: "reading b tmp n y x u"
    then show "yields (load_pixel b tmp y x u) (reading b tmp n y (Suc x))"
      using reading_pixel [OF ok y x u] reading_step [OF ok y x u] room flat_index_bound [OF y x]
      by simp
  qed (use s in simp_all)
  then show "yields (load_row b tmp y s) (reading b tmp n (Suc y) 0)"
    unfolding load_row_def columns_def [symmetric]
    by (auto simp: fits intro: reading_row_end [OF ok] elim!: yields_mono)
qed simp

section \<open>The invariant of a loaded bitmap\<close>

definition buffer_size :: "bitmap \<Rightarrow> nat" where
  "buffer_size b = unat (h_size (bm_header b) - h_offset (bm_header b))"

definition area :: "bitmap \<Rightarrow> int" where
  "area b = width_of b * height_of b"

text \<open>A colour that a file of this depth can hold.\<close>

definition storable :: "bitmap \<Rightarrow> uchar4 \<Rightarrow> bool" where
  "storable b c \<longleftrightarrow>
     (if depth_of b = 8 then (\<exists>cs. bm_colors b = Some cs \<and> c \<in> set cs) else pw c = 0xFF)"

definition pixels_ok :: "bitmap \<Rightarrow> uchar4 list \<Rightarrow> bool" where
  "pixels_ok b ps \<longleftrightarrow>
     length ps = nat (area b) \<and>
     (\<forall>k < rows b * columns b. pixel_pos b k + pixel_size b \<le> buffer_size b \<and> storable b (ps ! k)) \<and>
     (\<forall>k. rows b * columns b \<le> k \<longrightarrow> k < nat (area b) \<longrightarrow> ps ! k = white)"

definition bitmap_ok :: "bitmap \<Rightarrow> bool" where
  "bitmap_ok b \<longleftrightarrow>
     bm_isLoaded b \<and> h_id (bm_header b) = bitMapID \<and> i_compression (bm_info b) = 0 \<and>
     8 \<le> depth_of b \<and> depth_of b < 32 \<and> bm_numColors b = push_bit (nat (depth_of b)) 1 \<and>
     palette_ok b \<and> (depth_of b \<noteq> 8 \<longrightarrow> bm_colors b = None) \<and>
     buffer_fits (bm_header b) \<and> 0 \<le> area b \<and> fits_int (area b) \<and> (0 < rows b \<longrightarrow> fits_int (3 * width_of b)) \<and>
     (\<exists>ps. bm_pixels b = Some ps \<and> pixels_ok b ps)"

lemma area_rows: "0 \<le> area b \<Longrightarrow> rows b * columns b \<le> nat (area b)"
  by (cases "0 \<le> width_of b"; cases "0 \<le> height_of b")
    (auto simp: area_def rows_def columns_def nat_mult_distrib mult.commute mult_nonpos_nonpos
      zero_le_mult_iff)

lemma area_wide: "0 \<le> area b \<Longrightarrow> 0 < rows b \<Longrightarrow> 0 \<le> width_of b"
  by (auto simp: area_def rows_def zero_le_mult_iff)

text \<open>The same object before its pixels were stored.\<close>

abbreviation unread :: "bitmap \<Rightarrow> bitmap" where
  "unread b \<equiv> b\<lparr>bm_pixels := None, bm_isLoaded := False\<rparr>"

lemma geometry_update [simp]:
  "depth_of (b\<lparr>bm_pixels := p, bm_isLoaded := l\<rparr>) = depth_of b"
  "width_of (b\<lparr>bm_pixels := p, bm_isLoaded := l\<rparr>) = width_of b"
  "height_of (b\<lparr>bm_pixels := p, bm_isLoaded := l\<rparr>) = height_of b"
  by (simp_all add: depth_of_def width_of_def height_of_def)

lemma pixel_at_storable:
  assumes "palette_ok b"
  shows "storable b (pixel_at b tmp i)"
proof (cases "depth_of b = 8")
  case True
  then obtain cs where "bm_colors b = Some cs" "length cs = 256"
    using assms by (auto simp: palette_ok_def)
  then show ?thesis using True byte_index by (simp add: storable_def pixel_at_def)
next
  case False
  then show ?thesis by (simp add: storable_def pixel_at_def white_def)
qed

lemma pixels_read_ok:
  assumes "pixels_read b tmp (nat (area b)) (rows b * columns b) ps" "palette_ok b"
    and "length tmp = buffer_size b"
  shows "pixels_ok b ps"
  unfolding pixels_ok_def
proof (intro conjI allI impI)
  fix k assume "k < rows b * columns b"
  then show "pixel_pos b k + pixel_size b \<le> buffer_size b" "storable b (ps ! k)"
    using assms(1,3) pixel_at_storable [OF assms(2)] by (simp_all add: pixels_read_def)
qed (use assms(1) in \<open>simp_all add: pixels_read_def\<close>)

lemma load_pixels_loaded:
  assumes "load_pixels file bad junk (b, pos) = Some b'" "bm_isLoaded b'" "\<not> bm_isLoaded b"
    and "palette_ok b" "buffer_size b \<le> 2 ^ 32 - 4"
  shows "\<exists>ps. b' = b\<lparr>bm_pixels := Some ps, bm_isLoaded := True\<rparr> \<and> pixels_ok b ps \<and>
    pixels_read b (overlay (take (buffer_size b) (drop pos file)) (fresh_bytes junk (buffer_size b)))
      (nat (area b)) (rows b * columns b) ps \<and>
    0 \<le> area b \<and> fits_int (area b) \<and> (0 < rows b \<longrightarrow> fits_int (3 * width_of b))"
proof -
  let ?tmp = "overlay (take (buffer_size b) (drop pos file)) (fresh_bytes junk (buffer_size b))"
  obtain ps i where loop: "for_loop 0 (rows b) (load_row b ?tmp) (replicate (nat (area b)) white, 0)
        = Some (ps, i)"
      and b': "b' = b\<lparr>bm_pixels := Some ps, bm_isLoaded := True\<rparr>" and area: "0 \<le> area b" "fits_int (area b)"
    using assms(1-3)
    by (auto simp: load_pixels_def buffer_size_def Let_def area_def rows_def bind_eq_Some_conv
        split: if_splits)
  have len: "length ?tmp = buffer_size b" by (simp add: length_overlay)
  have ps: "pixels_read b ?tmp (nat (area b)) (rows b * columns b) ps"
  proof (cases "rows b = 0")
    case True
    then show ?thesis using loop by (auto simp: pixels_read_def)
  next
    case False
    then have "readable b ?tmp (nat (area b))"
      using assms(4,5) area len area_rows [of b] area_wide [of b] by (simp add: readable_def)
    then show ?thesis using load_rows_read loop by (fastforce simp: reading_def)
  qed
  have "fits_int (3 * width_of b)" if some: "0 < rows b"
  proof -
    obtain s where "load_row b ?tmp 0 (replicate (nat (area b)) white, 0) = Some s"
      using loop unfolding for_loop_step [OF some] by (auto simp: bind_eq_Some_conv)
    then show ?thesis by (auto simp: load_row_def bind_eq_Some_conv split: if_splits)
  qed
  moreover have "pixels_ok b ps"
    using ps len pixel_at_storable [OF assms(4)] by (auto simp: pixels_read_def pixels_ok_def)
  ultimately show ?thesis using b' area ps by (intro exI [of _ ps]) simp
qed

lemma layout_update [simp]:
  "columns (b\<lparr>bm_pixels := p, bm_isLoaded := l\<rparr>) = columns b"
  "rows (b\<lparr>bm_pixels := p, bm_isLoaded := l\<rparr>) = rows b"
  "area (b\<lparr>bm_pixels := p, bm_isLoaded := l\<rparr>) = area b"
  "pixel_size (b\<lparr>bm_pixels := p, bm_isLoaded := l\<rparr>) = pixel_size b"
  "pixel_pos (b\<lparr>bm_pixels := p, bm_isLoaded := l\<rparr>) k = pixel_pos b k"
  "buffer_size (b\<lparr>bm_pixels := p, bm_isLoaded := l\<rparr>) = buffer_size b"
  "storable (b\<lparr>bm_pixels := p, bm_isLoaded := l\<rparr>) c = storable b c"
  "palette_ok (b\<lparr>bm_pixels := p, bm_isLoaded := l\<rparr>) = palette_ok b"
  by (simp_all add: columns_def rows_def area_def pixel_size_def pixel_pos_def stride_def
      buffer_size_def storable_def palette_ok_def)

lemma pixel_at_update: "pixel_at (b\<lparr>bm_pixels := p, bm_isLoaded := l\<rparr>) tmp i = pixel_at b tmp i"
  by (simp add: pixel_at_def)

lemma depth_of_update [simp]: "depth_of (b\<lparr>bm_numColors := n\<rparr>) = depth_of b"
  by (simp add: depth_of_def)

lemma pixels_ok_update [simp]: "pixels_ok (b\<lparr>bm_pixels := p, bm_isLoaded := l\<rparr>) ps = pixels_ok b ps"
  by (simp add: pixels_ok_def)

text \<open>The object in front of the pixel loop.\<close>

definition headers_ok :: "bitmap \<Rightarrow> bool" where
  "headers_ok b \<longleftrightarrow>
     h_id (bm_header b) = bitMapID \<and> i_compression (bm_info b) = 0 \<and>
     8 \<le> depth_of b \<and> depth_of b < 32 \<and> bm_numColors b = push_bit (nat (depth_of b)) 1 \<and>
     palette_ok b \<and> (depth_of b \<noteq> 8 \<longrightarrow> bm_colors b = None)"

lemma load_header_Inr:
  "load_header file bad b = Inr (b', p) \<Longrightarrow>
   \<exists>h. b' = b\<lparr>bm_header := h\<rparr> \<and> h_id h = bitMapID"
  by (auto simp: load_header_def Let_def split: if_splits)

lemma load_info_Inr:
  "load_info file bad (b, p) = Inr (b', p') \<Longrightarrow>
   \<exists>i. b' = b\<lparr>bm_info := i\<rparr> \<and> i_compression i = 0 \<and> 8 \<le> depth_of b'"
  by (auto simp: load_info_def Let_def split: if_splits)

lemma load_header_Inl: "load_header file bad b = Inl b' \<Longrightarrow> bm_isLoaded b' = bm_isLoaded b"
  by (auto simp: load_header_def Let_def split: if_splits)

lemma load_info_Inl: "load_info file bad (b, p) = Inl b' \<Longrightarrow> bm_isLoaded b' = bm_isLoaded b"
  by (auto simp: load_info_def Let_def split: if_splits)

lemma load_palette_Inl:
  "load_palette file bad junk (b, p) = Some (Inl b') \<Longrightarrow> bm_isLoaded b' = bm_isLoaded b"
  by (auto simp: load_palette_def Let_def split: if_splits)

lemma load_palette_Inr:
  assumes "load_palette file bad junk (b, p) = Some (Inr (b', p'))" "bm_colors b = None"
    and "h_id (bm_header b) = bitMapID" "i_compression (bm_info b) = 0" "8 \<le> depth_of b"
  shows "headers_ok b' \<and> bm_isLoaded b' = bm_isLoaded b"
proof (cases "depth_of b = 8")
  case True
  then show ?thesis
    using assms
    by (auto simp: load_palette_def Let_def headers_ok_def depth_of_def palette_ok_def
        length_overlay length_colors_of split: if_splits)
next
  case False
  then show ?thesis
    using assms
    by (auto simp: load_palette_def Let_def headers_ok_def depth_of_def palette_ok_def
        split: if_splits)
qed

lemma load_ok:
  assumes "load f bad fresh b0 = Some b" "bm_isLoaded b" "buffer_size b \<le> 2 ^ 32 - 4"
  shows "bitmap_ok b"
proof -
  define r where "r = releaseResources b0"
  have r: "bm_colors r = None" "\<not> bm_isLoaded r" "bm_pixels r = None"
    by (simp_all add: r_def releaseResources_def)
  obtain data where f: "f = Some data"
    using assms(1,2) r(2) by (auto simp: load_def Let_def r_def split: option.splits)
  note run = assms(1) [unfolded load_def Let_def f r_def [symmetric] option.case]
  obtain b1 p1 where 1: "load_header data bad r = Inr (b1, p1)"
    using run assms(2) r(2) by (cases "load_header data bad r") (auto dest: load_header_Inl)
  have l1: "\<not> bm_isLoaded b1" using load_header_Inr [OF 1] r(2) by auto
  obtain b2 p2 where 2: "load_info data bad (b1, p1) = Inr (b2, p2)"
    using run assms(2) l1 by (cases "load_info data bad (b1, p1)") (auto simp: 1 dest: load_info_Inl)
  have l2: "\<not> bm_isLoaded b2" using load_info_Inr [OF 2] l1 by auto
  obtain s3 where 3: "load_palette data bad (fresh 0) (b2, p2) = Some s3"
    using run by (auto simp: 1 2 bind_eq_Some_conv)
  obtain b3 p3 where s3: "s3 = Inr (b3, p3)"
    using run assms(2) l2 3 by (cases s3) (auto simp: 1 2 dest: load_palette_Inl)
  note 3 = 3 [unfolded s3]
  have 4: "load_pixels data bad (fresh 1) (b3, p3) = Some b"
    using run by (simp add: 1 2 3)
  have h: "headers_ok b3" "\<not> bm_isLoaded b3"
    using load_palette_Inr [OF 3] r load_header_Inr [OF 1] load_info_Inr [OF 2] by auto
  have "buffer_size b3 = buffer_size b"
    using 4 by (auto simp: load_pixels_def Let_def buffer_size_def bind_eq_Some_conv split: if_splits)
  moreover have "buffer_fits (bm_header b3)"
    using 4 by (auto simp: load_pixels_def Let_def split: if_splits)
  ultimately show ?thesis
    using load_pixels_loaded [OF 4 assms(2) h(2)] h(1) assms(3)
    by (auto simp: headers_ok_def bitmap_ok_def)
qed

section \<open>What write puts into the file\<close>

lemma color_search_finds:
  "i \<le> j \<Longrightarrow> j < i + n \<Longrightarrow> j < length cs \<Longrightarrow> cs ! j = c \<Longrightarrow>
   \<exists>r. color_search cs c i n = Some r \<and> r < length cs \<and> cs ! r = c"
proof (induction n arbitrary: i)
  case (Suc n)
  show ?case
  proof (cases "cs ! i = c")
    case True
    then show ?thesis using Suc.prems by simp
  next
    case False
    then have "Suc i \<le> j" using Suc.prems by (metis Suc_leI le_neq_implies_less)
    then obtain r where "color_search cs c (Suc i) n = Some r" "r < length cs" "cs ! r = c"
      using Suc.IH [of "Suc i"] Suc.prems by auto
    moreover have "\<not> (px (cs ! i) = px c \<and> py (cs ! i) = py c \<and> pz (cs ! i) = pz c \<and> pw (cs ! i) = pw c)"
      using False by auto
    ultimately show ?thesis using Suc.prems by (simp add: arg_at_def)
  qed
qed simp

definition pixel_bytes :: "bitmap \<Rightarrow> uchar4 \<Rightarrow> byte list" where
  "pixel_bytes b c =
     (if depth_of b = 8 then [word_of_nat (the (colorIndex b c))] else [pz c, py c, px c])"

definition row_bytes :: "bitmap \<Rightarrow> uchar4 list \<Rightarrow> nat \<Rightarrow> byte list" where
  "row_bytes b ps y =
     concat (map (\<lambda>x. pixel_bytes b (ps ! (y * columns b + x))) [0..<columns b]) @
     replicate (row_padding (width_of b)) 0"

definition image_bytes :: "bitmap \<Rightarrow> uchar4 list \<Rightarrow> byte list" where
  "image_bytes b ps = concat (map (row_bytes b ps) [0..<rows b])"

definition palette_bytes :: "bitmap \<Rightarrow> byte list" where
  "palette_bytes b = (if depth_of b = 8 then concat (map color_bytes (the (bm_colors b))) else [])"

definition file_bytes :: "bitmap \<Rightarrow> byte list" where
  "file_bytes b = header_bytes (bm_header b) @ info_bytes (bm_info b) @ palette_bytes b @
     image_bytes b (the (bm_pixels b))"

lemma length_pixel_bytes [simp]: "length (pixel_bytes b c) = pixel_size b"
  by (simp add: pixel_bytes_def pixel_size_def)

lemma palette_size:
  assumes "bitmap_ok b" "depth_of b = 8"
  obtains cs where "bm_colors b = Some cs" "length cs = 256" "bm_numColors b = 256"
  using assms by (auto simp: bitmap_ok_def palette_ok_def push_bit_eq_mult)

lemma colorIndex_finds:
  assumes "bitmap_ok b" "depth_of b = 8" "storable b c"
  shows "\<exists>r. colorIndex b c = Some r \<and> r < 256 \<and> the (bm_colors b) ! r = c"
proof -
  obtain cs where cs: "bm_colors b = Some cs" "length cs = 256" "bm_numColors b = 256"
    using palette_size [OF assms(1,2)] .
  obtain j where "j < length cs" "cs ! j = c"
    using assms(2,3) cs(1) by (auto simp: storable_def in_set_conv_nth)
  then show ?thesis
    using color_search_finds [of 0 j 256 cs c] cs by (simp add: colorIndex_def)
qed

lemma shaped_pixels:
  "shaped (columns b) (pixel_size b)
     (map (\<lambda>x. pixel_bytes b (ps ! (y * columns b + x))) [0..<columns b])"
  by (auto simp: shaped_def)

lemma shaped_rows: "shaped (rows b) (stride b) (map (row_bytes b ps) [0..<rows b])"
  using length_concat_shaped [OF shaped_pixels, of b ps]
  by (auto simp: shaped_def row_bytes_def stride_def)

lemma image_bytes_nth:
  assumes "k < rows b * columns b" "j < pixel_size b"
  shows "image_bytes b ps ! (pixel_pos b k + j) = pixel_bytes b (ps ! k) ! j"
    and "pixel_pos b k + j < length (image_bytes b ps)"
proof -
  define y x where "y = k div columns b" and "x = k mod columns b"
  have c: "0 < columns b" using assms(1) by (cases "columns b") auto
  have k: "k = y * columns b + x" and x: "x < columns b" and y: "y < rows b"
    using c assms(1) by (simp_all add: y_def x_def less_mult_imp_div_less)
  let ?px = "map (\<lambda>x. pixel_bytes b (ps ! (y * columns b + x))) [0..<columns b]"
  note px = shaped_pixels [of b ps y]
  have in_row: "x * pixel_size b + j < columns b * pixel_size b"
    by (rule flat_index_bound [OF x assms(2)])
  then have row: "row_bytes b ps y ! (x * pixel_size b + j) = pixel_bytes b (ps ! k) ! j"
    using concat_nth_shaped [OF px x assms(2)] length_concat_shaped [OF px] k x
    by (simp add: row_bytes_def nth_append)
  have pos: "pixel_pos b k + j = y * stride b + (x * pixel_size b + j)"
    unfolding k using pixel_pos_at [OF x] by simp
  have in_stride: "x * pixel_size b + j < stride b" using in_row by (simp add: stride_def)
  show "image_bytes b ps ! (pixel_pos b k + j) = pixel_bytes b (ps ! k) ! j"
    unfolding pos image_bytes_def
    using concat_nth_shaped [OF shaped_rows y in_stride, of ps] row y by simp
  show "pixel_pos b k + j < length (image_bytes b ps)"
    unfolding pos image_bytes_def length_concat_shaped [OF shaped_rows]
    by (rule flat_index_bound [OF y in_stride])
qed

lemma write_pixel_eq:
  assumes "bitmap_ok b" "bm_pixels b = Some ps" "x < columns b" "y < rows b"
  shows "write_pixel b (\<lambda>_. False) y x (True, out) =
    Some (True, out @ pixel_bytes b (ps ! (y * columns b + x)))"
proof -
  have k: "y * columns b + x < rows b * columns b" by (rule flat_index_bound [OF assms(4,3)])
  have ps: "pixels_ok b ps" "0 \<le> area b" using assms(1,2) by (auto simp: bitmap_ok_def)
  then have "y * columns b + x < length ps"
    using k area_rows [of b] by (simp add: pixels_ok_def)
  moreover have "storable b (ps ! (y * columns b + x))" using ps k by (simp add: pixels_ok_def)
  ultimately show ?thesis
    using colorIndex_finds [OF assms(1), of "ps ! (y * columns b + x)"] assms(2)
    by (auto simp: write_pixel_def pixel_bytes_def columns_def [symmetric] Let_def)
qed

lemma write_row_eq:
  assumes "bitmap_ok b" "bm_pixels b = Some ps" "y < rows b"
  shows "write_row b (\<lambda>_. False) y (True, out) = Some (True, out @ row_bytes b ps y)"
proof -
  let ?f = "\<lambda>x. pixel_bytes b (ps ! (y * columns b + x))"
  have "yields (for_loop 0 (columns b) (write_pixel b (\<lambda>_. False) y) (True, out))
      (\<lambda>st. st = (True, out @ concat (map ?f [0..<columns b])))"
    by (rule for_loop_yields) (use write_pixel_eq [OF assms(1,2) _ assms(3)] in auto)
  moreover have "fits_int (3 * width_of b)" using assms(1,3) by (simp add: bitmap_ok_def)
  ultimately show ?thesis
    by (auto simp: yields_def write_row_def row_bytes_def columns_def)
qed

lemma write_stream_eq:
  assumes "bitmap_ok b"
  shows "write_stream True (\<lambda>_. False) b = Some (True, file_bytes b)"
proof -
  obtain ps where ps: "bm_pixels b = Some ps" using assms by (auto simp: bitmap_ok_def)
  have "yields (for_loop 0 (rows b) (write_row b (\<lambda>_. False)) (True, out))
      (\<lambda>st. st = (True, out @ image_bytes b ps))" for out
    unfolding image_bytes_def
    by (rule for_loop_yields) (use write_row_eq [OF assms ps] in auto)
  then have loop: "for_loop 0 (rows b) (write_row b (\<lambda>_. False)) (True, out) =
      Some (True, out @ image_bytes b ps)" for out
    unfolding yields_eq .
  have pal: "write_palette b (\<lambda>_. False) out = Some (True, out @ palette_bytes b)" for out
  proof (cases "depth_of b = 8")
    case True
    then obtain cs where "bm_colors b = Some cs" "length cs = 256" "bm_numColors b = 256"
      using palette_size [OF assms True] by blast
    then show ?thesis using True by (simp add: write_palette_def palette_bytes_def Let_def)
  qed (simp add: write_palette_def palette_bytes_def)
  have "bm_isLoaded b" using assms by (simp add: bitmap_ok_def)
  then show ?thesis
    by (simp add: write_stream_def Let_def pal file_bytes_def rows_def [symmetric] loop ps)
qed

section \<open>Loading what was written\<close>

lemma pixel_at_written:
  assumes "bitmap_ok b" "bm_pixels b = Some ps" "k < rows b * columns b"
    and "\<And>j. j < pixel_size b \<Longrightarrow> tmp ! (pixel_pos b k + j) = pixel_bytes b (ps ! k) ! j"
  shows "pixel_at b tmp (pixel_pos b k) = ps ! k"
proof -
  have st: "storable b (ps ! k)" using assms(1-3) by (auto simp: bitmap_ok_def pixels_ok_def)
  show ?thesis
  proof (cases "depth_of b = 8")
    case True
    obtain r where r: "colorIndex b (ps ! k) = Some r" "r < 256" "the (bm_colors b) ! r = ps ! k"
      using colorIndex_finds [OF assms(1) True st] by blast
    then have "unat (word_of_nat r :: byte) = r" by (simp add: unat_of_nat)
    then show ?thesis
      using assms(4) [of 0] r True by (simp add: pixel_at_def pixel_bytes_def pixel_size_def)
  next
    case False
    then show ?thesis
      using assms(4) [of 0] assms(4) [of 1] assms(4) [of 2] st
      by (simp add: pixel_at_def pixel_bytes_def pixel_size_def storable_def white_def)
  qed
qed

text \<open>The three stages in front of the pixels read back what \<open>write\<close> put there.\<close>

lemma load_written_header:
  "load_header (header_bytes h @ rest) (\<lambda>_. False) b =
     (if h_id h \<noteq> bitMapID then Inl (b\<lparr>bm_header := h\<rparr>) else Inr (b\<lparr>bm_header := h\<rparr>, 14))"
  by (simp add: load_header_def Let_def layout)

lemma load_written_info:
  assumes "length front = 14"
  shows "load_info (front @ info_bytes i @ rest) (\<lambda>_. False) (b, 14) =
    (let b' = b\<lparr>bm_info := i\<rparr>
     in if i_compression i \<noteq> 0 \<or> depth_of b' < 8 then Inl b' else Inr (b', 54))"
  using assms by (simp add: load_info_def Let_def layout)

lemma load_written_palette:
  assumes "bitmap_ok b" "length front = 54" "bm_info b' = bm_info b" "bm_colors b' = None"
  shows "load_palette (front @ palette_bytes b @ rest) (\<lambda>_. False) junk (b', 54) =
    Some (Inr (b'\<lparr>bm_numColors := bm_numColors b, bm_colors := bm_colors b\<rparr>,
               54 + length (palette_bytes b)))"
proof (cases "depth_of b = 8")
  case True
  then have "depth_of b' = 8" using assms(3) by (simp add: depth_of_def)
  moreover obtain cs where "bm_colors b = Some cs" "length cs = 256" "bm_numColors b = 256"
    using palette_size [OF assms(1) True] .
  ultimately show ?thesis
    using True assms(2)
    by (simp add: load_palette_def palette_bytes_def Let_def depth_of_def push_bit_eq_mult layout)
next
  case False
  then have "bm_colors b = None" "depth_of b < 32" "bm_numColors b = push_bit (nat (depth_of b)) 1"
    using assms(1) by (simp_all add: bitmap_ok_def)
  moreover have "depth_of b' = depth_of b" using assms(3) by (simp add: depth_of_def)
  ultimately show ?thesis
    using False assms(2,4) by (simp add: load_palette_def palette_bytes_def Let_def)
qed

lemma load_written_pixels:
  assumes ok: "bitmap_ok b" "bm_pixels b = Some ps" and small: "buffer_size b \<le> 2 ^ 32 - 4"
    and "length front = pos"
  shows "load_pixels (front @ image_bytes b ps) (\<lambda>_. False) junk (unread b, pos) = Some b"
proof -
  let ?b = "unread b"
  define tmp where "tmp = overlay (take (buffer_size b) (image_bytes b ps)) (fresh_bytes junk (buffer_size b))"
  have len: "length tmp = buffer_size b" by (simp add: tmp_def length_overlay)
  have facts: "pixels_ok b ps" "0 \<le> area b" "fits_int (area b)" "palette_ok b" "bm_isLoaded b"
    "buffer_fits (bm_header b)"
    using ok by (auto simp: bitmap_ok_def)
  have again: "pixels_read ?b tmp (nat (area b)) (rows b * columns b) ps"
    unfolding pixels_read_def layout_update
  proof (intro conjI allI impI)
    fix k assume k: "k < rows b * columns b"
    show fits: "pixel_pos b k + pixel_size b \<le> length tmp"
      using facts(1) k unfolding pixels_ok_def len by simp
    have "tmp ! (pixel_pos b k + j) = pixel_bytes b (ps ! k) ! j" if "j < pixel_size b" for j
    proof -
      have "pixel_pos b k + j < length (take (buffer_size b) (image_bytes b ps))"
        using image_bytes_nth(2) [OF k that, of ps] fits that unfolding len by simp
      then show ?thesis using image_bytes_nth(1) [OF k that, of ps] by (simp add: tmp_def nth_overlay)
    qed
    then have "pixel_at b tmp (pixel_pos b k) = ps ! k"
      by (rule pixel_at_written [OF ok k])
    then show "ps ! k = pixel_at ?b tmp (pixel_pos b k)" by (simp only: pixel_at_update)
  qed (use facts(1) in \<open>simp_all add: pixels_ok_def\<close>)
  have "\<exists>i. for_loop 0 (rows b) (load_row ?b tmp) (replicate (nat (area b)) white, 0) = Some (ps, i)"
  proof (cases "rows b = 0")
    case True
    then have "ps = replicate (nat (area b)) white"
      using facts(1) by (auto simp: pixels_ok_def intro: nth_equalityI)
    then show ?thesis using True by simp
  next
    case False
    then have r: "readable ?b tmp (nat (area b))"
      using facts small len area_rows [of b] area_wide [of b] by (simp add: readable_def)
    have "fits_int (3 * width_of b)" using ok(1) False by (simp add: bitmap_ok_def)
    moreover have "pixel_pos b k + pixel_size b \<le> length tmp" if "k < rows b * columns b" for k
      using facts(1) that unfolding pixels_ok_def len by simp
    ultimately have "yields (for_loop 0 (rows b) (load_row ?b tmp) (replicate (nat (area b)) white, 0))
        (reading ?b tmp (nat (area b)) (rows b) 0)"
      using load_rows_succeeds [OF r] by simp
    then obtain st where st: "for_loop 0 (rows b) (load_row ?b tmp) (replicate (nat (area b)) white, 0)
        = Some st" "reading ?b tmp (nat (area b)) (rows b) 0 st"
      by (auto simp: yields_def)
    then have "fst st = ps"
      using pixels_read_unique [OF _ again] by (auto simp: reading_def split: prod.splits)
    then show ?thesis using st(1) by (cases st) auto
  qed
  then show ?thesis
    using facts ok(2) assms(4)
    by (auto simp: load_pixels_def Let_def buffer_size_def [symmetric] area_def [symmetric]
        rows_def [symmetric] tmp_def [symmetric])
qed

lemma load_file_bytes:
  assumes "bitmap_ok b" "buffer_size b \<le> 2 ^ 32 - 4"
  shows "load (Some (file_bytes b)) (\<lambda>_. False) fresh b0 = Some b"
proof -
  obtain ps where ps: "bm_pixels b = Some ps" using assms by (auto simp: bitmap_ok_def)
  let ?r = "releaseResources b0"
  let ?b1 = "?r\<lparr>bm_header := bm_header b\<rparr>"
  let ?b2 = "?b1\<lparr>bm_info := bm_info b\<rparr>"
  let ?rest = "palette_bytes b @ image_bytes b ps"
  let ?two = "header_bytes (bm_header b) @ info_bytes (bm_info b)"
  have 1: "load_header (header_bytes (bm_header b) @ info_bytes (bm_info b) @ ?rest) (\<lambda>_. False) ?r =
      Inr (?b1, 14)"
    using assms(1) by (simp add: load_written_header bitmap_ok_def)
  have 2: "load_info (header_bytes (bm_header b) @ info_bytes (bm_info b) @ ?rest) (\<lambda>_. False) (?b1, 14) =
      Inr (?b2, 54)"
    using assms(1) by (simp add: load_written_info bitmap_ok_def depth_of_def Let_def)
  have 3: "load_palette (?two @ ?rest) (\<lambda>_. False) junk (?b2, 54) =
      Some (Inr (?b2\<lparr>bm_numColors := bm_numColors b, bm_colors := bm_colors b\<rparr>,
                 54 + length (palette_bytes b)))" for junk
    by (rule load_written_palette [OF assms(1)]) (simp_all add: releaseResources_def)
  have same: "?b2\<lparr>bm_numColors := bm_numColors b, bm_colors := bm_colors b\<rparr> = unread b"
    by (simp add: releaseResources_def)
  have 4: "load_pixels ((?two @ palette_bytes b) @ image_bytes b ps) (\<lambda>_. False) junk
      (unread b, 54 + length (palette_bytes b)) = Some b" for junk
    by (rule load_written_pixels [OF assms(1) ps assms(2)]) simp
  show ?thesis
    using 1 2 3 4 same by (simp add: load_def Let_def file_bytes_def ps)
qed

section \<open>Files of 32-bit pixels\<close>

lemma alignSize_0 [simp]: "alignSize w = 0"
proof -
  have 3: "(3 :: 32 word) = mask 2" by (simp add: mask_eq_exp_minus_1)
  have quad: "push_bit 2 v = v * 4" for v :: "32 word" by (simp add: push_bit_eq_mult)
  have disj: "and (push_bit 2 v) 3 = 0" for v :: "32 word"
    by (rule bit_word_eqI) (auto simp: 3 bit_simps)
  then have "xor (push_bit 2 w) 3 = push_bit 2 w + 3"
    by (simp only: disjunctive_xor_eq_or disjunctive_add_eq_or)
  then have sum: "xor (w * 4) 3 + 1 = (w + 1) * 4" unfolding quad by (simp add: distrib_right)
  show ?thesis using disj [of "w + 1"] unfolding quad alignSize_def sum .
qed

definition image32 :: "32 word list \<Rightarrow> byte list" where
  "image32 ptr = concat (map int32_bytes ptr)"

lemma length_image32 [simp]: "length (image32 ptr) = 4 * length ptr"
  by (induction ptr) (simp_all add: image32_def)

lemma image32_Suc: "k < length ptr \<Longrightarrow> image32 (take (Suc k) ptr) = image32 (take k ptr) @ int32_bytes (ptr ! k)"
  by (simp add: image32_def take_Suc_conv_app_nth)

lemma pixels_row_eq:
  assumes "(y + 1) * nat (sint w) \<le> length ptr"
  shows "pixels_row w ptr (\<lambda>_. False) y (True, out @ image32 (take (y * nat (sint w)) ptr)) =
    Some (True, out @ image32 (take ((y + 1) * nat (sint w)) ptr))"
proof -
  let ?W = "nat (sint w)"
  let ?body = "\<lambda>x (going, out).
                 if \<not> going then Some (going, out)
                 else do { p \<leftarrow> arg_at ptr (y * ?W + x);
                           let out' = out @ int32_bytes p in Some (\<not> False, out') }"
  have "yields (for_loop 0 ?W ?body (True, out @ image32 (take (y * ?W) ptr)))
      (\<lambda>st. st = (True, out @ image32 (take (y * ?W + ?W) ptr)))"
    by (rule for_loop_yields) (use assms in \<open>auto simp: image32_Suc\<close>)
  then show ?thesis unfolding yields_eq by (simp add: pixels_row_def add.commute)
qed

lemma write_pixels_eq:
  assumes "fits_int (sint w * 4)" "fits_int (sint (rowLength w) * sint h)"
    and "nat (sint w) * nat (sint h) \<le> length ptr"
  shows "write_pixels True (\<lambda>_. False) w h ptr =
    Some (True, header_bytes (pixels_header w h) @ info_bytes (pixels_info w h) @
      image32 (take (nat (sint w) * nat (sint h)) ptr))"
proof -
  let ?out = "header_bytes (pixels_header w h) @ info_bytes (pixels_info w h)"
  have "yields (for_loop 0 (nat (sint h)) (pixels_row w ptr (\<lambda>_. False)) (True, ?out))
      (\<lambda>st. st = (True, ?out @ image32 (take (nat (sint h) * nat (sint w)) ptr)))"
  proof (rule for_loop_yields)
    fix y s assume y: "y < nat (sint h)" and s: "s = (True, ?out @ image32 (take (y * nat (sint w)) ptr))"
    have "(y + 1) * nat (sint w) \<le> nat (sint h) * nat (sint w)" using y by (intro mult_le_mono1) simp
    then have "(y + 1) * nat (sint w) \<le> length ptr" using assms(3) by (simp add: mult.commute)
    then show "yields (pixels_row w ptr (\<lambda>_. False) y s)
        (\<lambda>st. st = (True, ?out @ image32 (take (Suc y * nat (sint w)) ptr)))"
      unfolding s yields_eq using pixels_row_eq [of y w ptr ?out] by simp
  qed (simp_all add: image32_def)
  then show ?thesis using assms(1,2) unfolding yields_eq
    by (simp add: write_pixels_def Let_def mult.commute)
qed

end
