(* ===== verification/Sdk_Bitmap_Props.thy ===== *)
theory Sdk_Bitmap_Props
  imports Sdk_Bitmap_Facts
begin

text \<open>
  The properties of the bitmap class: the invariant of a loaded object, the round trip through
  a file, and what becomes of the files of 32-bit pixels when they are loaded.
\<close>

section \<open>Loaded objects\<close>

text \<open>C14.
  A bitmap that \<open>load\<close> has loaded, however the object looked before and whatever the memory
  that \<open>new\<close> returned held, can be written, and loading the file once it has received all bytes
  into any object gives back the same bitmap, field by field: headers, palette, number of colours,
  pixels.  \<open>write\<close> returns with the stream open, so the file may by then hold only the first part
  of the bytes; the rest, however much it is, reaches it when the program ends, and a \<open>load\<close> before
  that does not see it.  The claim holds although \<open>write\<close> puts the pixels right behind the headers whatever the offset field
  says, and for palettes with repeated colours.  (The buffer has to end 4 bytes before the end
  of the range of the 32-bit index, which wraps around otherwise.)\<close>

theorem write_load_roundtrip:
  assumes "load f bad fresh b0 = Some b" "bm_isLoaded b"
    and "unat (h_size (bm_header b) - h_offset (bm_header b)) \<le> 2 ^ 32 - 4"
  shows "\<exists>done pending. write_bitmap True (\<lambda>_. False) held b = Some (True, done, pending) \<and>
    (\<forall>fresh' b1. load (Some (done @ pending)) (\<lambda>_. False) fresh' b1 = Some b)"
  using load_ok [OF assms(1,2)] assms(3) write_stream_eq load_file_bytes
  by (simp add: buffer_size_def write_bitmap_def Let_def)

definition demo_header :: bitmap_header where
  "demo_header = \<lparr>h_id = bitMapID, h_size = 62, h_reserved1 = 0, h_reserved2 = 0, h_offset = 54\<rparr>"

definition demo_info :: bitmap_info where
  "demo_info = \<lparr>i_sizeInfo = 40, i_width = 2, i_height = 1, i_planes = 1, i_bitsPerPixel = 24,
     i_compression = 0, i_imageSize = 8, i_xPelsPerMeter = 0, i_yPelsPerMeter = 0,
     i_clrUsed = 0, i_clrImportant = 0\<rparr>"

definition demo_object :: bitmap where
  "demo_object = new_bitmap demo_header demo_info"

definition demo_file :: "byte list" where
  "demo_file = header_bytes demo_header @ info_bytes demo_info @ [1, 2, 3, 4, 5, 6, 0, 0]"

definition demo_loaded :: bitmap where
  "demo_loaded = demo_object\<lparr>
     bm_pixels := Some [\<lparr>px = 3, py = 2, pz = 1, pw = 255\<rparr>, \<lparr>px = 6, py = 5, pz = 4, pw = 255\<rparr>],
     bm_numColors := 2 ^ 24, bm_isLoaded := True\<rparr>"

lemma load_demo: "load (Some demo_file) (\<lambda>_. False) (\<lambda>_ _. 7) demo_object = Some demo_loaded"
  by code_simp

theorem write_load_roundtrip_witness:
  "\<exists>done pending. write_bitmap True (\<lambda>_. False) (\<lambda>n. n mod 4096) demo_loaded = Some (True, done, pending) \<and>
    (\<forall>fresh' b1. load (Some (done @ pending)) (\<lambda>_. False) fresh' b1 = Some demo_loaded)"
  by (rule write_load_roundtrip [OF load_demo])
    (simp_all add: demo_loaded_def demo_object_def demo_header_def new_bitmap_def)

text \<open>C15.
  The invariant of a loaded bitmap: the width and height reported span exactly the pixels held,
  the depth is between 8 and 31 bits, an 8-bit image has a palette of 256 colours that all
  pixels it has read are taken from, a deeper image has no palette and opaque pixels, and
  copying it into another object copies all of it.\<close>

theorem loaded_bitmap_invariant:
  assumes "load f bad fresh b0 = Some b" "bm_isLoaded b"
    and "unat (h_size (bm_header b) - h_offset (bm_header b)) \<le> 2 ^ 32 - 4"
  shows "h_id (bm_header b) = bitMapID \<and> 8 \<le> depth_of b \<and> depth_of b < 32 \<and>
    getNumChannels b = depth_of b div 8 \<and>
    (\<exists>ps. bm_pixels b = Some ps \<and> int (length ps) = getWidth b * getHeight b \<and>
      (if depth_of b = 8
       then \<exists>cs. bm_colors b = Some cs \<and> length cs = 256 \<and>
         (\<forall>k < nat (getHeight b) * nat (getWidth b). ps ! k \<in> set cs)
       else bm_colors b = None \<and> (\<forall>c \<in> set ps. pw c = 0xFF))) \<and>
    assign False b1 b = Some b"
proof -
  have ok: "bitmap_ok b" using load_ok [OF assms(1,2)] assms(3) by (simp add: buffer_size_def)
  then obtain ps where ps: "bm_pixels b = Some ps" "pixels_ok b ps" "0 \<le> area b"
    by (auto simp: bitmap_ok_def)
  have area: "int (length ps) = getWidth b * getHeight b"
    using ps(2,3) assms(2) by (simp add: pixels_ok_def area_def getWidth_def getHeight_def)
  have stored: "storable b (ps ! k)" if "k < rows b * columns b" for k
    using ps(2) that by (simp add: pixels_ok_def)
  have opaque: "pw c = 0xFF" if "depth_of b \<noteq> 8" "c \<in> set ps" for c
  proof -
    obtain k where k: "k < length ps" "c = ps ! k" using \<open>c \<in> set ps\<close> by (auto simp: in_set_conv_nth)
    show ?thesis
    proof (cases "k < rows b * columns b")
      case True
      then show ?thesis using stored that(1) k(2) by (simp add: storable_def)
    next
      case False
      then show ?thesis using ps(2) k by (simp add: pixels_ok_def white_def)
    qed
  qed
  have fits: "fits_int (width_of b * height_of b)" "length ps = nat (width_of b * height_of b)"
      "0 \<le> width_of b * height_of b"
    using ok ps(2,3) by (simp_all add: bitmap_ok_def area_def pixels_ok_def)
  have same: "width_of (b1\<lparr>bm_header := h, bm_info := bm_info b, bm_numColors := nc, bm_isLoaded := l,
        bm_pixels := p, bm_colors := c\<rparr>) = width_of b"
      "height_of (b1\<lparr>bm_header := h, bm_info := bm_info b, bm_numColors := nc, bm_isLoaded := l,
        bm_pixels := p, bm_colors := c\<rparr>) = height_of b" for h nc l p c
    by (simp_all add: width_of_def height_of_def)
  have copy: "assign False b1 b = Some b"
  proof (cases "depth_of b = 8")
    case True
    then obtain cs where "bm_colors b = Some cs" "length cs = 256" "bm_numColors b = 256"
      using palette_size [OF ok True] by blast
    then show ?thesis
      using assms(2) fits ps(1) by (simp add: assign_def Let_def same copy_array_def fits_int_def)
  next
    case False
    then have "bm_colors b = None" using ok by (simp add: bitmap_ok_def)
    then show ?thesis
      using assms(2) fits ps(1) by (simp add: assign_def Let_def same copy_array_def)
  qed
  have shown: "nat (getHeight b) * nat (getWidth b) = rows b * columns b"
    using assms(2) by (simp add: getHeight_def getWidth_def rows_def columns_def)
  show ?thesis
  proof (cases "depth_of b = 8")
    case True
    then obtain cs where "bm_colors b = Some cs" "length cs = 256"
      using palette_size [OF ok True] by blast
    then show ?thesis
      using True ok ps(1) area stored copy assms(2)
      unfolding shown by (auto simp: bitmap_ok_def storable_def getNumChannels_def)
  next
    case False
    then show ?thesis
      using ok ps(1) area opaque copy assms(2)
      by (simp add: bitmap_ok_def getNumChannels_def)
  qed
qed

theorem loaded_bitmap_invariant_witness:
  "8 \<le> depth_of demo_loaded \<and> assign False demo_object demo_loaded = Some demo_loaded"
  using loaded_bitmap_invariant [OF load_demo, of demo_object]
  by (simp add: demo_loaded_def demo_object_def demo_header_def new_bitmap_def)

section \<open>Files of 32-bit pixels, loaded again\<close>

text \<open>
  Writing an array of 32-bit pixels makes a file of exactly the size its header announces, with
  no padding in any row; but \<open>load\<close> cannot read any such file: it accepts the header, which
  says 32 bits per pixel, and then computes \<open>1 << 32\<close>, which is undefined.\<close>

lemma write_pixels_unreadable:
  assumes "fits_int (sint w * 4)" "fits_int (sint (rowLength w) * sint h)"
    and "nat (sint w) * nat (sint h) \<le> length ptr"
  shows "\<exists>out. write_pixels True (\<lambda>_. False) w h ptr = Some (True, out) \<and>
    rowLength w = w * 4 \<and>
    length out = 54 + 4 * (nat (sint w) * nat (sint h)) \<and>
    load (Some out) (\<lambda>_. False) fresh b0 = None"
proof -
  let ?h = "pixels_header w h" and ?i = "pixels_info w h"
  let ?px = "image32 (take (nat (sint w) * nat (sint h)) ptr)"
  have "load (Some (header_bytes ?h @ info_bytes ?i @ ?px)) (\<lambda>_. False) fresh b0 = None"
    by (simp add: load_def Let_def load_written_header load_written_info load_palette_def
        pixels_header_def pixels_info_def depth_of_def)
  moreover have "length (header_bytes ?h @ info_bytes ?i @ ?px) = 54 + 4 * (nat (sint w) * nat (sint h))"
    using assms(3) by simp
  moreover have "rowLength w = w * 4" by (simp add: rowLength_def)
  ultimately show ?thesis using write_pixels_eq [OF assms] by blast
qed

end
