(* ===== verification/Sdk_Common.thy ===== *)
theory Sdk_Common
  imports C_Stdlib "HOL-Library.Word"
begin

text \<open>
  The helper functions of the SDK utilities that need no device (\<open>SDK/SDKUtil/SDKCommon.cpp\<close>):
  status codes and their names, filling arrays, powers of two, the choice of a work-group size,
  the comparison of results, timers, and the table that the samples print.  The functions that
  are templates are modelled at the types they are instantiated with.  The result
  \<^const>\<open>None\<close> is undefined behaviour.
\<close>

section \<open>Status codes\<close>

definition SDK_SUCCESS :: int where
  "SDK_SUCCESS = 0"

definition SDK_FAILURE :: int where
  "SDK_FAILURE = 1"

definition CL_SUCCESS :: int where
  "CL_SUCCESS = 0"

definition error_names :: "(int \<times> string) list" where
  "error_names =
    [(- 1, ''CL_DEVICE_NOT_FOUND''),
     (- 2, ''CL_DEVICE_NOT_AVAILABLE''),
     (- 3, ''CL_COMPILER_NOT_AVAILABLE''),
     (- 4, ''CL_MEM_OBJECT_ALLOCATION_FAILURE''),
     (- 5, ''CL_OUT_OF_RESOURCES''),
     (- 6, ''CL_OUT_OF_HOST_MEMORY''),
     (- 7, ''CL_PROFILING_INFO_NOT_AVAILABLE''),
     (- 8, ''CL_MEM_COPY_OVERLAP''),
     (- 9, ''CL_IMAGE_FORMAT_MISMATCH''),
     (- 10, ''CL_IMAGE_FORMAT_NOT_SUPPORTED''),
     (- 11, ''CL_BUILD_PROGRAM_FAILURE''),
     (- 12, ''CL_MAP_FAILURE''),
     (- 13, ''CL_MISALIGNED_SUB_BUFFER_OFFSET''),
     (- 14, ''CL_EXEC_STATUS_ERROR_FOR_EVENTS_IN_WAIT_LIST''),
     (- 30, ''CL_INVALID_VALUE''),
     (- 31, ''CL_INVALID_DEVICE_TYPE''),
     (- 32, ''CL_INVALID_PLATFORM''),
     (- 33, ''CL_INVALID_DEVICE''),
     (- 34, ''CL_INVALID_CONTEXT''),
     (- 35, ''CL_INVALID_QUEUE_PROPERTIES''),
     (- 36, ''CL_INVALID_COMMAND_QUEUE''),
     (- 37, ''CL_INVALID_HOST_PTR''),
     (- 38, ''CL_INVALID_MEM_OBJECT''),
     (- 39, ''CL_INVALID_IMAGE_FORMAT_DESCRIPTOR''),
     (- 40, ''CL_INVALID_IMAGE_SIZE''),
     (- 41, ''CL_INVALID_SAMPLER''),
     (- 42, ''CL_INVALID_BINARY''),
     (- 43, ''CL_INVALID_BUILD_OPTIONS''),
     (- 44, ''CL_INVALID_PROGRAM''),
     (- 45, ''CL_INVALID_PROGRAM_EXECUTABLE''),
     (- 46, ''CL_INVALID_KERNEL_NAME''),
     (- 47, ''CL_INVALID_KERNEL_DEFINITION''),
     (- 48, ''CL_INVALID_KERNEL''),
     (- 49, ''CL_INVALID_ARG_INDEX''),
     (- 50, ''CL_INVALID_ARG_VALUE''),
     (- 51, ''CL_INVALID_ARG_SIZE''),
     (- 52, ''CL_INVALID_KERNEL_ARGS''),
     (- 53, ''CL_INVALID_WORK_DIMENSION''),
     (- 54, ''CL_INVALID_WORK_GROUP_SIZE''),
     (- 55, ''CL_INVALID_WORK_ITEM_SIZE''),
     (- 56, ''CL_INVALID_GLOBAL_OFFSET''),
     (- 57, ''CL_INVALID_EVENT_WAIT_LIST''),
     (- 58, ''CL_INVALID_EVENT''),
     (- 59, ''CL_INVALID_OPERATION''),
     (- 60, ''CL_INVALID_GL_OBJECT''),
     (- 61, ''CL_INVALID_BUFFER_SIZE''),
     (- 62, ''CL_INVALID_MIP_LEVEL''),
     (- 63, ''CL_INVALID_GLOBAL_WORK_SIZE''),
     (- 1000, ''CL_INVALID_GL_SHAREGROUP_REFERENCE_KHR''),
     (- 1001, ''CL_PLATFORM_NOT_FOUND_KHR''),
     (- 1057, ''CL_DEVICE_PARTITION_FAILED_EXT''),
     (- 1058, ''CL_INVALID_PARTITION_COUNT_EXT'')]"

definition unknown_error :: string where
  "unknown_error = ''unknown error code''"

definition getOpenCLErrorCodeStr :: "int \<Rightarrow> string" where
  "getOpenCLErrorCodeStr code =
     (case map_of error_names code of Some n \<Rightarrow> n | None \<Rightarrow> unknown_error)"

text \<open>The status returned, and what is printed.\<close>

definition checkVal :: "int \<Rightarrow> int \<Rightarrow> string \<Rightarrow> bool \<Rightarrow> int \<times> string list" where
  "checkVal input reference message isAPIerror =
     (if input = reference then (SDK_SUCCESS, [])
      else if isAPIerror
      then (SDK_FAILURE, [''Error: '' @ message @ '' Error code : '', getOpenCLErrorCodeStr input])
      else (SDK_FAILURE, [''Error: '' @ message]))"

section \<open>Filling arrays\<close>

text \<open>
  An array of \<open>width\<close> by \<open>height\<close> elements, \<^const>\<open>None\<close> for a null pointer; \<open>rand i\<close> is the
  result of the \<open>i\<close>-th call of \<open>rand\<close>, between 0 and \<open>RAND_MAX\<close>.
\<close>

definition RAND_MAX :: int where
  "RAND_MAX = 2147483647"

definition fill_loops ::
  "nat \<Rightarrow> nat \<Rightarrow> (nat \<Rightarrow> nat \<Rightarrow> 'a option) \<Rightarrow> 'a list \<Rightarrow> 'a list option" where
  "fill_loops width height value arr =
     for_loop 0 height (\<lambda>i.
       for_loop 0 width (\<lambda>j arr. do { v \<leftarrow> value i j; set_at arr (i * width + j) v })) arr"

definition fillConstant ::
  "'a list option \<Rightarrow> int \<Rightarrow> int \<Rightarrow> 'a \<Rightarrow> (int \<times> 'a list option) option" where
  "fillConstant arr width height val =
     (case arr of None \<Rightarrow> Some (SDK_FAILURE, None)
      | Some a \<Rightarrow> do { a' \<leftarrow> fill_loops (nat width) (nat height) (\<lambda>i j. Some val) a;
                       Some (SDK_SUCCESS, Some a') })"

definition fillPos ::
  "int list option \<Rightarrow> int \<Rightarrow> int \<Rightarrow> (int \<times> int list option) option" where
  "fillPos arr width height =
     (case arr of None \<Rightarrow> Some (SDK_FAILURE, None)
      | Some a \<Rightarrow> do { a' \<leftarrow> fill_loops (nat width) (nat height)
                                (\<lambda>i j. if fits_int (int i * width + int j)
                                       then Some (int i * width + int j) else None) a;
                       Some (SDK_SUCCESS, Some a') })"

text \<open>
  \<open>fillRandom<unsigned int>\<close>: the range and the scaled random number are computed in \<open>double\<close>,
  and a number beyond \<open>unsigned int\<close> cannot be converted.  The seed only selects the sequence
  \<open>rand\<close>.
\<close>

definition f_to_uint :: "flt \<Rightarrow> 32 word option" where
  "f_to_uint x =
     (if is_finite x \<and> 0 \<le> truncate_rat (finite_value x) \<and> truncate_rat (finite_value x) < 2 ^ 32
      then Some (word_of_int (truncate_rat (finite_value x))) else None)"

definition random_range :: "32 word \<Rightarrow> 32 word \<Rightarrow> flt" where
  "random_range rangeMin rangeMax =
     f_add binary64 (f_of_int binary64 (uint (rangeMax - rangeMin))) (Fin 1)"

definition random_value :: "32 word \<Rightarrow> flt \<Rightarrow> int \<Rightarrow> 32 word option" where
  "random_value rangeMin spread r =
     map_option (\<lambda>t. rangeMin + t)
       (f_to_uint (f_div binary64 (f_mul binary64 spread (f_of_int binary64 r))
                                  (f_add binary64 (f_of_int binary64 RAND_MAX) (Fin 1))))"

definition fillRandom ::
  "(nat \<Rightarrow> int) \<Rightarrow> 32 word list option \<Rightarrow> int \<Rightarrow> int \<Rightarrow> 32 word \<Rightarrow> 32 word \<Rightarrow>
   (int \<times> 32 word list option) option" where
  "fillRandom rand arr width height rangeMin rangeMax =
     (case arr of None \<Rightarrow> Some (SDK_FAILURE, None)
      | Some a \<Rightarrow>
        (let spread = random_range rangeMin rangeMax
         in do { a' \<leftarrow> fill_loops (nat width) (nat height)
                          (\<lambda>i j. random_value rangeMin spread (rand (i * nat width + j))) a;
                 Some (SDK_SUCCESS, Some a') }))"

section \<open>Powers of two\<close>

text \<open>
  \<open>roundToPowerOf2\<close> for a type of \<open>nbytes\<close> bytes; a shift by the width of the type or more is
  undefined.  It is read at unsigned types; a signed type shifts the same way on positive values.
\<close>

definition round_step :: "nat \<Rightarrow> 'a::len word \<Rightarrow> 'a word option" where
  "round_step i val = (if 2 ^ i < LENGTH('a) then Some (or val (drop_bit (2 ^ i) val)) else None)"

definition roundToPowerOf2 :: "nat \<Rightarrow> 'a::len word \<Rightarrow> 'a word option" where
  "roundToPowerOf2 nbytes val =
     do { v \<leftarrow> for_loop 0 nbytes round_step (val - 1); Some (v + 1) }"

text \<open>\<open>isPowerOf2\<close>: the value is a \<open>long long\<close>, whose least value cannot be negated.\<close>

definition isPowerOf2 :: "int \<Rightarrow> int option" where
  "isPowerOf2 v =
     (if v = - (2 ^ 63) then None
      else Some (if and v (- v) - v = 0 \<and> v \<noteq> 0 then SDK_SUCCESS else SDK_FAILURE))"

section \<open>The size of a work-group\<close>

fun divisor_below :: "nat \<Rightarrow> nat \<Rightarrow> nat option" where
  "divisor_below n 0 = None"
| "divisor_below n (Suc i) = (if n mod Suc i = 0 then Some (Suc i) else divisor_below n i)"

definition getLocalThreads :: "nat \<Rightarrow> nat \<Rightarrow> nat option" where
  "getLocalThreads globalThreads maxWorkItemSize =
     (if maxWorkItemSize < globalThreads then
        if maxWorkItemSize = 0 then None
        else if globalThreads mod maxWorkItemSize = 0 then Some maxWorkItemSize
        else (case divisor_below globalThreads (maxWorkItemSize - 1) of
                Some i \<Rightarrow> Some i | None \<Rightarrow> Some (nat SDK_SUCCESS))
      else Some globalThreads)"

section \<open>Comparing results\<close>

text \<open>
  \<open>compare\<close> in a format: the sums of the squared differences and of the squared reference
  values start with the element of index 1.
\<close>

definition compare_step ::
  "format \<Rightarrow> flt list \<Rightarrow> flt list \<Rightarrow> nat \<Rightarrow> flt \<times> flt \<Rightarrow> (flt \<times> flt) option" where
  "compare_step fmt refData data i = (\<lambda>(err, ref).
     do { r \<leftarrow> arg_at refData i;
          d \<leftarrow> arg_at data i;
          let diff = f_sub fmt r d
          in Some (f_add fmt err (f_mul fmt diff diff), f_add fmt ref (f_mul fmt r r)) })"

definition f_abs :: "flt \<Rightarrow> flt" where
  "f_abs x = (if is_negative x then f_neg x else x)"

definition compare_norms :: "format \<Rightarrow> flt \<Rightarrow> flt \<times> flt \<Rightarrow> bool" where
  "compare_norms fmt epsilon = (\<lambda>(err, ref).
     let normRef = f_sqrt fmt ref
     in if f_lt (f_abs ref) (round_to fmt (1 / 10 ^ 7)) then False
        else f_lt (f_div fmt (f_sqrt fmt err) normRef) epsilon)"

definition compare_float :: "flt list \<Rightarrow> flt list \<Rightarrow> int \<Rightarrow> flt \<Rightarrow> bool option" where
  "compare_float refData data len epsilon =
     map_option (compare_norms binary32 epsilon)
       (for_loop 1 (nat len) (compare_step binary32 refData data) (Fin 0, Fin 0))"

definition compare_double :: "flt list \<Rightarrow> flt list \<Rightarrow> int \<Rightarrow> flt \<Rightarrow> bool option" where
  "compare_double refData data len epsilon =
     map_option (compare_norms binary64 epsilon)
       (for_loop 1 (nat len) (compare_step binary64 refData data) (Fin 0, Fin 0))"

section \<open>Timers\<close>

text \<open>
  The timers of an object; \<open>gettimeofday\<close> is a pair of seconds and microseconds.  A negative
  handle passes the check and is an access outside the vector.
\<close>

record timer =
  t_freq :: int
  t_clocks :: int
  t_start :: int

definition createTimer :: "timer list \<Rightarrow> int \<times> timer list" where
  "createTimer ts =
     (int (length ts + 1) - 1, ts @ [\<lparr>t_freq = 1000, t_clocks = 0, t_start = 0\<rparr>])"

definition timer_at :: "timer list \<Rightarrow> int \<Rightarrow> timer option" where
  "timer_at ts handle = (if handle < 0 then None else arg_at ts (nat handle))"

definition resetTimer :: "int \<Rightarrow> timer list \<Rightarrow> (int \<times> timer list) option" where
  "resetTimer handle ts =
     (if int (length ts) \<le> handle then Some (- 1, ts)
      else do { t \<leftarrow> timer_at ts handle;
                Some (SDK_SUCCESS, ts[nat handle := t\<lparr>t_start := 0, t_clocks := 0\<rparr>]) })"

definition milliseconds :: "int \<times> int \<Rightarrow> int" where
  "milliseconds = (\<lambda>(sec, usec). sec * 1000 + usec div 1000)"

definition startTimer :: "int \<times> int \<Rightarrow> int \<Rightarrow> timer list \<Rightarrow> (int \<times> timer list) option" where
  "startTimer now handle ts =
     (if int (length ts) \<le> handle then Some (SDK_FAILURE, ts)
      else do { t \<leftarrow> timer_at ts handle;
                Some (SDK_SUCCESS, ts[nat handle := t\<lparr>t_start := milliseconds now\<rparr>]) })"

definition stopTimer :: "int \<times> int \<Rightarrow> int \<Rightarrow> timer list \<Rightarrow> (int \<times> timer list) option" where
  "stopTimer now handle ts =
     (if int (length ts) \<le> handle then Some (SDK_FAILURE, ts)
      else do { t \<leftarrow> timer_at ts handle;
                let n = milliseconds now - t_start t
                in Some (SDK_SUCCESS, ts[nat handle := t\<lparr>t_start := 0, t_clocks := t_clocks t + n\<rparr>]) })"

definition readTimer :: "int \<Rightarrow> timer list \<Rightarrow> flt option" where
  "readTimer handle ts =
     (if int (length ts) \<le> handle then Some (f_of_int binary64 SDK_FAILURE)
      else do { t \<leftarrow> timer_at ts handle;
                Some (f_div binary64 (f_of_int binary64 (t_clocks t)) (f_of_int binary64 (t_freq t))) })"

section \<open>The table of results\<close>

record table =
  numColumns :: int
  numRows :: int
  columnWidth :: int
  delim :: string
  dataItems :: string

text \<open>
  A position in a string is the rest of the string from there on, and \<open>npos\<close> is \<^const>\<open>None\<close>,
  also as the position where a search starts.
\<close>

definition find_first :: "(char \<Rightarrow> bool) \<Rightarrow> string option \<Rightarrow> string option" where
  "find_first p pos =
     (case pos of None \<Rightarrow> None
      | Some s \<Rightarrow> (case dropWhile (\<lambda>c. \<not> p c) s of [] \<Rightarrow> None | r \<Rightarrow> Some r))"

definition find_first_of :: "string \<Rightarrow> string option \<Rightarrow> string option" where
  "find_first_of ds = find_first (\<lambda>c. c \<in> set ds)"

definition find_first_not_of :: "string \<Rightarrow> string option \<Rightarrow> string option" where
  "find_first_not_of ds = find_first (\<lambda>c. c \<notin> set ds)"

definition substr_between :: "string \<Rightarrow> string option \<Rightarrow> string" where
  "substr_between cur nxt = (case nxt of None \<Rightarrow> cur | Some r \<Rightarrow> take (length cur - length r) cur)"

text \<open>\<open>setw (w) << left << cell\<close>\<close>

definition pad_cell :: "int \<Rightarrow> string \<Rightarrow> string" where
  "pad_cell w cell = cell @ replicate (nat w - length cell) (CHR '' '')"

lemma find_first_length:
  assumes "find_first p (Some s) = Some r"
  shows "length r \<le> length s \<and> r \<noteq> [] \<and> p (hd r)"
proof -
  have r: "r = dropWhile (\<lambda>c. \<not> p c) s" "r \<noteq> []"
    using assms by (auto simp: find_first_def split: list.splits)
  then show ?thesis
    using length_dropWhile_le [of "\<lambda>c. \<not> p c" s] hd_dropWhile [of "\<lambda>c. \<not> p c" s] by auto
qed

lemma next_cell_shorter:
  assumes "find_first_not_of ds (find_first_of ds (Some s)) = Some r"
  shows "length r < length s"
proof -
  obtain t where t: "find_first_of ds (Some s) = Some t"
    using assms by (cases "find_first_of ds (Some s)") (auto simp: find_first_not_of_def find_first_def)
  have 1: "length t \<le> length s" "t \<noteq> []" "hd t \<in> set ds"
    using find_first_length t unfolding find_first_of_def by blast+
  have 2: "length r \<le> length t" "hd r \<notin> set ds"
    using assms find_first_length unfolding t find_first_not_of_def by blast+
  have "r = dropWhile (\<lambda>c. c \<in> set ds) t"
    using assms unfolding t by (auto simp: find_first_not_of_def find_first_def split: list.splits)
  then have "length r \<le> length (tl t)"
    using 1(2,3) by (cases t) (auto intro: length_dropWhile_le)
  then show ?thesis using 1 by (cases t) auto
qed

text \<open>
  The loop of \<open>printTable\<close>: \<open>nextIndex\<close> is always the first delimiter from \<open>curIndex\<close> on, so
  the loop runs as long as \<open>curIndex\<close> is not \<open>npos\<close>.
\<close>

function table_loop :: "table \<Rightarrow> int \<Rightarrow> string option \<Rightarrow> string list option" where
  "table_loop t cnt None = Some []"
| "table_loop t cnt (Some cur) =
     (let nxt = find_first_of (delim t) (Some cur);
          cell = pad_cell (columnWidth t) (substr_between cur nxt)
      in if numColumns t = 0 then None
         else map_option (\<lambda>out. cell # (if (cnt + 1) mod numColumns t = 0 then [[newline]] else []) @ out)
                (table_loop t (cnt + 1) (find_first_not_of (delim t) nxt)))"
  by pat_completeness auto
termination
  by (relation "measure (\<lambda>(t, cnt, cur). case cur of None \<Rightarrow> 0 | Some s \<Rightarrow> Suc (length s))")
    (auto split: option.split dest: next_cell_shorter)

declare table_loop.simps(2) [simp del]

definition printTable :: "table option \<Rightarrow> string list option" where
  "printTable t =
     (case t of None \<Rightarrow> Some [''Error: Cannot print table, NULL pointer.'']
      | Some t \<Rightarrow> table_loop t 0 (find_first_not_of (delim t) (Some (dataItems t))))"

text \<open>\<open>SDKSample::printStats\<close> (\<open>SDKApplication.cpp\<close>), when timing was asked for.\<close>

definition stats_table :: "string list \<Rightarrow> string list \<Rightarrow> int \<Rightarrow> table option" where
  "stats_table statsStr stats n =
     do { heads \<leftarrow> for_loop 0 (nat n) (\<lambda>i items. do { h \<leftarrow> arg_at statsStr i; Some (items @ h @ ''$'') }) [];
          all \<leftarrow> for_loop 0 (nat n) (\<lambda>i items. do { v \<leftarrow> arg_at stats i; Some (items @ v @ ''$'') })
                   (heads @ ''$'');
          Some \<lparr>numColumns = n, numRows = 1, columnWidth = 25, delim = ''$'', dataItems = all\<rparr> }"

definition printStats :: "bool \<Rightarrow> string list \<Rightarrow> string list \<Rightarrow> int \<Rightarrow> string list option" where
  "printStats timing statsStr stats n =
     (if timing then do { t \<leftarrow> stats_table statsStr stats n; printTable (Some t) } else Some [])"

end
