(* ===== verification/Sdk_Common_Props.thy ===== *)
theory Sdk_Common_Props
  imports Sdk_Common
begin

text \<open>
  The properties of the helper functions of the SDK utilities.
\<close>

section \<open>Powers of two\<close>

definition smear :: "nat \<Rightarrow> 32 word \<Rightarrow> 32 word" where
  "smear k v = fold (\<lambda>i v. or v (drop_bit (2 ^ i) v)) [0..<k] v"

lemma ex_less_add: "(\<exists>d < a + b. P d) \<longleftrightarrow> (\<exists>d < a. P d) \<or> (\<exists>d < (b :: nat). P (a + d))"
proof
  assume "\<exists>d < a + b. P d"
  then obtain d where d: "d < a + b" "P d" by blast
  show "(\<exists>d < a. P d) \<or> (\<exists>d < b. P (a + d))"
  proof (cases "d < a")
    case False
    then have "d - a < b" "P (a + (d - a))" using d by simp_all
    then show ?thesis by blast
  qed (use d in blast)
qed (auto intro: trans_less_add1 exI [of _ "a + _"])

lemma bit_smear: "bit (smear k v) j \<longleftrightarrow> (\<exists>d < 2 ^ k. bit v (j + d))"
proof (induction k arbitrary: j)
  case (Suc k)
  have "bit (smear (Suc k) v) j \<longleftrightarrow> bit (smear k v) j \<or> bit (smear k v) (j + 2 ^ k)"
    by (simp add: smear_def bit_simps add.commute)
  also have "\<dots> \<longleftrightarrow> (\<exists>d < 2 ^ k. bit v (j + d)) \<or> (\<exists>d < 2 ^ k. bit v (j + (2 ^ k + d)))"
    by (simp add: Suc add.assoc)
  also have "\<dots> \<longleftrightarrow> (\<exists>d < 2 ^ Suc k. bit v (j + d))"
    using ex_less_add [of "2 ^ k" "2 ^ k" "\<lambda>d. bit v (j + d)"] by (simp add: mult_2)
  finally show ?case .
qed (simp add: smear_def)

lemma round_loop: "for_loop 0 4 round_step (v :: 32 word) = Some (smear 4 v)"
proof -
  have "2 ^ i < (32 :: nat)" if "i < 4" for i
    using power_increasing [of i 3 "2 :: nat"] that by simp
  then show ?thesis
    unfolding for_loop_def smear_def by (intro foldM_Some) (simp add: round_step_def)
qed

lemma bit_unat_bounds:
  fixes v :: "32 word"
  shows "bit v n \<Longrightarrow> 2 ^ n \<le> unat v"
    and "2 ^ n \<le> unat v \<Longrightarrow> unat v < 2 ^ Suc n \<Longrightarrow> bit v n"
proof -
  show "2 ^ n \<le> unat v" if "bit v n"
  proof (rule ccontr)
    assume "\<not> 2 ^ n \<le> unat v"
    then have "\<not> bit (unat v) n" by (simp add: bit_iff_odd)
    then show False using that bit_imp_le_length [OF that] by (simp add: bit_unsigned_iff)
  qed
  show "bit v n" if "2 ^ n \<le> unat v" "unat v < 2 ^ Suc n"
  proof -
    have "unat v div 2 ^ n = 1" using that by (intro div_nat_eqI) simp_all
    then have "bit (unat v) n" by (simp add: bit_iff_odd)
    then show ?thesis by (simp add: bit_unsigned_iff)
  qed
qed

text \<open>All bits below the leading one are set when there are at most 16 of them.\<close>

lemma smear_mask:
  assumes "2 ^ m \<le> unat v" "unat v < 2 ^ Suc m" "m < 16"
  shows "smear 4 v = mask (Suc m)"
proof (rule bit_word_eqI)
  fix j assume j: "j < LENGTH(32)"
  have high: "bit v m" using bit_unat_bounds(2) assms(1,2) by blast
  have below: "n \<le> m" if "bit v n" for n
  proof (rule ccontr)
    assume "\<not> n \<le> m"
    then have "(2 :: nat) ^ Suc m \<le> 2 ^ n" by (intro power_increasing) auto
    then show False using bit_unat_bounds(1) [OF that] assms(2) by linarith
  qed
  have "bit (smear 4 v) j \<longleftrightarrow> (\<exists>d < 16. bit v (j + d))" by (simp add: bit_smear)
  also have "\<dots> \<longleftrightarrow> j \<le> m"
  proof
    assume "\<exists>d < 16. bit v (j + d)"
    then show "j \<le> m" using below by fastforce
  next
    assume "j \<le> m"
    then show "\<exists>d < 16. bit v (j + d)" using high assms(3) by (intro exI [of _ "m - j"]) simp
  qed
  finally show "bit (smear 4 v) j = bit (mask (Suc m) :: 32 word) j"
    using j by (simp add: bit_mask_iff less_Suc_eq_le)
qed

lemma round_wrong: "roundToPowerOf2 4 (65537 :: 32 word) = Some 131071"
  by code_simp

text \<open>C16.
  Rounding an \<open>unsigned int\<close> up to a power of two is right for the numbers from 1 to
  \<open>2 ^ 16\<close>: the result is a power of two, not less than the number and less than twice the
  number, so it is the least one.  Beyond that the loop, which runs once per byte and not once
  per doubling of the shift, stops before the low bits are set: 65537 is rounded to 131071.\<close>

theorem round_to_power_of_two:
  fixes v :: "32 word"
  assumes "0 < unat v" "unat v \<le> 2 ^ 16"
  shows "(\<exists>k. roundToPowerOf2 4 v = Some (2 ^ k) \<and> unat v \<le> 2 ^ k \<and> 2 ^ k < 2 * unat v) \<and>
    roundToPowerOf2 4 (65537 :: 32 word) = Some 131071"
proof (cases "unat v = 1")
  case True
  then have "v = 1" by (metis unat_1 unsigned_word_eqI)
  then show ?thesis
    using round_wrong
    by (intro conjI exI [of _ 0]) (simp_all add: roundToPowerOf2_def round_loop smear_def upt_rec)
next
  case False
  have u: "unat (v - 1) = unat v - 1" using assms(1) unat_minus_one [of v] by fastforce
  have one: "1 \<le> unat (v - 1)" using assms(1) False unfolding u by simp
  obtain m where m: "2 ^ m \<le> unat (v - 1)" "unat (v - 1) < 2 ^ Suc m"
    using ex_power_ivl1 [of 2 "unat (v - 1)", OF _ one] by auto
  have "(2 :: nat) ^ m < 2 ^ 16" using m(1) assms(1,2) unfolding u by linarith
  then have m16: "m < 16" by (rule power_less_imp_less_exp [rotated]) simp
  have "roundToPowerOf2 4 v = Some (mask (Suc m) + 1)"
    by (simp add: roundToPowerOf2_def round_loop smear_mask [OF m m16])
  also have "mask (Suc m) + 1 = (2 ^ Suc m :: 32 word)" by (simp add: mask_eq_exp_minus_1)
  finally show ?thesis using m round_wrong unfolding u by (intro conjI exI [of _ "Suc m"]) auto
qed

theorem round_to_power_of_two_witness:
  "(\<exists>k. roundToPowerOf2 4 (1000 :: 32 word) = Some (2 ^ k) \<and> unat (1000 :: 32 word) \<le> 2 ^ k \<and>
    2 ^ k < 2 * unat (1000 :: 32 word)) \<and> roundToPowerOf2 4 (65537 :: 32 word) = Some 131071"
  by (rule round_to_power_of_two) simp_all

lemma lowest_bit:
  fixes v :: int
  assumes "0 < v"
  shows "and v (- v) = v \<longleftrightarrow> (\<exists>k. v = 2 ^ k)"
  using assms
proof (induction "nat v" arbitrary: v rule: less_induct)
  case less
  show ?case
  proof (cases "even v")
    case True
    then obtain u where u: "v = 2 * u" by blast
    then have "0 < u" "nat u < nat v" using less.prems by simp_all
    then have "and u (- u) = u \<longleftrightarrow> (\<exists>k. u = 2 ^ k)" using less.hyps by blast
    moreover have "and v (- v) = 2 * and u (- u)"
    proof -
      have "and v (- v) = 2 * and (v div 2) ((- v) div 2)" by (subst and_int_rec) (simp add: u)
      moreover have "(- v) div 2 = - u" unfolding u by (simp add: minus_mult_right del: mult_minus_right)
      ultimately show ?thesis unfolding u by simp
    qed
    moreover have "(\<exists>k. v = 2 ^ k) \<longleftrightarrow> (\<exists>k. u = 2 ^ k)"
    proof
      assume "\<exists>k. v = 2 ^ k"
      then obtain k where k: "v = 2 ^ k" by blast
      have "k \<noteq> 0" using k True by (cases k) auto
      then show "\<exists>k. u = 2 ^ k" using k u by (cases k) auto
    qed (auto simp: u intro: exI [of _ "Suc _"])
    ultimately show ?thesis using u by simp
  next
    case False
    then obtain u where u: "v = 2 * u + 1" by (blast elim: oddE)
    have "(- v) div 2 = not u" unfolding u not_int_def by presburger
    moreover have "v div 2 = u" unfolding u by simp
    moreover have "and v (- v) = 1 + 2 * and (v div 2) ((- v) div 2)"
      by (subst and_int_rec) (simp add: u)
    ultimately have 1: "and v (- v) = 1" by simp
    have "(\<exists>k. v = 2 ^ k) \<longleftrightarrow> v = 1"
    proof
      assume "\<exists>k. v = 2 ^ k"
      then obtain k where "v = 2 ^ k" by blast
      then show "v = 1" using False by (cases k) auto
    qed (auto intro: exI [of _ 0])
    then show ?thesis using 1 by auto
  qed
qed

text \<open>\<open>isPowerOf2\<close> answers \<open>SDK_SUCCESS\<close> exactly for the powers of two, for every \<open>long long\<close>
  but the least one, on which it overflows.\<close>

lemma is_power_of_two:
  assumes "- (2 ^ 63) < v" "v < 2 ^ 63"
  shows "isPowerOf2 v = Some (if \<exists>k. v = 2 ^ k then SDK_SUCCESS else SDK_FAILURE)"
proof (cases "0 < v")
  case True
  then show ?thesis
    using assms lowest_bit by (simp add: isPowerOf2_def)
next
  case False
  then have no: "\<not> (\<exists>k. v = 2 ^ k)" by (metis zero_less_power zero_less_numeral)
  show ?thesis
  proof (cases "v = 0")
    case True
    then show ?thesis using no by (simp add: isPowerOf2_def)
  next
    case nz: False
    have "0 \<le> and v (- v)" using False by (simp add: and_nonnegative_int_iff)
    then have "and v (- v) \<noteq> v" using False nz by linarith
    then show ?thesis using no assms by (simp add: isPowerOf2_def)
  qed
qed

section \<open>The size of a work-group\<close>

lemma divisor_below_greatest:
  assumes "0 < n" "0 < m"
  shows "\<exists>d. divisor_below n m = Some d \<and> 0 < d \<and> d \<le> m \<and> d dvd n \<and> (\<forall>e. e dvd n \<longrightarrow> e \<le> m \<longrightarrow> e \<le> d)"
  using assms(2)
proof (induction m)
  case (Suc m)
  show ?case
  proof (cases "Suc m dvd n")
    case True
    then show ?thesis by auto
  next
    case False
    then have "m \<noteq> 0" by (cases m) auto
    then obtain d where "divisor_below n m = Some d" "0 < d" "d \<le> m" "d dvd n"
        "\<forall>e. e dvd n \<longrightarrow> e \<le> m \<longrightarrow> e \<le> d"
      using Suc.IH by auto
    then show ?thesis using False by (auto simp: dvd_eq_mod_eq_0 le_Suc_eq)
  qed
qed simp

text \<open>
  The work-group size that \<open>getLocalThreads\<close> chooses for a non-empty range divides the number
  of work-items and is the greatest divisor that does not exceed the device's limit.  (A limit of
  0 is a division by 0.)\<close>

lemma local_threads_greatest:
  assumes "0 < g" "0 < m"
  shows "\<exists>d. getLocalThreads g m = Some d \<and> d dvd g \<and> d \<le> m \<and>
    (\<forall>e. e dvd g \<longrightarrow> e \<le> m \<longrightarrow> e \<le> d)"
proof (cases "m < g")
  case False
  then show ?thesis using assms by (auto simp: getLocalThreads_def dest: dvd_imp_le)
next
  case True
  show ?thesis
  proof (cases "m dvd g")
    case dvd: True
    then show ?thesis using True assms by (auto simp: getLocalThreads_def)
  next
    case False
    then have "m \<noteq> 1" by auto
    then have "0 < m - 1" using assms(2) by simp
    then obtain d where d: "divisor_below g (m - 1) = Some d" "d \<le> m - 1" "d dvd g"
        "\<forall>e. e dvd g \<longrightarrow> e \<le> m - 1 \<longrightarrow> e \<le> d"
      using divisor_below_greatest [OF assms(1)] by blast
    have "e \<le> d" if "e dvd g" "e \<le> m" for e
      using d(4) that False by (cases "e = m") auto
    then show ?thesis
      using d False True assms(2) by (auto simp: getLocalThreads_def dvd_eq_mod_eq_0)
  qed
qed

section \<open>Random numbers\<close>

lemma representable_scaled:
  assumes "\<bar>m\<bar> < 2 ^ 53" "- 1074 \<le> e" "e \<le> 900"
  shows "representable binary64 (of_int m * 2 powi e)"
proof -
  have "\<bar>of_int m * (2 :: rat) powi e\<bar> < 2 ^ 53 * 2 powi e"
  proof -
    have "\<bar>of_int m :: rat\<bar> < 2 ^ 53"
      using assms(1) by (metis of_int_abs of_int_less_iff of_int_numeral of_int_power)
    then show ?thesis by (simp add: abs_mult)
  qed
  also have "\<dots> = 2 powi (53 + e)" by (simp add: power_int_add)
  also have "\<dots> \<le> 2 powi 1024" using assms(3) by (subst powi_le_iff) simp
  finally show ?thesis
    using assms(1,2) unfolding representable_def binary64_def
    by (intro exI [of _ m] exI [of _ e]) simp
qed

lemma round_below:
  assumes "wf_format fmt" "representable fmt y" "0 \<le> q" "q \<le> y"
  shows "\<exists>p. round_to fmt q = Fin p \<and> 0 \<le> p \<and> p \<le> y"
proof -
  have "round_to fmt y = Fin y"
    using assms(2) round_to_representable by (cases "y = 0") auto
  then have "f_le (round_to fmt q) (Fin y)"
    using finite_value_round_mono [OF assms(1,4)] by simp
  moreover have "f_nonneg (round_to fmt q)" by (rule round_to_nonneg [OF assms(3)])
  ultimately show ?thesis
    by (cases "round_to fmt q") (auto simp: f_le_def not_less)
qed

lemmas round_between = round_below [OF wf_binary64]

lemma product_bound:
  assumes "0 < n" "n \<le> 2 ^ 32" "0 \<le> r" "r < 2 ^ 31"
  shows "\<exists>m e. \<bar>m\<bar> < 2 ^ 53 \<and> 0 \<le> e \<and> e \<le> 10 \<and> of_int (n * r) \<le> of_int m * (2 :: rat) powi e \<and>
    of_int m * 2 powi e < of_int n * (2 :: rat) ^ 31"
proof (cases "n < 2 ^ 10")
  case True
  have "n * r < 2 ^ 10 * 2 ^ 31" using assms True by (intro mult_strict_mono) auto
  moreover have "0 \<le> n * r" using assms by simp
  moreover have "n * r < n * 2 ^ 31" using assms by simp
  then have "(of_int (n * r) :: rat) < of_int (n * 2 ^ 31)" unfolding of_int_less_iff .
  ultimately show ?thesis by (intro exI [of _ "n * r"] exI [of _ 0]) simp
next
  case False
  let ?m = "n * 2 ^ 21 - 1"
  have "n * r \<le> n * (2 ^ 31 - 1)" using assms by (intro mult_left_mono) auto
  also have "\<dots> \<le> ?m * 2 ^ 10" using False by simp
  finally have "(of_int (n * r) :: rat) \<le> of_int (?m * 2 ^ 10)" unfolding of_int_le_iff .
  moreover have "?m * 2 ^ 10 < n * 2 ^ 31" by simp
  then have "(of_int (?m * 2 ^ 10) :: rat) < of_int (n * 2 ^ 31)" unfolding of_int_less_iff .
  moreover have "\<bar>?m\<bar> < 2 ^ 53" using assms False by simp
  ultimately show ?thesis
    by (intro exI [of _ ?m] exI [of _ 10]) (simp add: power_int_def)
qed

lemma random_range_exact:
  "random_range rangeMin rangeMax = Fin (of_int (uint (rangeMax - rangeMin) + 1))"
proof -
  let ?n = "uint (rangeMax - rangeMin)"
  have n: "0 \<le> ?n" "?n < 2 ^ 32" using uint_bounded [of "rangeMax - rangeMin"] by simp_all
  have exact: "round_to binary64 (of_int m) = Fin (of_int m)" if "0 \<le> m" "m \<le> 2 ^ 32" for m :: int
    using representable_scaled [of m 0] round_to_representable that by (cases "m = 0") auto
  show ?thesis
    using exact [of ?n] exact [of "?n + 1"] n by (simp add: random_range_def f_of_int_def)
qed

lemma random_value_in_range:
  assumes "rangeMin \<le> rangeMax" "0 \<le> r" "r \<le> RAND_MAX"
  shows "\<exists>v. random_value rangeMin (random_range rangeMin rangeMax) r = Some v \<and>
    rangeMin \<le> v \<and> v \<le> rangeMax"
proof -
  define n where "n = uint (rangeMax - rangeMin) + 1"
  have n: "0 < n" "n \<le> 2 ^ 32" using uint_bounded [of "rangeMax - rangeMin"] by (simp_all add: n_def)
  have r: "r < 2 ^ 31" using assms(3) by (simp add: RAND_MAX_def)
  obtain m e where me: "\<bar>m\<bar> < 2 ^ 53" "0 \<le> e" "e \<le> 10" "of_int (n * r) \<le> of_int m * (2 :: rat) powi e"
      "of_int m * 2 powi e < of_int n * (2 :: rat) ^ 31"
    using product_bound [OF n assms(2) r] by blast
  have scaled: "of_int m * (2 :: rat) powi (e - 31) = of_int m * 2 powi e / 2 ^ 31"
    by (simp add: power_int_diff)
  obtain p where p: "round_to binary64 (of_int (n * r)) = Fin p" "0 \<le> p" "p \<le> of_int m * 2 powi e"
    using round_between [OF representable_scaled [OF me(1)] _ me(4)] me(2,3) n assms(2) by auto
  then have "p / 2 ^ 31 \<le> of_int m * 2 powi (e - 31)" unfolding scaled by (simp add: divide_right_mono)
  then obtain q where q: "round_to binary64 (p / 2 ^ 31) = Fin q" "0 \<le> q" "q \<le> of_int m * 2 powi (e - 31)"
    using round_between [OF representable_scaled [of m "e - 31"], of "p / 2 ^ 31"] me(1-3) p(2) by auto
  have qn: "q < of_int n" using q(3) me(5) unfolding scaled by (simp add: field_simps)
  moreover have "(of_int n :: rat) \<le> of_int (2 ^ 32)" using n(2) unfolding of_int_le_iff .
  ultimately have q32: "q < 2 ^ 32" by simp
  have t: "0 \<le> \<lfloor>q\<rfloor>" "\<lfloor>q\<rfloor> < n" using q(2) qn by (simp_all add: floor_less_iff)
  have rand: "f_of_int binary64 r = Fin (of_int r)"
    using representable_scaled [of r 0] round_to_representable assms(2) r
    by (cases "r = 0") (auto simp: f_of_int_def)
  have size: "f_add binary64 (f_of_int binary64 RAND_MAX) (Fin 1) = Fin (2 ^ 31)"
    using representable_scaled [of RAND_MAX 0] representable_scaled [of "2 ^ 31" 0]
      round_to_representable [of binary64 "of_int RAND_MAX"] round_to_representable [of binary64 "2 ^ 31"]
    by (simp add: f_of_int_def RAND_MAX_def)
  have "f_mul binary64 (Fin (of_int n)) (Fin (of_int r)) = Fin p"
    using p(1) n assms(2) by (auto simp: signed_round_def signed_zero_def)
  then have "f_div binary64 (f_mul binary64 (Fin (of_int n)) (Fin (of_int r))) (Fin (2 ^ 31)) = Fin q"
    using q(1) p(2) by (auto simp: signed_round_def signed_zero_def)
  then have v: "random_value rangeMin (random_range rangeMin rangeMax) r = Some (rangeMin + word_of_int \<lfloor>q\<rfloor>)"
    using rand size t n q(2) q32
    by (simp add: random_value_def random_range_exact n_def [symmetric] f_to_uint_def truncate_rat_def)
  have "n - 1 = uint rangeMax - uint rangeMin"
    using assms(1) by (simp add: n_def uint_sub_if' word_le_def)
  then have le: "uint rangeMin + \<lfloor>q\<rfloor> \<le> uint rangeMax" using t by linarith
  have "\<lfloor>q\<rfloor> mod 2 ^ 32 = \<lfloor>q\<rfloor>" using t n(2) by (intro mod_pos_pos_trivial) linarith+
  then have "uint (word_of_int \<lfloor>q\<rfloor> :: 32 word) = \<lfloor>q\<rfloor>" by (simp add: uint_word_of_int)
  then have "uint (rangeMin + word_of_int \<lfloor>q\<rfloor>) = uint rangeMin + \<lfloor>q\<rfloor>"
    using le uint_bounded [of rangeMax] by (simp add: uint_plus_if')
  then show ?thesis using v t le by (simp add: word_le_def)
qed

text \<open>The loops of the filling functions, with a postcondition for every element.\<close>

lemma fill_loops_all:
  assumes "\<And>i j. i < h \<Longrightarrow> j < w \<Longrightarrow> \<exists>v. value i j = Some v \<and> P (i * w + j) v"
    and "h * w \<le> length arr"
  shows "yields (fill_loops w h value arr)
    (\<lambda>a. length a = length arr \<and> (\<forall>k < h * w. P k (a ! k)) \<and>
         (\<forall>k. h * w \<le> k \<longrightarrow> k < length arr \<longrightarrow> a ! k = arr ! k))"
proof -
  let ?I = "\<lambda>n a. length a = length arr \<and> (\<forall>k < n. P k (a ! k)) \<and>
         (\<forall>k. n \<le> k \<longrightarrow> k < length arr \<longrightarrow> a ! k = arr ! k)"
  have "yields (for_loop 0 h (\<lambda>i. for_loop 0 w
      (\<lambda>j arr. do { v \<leftarrow> value i j; set_at arr (i * w + j) v })) arr) (\<lambda>a. ?I (h * w) a)"
  proof (rule for_loop_yields [where I = "\<lambda>i a. ?I (i * w) a"])
    fix i a assume i: "i < h" and a: "?I (i * w) a"
    have "yields (for_loop 0 w (\<lambda>j arr. do { v \<leftarrow> value i j; set_at arr (i * w + j) v }) a)
        (\<lambda>a. ?I (i * w + w) a)"
    proof (rule for_loop_yields [where I = "\<lambda>j a. ?I (i * w + j) a"])
      fix j b assume j: "j < w" and b: "?I (i * w + j) b"
      obtain v where v: "value i j = Some v" "P (i * w + j) v" using assms(1) [OF i j] by blast
      have "i * w + j < length arr" using flat_index_bound [OF i j] assms(2) by linarith
      then show "yields (do { v \<leftarrow> value i j; set_at b (i * w + j) v }) (\<lambda>a. ?I (i * w + Suc j) a)"
        using b v by (auto simp: nth_list_update less_Suc_eq)
    qed (use a in simp_all)
    then show "yields (for_loop 0 w (\<lambda>j arr. do { v \<leftarrow> value i j; set_at arr (i * w + j) v }) a)
        (\<lambda>a. ?I (Suc i * w) a)" by (simp add: add.commute)
  qed simp_all
  then show ?thesis by (simp add: fill_loops_def)
qed

text \<open>
  \<open>fillRandom\<close> never converts a number out of range: with results of \<open>rand\<close> between 0 and
  \<open>RAND_MAX\<close> and an array large enough, every element of the rectangle is set to a number
  between the bounds, both included, whatever the rounding of the \<open>double\<close> arithmetic does, and
  the elements behind the rectangle keep their values.\<close>

lemma fill_random_in_range:
  assumes "rangeMin \<le> rangeMax" "\<And>i. 0 \<le> rand i \<and> rand i \<le> RAND_MAX"
    and "nat height * nat width \<le> length arr"
  shows "\<exists>a. fillRandom rand (Some arr) width height rangeMin rangeMax = Some (SDK_SUCCESS, Some a) \<and>
    length a = length arr \<and>
    (\<forall>k < nat height * nat width. rangeMin \<le> a ! k \<and> a ! k \<le> rangeMax) \<and>
    (\<forall>k. nat height * nat width \<le> k \<longrightarrow> k < length arr \<longrightarrow> a ! k = arr ! k)"
proof -
  have "\<exists>v. random_value rangeMin (random_range rangeMin rangeMax) (rand n) = Some v \<and>
      rangeMin \<le> v \<and> v \<le> rangeMax" for n
    using random_value_in_range assms(1,2) by blast
  then have "yields (fill_loops (nat width) (nat height)
      (\<lambda>i j. random_value rangeMin (random_range rangeMin rangeMax) (rand (i * nat width + j))) arr)
    (\<lambda>a. length a = length arr \<and>
      (\<forall>k < nat height * nat width. rangeMin \<le> a ! k \<and> a ! k \<le> rangeMax) \<and>
      (\<forall>k. nat height * nat width \<le> k \<longrightarrow> k < length arr \<longrightarrow> a ! k = arr ! k))"
    by (rule fill_loops_all [OF _ assms(3)])
  then show ?thesis by (auto simp: yields_def fillRandom_def)
qed

section \<open>Comparing results\<close>

lemma compare_step_Cons:
  "1 \<le> i \<Longrightarrow> compare_step fmt (r # rs) (d # ds) i = compare_step fmt (r' # rs) (d' # ds) i"
  by (cases i) (simp_all add: compare_step_def arg_at_def)

text \<open>\<open>compare\<close> never looks at the first element of the arrays: their values there do not change its
  answer, whatever they are.  So an array of one element never compares equal, not even with
  itself.\<close>

lemma compare_ignores_first:
  "compare_float (r # rs) (d # ds) n eps = compare_float (r' # rs) (d' # ds) n eps \<and>
   compare_double (r # rs) (d # ds) n eps = compare_double (r' # rs) (d' # ds) n eps \<and>
   compare_float [x] [x] 1 eps = Some False"
proof -
  have same: "for_loop 1 (nat n) (compare_step fmt (r # rs) (d # ds)) s =
      for_loop 1 (nat n) (compare_step fmt (r' # rs) (d' # ds)) s" for fmt s
    by (rule for_loop_cong) (simp only: compare_step_Cons [of _ fmt r rs d ds r' d'])
  have "f_lt (f_abs (Fin 0)) (round_to binary32 (1 / 10 ^ 7))" by code_simp
  then have "compare_float [x] [x] 1 eps = Some False"
    by (simp add: compare_float_def compare_norms_def Let_def)
  moreover have "compare_float (r # rs) (d # ds) n eps = compare_float (r' # rs) (d' # ds) n eps"
    by (simp only: compare_float_def same)
  moreover have "compare_double (r # rs) (d # ds) n eps = compare_double (r' # rs) (d' # ds) n eps"
    by (simp only: compare_double_def same)
  ultimately show ?thesis by blast
qed

section \<open>Timers\<close>

text \<open>Starting a valid timer at one time and stopping it at another adds exactly the milliseconds
  between the two to that timer and leaves every other timer alone; reading it then gives the
  total in seconds, as a \<open>double\<close>.  The handle of a new timer is valid.\<close>

lemma timer_measures:
  assumes "0 \<le> h" "h < int (length ts)" "t_freq (ts ! nat h) = 1000"
  shows "\<exists>ts1 ts2. startTimer a h ts = Some (SDK_SUCCESS, ts1) \<and>
    stopTimer b h ts1 = Some (SDK_SUCCESS, ts2) \<and> length ts2 = length ts \<and>
    t_clocks (ts2 ! nat h) = t_clocks (ts ! nat h) + (milliseconds b - milliseconds a) \<and>
    (\<forall>k. k \<noteq> nat h \<longrightarrow> k < length ts \<longrightarrow> ts2 ! k = ts ! k) \<and>
    readTimer h ts2 = Some (f_div binary64 (f_of_int binary64 (t_clocks (ts ! nat h) +
      (milliseconds b - milliseconds a))) (f_of_int binary64 1000)) \<and>
    (case createTimer ts2 of (h', ts3) \<Rightarrow> 0 \<le> h' \<and> h' < int (length ts3))"
proof -
  have h: "nat h < length ts" using assms(1,2) by linarith
  let ?t = "ts ! nat h"
  let ?ts1 = "ts[nat h := ?t\<lparr>t_start := milliseconds a\<rparr>]"
  let ?ts2 = "ts[nat h := ?t\<lparr>t_start := 0, t_clocks := t_clocks ?t + (milliseconds b - milliseconds a)\<rparr>]"
  have 1: "startTimer a h ts = Some (SDK_SUCCESS, ?ts1)"
    using assms h by (simp add: startTimer_def timer_at_def not_le)
  have 2: "stopTimer b h ?ts1 = Some (SDK_SUCCESS, ?ts2)"
    using assms h by (simp add: stopTimer_def timer_at_def not_le)
  have 3: "readTimer h ?ts2 = Some (f_div binary64 (f_of_int binary64 (t_clocks ?t +
      (milliseconds b - milliseconds a))) (f_of_int binary64 1000))"
    using assms h by (simp add: readTimer_def timer_at_def not_le)
  show ?thesis
    by (intro exI [of _ ?ts1] exI [of _ ?ts2]) (use 1 2 3 h in \<open>simp add: createTimer_def\<close>)
qed

section \<open>The table of results\<close>

definition join_cells :: "string list \<Rightarrow> string" where
  "join_cells cs = concat (map (\<lambda>c. c @ ''$'') cs)"

definition cell_ok :: "string \<Rightarrow> bool" where
  "cell_ok c \<longleftrightarrow> c \<noteq> [] \<and> CHR ''$'' \<notin> set c"

fun cells_out :: "table \<Rightarrow> int \<Rightarrow> string list \<Rightarrow> string list" where
  "cells_out t k [] = []"
| "cells_out t k (c # cs) =
     pad_cell (columnWidth t) c # (if (k + 1) mod numColumns t = 0 then [[newline]] else []) @
     cells_out t (k + 1) cs"

lemma find_cell_end:
  "cell_ok c \<Longrightarrow> find_first_of ''$'' (Some (c @ ''$'' @ rest)) = Some (''$'' @ rest)"
proof -
  assume "cell_ok c"
  then have "dropWhile (\<lambda>x. x \<noteq> CHR ''$'') c = []" by (auto simp: cell_ok_def)
  then show ?thesis by (simp add: find_first_of_def find_first_def dropWhile_append)
qed

lemma find_cell_start:
  "cell_ok c \<Longrightarrow> find_first_not_of ''$'' (Some (c @ rest)) = Some (c @ rest)"
  by (cases c) (auto simp: find_first_not_of_def find_first_def cell_ok_def)

lemma find_skip: "find_first_not_of ''$'' (Some (''$'' @ rest)) = find_first_not_of ''$'' (Some rest)"
  by (simp add: find_first_not_of_def find_first_def)

lemma table_loop_cells:
  assumes "delim t = ''$''" "numColumns t \<noteq> 0" "\<forall>c \<in> set cs. cell_ok c"
  shows "table_loop t k (find_first_not_of ''$'' (Some (join_cells cs @ rest))) =
    map_option (\<lambda>out. cells_out t k cs @ out)
      (table_loop t (k + int (length cs)) (find_first_not_of ''$'' (Some rest)))"
  using assms(3)
proof (induction cs arbitrary: k)
  case Nil
  then show ?case by (simp add: join_cells_def option.map_ident)
next
  case (Cons c cs)
  have "table_loop t k (find_first_not_of ''$'' (Some (join_cells (c # cs) @ rest))) =
      table_loop t k (Some (c @ ''$'' @ join_cells cs @ rest))"
    using find_cell_start [of c "''$'' @ join_cells cs @ rest"] Cons.prems by (simp add: join_cells_def)
  also have "\<dots> = map_option (\<lambda>out. cells_out t k [c] @ out)
      (table_loop t (k + 1) (find_first_not_of ''$'' (Some (join_cells cs @ rest))))"
    using find_cell_end [of c "join_cells cs @ rest"] find_skip [of "join_cells cs @ rest"] Cons.prems assms(1,2)
    by (simp add: table_loop.simps(2) substr_between_def Let_def)
  finally show ?case
    using Cons.IH [of "k + 1"] Cons.prems
    by (simp add: option.map_comp comp_def add.assoc)
qed

lemma cells_out_row:
  assumes "cs \<noteq> []" "int (length cs) \<le> numColumns t" "(k + int (length cs)) mod numColumns t = 0"
  shows "cells_out t k cs = map (pad_cell (columnWidth t)) cs @ [[newline]]"
  using assms
proof (induction cs arbitrary: k)
  case (Cons c cs)
  show ?case
  proof (cases "cs = []")
    case True
    then show ?thesis using Cons.prems by simp
  next
    case False
    have "(k + 1) mod numColumns t \<noteq> 0"
    proof
      assume "(k + 1) mod numColumns t = 0"
      then have "numColumns t dvd (k + int (length (c # cs))) - (k + 1)"
        using Cons.prems(3) by (intro dvd_diff) (auto simp: dvd_eq_mod_eq_0)
      then have "numColumns t dvd int (length cs)" by simp
      then have "numColumns t \<le> int (length cs)" using False by (intro zdvd_imp_le) auto
      then show False using Cons.prems(2) by simp
    qed
    then show ?thesis using Cons.IH [of "k + 1"] Cons.prems False by (simp add: add.assoc)
  qed
qed simp

lemma join_loop:
  assumes "length cs = n"
  shows "for_loop 0 n (\<lambda>i items. do { c \<leftarrow> arg_at cs i; Some (items @ c @ ''$'') }) out =
    Some (out @ join_cells cs)"
proof -
  have "for_loop 0 n (\<lambda>i items. do { c \<leftarrow> arg_at cs i; Some (items @ c @ ''$'') }) out =
      Some (out @ concat (map (\<lambda>i. cs ! i @ ''$'') [0..<n]))"
    by (rule for_loop_append) (simp add: assms)
  also have "map (\<lambda>i. cs ! i @ ''$'') [0..<n] = map (\<lambda>c. c @ ''$'') cs"
    using assms by (auto intro: nth_equalityI)
  finally show ?thesis by (simp add: join_cells_def)
qed

text \<open>
  The statistics of a sample are joined into one string and cut up again for printing: when no
  entry is empty or contains the delimiter, exactly the headings come out as one line and the
  values as the next one, every cell padded to 25 columns.\<close>

lemma stats_roundtrip:
  assumes "0 < n" "length heads = n" "length stats = n"
    and "\<forall>c \<in> set heads \<union> set stats. c \<noteq> [] \<and> CHR ''$'' \<notin> set c"
  shows "printStats True heads stats (int n) =
    Some (map (pad_cell 25) heads @ [[newline]] @ map (pad_cell 25) stats @ [[newline]])"
proof -
  let ?t = "\<lparr>numColumns = int n, numRows = 1, columnWidth = 25, delim = ''$'',
      dataItems = join_cells heads @ ''$'' @ join_cells stats\<rparr>"
  have t: "stats_table heads stats (int n) = Some ?t"
    using join_loop [OF assms(2), of "[]"] join_loop [OF assms(3), of "join_cells heads @ ''$''"]
    by (simp add: stats_table_def)
  have ok: "\<forall>c \<in> set heads. cell_ok c" "\<forall>c \<in> set stats. cell_ok c"
    using assms(4) by (auto simp: cell_ok_def)
  have rows: "cells_out ?t 0 heads = map (pad_cell 25) heads @ [[newline]]"
      "cells_out ?t (int n) stats = map (pad_cell 25) stats @ [[newline]]"
    using assms(1-3) by (subst cells_out_row; auto)+
  have "table_loop ?t (int n) (find_first_not_of ''$'' (Some (''$'' @ join_cells stats))) =
      Some (cells_out ?t (int n) stats)"
    unfolding find_skip
    using table_loop_cells [of ?t stats "int n" "[]"] ok(2) assms(1)
    by (simp add: find_first_not_of_def find_first_def)
  then show ?thesis
    using table_loop_cells [of ?t heads 0 "''$'' @ join_cells stats"] ok(1) assms(1,2) rows
    by (simp add: printStats_def printTable_def t)
qed

end
