(* ===== verification/Sdk_Args.thy ===== *)
theory Sdk_Args
  imports Sdk_Common
begin

text \<open>
  The command line options of the samples: the class \<open>SDKCommandArgs\<close>
  (\<open>SDK/SDKUtil/SDKCommandArgs.cpp\<close>) and the part of \<open>SDKSample\<close> that declares the default
  options and checks the command line (\<open>SDK/SDKUtil/SDKApplication.cpp\<close>).  The option table holds
  addresses of variables; an address is the variable's name and the variables are a map from
  names to values.  The result \<^const>\<open>None\<close> is undefined behaviour: a number in the command line
  that \<open>int\<close> cannot hold, or the release of an uninitialised pointer.
\<close>

section \<open>Options\<close>

datatype arg_type = CA_ARG_INT | CA_ARG_FLOAT | CA_ARG_DOUBLE | CA_ARG_STRING | CA_NO_ARGUMENT

datatype var_value = Int_val int | Float_val flt | Double_val flt | String_val string | Bool_val bool

type_synonym vars = "string \<Rightarrow> var_value option"

record cmd_option =
  sVersion :: string
  lVersion :: string
  description :: string
  arg_type :: arg_type
  target :: string

text \<open>
  The array has at least \<open>numArgs\<close> elements; a null pointer is \<^const>\<open>None\<close>.  \<open>argv\<close> keeps what
  \<open>parse\<close> was given, whose length is \<open>argc\<close>.
\<close>

record command_args =
  numArgs :: nat
  options :: "cmd_option list option"
  saved_argv :: "string list"

definition make_args :: "nat \<Rightarrow> cmd_option list \<Rightarrow> command_args" where
  "make_args n opts = \<lparr>numArgs = n, options = Some opts, saved_argv = []\<rparr>"

section \<open>Conversions of arguments\<close>

text \<open>
  \<open>sscanf\<close> with \<open>"%d"\<close>, \<open>"%f"\<close> and \<open>"%lf"\<close>: \<open>Some None\<close> when nothing matches, and the
  variable keeps its value.
\<close>

definition scan_int :: "string \<Rightarrow> int option option" where
  "scan_int s =
     (let (neg, s1) = take_sign (dropWhile isspace s); ds = takeWhile isdigit s1;
          n = digits_value 10 digit_value ds; v = (if neg then - n else n)
      in if ds = [] then Some None else if fits_int v then Some (Some v) else None)"

definition scan_real :: "format \<Rightarrow> string \<Rightarrow> flt option" where
  "scan_real fmt s =
     (let (neg, s1) = take_sign (dropWhile isspace s)
      in if starts_with ''inf'' s1 then Some (Infinity neg)
         else if starts_with ''nan'' s1 then Some NaN
         else if fst (snd (snd (mantissa 10 isdigit digit_value s1))) = 0 then None
         else (let x = round_to fmt (number_value s1) in Some (if neg then f_neg x else x)))"

definition set_var :: "string \<Rightarrow> var_value option \<Rightarrow> vars \<Rightarrow> vars" where
  "set_var a v vars = (case v of None \<Rightarrow> vars | Some x \<Rightarrow> vars(a \<mapsto> x))"

section \<open>Matching and parsing\<close>

text \<open>What one matching option does with the rest of the command line.\<close>

definition take_option :: "cmd_option \<Rightarrow> string list \<Rightarrow> vars \<Rightarrow> (int \<times> vars) option" where
  "take_option opt rest vars =
     (case arg_type opt of
        CA_NO_ARGUMENT \<Rightarrow> Some (1, vars(target opt \<mapsto> Bool_val True))
      | CA_ARG_FLOAT \<Rightarrow>
          (case rest of [] \<Rightarrow> Some (SDK_FAILURE, vars)
           | a # _ \<Rightarrow> Some (2, set_var (target opt) (map_option Float_val (scan_real binary32 a)) vars))
      | CA_ARG_DOUBLE \<Rightarrow>
          (case rest of [] \<Rightarrow> Some (SDK_FAILURE, vars)
           | a # _ \<Rightarrow> Some (2, set_var (target opt) (map_option Double_val (scan_real binary64 a)) vars))
      | CA_ARG_INT \<Rightarrow>
          (case rest of [] \<Rightarrow> Some (SDK_FAILURE, vars)
           | a # _ \<Rightarrow> do { v \<leftarrow> scan_int a; Some (2, set_var (target opt) (map_option Int_val v) vars) })
      | CA_ARG_STRING \<Rightarrow>
          (case rest of [] \<Rightarrow> Some (SDK_FAILURE, vars)
           | a # _ \<Rightarrow> Some (2, vars(target opt \<mapsto> String_val a))))"

fun match_loop ::
  "cmd_option list \<Rightarrow> bool \<Rightarrow> string \<Rightarrow> string list \<Rightarrow> vars \<Rightarrow> (int \<times> vars) option" where
  "match_loop [] shortVer arg rest vars = Some (0, vars)"
| "match_loop (opt # opts) shortVer arg rest vars =
     (if (if shortVer then sVersion opt else lVersion opt) = arg then take_option opt rest vars
      else match_loop opts shortVer arg rest vars)"

definition match_arg :: "command_args \<Rightarrow> string list \<Rightarrow> vars \<Rightarrow> (int \<times> vars) option" where
  "match_arg ca argv vars =
     do { arg \<leftarrow> arg_at argv 0;
          opts \<leftarrow> options ca;
          if char_at arg 0 = CHR ''-'' \<and> char_at arg 1 = CHR ''-''
          then match_loop (take (numArgs ca) opts) False (drop 2 arg) (tl argv) vars
          else if char_at arg 0 \<noteq> CHR ''-'' then Some (0, vars)
          else match_loop (take (numArgs ca) opts) True (drop 1 arg) (tl argv) vars }"

function parse_loop :: "command_args \<Rightarrow> string list \<Rightarrow> int \<Rightarrow> vars \<Rightarrow> (int \<times> vars) option" where
  "parse_loop ca argv matched vars =
     (if argv = [] then Some (matched, vars)
      else do { (m, vars') \<leftarrow> match_arg ca argv vars;
                parse_loop ca (drop (nat (if 0 < m then m else 1)) argv) m vars' })"
  by pat_completeness auto
termination
  by (relation "measure (\<lambda>(ca, argv, m, vars). length argv)") (auto split: if_splits)

declare parse_loop.simps [simp del]

definition parse_args ::
  "command_args \<Rightarrow> string list \<Rightarrow> vars \<Rightarrow> (int \<times> command_args \<times> vars) option" where
  "parse_args ca argv vars =
     (let ca' = ca\<lparr>saved_argv := argv\<rparr>
      in if length argv = 1 then Some (SDK_FAILURE, ca', vars)
         else do { (m, vars') \<leftarrow> parse_loop ca' argv 0 vars; Some (m, ca', vars') })"

text \<open>The part of an argument that \<open>isArgSet\<close> compares.\<close>

definition option_text :: "bool \<Rightarrow> string \<Rightarrow> string option" where
  "option_text shortVer arg =
     (if char_at arg 0 \<noteq> CHR ''-'' then None
      else if char_at arg 1 = CHR ''-'' \<and> \<not> shortVer then Some (drop 2 arg)
      else Some (drop 1 arg))"

definition isArgSet :: "command_args \<Rightarrow> string \<Rightarrow> bool \<Rightarrow> bool" where
  "isArgSet ca str shortVer = list_ex (\<lambda>arg. option_text shortVer arg = Some str) (saved_argv ca)"

section \<open>The option table\<close>

definition AddOption :: "cmd_option option \<Rightarrow> command_args \<Rightarrow> (int \<times> command_args) option" where
  "AddOption op ca =
     (case op of None \<Rightarrow> Some (- 1, ca)
      | Some o' \<Rightarrow>
        (case options ca of None \<Rightarrow> None
         | Some opts \<Rightarrow>
           if length opts < numArgs ca then None
           else Some (SDK_SUCCESS,
             ca\<lparr>options := Some (take (numArgs ca) opts @ [o']), numArgs := numArgs ca + 1\<rparr>)))"

text \<open>One pass of the outer loop of \<open>DeleteOption\<close>, and the loop, which runs up to the number of
  options as it is by then.\<close>

definition delete_at :: "nat \<Rightarrow> nat \<Rightarrow> cmd_option list \<Rightarrow> cmd_option list option" where
  "delete_at i n opts =
     for_loop i (n - 1) (\<lambda>j os. do { x \<leftarrow> arg_at os (j + 1); set_at os j x }) opts"

function delete_loop ::
  "(cmd_option \<Rightarrow> bool) \<Rightarrow> nat \<Rightarrow> nat \<Rightarrow> cmd_option list \<Rightarrow> (nat \<times> cmd_option list) option" where
  "delete_loop p i n opts =
     (if n \<le> i then Some (n, opts)
      else do { x \<leftarrow> arg_at opts i;
                if p x then do { opts' \<leftarrow> delete_at i n opts; delete_loop p (i + 1) (n - 1) opts' }
                else delete_loop p (i + 1) n opts })"
  by pat_completeness auto
termination
  by (relation "measure (\<lambda>(p, i, n, opts). n - i)") auto

declare delete_loop.simps [simp del]

definition same_option :: "cmd_option \<Rightarrow> cmd_option \<Rightarrow> bool" where
  "same_option op x \<longleftrightarrow> sVersion op = sVersion x \<or> lVersion op = lVersion x"

definition DeleteOption :: "cmd_option option \<Rightarrow> command_args \<Rightarrow> (int \<times> command_args) option" where
  "DeleteOption op ca =
     (case op of None \<Rightarrow> Some (SDK_FAILURE, ca)
      | Some o' \<Rightarrow>
        if numArgs ca = 0 then Some (SDK_FAILURE, ca)
        else do { opts \<leftarrow> options ca;
                  (n, opts') \<leftarrow> delete_loop (same_option o') 0 (numArgs ca) opts;
                  Some (SDK_SUCCESS, ca\<lparr>numArgs := n, options := Some opts'\<rparr>) })"

definition tab :: char where
  "tab = CHR 0x09"

definition help_line :: "cmd_option \<Rightarrow> string" where
  "help_line opt =
     (if 0 < length (sVersion opt) then ''-'' @ sVersion opt @ '', '' else []) @
     ''--'' @ lVersion opt @ [tab] @ description opt @ [newline]"

definition help_text :: "command_args \<Rightarrow> string option" where
  "help_text ca =
     do { opts \<leftarrow> options ca;
          for_loop 0 (numArgs ca) (\<lambda>i out. do { x \<leftarrow> arg_at opts i; Some (out @ help_line x) })
            (''-h, --help'' @ [tab] @ ''Display this information'' @ [newline]) }"

end
