(* ===== verification/Sdk_Opencl.thy ===== *)
theory Sdk_Opencl
  imports Sdk_Common
begin

text \<open>
  The functions of the SDK utilities that talk to OpenCL: choosing a platform and a device,
  waiting for events, querying a kernel, building a program from a file
  (\<open>SDK/SDKUtil/SDKCommon.cpp\<close>, \<open>SDKFile.cpp\<close>, \<open>SDKFile.hpp\<close>).  The OpenCL library is not part of
  the repository, so it is a parameter: the platforms and devices there are, and the status that
  the \<open>k\<close>-th call of the library returns.  A call that succeeds delivers what the environment
  says; a text too long for the caller's buffer is a call that fails.  Every function takes the
  number of calls made before it and returns the number made after it.
\<close>

section \<open>The environment\<close>

record platform =
  vendor :: string
  devices :: "(nat \<times> string) list"

record cl_env =
  answers :: "nat \<Rightarrow> int"
  platforms :: "platform list"

definition CL_DEVICE_TYPE_CPU :: nat where
  "CL_DEVICE_TYPE_CPU = 2"

definition CL_DEVICE_TYPE_GPU :: nat where
  "CL_DEVICE_TYPE_GPU = 4"

definition CL_DEVICE_TYPE_ALL :: nat where
  "CL_DEVICE_TYPE_ALL = 0xFFFFFFFF"

definition CL_DEVICE_NOT_FOUND :: int where
  "CL_DEVICE_NOT_FOUND = - 1"

definition CL_BUILD_PROGRAM_FAILURE :: int where
  "CL_BUILD_PROGRAM_FAILURE = - 11"

definition CL_COMPLETE :: int where
  "CL_COMPLETE = 0"

text \<open>The devices of a platform that a type selects.\<close>

definition devices_of :: "platform \<Rightarrow> nat \<Rightarrow> string list" where
  "devices_of p dType = map snd (filter (\<lambda>d. and (fst d) dType \<noteq> 0) (devices p))"

definition AMD :: string where
  "AMD = ''Advanced Micro Devices, Inc.''"

section \<open>Choosing a platform\<close>

text \<open>
  The loop that looks for the AMD platform: the last platform looked at is chosen, and the loop
  ends at the AMD one.  A platform is its index, and a null pointer is \<^const>\<open>None\<close>.
\<close>

fun pick_platform ::
  "cl_env \<Rightarrow> nat \<Rightarrow> nat \<Rightarrow> platform list \<Rightarrow> nat option \<Rightarrow> (int \<times> nat option) \<times> nat" where
  "pick_platform env k i [] cur = ((SDK_SUCCESS, cur), k)"
| "pick_platform env k i (p # ps) cur =
     (if answers env k \<noteq> CL_SUCCESS then ((SDK_FAILURE, cur), k + 1)
      else if vendor p = AMD then ((SDK_SUCCESS, Some i), k + 1)
      else pick_platform env (k + 1) (i + 1) ps (Some i))"

text \<open>\<open>platforms[platformId]\<close> outside the array is undefined: \<^const>\<open>None\<close>.\<close>

definition getPlatform ::
  "cl_env \<Rightarrow> nat \<Rightarrow> nat option \<Rightarrow> int \<Rightarrow> bool \<Rightarrow> ((int \<times> nat option) \<times> nat) option" where
  "getPlatform env k platform platformId platformIdEnabled =
     (let finish = (\<lambda>p k. ((if p = None then SDK_FAILURE else SDK_SUCCESS, p), k))
      in if answers env k \<noteq> CL_SUCCESS then Some ((SDK_FAILURE, platform), k + 1)
         else if platforms env = [] then Some (finish platform (k + 1))
         else if answers env (k + 1) \<noteq> CL_SUCCESS then Some ((SDK_FAILURE, platform), k + 2)
         else if platformIdEnabled then
           if 0 \<le> platformId \<and> platformId < int (length (platforms env))
           then Some (finish (Some (nat platformId)) (k + 2)) else None
         else (case pick_platform env (k + 2) 0 (platforms env) platform of
                 ((r, p), k') \<Rightarrow> if r = SDK_SUCCESS then Some (finish p k') else Some ((r, p), k')))"

section \<open>Devices\<close>

fun show_devices :: "cl_env \<Rightarrow> nat \<Rightarrow> string list \<Rightarrow> int \<times> nat" where
  "show_devices env k [] = (SDK_SUCCESS, k)"
| "show_devices env k (d # ds) =
     (if answers env k \<noteq> CL_SUCCESS then (SDK_FAILURE, k + 1) else show_devices env (k + 1) ds)"

definition displayDevices :: "cl_env \<Rightarrow> nat \<Rightarrow> nat \<Rightarrow> nat \<Rightarrow> int \<times> nat" where
  "displayDevices env k p dType =
     (if answers env k \<noteq> CL_SUCCESS then (SDK_FAILURE, k + 1)
      else if answers env (k + 1) \<noteq> CL_SUCCESS then (SDK_FAILURE, k + 2)
      else if answers env (k + 2) \<noteq> CL_SUCCESS then (SDK_FAILURE, k + 3)
      else show_devices env (k + 3) (devices_of (platforms env ! p) dType))"

definition displayPlatformAndDevices :: "cl_env \<Rightarrow> nat \<Rightarrow> string list \<Rightarrow> int \<times> nat" where
  "displayPlatformAndDevices env k ds =
     (if answers env k \<noteq> CL_SUCCESS then (SDK_FAILURE, k + 1) else show_devices env (k + 1) ds)"

definition validateDeviceId :: "int \<Rightarrow> int \<Rightarrow> int" where
  "validateDeviceId deviceId deviceCount =
     (if deviceCount \<le> deviceId then SDK_FAILURE else SDK_SUCCESS)"

text \<open>The devices of a context are those that it was created for.\<close>

definition getDevices :: "cl_env \<Rightarrow> nat \<Rightarrow> string list \<Rightarrow> int \<Rightarrow> (int \<times> string list option) \<times> nat" where
  "getDevices env k context deviceId =
     (if answers env k \<noteq> CL_SUCCESS then ((SDK_FAILURE, None), k + 1)
      else if validateDeviceId deviceId (int (length context)) \<noteq> SDK_SUCCESS
      then ((SDK_FAILURE, None), k + 1)
      else if answers env (k + 1) \<noteq> CL_SUCCESS then ((SDK_FAILURE, None), k + 2)
      else ((SDK_SUCCESS, Some context), k + 2))"

section \<open>Events and kernels\<close>

text \<open>
  \<open>event k\<close> is the execution status that \<open>clGetEventInfo\<close> delivers as the \<open>k\<close>-th call.  The loop
  polls until the status is \<open>CL_COMPLETE\<close>; it may run forever, which is \<^const>\<open>None\<close>.
\<close>

partial_function (option) poll_event :: "cl_env \<Rightarrow> (nat \<Rightarrow> int) \<Rightarrow> nat \<Rightarrow> (int \<times> nat) option" where
  "poll_event env event k =
     (if answers env k \<noteq> CL_SUCCESS then Some (SDK_FAILURE, k + 1)
      else if event k = CL_COMPLETE then Some (SDK_SUCCESS, k + 1)
      else poll_event env event (k + 1))"

definition waitForEventAndRelease :: "cl_env \<Rightarrow> (nat \<Rightarrow> int) \<Rightarrow> nat \<Rightarrow> (int \<times> nat) option" where
  "waitForEventAndRelease env event k =
     do { (r, k') \<leftarrow> poll_event env event k;
          if r \<noteq> SDK_SUCCESS then Some (r, k')
          else if answers env k' \<noteq> CL_SUCCESS then Some (SDK_FAILURE, k' + 1)
          else Some (SDK_SUCCESS, k' + 1) }"

record work_group_info =
  kernelWorkGroupSize :: nat
  localMemoryUsed :: nat
  compileWorkGroupSize :: "nat list"

definition new_work_group_info :: work_group_info where
  "new_work_group_info =
     \<lparr>kernelWorkGroupSize = 0, localMemoryUsed = 0, compileWorkGroupSize = [0, 0, 0]\<rparr>"

text \<open>\<open>actual\<close> is what the library knows about the kernel on the device.\<close>

definition setKernelWorkGroupInfo ::
  "cl_env \<Rightarrow> work_group_info \<Rightarrow> nat \<Rightarrow> work_group_info \<Rightarrow> (int \<times> work_group_info) \<times> nat" where
  "setKernelWorkGroupInfo env actual k info =
     (if answers env k \<noteq> CL_SUCCESS then ((SDK_FAILURE, info), k + 1)
      else let info1 = info\<lparr>kernelWorkGroupSize := kernelWorkGroupSize actual\<rparr>
           in if answers env (k + 1) \<noteq> CL_SUCCESS then ((SDK_FAILURE, info1), k + 2)
              else let info2 = info1\<lparr>localMemoryUsed := localMemoryUsed actual\<rparr>
                   in if answers env (k + 2) \<noteq> CL_SUCCESS then ((SDK_FAILURE, info2), k + 3)
                      else ((SDK_SUCCESS,
                             info2\<lparr>compileWorkGroupSize := compileWorkGroupSize actual\<rparr>), k + 3))"

section \<open>Files and programs\<close>

text \<open>
  The file system maps names to contents.  \<open>open\<close> reads a C string, so a source ends at the first
  NUL; the binary functions keep every byte.
\<close>

type_synonym files = "string \<Rightarrow> string option"

definition c_str :: "string \<Rightarrow> string" where
  "c_str s = takeWhile (\<lambda>c. c \<noteq> NUL) s"

definition open_file :: "files \<Rightarrow> string \<Rightarrow> string \<Rightarrow> bool \<times> string" where
  "open_file fs name source = (case fs name of None \<Rightarrow> (False, source) | Some s \<Rightarrow> (True, c_str s))"

definition writeBinaryToFile :: "bool \<Rightarrow> string \<Rightarrow> string \<Rightarrow> nat \<Rightarrow> files \<Rightarrow> int \<times> files" where
  "writeBinaryToFile writable name binary numBytes fs =
     (if \<not> writable then (SDK_FAILURE, fs) else (SDK_SUCCESS, fs(name \<mapsto> take numBytes binary)))"

definition readBinaryFromFile :: "files \<Rightarrow> string \<Rightarrow> string \<Rightarrow> int \<times> string" where
  "readBinaryFromFile fs name source =
     (case fs name of None \<Rightarrow> (SDK_FAILURE, source) | Some s \<Rightarrow> (SDK_SUCCESS, s))"

text \<open>The two loops of \<open>replaceNewlineWithSpaces\<close>, each from one occurrence to the next.\<close>

fun replace_char :: "char \<Rightarrow> string \<Rightarrow> string" where
  "replace_char c [] = []"
| "replace_char c (d # s) = (if d = c then CHR '' '' else d) # replace_char c s"

definition replaceNewlineWithSpaces :: "string \<Rightarrow> string" where
  "replaceNewlineWithSpaces s = replace_char (CHR 0x0D) (replace_char newline s)"

record build_data =
  kernelName :: string
  flagsFileName :: string
  flagsStr :: string
  binaryName :: string

definition default_build_data :: build_data where
  "default_build_data = \<lparr>kernelName = [], flagsFileName = [], flagsStr = [], binaryName = []\<rparr>"

text \<open>What a program was created from, and the build options.\<close>

datatype program = From_source string | From_binary string

definition create_program ::
  "cl_env \<Rightarrow> files \<Rightarrow> string \<Rightarrow> build_data \<Rightarrow> nat \<Rightarrow> (int \<times> program option) \<times> nat" where
  "create_program env fs path bd k =
     (if binaryName bd \<noteq> [] then
        (case readBinaryFromFile fs (path @ c_str (binaryName bd)) [] of
           (r, s) \<Rightarrow>
             if r \<noteq> SDK_SUCCESS then ((SDK_FAILURE, None), k)
             else if answers env k \<noteq> CL_SUCCESS then ((SDK_FAILURE, None), k + 1)
             else ((SDK_SUCCESS, Some (From_binary s)), k + 1))
      else
        (case open_file fs (path @ c_str (kernelName bd)) [] of
           (ok, s) \<Rightarrow>
             if \<not> ok then ((SDK_FAILURE, None), k)
             else if answers env k \<noteq> CL_SUCCESS then ((SDK_FAILURE, None), k + 1)
             else ((SDK_SUCCESS, Some (From_source s)), k + 1)))"

definition build_flags :: "files \<Rightarrow> string \<Rightarrow> build_data \<Rightarrow> string option" where
  "build_flags fs path bd =
     (if flagsFileName bd \<noteq> [] then
        (case open_file fs (path @ c_str (flagsFileName bd)) [] of
           (ok, s) \<Rightarrow> if \<not> ok then None
                     else Some (c_str (flagsStr bd) @ c_str (replaceNewlineWithSpaces s)))
      else Some (c_str (flagsStr bd)))"

text \<open>The log of a failed build is queried twice, and the failure is returned in any case.\<close>

definition buildOpenCLProgram ::
  "cl_env \<Rightarrow> files \<Rightarrow> string \<Rightarrow> build_data \<Rightarrow> nat \<Rightarrow> (int \<times> (program \<times> string) option) \<times> nat" where
  "buildOpenCLProgram env fs path bd k =
     (case create_program env fs path bd k of ((r, p), k1) \<Rightarrow>
        (case p of None \<Rightarrow> ((r, None), k1)
         | Some prog \<Rightarrow>
           (case build_flags fs path bd of None \<Rightarrow> ((SDK_FAILURE, None), k1)
            | Some flags \<Rightarrow>
              (let status = answers env k1
               in if status = CL_SUCCESS then ((SDK_SUCCESS, Some (prog, flags)), k1 + 1)
                  else if status = CL_BUILD_PROGRAM_FAILURE then
                    if answers env (k1 + 1) \<noteq> CL_SUCCESS then ((SDK_FAILURE, None), k1 + 2)
                    else ((SDK_FAILURE, None), k1 + 3)
                  else ((SDK_FAILURE, None), k1 + 1)))))"

end
