(* ===== verification/Sdk_Sample.thy ===== *)
theory Sdk_Sample
  imports Sdk_Args Sdk_Opencl
begin

text \<open>
  The base class of the samples, \<open>SDKSample\<close> (\<open>SDK/SDKUtil/SDKApplication.cpp\<close> and its header): its
  fields, the default options, and the checks of the command line.  The fields that options point
  to are variables of the map \<open>vars\<close>, under their names; the other fields are fields of the record.
  The result \<^const>\<open>None\<close> is undefined behaviour.
\<close>

section \<open>The object\<close>

record sample =
  sample_args :: "command_args option"
  vars :: vars
  multiDevice :: bool
  enablePlatform :: bool
  enableDeviceId :: bool
  gpu :: bool
  amdPlatform :: bool

text \<open>\<open>version\<close> is not initialised.\<close>

definition new_sample :: "bool \<Rightarrow> sample" where
  "new_sample multi =
     \<lparr>sample_args = None,
      vars = [''quiet'' \<mapsto> Bool_val False, ''verify'' \<mapsto> Bool_val False, ''timing'' \<mapsto> Bool_val False,
              ''deviceType'' \<mapsto> String_val ''gpu'', ''deviceId'' \<mapsto> Int_val 0, ''platformId'' \<mapsto> Int_val 0,
              ''dumpBinary'' \<mapsto> String_val [], ''loadBinary'' \<mapsto> String_val [], ''flags'' \<mapsto> String_val []],
      multiDevice = multi, enablePlatform = False, enableDeviceId = False, gpu = True,
      amdPlatform = False\<rparr>"

definition string_var :: "string \<Rightarrow> sample \<Rightarrow> string" where
  "string_var a s = (case vars s a of Some (String_val x) \<Rightarrow> x | _ \<Rightarrow> [])"

definition bool_var :: "string \<Rightarrow> sample \<Rightarrow> bool" where
  "bool_var a s = (vars s a = Some (Bool_val True))"

definition int_var :: "string \<Rightarrow> sample \<Rightarrow> int" where
  "int_var a s = (case vars s a of Some (Int_val i) \<Rightarrow> i | _ \<Rightarrow> 0)"

text \<open>\<open>deviceId\<close> and \<open>platformId\<close> are unsigned, though they are read as \<open>int\<close>.\<close>

definition uint_var :: "string \<Rightarrow> sample \<Rightarrow> nat" where
  "uint_var a s = nat (int_var a s mod 2 ^ 32)"

definition make_option :: "string \<Rightarrow> string \<Rightarrow> string \<Rightarrow> arg_type \<Rightarrow> string \<Rightarrow> cmd_option" where
  "make_option sv lv desc ty var =
     \<lparr>sVersion = sv, lVersion = lv, description = desc, arg_type = ty, target = var\<rparr>"

definition default_options :: "bool \<Rightarrow> cmd_option list" where
  "default_options multi =
    [make_option [] ''device''
       (if multi then ''Execute the openCL kernel on a device [cpu|gpu|all]''
        else ''Execute the openCL kernel on a device [cpu|gpu]'') CA_ARG_STRING ''deviceType'',
     make_option ''q'' ''quiet'' ''Quiet mode. Suppress all text output.'' CA_NO_ARGUMENT ''quiet'',
     make_option ''e'' ''verify'' ''Verify results against reference implementation.''
       CA_NO_ARGUMENT ''verify'',
     make_option ''t'' ''timing'' ''Print timing.'' CA_NO_ARGUMENT ''timing'',
     make_option [] ''dump'' ''Dump binary image for all devices'' CA_ARG_STRING ''dumpBinary'',
     make_option [] ''load'' ''Load binary image and execute on device'' CA_ARG_STRING ''loadBinary'',
     make_option [] ''flags'' ''Specify compiler flags to build kernel'' CA_ARG_STRING ''flags'',
     make_option ''p'' ''platformId''
       ''Select platformId to be used[0 to N-1 where N is number platforms available].''
       CA_ARG_INT ''platformId'',
     make_option ''v'' ''version'' ''AMD APP SDK version string.'' CA_NO_ARGUMENT ''version''] @
    (if multi then []
     else [make_option ''d'' ''deviceId''
       ''Select deviceId to be used[0 to N-1 where N is number devices available].''
       CA_ARG_INT ''deviceId''])"

definition initialize :: "sample \<Rightarrow> int \<times> sample" where
  "initialize s =
     (SDK_SUCCESS,
      s\<lparr>sample_args := Some (make_args (if multiDevice s then 9 else 10)
                                      (default_options (multiDevice s)))\<rparr>)"

definition isDumpBinaryEnabled :: "sample \<Rightarrow> bool" where
  "isDumpBinaryEnabled s \<longleftrightarrow> length (string_var ''dumpBinary'' s) \<noteq> 0"

definition isLoadBinaryEnabled :: "sample \<Rightarrow> bool" where
  "isLoadBinaryEnabled s \<longleftrightarrow> length (string_var ''loadBinary'' s) \<noteq> 0"

definition isComplierFlagsSpecified :: "sample \<Rightarrow> bool" where
  "isComplierFlagsSpecified s \<longleftrightarrow> length (string_var ''flags'' s) \<noteq> 0"

section \<open>Checking the platform and the device\<close>

fun print_platforms :: "cl_env \<Rightarrow> nat \<Rightarrow> nat \<Rightarrow> int \<times> nat" where
  "print_platforms env k 0 = (SDK_SUCCESS, k)"
| "print_platforms env k (Suc n) =
     (if answers env k \<noteq> CL_SUCCESS then (SDK_FAILURE, k + 1) else print_platforms env (k + 1) n)"

text \<open>
  The device type whose devices are counted.  The second test also decides about \<open>cpu\<close>.
\<close>

definition counted_type :: "sample \<Rightarrow> nat" where
  "counted_type s =
     (let dType = CL_DEVICE_TYPE_GPU;
          dType = (if string_var ''deviceType'' s = ''cpu'' then CL_DEVICE_TYPE_CPU else dType)
      in if string_var ''deviceType'' s = ''gpu'' then CL_DEVICE_TYPE_GPU else CL_DEVICE_TYPE_ALL)"

text \<open>A context for the GPUs is created and released to see whether there are any.\<close>

definition probe_gpu :: "cl_env \<Rightarrow> nat \<Rightarrow> nat \<Rightarrow> sample \<Rightarrow> (nat \<times> sample) \<times> nat" where
  "probe_gpu env k dType s =
     (if dType = CL_DEVICE_TYPE_GPU then
        (if answers env k = CL_DEVICE_NOT_FOUND
         then ((CL_DEVICE_TYPE_CPU, s\<lparr>gpu := False\<rparr>), k + 2) else ((dType, s), k + 2))
      else ((dType, s), k))"

definition check_device :: "cl_env \<Rightarrow> nat \<Rightarrow> nat \<Rightarrow> sample \<Rightarrow> int \<times> sample" where
  "check_device env k p s =
     (if answers env k \<noteq> CL_SUCCESS then (SDK_FAILURE, s)
      else
        (let s1 = (if vendor (platforms env ! p) = AMD then s\<lparr>amdPlatform := True\<rparr> else s)
         in case probe_gpu env (k + 1) (counted_type s1) s1 of
              ((dType, s2), k2) \<Rightarrow>
                if answers env k2 \<noteq> CL_SUCCESS then (SDK_FAILURE, s2)
                else if length (devices_of (platforms env ! p) dType) \<le> uint_var ''deviceId'' s2
                then (SDK_FAILURE, s2)
                else (SDK_SUCCESS, s2)))"

definition validatePlatformAndDeviceOptions :: "cl_env \<Rightarrow> sample \<Rightarrow> (int \<times> sample)" where
  "validatePlatformAndDeviceOptions env s =
     (let n = length (platforms env)
      in if answers env 0 \<noteq> CL_SUCCESS then (SDK_FAILURE, s)
         else if n = 0 then (SDK_SUCCESS, s)
         else if n \<le> uint_var ''platformId'' s then (SDK_FAILURE, s)
         else if answers env 1 \<noteq> CL_SUCCESS then (SDK_FAILURE, s)
         else (case print_platforms env 2 n of (r, k) \<Rightarrow>
           if r \<noteq> SDK_SUCCESS then (SDK_FAILURE, s)
           else (case pick_platform env k 0 (platforms env) None of ((r', p), k') \<Rightarrow>
             if r' \<noteq> SDK_SUCCESS then (SDK_FAILURE, s)
             else check_device env k'
                    (if enablePlatform s then uint_var ''platformId'' s else the p) s)))"

section \<open>Checking the command line\<close>

text \<open>A call returns to \<open>main\<close> or ends the program.\<close>

datatype outcome = Returned int | Exited int

definition check_options :: "cl_env \<Rightarrow> sample \<Rightarrow> int \<times> sample" where
  "check_options env s =
     (let ty = string_var ''deviceType'' s
      in if (if multiDevice s then \<not> (ty = ''cpu'' \<or> ty = ''gpu'' \<or> ty = ''all'')
             else \<not> (ty = ''cpu'' \<or> ty = ''gpu'')) then (SDK_FAILURE, s)
         else if string_var ''dumpBinary'' s \<noteq> [] \<and> string_var ''loadBinary'' s \<noteq> [] then (SDK_FAILURE, s)
         else if string_var ''loadBinary'' s \<noteq> [] \<and> string_var ''flags'' s \<noteq> [] then (SDK_FAILURE, s)
         else (case validatePlatformAndDeviceOptions env s of (r, s') \<Rightarrow>
                 if r \<noteq> SDK_SUCCESS then (SDK_FAILURE, s') else (SDK_SUCCESS, s')))"

definition parseCommandLine :: "cl_env \<Rightarrow> string list \<Rightarrow> sample \<Rightarrow> (outcome \<times> sample) option" where
  "parseCommandLine env argv s =
     (case sample_args s of None \<Rightarrow> Some (Returned SDK_FAILURE, s)
      | Some ca \<Rightarrow>
        do { (m, ca', vars') \<leftarrow> parse_args ca argv (vars s);
             let s1 = s\<lparr>sample_args := Some ca', vars := vars'\<rparr>
             in if m = 0 then Some (Returned SDK_FAILURE, s1)
                else if isArgSet ca' ''h'' True then Some (Returned SDK_FAILURE, s1)
                else if isArgSet ca' ''v'' True \<or> isArgSet ca' ''version'' False then Some (Exited 0, s1)
                else
                  let s2 = (if isArgSet ca' ''p'' True \<or> isArgSet ca' ''platformId'' False
                            then s1\<lparr>enablePlatform := True\<rparr> else s1);
                      s3 = (if isArgSet ca' ''d'' True \<or> isArgSet ca' ''deviceId'' False
                            then s2\<lparr>enableDeviceId := True\<rparr> else s2)
                  in case check_options env s3 of (r, s4) \<Rightarrow> Some (Returned r, s4) })"

end
