(* ===== verification/Sdk_Args_Props.thy ===== *)
theory Sdk_Args_Props
  imports Sdk_Args
begin

text \<open>
  The properties of the option table: rendering settings as a command line and parsing it gives
  the settings back, parsing keeps the types of the variables, and adding and deleting options.
\<close>

section \<open>Decimal numbers\<close>

lemma digit_char_digit:
  assumes "d < 10"
  shows "isdigit (digit_char d)" "digit_value (digit_char d) = int d"
  using assms by (simp_all add: isdigit_def digit_value_def digit_char_def)

lemma nat_text_digits: "\<forall>c \<in> set (nat_text n). isdigit c"
proof (induction n rule: nat_text.induct)
  case (1 n)
  then show ?case by (subst nat_text.simps) (auto simp: digit_char_digit)
qed

lemma nat_text_value: "digits_value 10 digit_value (nat_text n) = int n"
proof (induction n rule: nat_text.induct)
  case (1 n)
  show ?case
  proof (cases "n < 10")
    case True
    then show ?thesis by (subst nat_text.simps) (simp add: digits_value_def digit_char_digit)
  next
    case False
    then have "digits_value 10 digit_value (nat_text n) = 10 * int (n div 10) + int (n mod 10)"
      using 1 by (subst nat_text.simps) (simp add: digits_value_def digit_char_digit)
    also have "\<dots> = int (10 * (n div 10) + n mod 10)" by (simp only: of_nat_add of_nat_mult of_nat_numeral)
    finally show ?thesis by (simp only: mult_div_mod_eq)
  qed
qed

lemma nat_text_not_Nil [simp]: "nat_text n \<noteq> []"
  by (subst nat_text.simps) simp

lemma digit_plain: "isdigit c \<Longrightarrow> \<not> isspace c \<and> c \<noteq> CHR ''-'' \<and> c \<noteq> CHR ''+''"
  by (auto simp: isdigit_def isspace_def)

lemma scan_int_text: "fits_int i \<Longrightarrow> scan_int (int_text i) = Some (Some i)"
proof -
  assume i: "fits_int i"
  have plain: "take_sign (dropWhile isspace (nat_text n)) = (False, nat_text n)"
      "takeWhile isdigit (nat_text n) = nat_text n" for n
  proof -
    obtain c cs where c: "nat_text n = c # cs" by (cases "nat_text n") auto
    then have "isdigit c" using nat_text_digits [of n] by simp
    then show "take_sign (dropWhile isspace (nat_text n)) = (False, nat_text n)"
      using digit_plain [of c] by (simp add: c)
    show "takeWhile isdigit (nat_text n) = nat_text n" using nat_text_digits by simp
  qed
  show ?thesis
  proof (cases "i < 0")
    case True
    have "dropWhile isspace (CHR ''-'' # nat_text (nat (- i))) = CHR ''-'' # nat_text (nat (- i))"
      by (simp add: isspace_def)
    then show ?thesis using True i by (simp add: scan_int_def int_text_def plain nat_text_value)
  next
    case False
    then show ?thesis using i by (simp add: scan_int_def int_text_def plain nat_text_value)
  qed
qed

section \<open>Parsing a rendered command line\<close>

text \<open>A value that can be given to an option, and how it is written.\<close>

fun renderable :: "cmd_option \<times> var_value \<Rightarrow> bool" where
  "renderable (opt, Int_val i) = (arg_type opt = CA_ARG_INT \<and> fits_int i)"
| "renderable (opt, String_val s) = (arg_type opt = CA_ARG_STRING)"
| "renderable (opt, Bool_val b) = (arg_type opt = CA_NO_ARGUMENT \<and> b)"
| "renderable (opt, v) = False"

fun argument_text :: "var_value \<Rightarrow> string list" where
  "argument_text (Int_val i) = [int_text i]"
| "argument_text (String_val s) = [s]"
| "argument_text v = []"

definition render :: "cmd_option \<times> var_value \<Rightarrow> string list" where
  "render = (\<lambda>(opt, v). (''--'' @ lVersion opt) # argument_text v)"

definition apply_setting :: "cmd_option \<times> var_value \<Rightarrow> vars \<Rightarrow> vars" where
  "apply_setting = (\<lambda>(opt, v) vars. vars(target opt \<mapsto> v))"

lemma match_loop_long:
  "distinct (map lVersion opts) \<Longrightarrow> opt \<in> set opts \<Longrightarrow>
   match_loop opts False (lVersion opt) rest vars = take_option opt rest vars"
  by (induction opts) (auto simp: image_iff)

lemma take_option_rendered:
  assumes "renderable (opt, v)"
  shows "take_option opt (argument_text v @ rest) vars =
    Some (int (length (render (opt, v))), apply_setting (opt, v) vars)"
  using assms
  by (cases v) (auto simp: take_option_def render_def apply_setting_def scan_int_text set_var_def)

lemma parse_rendered_step:
  assumes "options ca = Some opts" "numArgs ca = length opts" "distinct (map lVersion opts)"
    and "fst s \<in> set opts" "renderable s"
  shows "parse_loop ca (render s @ rest) m vars =
    parse_loop ca rest (int (length (render s))) (apply_setting s vars)"
proof -
  obtain opt v where s: "s = (opt, v)" by (cases s)
  have "match_arg ca (render s @ rest) vars = Some (int (length (render s)), apply_setting s vars)"
    using assms match_loop_long [of opts opt] take_option_rendered [of opt v rest vars]
    unfolding s by (simp add: match_arg_def render_def)
  moreover have "render s \<noteq> []" by (simp add: render_def s)
  ultimately show ?thesis by (subst parse_loop.simps) simp
qed

lemma parse_rendered:
  assumes "options ca = Some opts" "numArgs ca = length opts" "distinct (map lVersion opts)"
    and "\<forall>s \<in> set settings. fst s \<in> set opts \<and> renderable s"
  shows "parse_loop ca (concat (map render settings)) m vars =
    Some (if settings = [] then m else int (length (render (last settings))),
          fold apply_setting settings vars)"
  using assms(4)
proof (induction settings arbitrary: m vars)
  case Nil
  then show ?case by (simp add: parse_loop.simps)
next
  case (Cons s settings)
  then show ?case using parse_rendered_step [OF assms(1-3), of s] by simp
qed

text \<open>C17.
  Parsing inverts rendering: settings of integer, string and switch options, written out as a
  command line with the long option names, are parsed to exactly these settings, applied in
  order, for any table whose long names differ (and whose program name is no option).  Numbers
  survive their decimal notation, and strings may be anything, even look like options.\<close>

theorem parse_roundtrip:
  assumes "options ca = Some opts" "numArgs ca = length opts" "distinct (map lVersion opts)"
    and "\<forall>s \<in> set settings. fst s \<in> set opts \<and> renderable s" "settings \<noteq> []"
    and "char_at prog 0 \<noteq> CHR ''-''"
  shows "parse_args ca (prog # concat (map render settings)) vars =
    Some (int (length (render (last settings))),
          ca\<lparr>saved_argv := prog # concat (map render settings)\<rparr>, fold apply_setting settings vars)"
proof -
  let ?ca = "ca\<lparr>saved_argv := prog # concat (map render settings)\<rparr>"
  have "concat (map render settings) \<noteq> []"
    using assms(5) by (cases settings) (auto simp: render_def split: prod.splits)
  moreover have "match_arg ?ca (prog # concat (map render settings)) vars = Some (0, vars)"
    using assms(1,6) by (simp add: match_arg_def)
  then have "parse_loop ?ca (prog # concat (map render settings)) 0 vars =
      parse_loop ?ca (concat (map render settings)) 0 vars"
    by (subst parse_loop.simps) simp
  ultimately show ?thesis
    using parse_rendered [of ?ca opts settings 0 vars] assms by (auto simp: parse_args_def Let_def)
qed

definition demo_options :: "cmd_option list" where
  "demo_options =
    [\<lparr>sVersion = ''x'', lVersion = ''nodes'', description = '''', arg_type = CA_ARG_INT, target = ''numNodes''\<rparr>,
     \<lparr>sVersion = ''q'', lVersion = ''quiet'', description = '''', arg_type = CA_NO_ARGUMENT, target = ''quiet''\<rparr>]"

theorem parse_roundtrip_witness:
  "parse_args (make_args 2 demo_options)
     (''FloydWarshall'' # concat (map render [(demo_options ! 0, Int_val (- 64)), (demo_options ! 1, Bool_val True)])) Map.empty =
   Some (1, (make_args 2 demo_options)\<lparr>saved_argv := ''FloydWarshall'' #
       concat (map render [(demo_options ! 0, Int_val (- 64)), (demo_options ! 1, Bool_val True)])\<rparr>,
     [''numNodes'' \<mapsto> Int_val (- 64), ''quiet'' \<mapsto> Bool_val True])"
  using parse_roundtrip [of "make_args 2 demo_options" demo_options
      "[(demo_options ! 0, Int_val (- 64)), (demo_options ! 1, Bool_val True)]" "''FloydWarshall''" Map.empty]
  by (simp add: make_args_def demo_options_def fits_int_def render_def apply_setting_def)

section \<open>Types of the variables\<close>

fun has_type :: "arg_type \<Rightarrow> var_value \<Rightarrow> bool" where
  "has_type CA_ARG_INT (Int_val i) = True"
| "has_type CA_ARG_FLOAT (Float_val x) = True"
| "has_type CA_ARG_DOUBLE (Double_val x) = True"
| "has_type CA_ARG_STRING (String_val s) = True"
| "has_type CA_NO_ARGUMENT (Bool_val b) = True"
| "has_type t v = False"

definition well_typed :: "cmd_option list \<Rightarrow> vars \<Rightarrow> bool" where
  "well_typed opts vars \<longleftrightarrow> (\<forall>opt \<in> set opts. \<exists>v. vars (target opt) = Some v \<and> has_type (arg_type opt) v)"

definition confined :: "cmd_option list \<Rightarrow> vars \<Rightarrow> vars \<Rightarrow> bool" where
  "confined opts vars vars' \<longleftrightarrow> (\<forall>a. a \<notin> target ` set opts \<longrightarrow> vars' a = vars a)"

lemma has_type_unique: "has_type t v \<Longrightarrow> has_type t' v \<Longrightarrow> t = t'"
  by (cases v; cases t; cases t') auto

lemma well_typed_update:
  assumes "well_typed opts vars" "opt \<in> set opts" "has_type (arg_type opt) v"
  shows "well_typed opts (vars(target opt \<mapsto> v))"
  unfolding well_typed_def
proof
  fix x assume x: "x \<in> set opts"
  then obtain w where w: "vars (target x) = Some w" "has_type (arg_type x) w"
    using assms(1) by (auto simp: well_typed_def)
  obtain u where u: "vars (target opt) = Some u" "has_type (arg_type opt) u"
    using assms(1,2) by (auto simp: well_typed_def)
  show "\<exists>v'. (vars(target opt \<mapsto> v)) (target x) = Some v' \<and> has_type (arg_type x) v'"
  proof (cases "target x = target opt")
    case True
    then have "arg_type x = arg_type opt" using w u has_type_unique by auto
    then show ?thesis using True assms(3) by simp
  qed (use w in simp)
qed

lemma take_option_typed:
  assumes "take_option opt rest vars = Some (m, vars')"
  shows "vars' = vars \<or> (\<exists>v. vars' = vars(target opt \<mapsto> v) \<and> has_type (arg_type opt) v)"
  using assms
  by (cases "arg_type opt")
    (auto simp: take_option_def set_var_def bind_eq_Some_conv split: list.splits option.splits)

lemma match_loop_typed:
  assumes "match_loop opts shortVer arg rest vars = Some (m, vars')"
  shows "vars' = vars \<or> (\<exists>opt \<in> set opts. \<exists>v. vars' = vars(target opt \<mapsto> v) \<and> has_type (arg_type opt) v)"
  using assms
proof (induction opts)
  case (Cons opt opts)
  show ?case
  proof (cases "(if shortVer then sVersion opt else lVersion opt) = arg")
    case True
    then have "take_option opt rest vars = Some (m, vars')" using Cons.prems by simp
    from take_option_typed [OF this] show ?thesis by (metis list.set_intros(1))
  next
    case False
    then have "match_loop opts shortVer arg rest vars = Some (m, vars')" using Cons.prems by simp
    from Cons.IH [OF this] show ?thesis by (metis list.set_intros(2))
  qed
qed simp

lemma match_arg_typed:
  assumes "match_arg ca argv vars = Some (m, vars')" "options ca = Some opts"
    and "well_typed (take (numArgs ca) opts) vars"
  shows "well_typed (take (numArgs ca) opts) vars' \<and> confined (take (numArgs ca) opts) vars vars'"
proof -
  have "vars' = vars \<or> (\<exists>opt \<in> set (take (numArgs ca) opts). \<exists>v. vars' = vars(target opt \<mapsto> v) \<and>
      has_type (arg_type opt) v)"
    using assms(1,2)
    by (auto simp: match_arg_def bind_eq_Some_conv split: if_splits dest!: match_loop_typed)
  then show ?thesis using assms(3) well_typed_update by (auto simp: confined_def)
qed

lemma parse_loop_typed:
  assumes "parse_loop ca argv m vars = Some (m', vars')" "options ca = Some opts"
    and "well_typed (take (numArgs ca) opts) vars"
  shows "well_typed (take (numArgs ca) opts) vars' \<and> confined (take (numArgs ca) opts) vars vars'"
  using assms
proof (induction ca argv m vars rule: parse_loop.induct)
  case (1 ca argv m vars)
  show ?case
  proof (cases "argv = []")
    case True
    then show ?thesis using 1 by (auto simp: parse_loop.simps confined_def)
  next
    case False
    then obtain k vars1 where k: "match_arg ca argv vars = Some (k, vars1)"
        "parse_loop ca (drop (nat (if 0 < k then k else 1)) argv) k vars1 = Some (m', vars')"
      using 1(2) by (subst (asm) parse_loop.simps) (auto simp: bind_eq_Some_conv)
    have "well_typed (take (numArgs ca) opts) vars1 \<and> confined (take (numArgs ca) opts) vars vars1"
      by (rule match_arg_typed [OF k(1) 1(3,4)])
    then show ?thesis
      using 1(1) [OF False k(1) refl k(2) 1(3)] by (auto simp: confined_def)
  qed
qed

text \<open>C18.
  Parsing any command line keeps the variables well typed: if every variable an option points to
  holds a value of the type that the option declares, this is so afterwards, even when several
  options share a variable; and no variable is touched that no option points to.\<close>

theorem parse_keeps_types:
  assumes "parse_args ca argv vars = Some (m, ca', vars')" "options ca = Some opts"
    and "well_typed (take (numArgs ca) opts) vars"
  shows "well_typed (take (numArgs ca) opts) vars' \<and>
    (\<forall>a. a \<notin> target ` set (take (numArgs ca) opts) \<longrightarrow> vars' a = vars a) \<and>
    ca' = ca\<lparr>saved_argv := argv\<rparr>"
proof -
  let ?ca = "ca\<lparr>saved_argv := argv\<rparr>"
  have ca: "ca' = ?ca" using assms(1) by (auto simp: parse_args_def Let_def bind_eq_Some_conv split: if_splits)
  show ?thesis
  proof (cases "length argv = 1")
    case True
    then have "vars' = vars" using assms(1) by (simp add: parse_args_def)
    then show ?thesis using assms(3) ca by simp
  next
    case False
    then have "parse_loop ?ca argv 0 vars = Some (m, vars')"
      using assms(1) by (auto simp: parse_args_def Let_def bind_eq_Some_conv)
    then show ?thesis using parse_loop_typed [of ?ca argv 0 vars m vars' opts] assms(2,3) ca
      by (simp add: confined_def)
  qed
qed

definition demo_vars :: vars where
  "demo_vars = [''numNodes'' \<mapsto> Int_val 128, ''quiet'' \<mapsto> Bool_val False, ''seed'' \<mapsto> Int_val 7]"

theorem parse_keeps_types_witness:
  "\<exists>ca vars. parse_args (make_args 2 demo_options) [''prog'', ''-x'', ''64'', ''-q''] demo_vars = Some (1, ca, vars) \<and>
    well_typed demo_options demo_vars \<and> vars ''numNodes'' = Some (Int_val 64) \<and>
    well_typed demo_options vars \<and> vars ''seed'' = Some (Int_val 7)"
proof -
  let ?ca = "(make_args 2 demo_options)\<lparr>saved_argv := [''prog'', ''-x'', ''64'', ''-q'']\<rparr>"
  let ?vars = "demo_vars(''numNodes'' \<mapsto> Int_val 64, ''quiet'' \<mapsto> Bool_val True)"
  have run: "parse_args (make_args 2 demo_options) [''prog'', ''-x'', ''64'', ''-q''] demo_vars = Some (1, ?ca, ?vars)"
    by (simp add: parse_args_def parse_loop.simps match_arg_def make_args_def demo_options_def arg_at_def
        take_option_def set_var_def scan_int_def digits_value_def isspace_def isdigit_def
        digit_value_def fits_int_def)
  have take: "take (numArgs (make_args 2 demo_options)) demo_options = demo_options"
    by (simp add: make_args_def demo_options_def)
  have start: "well_typed demo_options demo_vars"
    by (simp add: well_typed_def demo_options_def demo_vars_def)
  have "well_typed (take (numArgs (make_args 2 demo_options)) demo_options) demo_vars"
    using start by (simp only: take)
  note kept = parse_keeps_types [OF run _ this]
  have "well_typed demo_options ?vars" using kept unfolding take by (simp add: make_args_def)
  moreover have "?vars ''seed'' = demo_vars ''seed''"
    using kept unfolding take by (simp add: make_args_def demo_options_def)
  ultimately show ?thesis using run start by (intro exI [of _ ?ca] exI [of _ ?vars]) (simp add: demo_vars_def)
qed

section \<open>Changing the table\<close>

definition live :: "command_args \<Rightarrow> cmd_option list" where
  "live ca = take (numArgs ca) (the (options ca))"

definition args_ok :: "command_args \<Rightarrow> bool" where
  "args_ok ca \<longleftrightarrow> (\<exists>opts. options ca = Some opts \<and> numArgs ca \<le> length opts)"

text \<open>What is left of a list when every element that matches is removed, except that the one
  right behind a removed element is not looked at.\<close>

fun drop_matching :: "('a \<Rightarrow> bool) \<Rightarrow> 'a list \<Rightarrow> 'a list" where
  "drop_matching p [] = []"
| "drop_matching p [x] = (if p x then [] else [x])"
| "drop_matching p (x # y # xs) =
     (if p x then y # drop_matching p xs else x # drop_matching p (y # xs))"

lemma delete_at_eq:
  assumes "i < n" "n \<le> length opts"
  shows "delete_at i n opts = Some (take i opts @ drop (Suc i) (take n opts) @ drop (n - 1) opts)"
proof -
  have "yields (for_loop i (n - 1) (\<lambda>j os. do { x \<leftarrow> arg_at os (j + 1); set_at os j x }) opts)
      (\<lambda>os. length os = length opts \<and> (\<forall>k < length opts. os ! k =
         (if i \<le> k \<and> k < n - 1 then opts ! (k + 1) else opts ! k)))"
  proof (rule for_loop_yields [where I = "\<lambda>j os. length os = length opts \<and> (\<forall>k < length opts. os ! k =
         (if i \<le> k \<and> k < j then opts ! (k + 1) else opts ! k))"])
    fix j os
    assume j: "i \<le> j" "j < n - 1" and os: "length os = length opts \<and> (\<forall>k < length opts. os ! k =
         (if i \<le> k \<and> k < j then opts ! (k + 1) else opts ! k))"
    have "j + 1 < length opts" using j assms by simp
    then show "yields (do { x \<leftarrow> arg_at os (j + 1); set_at os j x })
        (\<lambda>os. length os = length opts \<and> (\<forall>k < length opts. os ! k =
         (if i \<le> k \<and> k < Suc j then opts ! (k + 1) else opts ! k)))"
      using os j by (auto simp: nth_list_update less_Suc_eq)
  qed (use assms in auto)
  then obtain os where os: "delete_at i n opts = Some os" "length os = length opts"
      "\<forall>k < length opts. os ! k = (if i \<le> k \<and> k < n - 1 then opts ! (k + 1) else opts ! k)"
    by (auto simp: yields_def delete_at_def)
  have "os = take i opts @ drop (Suc i) (take n opts) @ drop (n - 1) opts"
    by (rule nth_equalityI) (use assms os in \<open>auto simp: nth_append min_def\<close>)
  then show ?thesis using os(1) by simp
qed

lemma delete_loop_eq:
  assumes "i \<le> n" "n \<le> length opts"
  shows "\<exists>n' opts'. delete_loop p i n opts = Some (n', opts') \<and> n' \<le> length opts' \<and>
    take n' opts' = take i opts @ drop_matching p (drop i (take n opts))"
  using assms
proof (induction p i n opts rule: delete_loop.induct)
  case (1 p i n opts)
  show ?case
  proof (cases "n \<le> i")
    case True
    then show ?thesis using 1 by (auto simp: delete_loop.simps)
  next
    case False
    then have i: "i < n" "i < length opts" using 1 by simp_all
    have rest: "drop i (take n opts) = opts ! i # drop (Suc i) (take n opts)"
      using i by (simp add: Cons_nth_drop_Suc [symmetric])
    show ?thesis
    proof (cases "p (opts ! i)")
      case no: False
      have step: "delete_loop p i n opts = delete_loop p (i + 1) n opts"
        using i no by (subst delete_loop.simps) simp
      have "drop_matching p (drop i (take n opts)) = opts ! i # drop_matching p (drop (Suc i) (take n opts))"
        using no unfolding rest by (cases "drop (Suc i) (take n opts)") simp_all
      then show ?thesis
        using 1(2) [OF False _ no] i 1(4) unfolding step by (auto simp: take_Suc_conv_app_nth)
    next
      case yes: True
      let ?del = "take i opts @ drop (Suc i) (take n opts) @ drop (n - 1) opts"
      have step: "delete_loop p i n opts = delete_loop p (i + 1) (n - 1) ?del"
        using i yes delete_at_eq [OF i(1) 1(4)] by (subst delete_loop.simps) simp
      have shorter: "n - 1 \<le> length ?del" using i 1(4) by simp
      show ?thesis
      proof (cases "drop (Suc i) (take n opts)")
        case Nil
        then have "n = Suc i" using i 1(4) by simp
        then have "delete_loop p i n opts = Some (i, ?del)"
          unfolding step by (simp add: delete_loop.simps)
        then show ?thesis using i yes Nil 1(4) unfolding rest by simp
      next
        case (Cons y ys)
        have len: "Suc i \<le> n - 1" using Cons i 1(4) by (cases "n = Suc i") auto
        have "\<exists>n' opts'. delete_loop p (i + 1) (n - 1) ?del = Some (n', opts') \<and> n' \<le> length opts' \<and>
            take n' opts' = take (i + 1) ?del @ drop_matching p (drop (i + 1) (take (n - 1) ?del))"
          using 1(1) [OF False _ yes delete_at_eq [OF i(1) 1(4)]] i len shorter by simp
        moreover have "take (i + 1) ?del = take i opts @ [y]" using i Cons by simp
        moreover have "take (n - 1) ?del = take i opts @ y # ys"
          using i 1(4) unfolding Cons [symmetric] by simp
        then have "drop (i + 1) (take (n - 1) ?del) = ys" using i by simp
        ultimately show ?thesis using yes unfolding step rest Cons by simp
      qed
    qed
  qed
qed

text \<open>
  Adding an option puts it behind the others.  Deleting one removes every entry with the same
  short or long name, except that an entry right behind a removed one has taken its place
  already and is not looked at; the entries that stay keep their order.\<close>

lemma add_delete_option:
  assumes "args_ok ca" "numArgs ca \<noteq> 0"
  shows "\<exists>ca1 ca2. AddOption (Some op) ca = Some (SDK_SUCCESS, ca1) \<and> args_ok ca1 \<and>
    live ca1 = live ca @ [op] \<and>
    DeleteOption (Some op) ca = Some (SDK_SUCCESS, ca2) \<and> args_ok ca2 \<and>
    live ca2 = drop_matching (same_option op) (live ca)"
proof -
  obtain opts where opts: "options ca = Some opts" "numArgs ca \<le> length opts"
    using assms(1) by (auto simp: args_ok_def)
  obtain n' opts' where del: "delete_loop (same_option op) 0 (numArgs ca) opts = Some (n', opts')"
      "n' \<le> length opts'" "take n' opts' = drop_matching (same_option op) (take (numArgs ca) opts)"
    using delete_loop_eq [of 0 "numArgs ca" opts "same_option op"] opts(2) by auto
  show ?thesis
    by (intro exI [of _ "ca\<lparr>options := Some (take (numArgs ca) opts @ [op]), numArgs := numArgs ca + 1\<rparr>"]
        exI [of _ "ca\<lparr>numArgs := n', options := Some opts'\<rparr>"])
      (use assms(2) opts del in \<open>simp add: AddOption_def DeleteOption_def args_ok_def live_def\<close>)
qed

end
