(* ===== verification/Sdk_Opencl_Props.thy ===== *)
theory Sdk_Opencl_Props
  imports Sdk_Opencl
begin

text \<open>
  The properties of the functions that talk to OpenCL: when waiting for an event ends, which
  platform is chosen, and what a program is built from.
\<close>

section \<open>Waiting for an event\<close>

definition all_succeed :: "cl_env \<Rightarrow> bool" where
  "all_succeed env \<longleftrightarrow> (\<forall>n. answers env n = CL_SUCCESS)"

text \<open>The polls that decide nothing: the query succeeds and the event is not complete.\<close>

definition undecided :: "cl_env \<Rightarrow> (nat \<Rightarrow> int) \<Rightarrow> nat \<Rightarrow> bool" where
  "undecided env event n \<longleftrightarrow> answers env n = CL_SUCCESS \<and> event n \<noteq> CL_COMPLETE"

lemma poll_event_skip:
  "\<forall>i < d. undecided env event (k + i) \<Longrightarrow> poll_event env event k = poll_event env event (k + d)"
proof (induction d arbitrary: k)
  case (Suc d)
  have "undecided env event k" using Suc.prems by (metis add.right_neutral zero_less_Suc)
  then have "poll_event env event k = poll_event env event (k + 1)"
    by (subst poll_event.simps) (simp add: undecided_def)
  moreover have "\<forall>i < d. undecided env event (k + 1 + i)"
    using Suc.prems by (metis Suc_less_eq add.assoc plus_1_eq_Suc)
  ultimately show ?case using Suc.IH [of "k + 1"] by simp
qed simp

lemma poll_event_ends:
  assumes "all_succeed env" "event (k + d) = CL_COMPLETE" "\<forall>i < d. event (k + i) \<noteq> CL_COMPLETE"
  shows "poll_event env event k = Some (SDK_SUCCESS, k + d + 1)"
  using poll_event_skip [of d env event k] poll_event.simps [of env event "k + d"] assms
  by (simp add: undecided_def all_succeed_def)

lemma poll_event_result:
  assumes "poll_event env event k = Some r"
  shows "\<exists>n \<ge> k. answers env n \<noteq> CL_SUCCESS \<or> event n = CL_COMPLETE"
proof (rule poll_event.raw_induct [OF _ assms])
  fix rec :: "cl_env \<Rightarrow> (nat \<Rightarrow> int) \<Rightarrow> nat \<Rightarrow> (int \<times> nat) option" and env event k r
  assume IH: "\<And>env event k r. rec env event k = Some r \<Longrightarrow>
      \<exists>n \<ge> k. answers env n \<noteq> CL_SUCCESS \<or> event n = CL_COMPLETE"
    and run: "(if answers env k \<noteq> CL_SUCCESS then Some (SDK_FAILURE, k + 1)
      else if event k = CL_COMPLETE then Some (SDK_SUCCESS, k + 1) else rec env event (k + 1)) = Some r"
  show "\<exists>n \<ge> k. answers env n \<noteq> CL_SUCCESS \<or> event n = CL_COMPLETE"
  proof (cases "answers env k \<noteq> CL_SUCCESS \<or> event k = CL_COMPLETE")
    case False
    then have "rec env event (k + 1) = Some r" using run by simp
    from IH [OF this] obtain n where "k + 1 \<le> n" "answers env n \<noteq> CL_SUCCESS \<or> event n = CL_COMPLETE"
      by blast
    then show ?thesis by (intro exI [of _ n]) simp
  qed blast
qed

text \<open>C19.
  Waiting for an event, whatever the library answers.  After any number of polls that find the
  event not complete: a query that fails ends it with a failure; the first report of completion
  ends it with what the release of the event says, one call later; and it never returns when no
  query fails and the event is never reported complete, which includes the events that end
  abnormally: their negative status is polled forever.\<close>

theorem wait_for_event_ends:
  "(\<forall>d. (\<forall>i < d. answers env (k + i) = CL_SUCCESS \<and> event (k + i) \<noteq> CL_COMPLETE) \<longrightarrow>
      (answers env (k + d) \<noteq> CL_SUCCESS \<longrightarrow>
        waitForEventAndRelease env event k = Some (SDK_FAILURE, k + d + 1)) \<and>
      (answers env (k + d) = CL_SUCCESS \<and> event (k + d) = CL_COMPLETE \<longrightarrow>
        waitForEventAndRelease env event k =
          Some (if answers env (k + d + 1) = CL_SUCCESS then SDK_SUCCESS else SDK_FAILURE, k + d + 2))) \<and>
   ((\<forall>n \<ge> k. answers env n = CL_SUCCESS \<and> event n \<noteq> CL_COMPLETE) \<longrightarrow>
      waitForEventAndRelease env event k = None)"
proof (intro conjI allI impI)
  fix d assume skip: "\<forall>i < d. answers env (k + i) = CL_SUCCESS \<and> event (k + i) \<noteq> CL_COMPLETE"
    and "answers env (k + d) \<noteq> CL_SUCCESS"
  then show "waitForEventAndRelease env event k = Some (SDK_FAILURE, k + d + 1)"
    using poll_event_skip [of d env event k] poll_event.simps [of env event "k + d"]
    by (simp add: waitForEventAndRelease_def undecided_def SDK_SUCCESS_def SDK_FAILURE_def)
next
  fix d assume skip: "\<forall>i < d. answers env (k + i) = CL_SUCCESS \<and> event (k + i) \<noteq> CL_COMPLETE"
    and "answers env (k + d) = CL_SUCCESS \<and> event (k + d) = CL_COMPLETE"
  then show "waitForEventAndRelease env event k =
      Some (if answers env (k + d + 1) = CL_SUCCESS then SDK_SUCCESS else SDK_FAILURE, k + d + 2)"
    using poll_event_skip [of d env event k] poll_event.simps [of env event "k + d"]
    by (simp add: waitForEventAndRelease_def undecided_def)
next
  assume never: "\<forall>n \<ge> k. answers env n = CL_SUCCESS \<and> event n \<noteq> CL_COMPLETE"
  have "poll_event env event k = None"
  proof (rule ccontr)
    assume "poll_event env event k \<noteq> None"
    then obtain r where "poll_event env event k = Some r" by blast
    then show False using poll_event_result [of env event k r] never by auto
  qed
  then show "waitForEventAndRelease env event k = None" by (simp add: waitForEventAndRelease_def)
qed

definition demo_env :: cl_env where
  "demo_env = \<lparr>answers = \<lambda>_. 0,
     platforms = [\<lparr>vendor = ''CASLab'', devices = [(4, ''CAS-GPU'')]\<rparr>, \<lparr>vendor = AMD, devices = []\<rparr>]\<rparr>"

lemma demo_succeeds: "all_succeed demo_env"
  by (simp add: all_succeed_def demo_env_def CL_SUCCESS_def)

theorem wait_for_event_ends_witness:
  "waitForEventAndRelease demo_env (\<lambda>n. if n < 7 then 3 else 0) 5 = Some (SDK_SUCCESS, 9) \<and>
   waitForEventAndRelease (demo_env\<lparr>answers := \<lambda>n. if n < 6 then 0 else - 5\<rparr>) (\<lambda>n. 3) 5 = Some (SDK_FAILURE, 7) \<and>
   waitForEventAndRelease demo_env (\<lambda>n. - 5) 5 = None"
proof (intro conjI)
  have "\<forall>i < 2. answers demo_env (5 + i) = CL_SUCCESS \<and> (if 5 + i < 7 then 3 else 0 :: int) \<noteq> CL_COMPLETE"
    by (simp add: demo_env_def CL_SUCCESS_def CL_COMPLETE_def)
  then show "waitForEventAndRelease demo_env (\<lambda>n. if n < 7 then 3 else 0) 5 = Some (SDK_SUCCESS, 9)"
    using wait_for_event_ends [THEN conjunct1, rule_format, of 2 demo_env 5 "\<lambda>n. if n < 7 then 3 else 0", THEN conjunct2]
    by (simp add: demo_env_def CL_SUCCESS_def CL_COMPLETE_def)
next
  let ?env = "demo_env\<lparr>answers := \<lambda>n. if n < 6 then 0 else - 5\<rparr>"
  have "\<forall>i < 1. answers ?env (5 + i) = CL_SUCCESS \<and> (3 :: int) \<noteq> CL_COMPLETE"
    by (simp add: CL_SUCCESS_def CL_COMPLETE_def)
  then show "waitForEventAndRelease ?env (\<lambda>n. 3) 5 = Some (SDK_FAILURE, 7)"
    using wait_for_event_ends [THEN conjunct1, rule_format, of 1 ?env 5 "\<lambda>n. 3", THEN conjunct1]
    by (simp add: CL_SUCCESS_def)
next
  show "waitForEventAndRelease demo_env (\<lambda>n. - 5) 5 = None"
    using wait_for_event_ends [of demo_env 5 "\<lambda>n. - 5"]
    by (simp add: demo_env_def CL_SUCCESS_def CL_COMPLETE_def)
qed

section \<open>Choosing a platform\<close>

definition first_AMD :: "platform list \<Rightarrow> nat" where
  "first_AMD ps = (if \<exists>p \<in> set ps. vendor p = AMD then length (takeWhile (\<lambda>p. vendor p \<noteq> AMD) ps)
                   else length ps - 1)"

lemma pick_platform_eq:
  assumes "all_succeed env" "ps \<noteq> []"
  shows "\<exists>k'. pick_platform env k i ps cur = ((SDK_SUCCESS, Some (i + first_AMD ps)), k')"
  using assms(2)
proof (induction ps arbitrary: k i cur)
  case (Cons p ps)
  show ?case
  proof (cases "vendor p = AMD \<or> ps = []")
    case True
    then show ?thesis using assms(1) by (auto simp: first_AMD_def all_succeed_def)
  next
    case False
    then obtain k' where "pick_platform env (k + 1) (i + 1) ps (Some i) =
        ((SDK_SUCCESS, Some (i + 1 + first_AMD ps)), k')"
      using Cons.IH by blast
    moreover have "first_AMD (p # ps) = 1 + first_AMD ps"
      using False by (cases ps) (auto simp: first_AMD_def)
    ultimately show ?thesis using False assms(1) by (simp add: all_succeed_def)
  qed
qed simp

text \<open>
  When the calls succeed, a platform asked for by number is chosen if it exists and outside the
  list the program's behaviour is undefined; otherwise the first AMD platform is chosen, or the
  last platform when there is none of AMD.  Without any platform the answer is a failure.\<close>

lemma get_platform_choice:
  assumes "all_succeed env"
  shows "(platforms env = [] \<longrightarrow>
      getPlatform env k None n enabled = Some ((SDK_FAILURE, None), k + 1)) \<and>
    (platforms env \<noteq> [] \<longrightarrow>
      getPlatform env k cur n True =
        (if 0 \<le> n \<and> n < int (length (platforms env))
         then Some ((SDK_SUCCESS, Some (nat n)), k + 2) else None) \<and>
      (\<exists>k'. getPlatform env k cur n False =
        Some ((SDK_SUCCESS, Some (first_AMD (platforms env))), k')))"
proof -
  have "\<exists>k'. getPlatform env k cur n False =
      Some ((SDK_SUCCESS, Some (first_AMD (platforms env))), k')" if "platforms env \<noteq> []"
  proof -
    from pick_platform_eq [OF assms that, of "k + 2" 0 cur] obtain k' where
      "pick_platform env (k + 2) 0 (platforms env) cur = ((SDK_SUCCESS, Some (first_AMD (platforms env))), k')"
      by auto
    then show ?thesis using assms that by (simp add: getPlatform_def Let_def all_succeed_def)
  qed
  then show ?thesis using assms by (auto simp: getPlatform_def Let_def all_succeed_def)
qed

section \<open>Building programs\<close>

text \<open>
  A binary dumped to a file and named with the option for loading goes into the program byte for
  byte, zero bytes included, while a program built from its source gets the source up to the
  first zero byte; and the build is a success only when every file it names could be read.\<close>

lemma build_program_input:
  assumes "all_succeed env" "flagsFileName bd = []"
  shows "(binaryName bd \<noteq> [] \<and> NUL \<notin> set (binaryName bd) \<longrightarrow>
      buildOpenCLProgram env (snd (writeBinaryToFile True (path @ binaryName bd) bin (length bin) fs)) path bd k =
        ((SDK_SUCCESS, Some (From_binary bin, c_str (flagsStr bd))), k + 2)) \<and>
    (binaryName bd = [] \<longrightarrow>
      buildOpenCLProgram env fs path bd k =
        (case fs (path @ c_str (kernelName bd)) of
           None \<Rightarrow> ((SDK_FAILURE, None), k)
         | Some s \<Rightarrow> ((SDK_SUCCESS, Some (From_source (c_str s), c_str (flagsStr bd))), k + 2)))"
proof -
  have "c_str s = s" if "NUL \<notin> set s" for s
    using that by (auto simp: c_str_def)
  then show ?thesis
    using assms
    by (auto simp: buildOpenCLProgram_def create_program_def build_flags_def readBinaryFromFile_def
        writeBinaryToFile_def open_file_def all_succeed_def split: option.splits)
qed

end
