(* ===== verification/Sdk_Sample_Props.thy ===== *)
theory Sdk_Sample_Props
  imports Sdk_Sample Sdk_Args_Props Sdk_Opencl_Props
begin

text \<open>
  The property of the base class of the samples: what an accepted command line guarantees.
\<close>

lemma pick_platform_index:
  assumes "pick_platform env k i ps cur = ((SDK_SUCCESS, p), k')" "ps \<noteq> []"
  shows "p = Some (i + first_AMD ps)"
  using assms
proof (induction ps arbitrary: k i cur)
  case (Cons q ps)
  show ?case
  proof (cases "answers env k \<noteq> CL_SUCCESS \<or> vendor q = AMD")
    case True
    then show ?thesis using Cons.prems by (auto simp: SDK_SUCCESS_def SDK_FAILURE_def first_AMD_def split: if_splits)
  next
    case False
    then have rest: "pick_platform env (k + 1) (i + 1) ps (Some i) = ((SDK_SUCCESS, p), k')"
      using Cons.prems by simp
    show ?thesis
    proof (cases "ps = []")
      case True
      then show ?thesis using rest False by (auto simp: first_AMD_def)
    next
      case ne: False
      have "first_AMD (q # ps) = 1 + first_AMD ps"
        using False ne by (cases ps) (auto simp: first_AMD_def)
      then show ?thesis using Cons.IH [OF rest ne] by simp
    qed
  qed
qed simp

lemma first_AMD_less: "ps \<noteq> [] \<Longrightarrow> first_AMD ps < length ps"
proof (induction ps)
  case (Cons p ps)
  then show ?case by (cases "ps = []") (auto simp: first_AMD_def split: if_splits)
qed simp

lemmas status_codes = SDK_SUCCESS_def SDK_FAILURE_def CL_SUCCESS_def

text \<open>The checks leave the variables alone, whatever they find.\<close>

definition device_type_used :: "sample \<Rightarrow> nat" where
  "device_type_used s =
     (if string_var ''deviceType'' s = ''gpu'' then
        if gpu s then CL_DEVICE_TYPE_GPU else CL_DEVICE_TYPE_CPU
      else CL_DEVICE_TYPE_ALL)"

lemma check_device_success:
  assumes "check_device env k p s = (SDK_SUCCESS, s')" "gpu s"
  shows "vars s' = vars s \<and>
    uint_var ''deviceId'' s' < length (devices_of (platforms env ! p) (device_type_used s'))"
  using assms
  by (auto simp: check_device_def probe_gpu_def counted_type_def device_type_used_def Let_def
      status_codes string_var_def uint_var_def int_var_def CL_DEVICE_TYPE_GPU_def
      CL_DEVICE_TYPE_ALL_def split: if_splits)

lemma validate_success:
  assumes "validatePlatformAndDeviceOptions env s = (SDK_SUCCESS, s')" "platforms env \<noteq> []"
  shows "uint_var ''platformId'' s < length (platforms env) \<and>
    (\<exists>k. check_device env k (if enablePlatform s then uint_var ''platformId'' s
                              else first_AMD (platforms env)) s = (SDK_SUCCESS, s'))"
proof -
  let ?n = "length (platforms env)"
  have id: "uint_var ''platformId'' s < ?n"
    using assms by (auto simp: validatePlatformAndDeviceOptions_def Let_def status_codes split: if_splits)
  obtain r k where pr: "print_platforms env 2 ?n = (r, k)" by (cases "print_platforms env 2 ?n")
  obtain r' p k' where pk: "pick_platform env k 0 (platforms env) None = ((r', p), k')"
    by (cases "pick_platform env k 0 (platforms env) None") auto
  have ok: "r' = SDK_SUCCESS"
    and dev: "check_device env k' (if enablePlatform s then uint_var ''platformId'' s else the p) s = (SDK_SUCCESS, s')"
    using assms pr pk
    by (auto simp: validatePlatformAndDeviceOptions_def Let_def status_codes split: if_splits)
  have "p = Some (first_AMD (platforms env))"
    using pick_platform_index [OF pk [unfolded ok] assms(2)] by simp
  then show ?thesis using id dev by (intro conjI exI [of _ k']) auto
qed

lemma short_arg_set: "isArgSet ca str True \<longleftrightarrow> CHR ''-'' # str \<in> set (saved_argv ca)"
proof -
  have "option_text True arg = Some str \<longleftrightarrow> arg = CHR ''-'' # str" for arg
    by (cases arg) (auto simp: option_text_def)
  then show ?thesis by (simp add: isArgSet_def list_ex_iff)
qed

lemma long_arg_set:
  assumes "char_at str 0 \<noteq> CHR ''-''"
  shows "isArgSet ca str False \<longleftrightarrow> set (saved_argv ca) \<inter> {''--'' @ str, CHR ''-'' # str} \<noteq> {}"
proof -
  have "option_text False arg = Some str \<longleftrightarrow> arg \<in> {''--'' @ str, CHR ''-'' # str}" for arg
    using assms by (cases arg; cases "tl arg") (auto simp: option_text_def)
  then show ?thesis by (auto simp: isArgSet_def list_ex_iff)
qed

text \<open>C20.
  A command line that is accepted contains neither \<open>-h\<close> nor one of the forms of the version option,
  names a device type that exists for the sample, and neither dumps and loads nor loads with
  compiler flags; and if there are platforms, the platform number is one of them, and the device
  number is one of the devices counted on the platform selected, which is that of the platform
  number when the option for it is given (or was set before), and the first platform of AMD, or
  the last one when there is none, otherwise.  For the type \<open>cpu\<close> the devices counted are those of
  every type: a device number is accepted that no CPU has.\<close>

theorem accepted_command_line:
  assumes "parseCommandLine env argv s = Some (Returned SDK_SUCCESS, s')" "gpu s"
  shows "set argv \<inter> {''-h'', ''-v'', ''--version'', ''-version''} = {} \<and>
    string_var ''deviceType'' s' \<in> {''cpu'', ''gpu''} \<union> (if multiDevice s then {''all''} else {}) \<and>
    \<not> (isDumpBinaryEnabled s' \<and> isLoadBinaryEnabled s') \<and>
    \<not> (isLoadBinaryEnabled s' \<and> isComplierFlagsSpecified s') \<and>
    (platforms env \<noteq> [] \<longrightarrow>
      uint_var ''platformId'' s' < length (platforms env) \<and>
      (let selected = (if enablePlatform s \<or> set argv \<inter> {''-p'', ''--platformId'', ''-platformId''} \<noteq> {}
                       then uint_var ''platformId'' s' else first_AMD (platforms env))
       in selected < length (platforms env) \<and>
          uint_var ''deviceId'' s' < length (devices_of (platforms env ! selected) (device_type_used s'))))"
proof -
  obtain ca where ca: "sample_args s = Some ca"
    using assms(1) by (cases "sample_args s") (auto simp: parseCommandLine_def status_codes)
  obtain m ca' vars' where parse: "parse_args ca argv (vars s) = Some (m, ca', vars')"
    using assms(1) by (auto simp: parseCommandLine_def ca bind_eq_Some_conv)
  have argv: "saved_argv ca' = argv"
    using parse by (auto simp: parse_args_def Let_def bind_eq_Some_conv split: if_splits)
  let ?s1 = "s\<lparr>sample_args := Some ca', vars := vars'\<rparr>"
  let ?A = "isArgSet ca' ''p'' True \<or> isArgSet ca' ''platformId'' False"
  let ?B = "isArgSet ca' ''d'' True \<or> isArgSet ca' ''deviceId'' False"
  have asked: "\<not> isArgSet ca' ''h'' True" "\<not> isArgSet ca' ''v'' True" "\<not> isArgSet ca' ''version'' False"
    using assms(1) by (auto simp: parseCommandLine_def ca parse Let_def status_codes split: if_splits)
  obtain ep ed where ep: "ep \<longleftrightarrow> enablePlatform s \<or> ?A"
    and check: "check_options env (?s1\<lparr>enablePlatform := ep, enableDeviceId := ed\<rparr>) = (SDK_SUCCESS, s')"
  proof
    show "(if ?A then True else enablePlatform s) \<longleftrightarrow> enablePlatform s \<or> ?A" by simp
    show "check_options env (?s1\<lparr>enablePlatform := (if ?A then True else enablePlatform s),
        enableDeviceId := (if ?B then True else enableDeviceId s)\<rparr>) = (SDK_SUCCESS, s')"
      using assms(1)
      by (cases ?A; cases ?B)
        (auto simp: parseCommandLine_def ca parse Let_def status_codes split: if_splits prod.splits)
  qed
  have ep: "ep \<longleftrightarrow> enablePlatform s \<or> set argv \<inter> {''-p'', ''--platformId'', ''-platformId''} \<noteq> {}"
    unfolding ep by (auto simp: short_arg_set long_arg_set argv)
  let ?s3 = "?s1\<lparr>enablePlatform := ep, enableDeviceId := ed\<rparr>"
  have valid: "validatePlatformAndDeviceOptions env ?s3 = (SDK_SUCCESS, s')"
    and ty: "string_var ''deviceType'' ?s3 \<in> {''cpu'', ''gpu''} \<union> (if multiDevice s then {''all''} else {})"
    and opts: "\<not> (string_var ''dumpBinary'' ?s3 \<noteq> [] \<and> string_var ''loadBinary'' ?s3 \<noteq> [])"
      "\<not> (string_var ''loadBinary'' ?s3 \<noteq> [] \<and> string_var ''flags'' ?s3 \<noteq> [])"
    using check by (auto simp: check_options_def Let_def status_codes split: if_splits prod.splits)
  let ?p = "if ep then uint_var ''platformId'' s' else first_AMD (platforms env)"
  have dev: "vars s' = vars ?s3 \<and> (platforms env \<noteq> [] \<longrightarrow>
      uint_var ''platformId'' s' < length (platforms env) \<and> ?p < length (platforms env) \<and>
      uint_var ''deviceId'' s' < length (devices_of (platforms env ! ?p) (device_type_used s')))"
  proof (cases "platforms env = []")
    case True
    then show ?thesis
      using valid by (auto simp: validatePlatformAndDeviceOptions_def status_codes split: if_splits)
  next
    case False
    from validate_success [OF valid False] obtain k where
      k: "check_device env k (if ep then uint_var ''platformId'' ?s3 else first_AMD (platforms env)) ?s3
          = (SDK_SUCCESS, s')" and id: "uint_var ''platformId'' ?s3 < length (platforms env)"
      by auto
    have "gpu ?s3" using assms(2) by simp
    from check_device_success [OF k this] show ?thesis
      using id first_AMD_less [OF False] by (auto simp: uint_var_def int_var_def)
  qed
  have same: "string_var a s' = string_var a ?s3" for a using dev by (simp add: string_var_def)
  have "set argv \<inter> {''-h'', ''-v'', ''--version'', ''-version''} = {}"
    using asked by (auto simp: short_arg_set long_arg_set argv)
  then show ?thesis
    using dev ty opts unfolding ep [symmetric] Let_def
    by (simp add: same isDumpBinaryEnabled_def isLoadBinaryEnabled_def isComplierFlagsSpecified_def)
qed

lemma demo_accepted:
  "map_option fst (parseCommandLine demo_env [''prog'', ''-p'', ''0''] (snd (initialize (new_sample False)))) =
    Some (Returned SDK_SUCCESS)"
  by code_simp

theorem accepted_command_line_witness:
  "\<exists>s'. parseCommandLine demo_env [''prog'', ''-p'', ''0''] (snd (initialize (new_sample False))) =
      Some (Returned SDK_SUCCESS, s') \<and> uint_var ''platformId'' s' < length (platforms demo_env)"
proof -
  let ?s = "snd (initialize (new_sample False))"
  obtain s' where run: "parseCommandLine demo_env [''prog'', ''-p'', ''0''] ?s = Some (Returned SDK_SUCCESS, s')"
    using demo_accepted by (cases "parseCommandLine demo_env [''prog'', ''-p'', ''0''] ?s") auto
  have "gpu ?s" by (simp add: initialize_def new_sample_def)
  moreover have "platforms demo_env \<noteq> []" by (simp add: demo_env_def)
  ultimately show ?thesis using run accepted_command_line [OF run] by blast
qed

end
