(* ===== verification/Sdk_Dump.thy ===== *)
theory Sdk_Dump
  imports Sdk_Opencl
begin

text \<open>
  \<open>SDKCommon::generateBinaryImage\<close> (\<open>SDK/SDKUtil/SDKCommon.cpp\<close>): a kernel file is compiled for every
  device of a platform and each binary goes to a file of its own.  \<open>built\<close> are the binaries that the
  library holds after the build, one for each device, empty where the build failed; a file cannot
  be written unless \<open>writable\<close> says so.
\<close>

text \<open>The buffer for a file name has 100 characters; a longer name is undefined behaviour.\<close>

definition image_name :: "string \<Rightarrow> nat \<Rightarrow> string option" where
  "image_name name i =
     (let t = c_str name @ ''.'' @ int_text (int i) in if length t < 100 then Some t else None)"

fun dump_images ::
  "cl_env \<Rightarrow> (string \<Rightarrow> bool) \<Rightarrow> string \<Rightarrow> nat \<Rightarrow> string list \<Rightarrow> nat \<Rightarrow> files \<Rightarrow>
   ((int \<times> files) \<times> nat) option" where
  "dump_images env writable name i [] k fs = Some ((SDK_SUCCESS, fs), k)"
| "dump_images env writable name i (b # bs) k fs =
     do { fileName \<leftarrow> image_name name i;
          if answers env k \<noteq> CL_SUCCESS then Some ((SDK_FAILURE, fs), k + 1)
          else if b \<noteq> [] then
            (case writeBinaryToFile (writable fileName) fileName b (length b) fs of (r, fs') \<Rightarrow>
               if r \<noteq> SDK_SUCCESS then Some ((SDK_FAILURE, fs'), k + 1)
               else dump_images env writable name (i + 1) bs (k + 1) fs')
          else dump_images env writable name (i + 1) bs (k + 1) fs }"

text \<open>\<open>n\<close> calls, each checked.\<close>

fun check_calls :: "cl_env \<Rightarrow> nat \<Rightarrow> nat \<Rightarrow> int \<times> nat" where
  "check_calls env k 0 = (SDK_SUCCESS, k)"
| "check_calls env k (Suc n) =
     (if answers env k \<noteq> CL_SUCCESS then (SDK_FAILURE, k + 1) else check_calls env (k + 1) n)"

text \<open>
  The status of \<open>clBuildProgram\<close> is ignored on purpose.  The four queries ask for the number of
  devices, the devices, the sizes and the binaries; the two releases come last.
\<close>

definition generateBinaryImage ::
  "cl_env \<Rightarrow> (string \<Rightarrow> bool) \<Rightarrow> string list \<Rightarrow> string \<Rightarrow> build_data \<Rightarrow> nat \<Rightarrow> files \<Rightarrow>
   ((int \<times> files) \<times> nat) option" where
  "generateBinaryImage env writable built path bd k fs =
     do { ((r, p), k1) \<leftarrow> getPlatform env k None 0 False;
          if r \<noteq> SDK_SUCCESS then Some ((SDK_FAILURE, fs), k1)
          else if answers env k1 \<noteq> CL_SUCCESS then Some ((SDK_FAILURE, fs), k1 + 1)
          else (case create_program env fs path (bd\<lparr>binaryName := []\<rparr>) (k1 + 1) of ((r, prog), k2) \<Rightarrow>
            (case prog of None \<Rightarrow> Some ((SDK_FAILURE, fs), k2)
             | Some _ \<Rightarrow>
               (case build_flags fs path bd of None \<Rightarrow> Some ((SDK_FAILURE, fs), k2)
                | Some _ \<Rightarrow>
                  (case check_calls env (k2 + 1) 4 of (r, k3) \<Rightarrow>
                     if r \<noteq> SDK_SUCCESS then Some ((SDK_FAILURE, fs), k3)
                     else do { ((r, fs'), k4) \<leftarrow> dump_images env writable (binaryName bd) 0 built k3 fs;
                               if r \<noteq> SDK_SUCCESS then Some ((SDK_FAILURE, fs'), k4)
                               else (case check_calls env k4 2 of (r, k5) \<Rightarrow>
                                       Some ((r, fs'), k5)) })))) }"

end
