(* ===== verification/Sdk_Steps.thy ===== *)
theory Sdk_Steps
  imports Sdk_Opencl_Props
begin

text \<open>
  The shape of the host code of the samples: a sequence of steps, each of which returns a status,
  and an early return with \<open>SDK_FAILURE\<close> at the first one that fails (the macros \<open>CHECK_ERROR\<close> and
  \<open>CHECK_OPENCL_ERROR\<close>).  A step transforms the state of the program and the number of calls of the
  OpenCL library made so far; \<^const>\<open>None\<close> is undefined behaviour, or a call that never returns.
\<close>

section \<open>Steps\<close>

type_synonym 's step = "'s \<times> nat \<Rightarrow> (int \<times> 's \<times> nat) option"

fun run_steps :: "'s step list \<Rightarrow> 's step" where
  "run_steps [] (s, k) = Some (SDK_SUCCESS, s, k)"
| "run_steps (f # fs) (s, k) =
     do { (r, s', k') \<leftarrow> f (s, k);
          if r \<noteq> SDK_SUCCESS then Some (SDK_FAILURE, s', k') else run_steps fs (s', k') }"

text \<open>A call of the library, with its effect when it succeeds, and a step without one.\<close>

definition cl_call :: "cl_env \<Rightarrow> (nat \<Rightarrow> 's \<Rightarrow> 's option) \<Rightarrow> 's step" where
  "cl_call env f = (\<lambda>(s, k).
     if answers env k \<noteq> CL_SUCCESS then Some (SDK_FAILURE, s, k + 1)
     else do { s' \<leftarrow> f k s; Some (SDK_SUCCESS, s', k + 1) })"

definition flush :: "cl_env \<Rightarrow> 's step" where
  "flush env = cl_call env (\<lambda>_. Some)"

definition wait_event :: "cl_env \<Rightarrow> (nat \<Rightarrow> int) \<Rightarrow> 's step" where
  "wait_event env event = (\<lambda>(s, k).
     do { (r, k') \<leftarrow> waitForEventAndRelease env event k; Some (r, s, k') })"

section \<open>Success\<close>

lemma failure_not_success [simp]: "SDK_FAILURE \<noteq> SDK_SUCCESS" "SDK_SUCCESS \<noteq> SDK_FAILURE"
  by (simp_all add: SDK_SUCCESS_def SDK_FAILURE_def)

named_theorems succeeds

lemma run_steps_success [succeeds]:
  "run_steps [] sk = Some (SDK_SUCCESS, t, n) \<longleftrightarrow> sk = (t, n)"
  "run_steps (f # fs) sk = Some (SDK_SUCCESS, t, n) \<longleftrightarrow>
     (\<exists>s' k'. f sk = Some (SDK_SUCCESS, s', k') \<and> run_steps fs (s', k') = Some (SDK_SUCCESS, t, n))"
  by (cases sk; auto simp: bind_eq_Some_conv split: if_splits)+

lemma cl_call_success [succeeds]:
  "cl_call env f (s, k) = Some (SDK_SUCCESS, t, n) \<longleftrightarrow>
     answers env k = CL_SUCCESS \<and> f k s = Some t \<and> n = k + 1"
  by (auto simp: cl_call_def bind_eq_Some_conv)

lemma flush_success [succeeds]:
  "flush env (s, k) = Some (SDK_SUCCESS, t, n) \<longleftrightarrow> answers env k = CL_SUCCESS \<and> t = s \<and> n = k + 1"
  by (auto simp: flush_def cl_call_success)

lemma wait_event_success [succeeds]:
  "wait_event env event (s, k) = Some (SDK_SUCCESS, t, n) \<longleftrightarrow>
     t = s \<and> waitForEventAndRelease env event k = Some (SDK_SUCCESS, n)"
  by (auto simp: wait_event_def bind_eq_Some_conv)

declare run_steps.simps(2) [simp del]

lemma run_steps_append:
  "run_steps (fs @ gs) sk = Some (SDK_SUCCESS, t, n) \<longleftrightarrow>
     (\<exists>s' k'. run_steps fs sk = Some (SDK_SUCCESS, s', k') \<and> run_steps gs (s', k') = Some (SDK_SUCCESS, t, n))"
proof (induction fs arbitrary: sk)
  case Nil
  then show ?case by (cases sk) (simp add: succeeds)
next
  case (Cons f fs)
  then show ?case by (simp add: succeeds) blast
qed


section \<open>Pre- and postconditions\<close>

text \<open>
  \<open>meets sure f P Q\<close>: from a state with \<open>P\<close>, the step ends in a state with \<open>Q\<close> whenever it
  succeeds, and when \<open>sure\<close> is set it does succeed.  With \<open>sure\<close> a variable, one proof gives both
  what a success means and, in an environment where the calls succeed, that there is one.
\<close>

definition meets :: "bool \<Rightarrow> 's step \<Rightarrow> ('s \<Rightarrow> bool) \<Rightarrow> ('s \<Rightarrow> bool) \<Rightarrow> bool" where
  "meets sure f P Q \<longleftrightarrow> (\<forall>s k. P s \<longrightarrow>
     (\<forall>t n. f (s, k) = Some (SDK_SUCCESS, t, n) \<longrightarrow> Q t) \<and>
     (sure \<longrightarrow> (\<exists>t n. f (s, k) = Some (SDK_SUCCESS, t, n))))"

lemma meetsD: "meets sure f P Q \<Longrightarrow> P s \<Longrightarrow> f (s, k) = Some (SDK_SUCCESS, t, n) \<Longrightarrow> Q t"
  unfolding meets_def by blast

lemma meets_sure: "meets True f P Q \<Longrightarrow> P s \<Longrightarrow> \<exists>t n. f (s, k) = Some (SDK_SUCCESS, t, n) \<and> Q t"
  unfolding meets_def by blast

lemma meets_start:
  assumes "meets sure g P Q" "\<And>s k. R s \<Longrightarrow> \<exists>t. f (s, k) = g (t, k) \<and> P t"
  shows "meets sure f R Q"
  unfolding meets_def
proof (intro allI impI)
  fix s k assume "R s"
  then obtain t where t: "f (s, k) = g (t, k)" "P t" using assms(2) by blast
  then show "(\<forall>t n. f (s, k) = Some (SDK_SUCCESS, t, n) \<longrightarrow> Q t) \<and>
      (sure \<longrightarrow> (\<exists>t n. f (s, k) = Some (SDK_SUCCESS, t, n)))"
    using assms(1) unfolding meets_def by presburger
qed

lemma meets_returns:
  assumes "\<And>s k. P s \<Longrightarrow> \<exists>t k'. f (s, k) = Some (SDK_SUCCESS, t, k') \<and> Q t"
  shows "meets sure f P Q"
  unfolding meets_def
proof (intro allI impI)
  fix s k assume "P s"
  then obtain t k' where "f (s, k) = Some (SDK_SUCCESS, t, k')" "Q t" using assms by blast
  then show "(\<forall>t n. f (s, k) = Some (SDK_SUCCESS, t, n) \<longrightarrow> Q t) \<and>
      (sure \<longrightarrow> (\<exists>t n. f (s, k) = Some (SDK_SUCCESS, t, n)))"
    by simp
qed

lemma meets_conseq:
  "meets sure f P Q \<Longrightarrow> (\<And>s. P' s \<Longrightarrow> P s) \<Longrightarrow> (\<And>s. Q s \<Longrightarrow> Q' s) \<Longrightarrow> meets sure f P' Q'"
  unfolding meets_def by blast

lemma meets_same:
  assumes "meets sure g P Q" "\<And>s k. P s \<Longrightarrow> f (s, k) = g (s, k)"
  shows "meets sure f P Q"
  unfolding meets_def
proof (intro allI impI)
  fix s k assume "P s"
  then show "(\<forall>t n. f (s, k) = Some (SDK_SUCCESS, t, n) \<longrightarrow> Q t) \<and>
      (sure \<longrightarrow> (\<exists>t n. f (s, k) = Some (SDK_SUCCESS, t, n)))"
    using assms(1) unfolding meets_def assms(2) [OF \<open>P s\<close>] by blast
qed

lemma meets_then_stop:
  assumes "meets sure f P Q" "\<And>s k. Q s \<Longrightarrow> g (s, k) = Some (SDK_SUCCESS, s, k)"
  shows "meets sure (\<lambda>(s, k). Option.bind (f (s, k))
    (\<lambda>(r, s, k). if r \<noteq> SDK_SUCCESS then Some (SDK_FAILURE, s, k) else g (s, k))) P Q"
  unfolding meets_def
proof (intro allI impI conjI)
  fix s k assume P: "P s"
  { fix t n assume "(\<lambda>(s, k). Option.bind (f (s, k))
      (\<lambda>(r, s, k). if r \<noteq> SDK_SUCCESS then Some (SDK_FAILURE, s, k) else g (s, k))) (s, k) = Some (SDK_SUCCESS, t, n)"
    then obtain t1 n1 where t1: "f (s, k) = Some (SDK_SUCCESS, t1, n1)" "g (t1, n1) = Some (SDK_SUCCESS, t, n)"
      by (auto simp: bind_eq_Some_conv split: if_splits)
    then have "Q t1" using assms(1) P unfolding meets_def by blast
    then show "Q t" using t1(2) assms(2) by simp }
  assume sure
  then obtain t1 n1 where t1: "f (s, k) = Some (SDK_SUCCESS, t1, n1)" using assms(1) P unfolding meets_def by blast
  then have "Q t1" using assms(1) P unfolding meets_def by blast
  then show "\<exists>t n. (\<lambda>(s, k). Option.bind (f (s, k))
      (\<lambda>(r, s, k). if r \<noteq> SDK_SUCCESS then Some (SDK_FAILURE, s, k) else g (s, k))) (s, k) = Some (SDK_SUCCESS, t, n)"
    using t1 assms(2) by simp
qed

lemma meets_ex: "(\<And>x. meets sure f (P x) (Q x)) \<Longrightarrow> meets sure f (\<lambda>s. \<exists>x. P x s) (\<lambda>s. \<exists>x. Q x s)"
  unfolding meets_def by blast

lemma meets_Nil: "(\<And>s. P s \<Longrightarrow> Q s) \<Longrightarrow> meets sure (run_steps []) P Q"
  by (simp add: meets_def run_steps_success)

lemma meets_append:
  assumes "meets sure (run_steps fs) P R" "meets sure (run_steps gs) R Q"
  shows "meets sure (run_steps (fs @ gs)) P Q"
  using assms unfolding meets_def run_steps_append by blast

lemma meets_Cons:
  assumes "meets sure f P R" "meets sure (run_steps fs) R Q"
  shows "meets sure (run_steps (f # fs)) P Q"
  using assms unfolding meets_def run_steps_success(2) by blast

lemma meets_call:
  assumes "sure \<Longrightarrow> all_succeed env" "\<And>s k. P s \<Longrightarrow> \<exists>t. f k s = Some t \<and> Q t"
  shows "meets sure (cl_call env f) P Q"
  unfolding meets_def
proof (intro allI impI)
  fix s k assume "P s"
  then obtain t where "f k s = Some t" "Q t" using assms(2) by blast
  then show "(\<forall>t n. cl_call env f (s, k) = Some (SDK_SUCCESS, t, n) \<longrightarrow> Q t) \<and>
      (sure \<longrightarrow> (\<exists>t n. cl_call env f (s, k) = Some (SDK_SUCCESS, t, n)))"
    using assms(1) by (auto simp: cl_call_success all_succeed_def)
qed

lemma meets_call_partial:
  assumes "sure \<Longrightarrow> all_succeed env" "\<And>s k t. P s \<Longrightarrow> f k s = Some t \<Longrightarrow> Q t"
    and "\<And>s k. sure \<Longrightarrow> P s \<Longrightarrow> f k s \<noteq> None"
  shows "meets sure (cl_call env f) P Q"
  using assms unfolding meets_def by (fastforce simp: cl_call_success all_succeed_def)

lemma meets_flush: "(sure \<Longrightarrow> all_succeed env) \<Longrightarrow> meets sure (flush env) P P"
  unfolding flush_def by (rule meets_call) auto

lemma meets_local:
  "(\<And>s. P s \<Longrightarrow> Q (f s)) \<Longrightarrow> meets sure (\<lambda>(s, k). Some (SDK_SUCCESS, f s, k)) P Q"
  by (auto simp: meets_def)

text \<open>Every event is reported complete at some time.\<close>

definition completes :: "(nat \<Rightarrow> int) \<Rightarrow> bool" where
  "completes event \<longleftrightarrow> (\<forall>k. \<exists>d. event (k + d) = CL_COMPLETE)"

lemma wait_returns:
  assumes "all_succeed env" "completes event"
  shows "\<exists>n. waitForEventAndRelease env event k = Some (SDK_SUCCESS, n)"
proof -
  let ?d = "LEAST d. event (k + d) = CL_COMPLETE"
  have "event (k + ?d) = CL_COMPLETE"
    using assms(2) LeastI_ex [of "\<lambda>d. event (k + d) = CL_COMPLETE"] by (auto simp: completes_def)
  moreover have "\<forall>i < ?d. event (k + i) \<noteq> CL_COMPLETE" using not_less_Least by blast
  ultimately have "poll_event env event k = Some (SDK_SUCCESS, k + ?d + 1)"
    using poll_event_ends [OF assms(1)] by blast
  then show ?thesis using assms(1) by (simp add: waitForEventAndRelease_def all_succeed_def)
qed

lemma meets_wait:
  "(sure \<Longrightarrow> all_succeed env \<and> completes event) \<Longrightarrow> meets sure (wait_event env event) P P"
  using wait_returns by (auto simp: meets_def wait_event_success)

text \<open>\<open>fails f P\<close>: from a state with \<open>P\<close> the step ends and reports failure.\<close>

definition fails :: "'s step \<Rightarrow> ('s \<Rightarrow> bool) \<Rightarrow> bool" where
  "fails f P \<longleftrightarrow> (\<forall>s k. P s \<longrightarrow> (\<exists>t n. f (s, k) = Some (SDK_FAILURE, t, n)))"

lemma fails_first:
  assumes "fails f P"
  shows "fails (run_steps (f # fs)) P"
  unfolding fails_def
proof (intro allI impI)
  fix s k assume "P s"
  then obtain t n where "f (s, k) = Some (SDK_FAILURE, t, n)" using assms unfolding fails_def by blast
  then show "\<exists>t n. run_steps (f # fs) (s, k) = Some (SDK_FAILURE, t, n)" by (simp add: run_steps.simps)
qed

lemma run_steps_after:
  "run_steps fs sk = Some (SDK_SUCCESS, t, n) \<Longrightarrow> run_steps (fs @ gs) sk = run_steps gs (t, n)"
proof (induction fs arbitrary: sk)
  case (Cons f fs)
  then obtain t' n' where "f sk = Some (SDK_SUCCESS, t', n')" "run_steps fs (t', n') = Some (SDK_SUCCESS, t, n)"
    by (auto simp: run_steps_success)
  then show ?case using Cons.IH by (cases sk) (simp add: run_steps.simps)
qed (simp add: run_steps_success)

lemma fails_append:
  assumes "meets True (run_steps fs) P Q" "fails (run_steps gs) Q"
  shows "fails (run_steps (fs @ gs)) P"
  unfolding fails_def
proof (intro allI impI)
  fix s k assume "P s"
  then obtain t n where t: "run_steps fs (s, k) = Some (SDK_SUCCESS, t, n)" "Q t"
    using meets_sure [OF assms(1)] by blast
  then show "\<exists>t n. run_steps (fs @ gs) (s, k) = Some (SDK_FAILURE, t, n)"
    using assms(2) unfolding run_steps_after [OF t(1)] fails_def by blast
qed

lemma fails_Cons: "meets True f P Q \<Longrightarrow> fails (run_steps fs) Q \<Longrightarrow> fails (run_steps (f # fs)) P"
  using fails_append [OF meets_Cons [OF _ meets_Nil], of f P Q Q fs] by simp

lemma meets_loop:
  assumes "\<And>i. lo \<le> i \<Longrightarrow> i < hi \<Longrightarrow> meets sure (f i) (I i) (I (Suc i))" "lo \<le> hi"
  shows "meets sure (run_steps (map f [lo..<hi])) (I lo) (I hi)"
  using assms
proof (induction hi)
  case (Suc hi)
  show ?case
  proof (cases "lo = Suc hi")
    case False
    have "meets sure (run_steps (map f [lo..<hi])) (I lo) (I hi)"
      using Suc.IH Suc.prems False by simp
    moreover have "meets sure (run_steps [f hi]) (I hi) (I (Suc hi))"
      by (rule meets_Cons [OF Suc.prems(1) meets_Nil]) (use Suc.prems(2) False in auto)
    ultimately show ?thesis using meets_append Suc.prems(2) False by fastforce
  qed (simp add: meets_Nil)
qed (simp add: meets_Nil)

lemma meets_replicate:
  assumes "meets sure f I I"
  shows "meets sure (run_steps (replicate m f)) I I"
  using assms by (induction m) (auto intro: meets_Nil meets_Cons)

end
