(* ===== verification/Sdk_Device.thy ===== *)
theory Sdk_Device
  imports Sdk_Steps
begin

text \<open>
  \<open>SDKDeviceInfo\<close> (\<open>SDK/SDKUtil/SDKCommon.cpp\<close> and its header): the object that holds what a device
  reports about itself.  Its fields are the keys of a map; an array that is a null pointer has no
  entry, one that has been allocated only is \<open>Uninitialised\<close>.  What the device reports is a parameter, by the names of the constants of OpenCL.
\<close>

datatype info_value = Number nat | Sizes "nat list" | Text string | Uninitialised

type_synonym device_info = "string \<Rightarrow> info_value option"

record device_report =
  number_of :: "string \<Rightarrow> nat"
  item_size :: "nat \<Rightarrow> nat"
  text_of :: "string \<Rightarrow> string"

section \<open>The fields and what fills them\<close>

definition size_queries :: "(string \<times> string) list" where
  "size_queries =
     [(''dType'', ''CL_DEVICE_TYPE''), (''venderId'', ''CL_DEVICE_VENDOR_ID''),
      (''maxComputeUnits'', ''CL_DEVICE_MAX_COMPUTE_UNITS''), (''maxWorkItemDims'', ''CL_DEVICE_MAX_WORK_ITEM_DIMENSIONS'')]"

definition number_queries :: "(string \<times> string) list" where
  "number_queries =
     [(''maxWorkGroupSize'', ''CL_DEVICE_MAX_WORK_GROUP_SIZE''), (''preferredCharVecWidth'', ''CL_DEVICE_PREFERRED_VECTOR_WIDTH_CHAR''),
      (''preferredShortVecWidth'', ''CL_DEVICE_PREFERRED_VECTOR_WIDTH_SHORT''), (''preferredIntVecWidth'', ''CL_DEVICE_PREFERRED_VECTOR_WIDTH_INT''),
      (''preferredLongVecWidth'', ''CL_DEVICE_PREFERRED_VECTOR_WIDTH_LONG''), (''preferredFloatVecWidth'', ''CL_DEVICE_PREFERRED_VECTOR_WIDTH_FLOAT''),
      (''preferredDoubleVecWidth'', ''CL_DEVICE_PREFERRED_VECTOR_WIDTH_DOUBLE''), (''preferredHalfVecWidth'', ''CL_DEVICE_PREFERRED_VECTOR_WIDTH_HALF''),
      (''maxClockFrequency'', ''CL_DEVICE_MAX_CLOCK_FREQUENCY''), (''addressBits'', ''CL_DEVICE_ADDRESS_BITS''),
      (''maxMemAllocSize'', ''CL_DEVICE_MAX_MEM_ALLOC_SIZE''), (''imageSupport'', ''CL_DEVICE_IMAGE_SUPPORT''),
      (''maxReadImageArgs'', ''CL_DEVICE_MAX_READ_IMAGE_ARGS''), (''maxWriteImageArgs'', ''CL_DEVICE_MAX_WRITE_IMAGE_ARGS''),
      (''image2dMaxWidth'', ''CL_DEVICE_IMAGE2D_MAX_WIDTH''), (''image2dMaxHeight'', ''CL_DEVICE_IMAGE2D_MAX_HEIGHT''),
      (''image3dMaxWidth'', ''CL_DEVICE_IMAGE3D_MAX_WIDTH''), (''image3dMaxHeight'', ''CL_DEVICE_IMAGE3D_MAX_HEIGHT''),
      (''image3dMaxDepth'', ''CL_DEVICE_IMAGE3D_MAX_DEPTH''), (''maxSamplers'', ''CL_DEVICE_MAX_SAMPLERS''),
      (''maxParameterSize'', ''CL_DEVICE_MAX_PARAMETER_SIZE''), (''memBaseAddressAlign'', ''CL_DEVICE_MEM_BASE_ADDR_ALIGN''),
      (''minDataTypeAlignSize'', ''CL_DEVICE_MIN_DATA_TYPE_ALIGN_SIZE''), (''singleFpConfig'', ''CL_DEVICE_SINGLE_FP_CONFIG''),
      (''doubleFpConfig'', ''CL_DEVICE_DOUBLE_FP_CONFIG''), (''globleMemCacheType'', ''CL_DEVICE_GLOBAL_MEM_CACHE_TYPE''),
      (''globalMemCachelineSize'', ''CL_DEVICE_GLOBAL_MEM_CACHELINE_SIZE''), (''globalMemCacheSize'', ''CL_DEVICE_GLOBAL_MEM_CACHE_SIZE''),
      (''globalMemSize'', ''CL_DEVICE_GLOBAL_MEM_SIZE''), (''maxConstBufSize'', ''CL_DEVICE_MAX_CONSTANT_BUFFER_SIZE''),
      (''maxConstArgs'', ''CL_DEVICE_MAX_CONSTANT_ARGS''), (''localMemType'', ''CL_DEVICE_LOCAL_MEM_TYPE''),
      (''localMemSize'', ''CL_DEVICE_LOCAL_MEM_SIZE''), (''errCorrectionSupport'', ''CL_DEVICE_ERROR_CORRECTION_SUPPORT''),
      (''timerResolution'', ''CL_DEVICE_PROFILING_TIMER_RESOLUTION''), (''endianLittle'', ''CL_DEVICE_ENDIAN_LITTLE''),
      (''available'', ''CL_DEVICE_AVAILABLE''), (''compilerAvailable'', ''CL_DEVICE_COMPILER_AVAILABLE''),
      (''execCapabilities'', ''CL_DEVICE_EXECUTION_CAPABILITIES''), (''queueProperties'', ''CL_DEVICE_QUEUE_PROPERTIES''),
      (''platform'', ''CL_DEVICE_PLATFORM'')]"

definition text_queries :: "(string \<times> string) list" where
  "text_queries =
     [(''name'', ''CL_DEVICE_NAME''), (''vendorName'', ''CL_DEVICE_VENDOR''),
      (''driverVersion'', ''CL_DRIVER_VERSION''), (''profileType'', ''CL_DEVICE_PROFILE''),
      (''deviceVersion'', ''CL_DEVICE_VERSION''), (''extensions'', ''CL_DEVICE_EXTENSIONS'')]"

text \<open>Devices above version 1.0 only.\<close>

definition later_queries :: "(string \<times> string) list" where
  "later_queries =
     [(''nativeCharVecWidth'', ''CL_DEVICE_NATIVE_VECTOR_WIDTH_CHAR''), (''nativeShortVecWidth'', ''CL_DEVICE_NATIVE_VECTOR_WIDTH_SHORT''),
      (''nativeIntVecWidth'', ''CL_DEVICE_NATIVE_VECTOR_WIDTH_INT''), (''nativeLongVecWidth'', ''CL_DEVICE_NATIVE_VECTOR_WIDTH_LONG''),
      (''nativeFloatVecWidth'', ''CL_DEVICE_NATIVE_VECTOR_WIDTH_FLOAT''), (''nativeDoubleVecWidth'', ''CL_DEVICE_NATIVE_VECTOR_WIDTH_DOUBLE''),
      (''nativeHalfVecWidth'', ''CL_DEVICE_NATIVE_VECTOR_WIDTH_HALF''), (''hostUnifiedMem'', ''CL_DEVICE_HOST_UNIFIED_MEMORY'')]"

text \<open>The constructor: numbers are 0 but for a few.\<close>

definition new_device_info :: device_info where
  "new_device_info =
     (map_of (map (\<lambda>(f, _). (f, Number 0)) (size_queries @ number_queries @ later_queries)))
       (''dType'' \<mapsto> Number CL_DEVICE_TYPE_GPU, ''singleFpConfig'' \<mapsto> Number 6, ''doubleFpConfig'' \<mapsto> Number 63,
        ''localMemType'' \<mapsto> Number 1, ''execCapabilities'' \<mapsto> Number 1)"

section \<open>Asking the device\<close>

definition ask_number :: "cl_env \<Rightarrow> device_report \<Rightarrow> string \<times> string \<Rightarrow> device_info step" where
  "ask_number env dev = (\<lambda>(field, c). cl_call env (\<lambda>_ i. Some (i(field \<mapsto> Number (number_of dev c)))))"

text \<open>
  An array is allocated with \<open>new[]\<close> and freed with \<open>delete\<close>, which is undefined: only a null pointer
  can be freed so, and a second call for the same object has no defined behaviour.
\<close>

definition ask_sizes :: "cl_env \<Rightarrow> device_report \<Rightarrow> device_info step" where
  "ask_sizes env dev = (\<lambda>(i, k).
     if i ''maxWorkItemSizes'' \<noteq> None then None
     else case i ''maxWorkItemDims'' of
       Some (Number n) \<Rightarrow>
         cl_call env (\<lambda>_ i. Some (i(''maxWorkItemSizes'' \<mapsto> Sizes (map (item_size dev) [0..<n]))))
           (i(''maxWorkItemSizes'' \<mapsto> Uninitialised), k)
     | _ \<Rightarrow> None)"

text \<open>The size of a text is asked for first.\<close>

definition ask_text :: "cl_env \<Rightarrow> device_report \<Rightarrow> string \<times> string \<Rightarrow> device_info step" where
  "ask_text env dev = (\<lambda>(field, c). run_steps
     [cl_call env (\<lambda>_. Some),
      \<lambda>(i, k). if i field \<noteq> None then None
              else cl_call env (\<lambda>_ i. Some (i(field \<mapsto> Text (text_of dev c)))) (i(field \<mapsto> Uninitialised), k)])"

text \<open>The second word of the version, or the whole text if it has no blank.\<close>

definition version_word :: "string \<Rightarrow> string" where
  "version_word v =
     (case dropWhile (\<lambda>c. c \<noteq> CHR '' '') v of
        [] \<Rightarrow> v
      | _ # rest \<Rightarrow> takeWhile (\<lambda>c. c \<noteq> CHR '' '') rest)"

text \<open>\<open>compare\<close> with a positive result.\<close>

fun string_above :: "string \<Rightarrow> string \<Rightarrow> bool" where
  "string_above [] _ = False"
| "string_above (c # s) [] = True"
| "string_above (c # s) (d # t) = (if c = d then string_above s t else (of_char d :: nat) < of_char c)"

definition ask_later :: "cl_env \<Rightarrow> device_report \<Rightarrow> device_info step" where
  "ask_later env dev = (\<lambda>(i, k).
     case i ''deviceVersion'' of
       Some (Text v) \<Rightarrow>
         run_steps
           (if string_above (version_word (c_str v)) ''1.0''
            then map (ask_number env dev) later_queries @ [ask_text env dev (''openclCVersion'', ''CL_DEVICE_OPENCL_C_VERSION'')]
            else []) (i, k)
     | _ \<Rightarrow> None)"

definition setDeviceInfo :: "cl_env \<Rightarrow> device_report \<Rightarrow> device_info step" where
  "setDeviceInfo env dev = run_steps
     (map (ask_number env dev) size_queries @ [ask_sizes env dev] @
      map (ask_number env dev) number_queries @ map (ask_text env dev) text_queries @ [ask_later env dev])"

text \<open>
  The destructor frees the arrays with \<open>delete\<close> too, which is defined for null pointers only.
\<close>

definition info_arrays :: "string list" where
  "info_arrays =
     [''maxWorkItemSizes'', ''name'', ''vendorName'', ''driverVersion'', ''profileType'', ''deviceVersion'',
      ''openclCVersion'', ''extensions'']"

definition destroy_device_info :: "device_info \<Rightarrow> device_info option" where
  "destroy_device_info i = (if \<forall>f \<in> set info_arrays. i f = None then Some i else None)"

section \<open>What the object holds afterwards\<close>

definition with_numbers :: "device_report \<Rightarrow> (string \<times> string) list \<Rightarrow> device_info \<Rightarrow> device_info" where
  "with_numbers dev qs i = fold (\<lambda>(f, c) i. i(f \<mapsto> Number (number_of dev c))) qs i"

definition with_texts :: "device_report \<Rightarrow> (string \<times> string) list \<Rightarrow> device_info \<Rightarrow> device_info" where
  "with_texts dev qs i = fold (\<lambda>(f, c) i. i(f \<mapsto> Text (text_of dev c))) qs i"

definition reported :: "device_report \<Rightarrow> device_info" where
  "reported dev =
     (let i = (with_numbers dev size_queries new_device_info)
                (''maxWorkItemSizes'' \<mapsto>
                   Sizes (map (item_size dev) [0..<number_of dev ''CL_DEVICE_MAX_WORK_ITEM_DIMENSIONS'']));
          i = with_texts dev text_queries (with_numbers dev number_queries i)
      in if string_above (version_word (c_str (text_of dev ''CL_DEVICE_VERSION''))) ''1.0''
         then with_texts dev [(''openclCVersion'', ''CL_DEVICE_OPENCL_C_VERSION'')] (with_numbers dev later_queries i)
         else i)"

lemma ask_numbers_ok:
  assumes "sure \<Longrightarrow> all_succeed env"
  shows "meets sure (run_steps (map (ask_number env dev) qs)) (\<lambda>i. i = i0) (\<lambda>i. i = with_numbers dev qs i0)"
proof (induction qs arbitrary: i0)
  case (Cons q qs)
  obtain f c where q: "q = (f, c)" by (cases q)
  show ?case unfolding list.map
  proof (rule meets_Cons)
    show "meets sure (ask_number env dev q) (\<lambda>i. i = i0) (\<lambda>i. i = i0(f \<mapsto> Number (number_of dev c)))"
      unfolding ask_number_def q by (auto intro!: meets_call assms)
    show "meets sure (run_steps (map (ask_number env dev) qs)) (\<lambda>i. i = i0(f \<mapsto> Number (number_of dev c)))
        (\<lambda>i. i = with_numbers dev (q # qs) i0)"
      using Cons.IH by (simp add: with_numbers_def q)
  qed
qed (simp add: meets_Nil with_numbers_def)

lemma ask_text_ok:
  assumes "sure \<Longrightarrow> all_succeed env" "i0 f = None"
  shows "meets sure (ask_text env dev (f, c)) (\<lambda>i. i = i0) (\<lambda>i. i = i0(f \<mapsto> Text (text_of dev c)))"
  unfolding ask_text_def prod.case
proof (intro meets_Cons)
  show "meets sure (cl_call env (\<lambda>_. Some)) (\<lambda>i. i = i0) (\<lambda>i. i = i0)"
    by (auto intro!: meets_call assms)
  show "meets sure (\<lambda>(i, k). if i f \<noteq> None then None
        else cl_call env (\<lambda>_ i. Some (i(f \<mapsto> Text (text_of dev c)))) (i(f \<mapsto> Uninitialised), k))
      (\<lambda>i. i = i0) (\<lambda>i. i = i0(f \<mapsto> Text (text_of dev c)))"
    using assms by (auto simp: meets_def cl_call_success all_succeed_def)
qed (rule meets_Nil)

lemma ask_texts_ok:
  assumes "sure \<Longrightarrow> all_succeed env" "distinct (map fst qs)" "\<forall>f \<in> fst ` set qs. i0 f = None"
  shows "meets sure (run_steps (map (ask_text env dev) qs)) (\<lambda>i. i = i0) (\<lambda>i. i = with_texts dev qs i0)"
  using assms(2,3)
proof (induction qs arbitrary: i0)
  case (Cons q qs)
  obtain f c where q: "q = (f, c)" by (cases q)
  show ?case unfolding list.map
  proof (rule meets_Cons)
    show "meets sure (ask_text env dev q) (\<lambda>i. i = i0) (\<lambda>i. i = i0(f \<mapsto> Text (text_of dev c)))"
      unfolding q using Cons.prems q by (intro ask_text_ok assms(1)) simp_all
    have "\<forall>f' \<in> fst ` set qs. (i0(f \<mapsto> Text (text_of dev c))) f' = None" using Cons.prems q by auto
    then show "meets sure (run_steps (map (ask_text env dev) qs)) (\<lambda>i. i = i0(f \<mapsto> Text (text_of dev c)))
        (\<lambda>i. i = with_texts dev (q # qs) i0)"
      using Cons.IH Cons.prems by (simp add: with_texts_def q)
  qed
qed (simp add: meets_Nil with_texts_def)

text \<open>Looking a field up.\<close>

lemma with_numbers_lookup:
  assumes "distinct (map fst qs)"
  shows "with_numbers dev qs i f =
    (case map_of qs f of None \<Rightarrow> i f | Some c \<Rightarrow> Some (Number (number_of dev c)))"
  using assms unfolding with_numbers_def
proof (induction qs arbitrary: i)
  case (Cons q qs)
  then have "f = fst q \<Longrightarrow> map_of qs f = None" by (simp add: map_of_eq_None_iff)
  then show ?case using Cons by (auto simp: case_prod_unfold split: option.splits)
qed simp

lemma with_texts_lookup:
  assumes "distinct (map fst qs)"
  shows "with_texts dev qs i f =
    (case map_of qs f of None \<Rightarrow> i f | Some c \<Rightarrow> Some (Text (text_of dev c)))"
  using assms unfolding with_texts_def
proof (induction qs arbitrary: i)
  case (Cons q qs)
  then have "f = fst q \<Longrightarrow> map_of qs f = None" by (simp add: map_of_eq_None_iff)
  then show ?case using Cons by (auto simp: case_prod_unfold split: option.splits)
qed simp

lemma distinct_queries:
  "distinct (map fst size_queries)" "distinct (map fst number_queries)"
  "distinct (map fst later_queries)" "distinct (map fst text_queries)"
  by code_simp+

lemmas lookups = with_numbers_lookup [OF distinct_queries(1)] with_numbers_lookup [OF distinct_queries(2)]
  with_numbers_lookup [OF distinct_queries(3)] with_texts_lookup [OF distinct_queries(4)]

lemma no_text_yet: "fst ` set text_queries \<inter> fst ` set (size_queries @ number_queries @ later_queries) = {}"
  by code_simp

lemma new_info_text: "f \<in> fst ` set text_queries \<Longrightarrow> new_device_info f = None"
proof -
  have "\<forall>f \<in> set (map fst text_queries). new_device_info f = None" by code_simp
  then show "f \<in> fst ` set text_queries \<Longrightarrow> new_device_info f = None" by auto
qed

lemma setDeviceInfo_ok:
  assumes "sure \<Longrightarrow> all_succeed env"
  shows "meets sure (setDeviceInfo env dev) (\<lambda>i. i = new_device_info) (\<lambda>i. i = reported dev)"
proof -
  let ?i1 = "with_numbers dev size_queries new_device_info"
  let ?n = "number_of dev ''CL_DEVICE_MAX_WORK_ITEM_DIMENSIONS''"
  let ?i2 = "?i1(''maxWorkItemSizes'' \<mapsto> Sizes (map (item_size dev) [0..<?n]))"
  let ?i3 = "with_numbers dev number_queries ?i2"
  let ?i4 = "with_texts dev text_queries ?i3"
  let ?v = "text_of dev ''CL_DEVICE_VERSION''"
  have found: "map_of size_queries ''maxWorkItemSizes'' = None" "new_device_info ''maxWorkItemSizes'' = None"
    "map_of size_queries ''maxWorkItemDims'' = Some ''CL_DEVICE_MAX_WORK_ITEM_DIMENSIONS''"
    "map_of text_queries ''deviceVersion'' = Some ''CL_DEVICE_VERSION''"
    "map_of later_queries ''openclCVersion'' = None" "map_of text_queries ''openclCVersion'' = None"
    "map_of number_queries ''openclCVersion'' = None" "map_of size_queries ''openclCVersion'' = None"
    "new_device_info ''openclCVersion'' = None"
    "''maxWorkItemSizes'' \<notin> set (map fst text_queries)"
    by code_simp+
  have i1: "?i1 ''maxWorkItemSizes'' = None" "?i1 ''maxWorkItemDims'' = Some (Number ?n)"
    unfolding lookups(1) found(1-3) option.case by (rule refl)+
  have "?i3 f = None" if "f \<in> fst ` set text_queries" for f
  proof -
    have "map_of number_queries f = None" "map_of size_queries f = None"
      using no_text_yet that by (auto simp: map_of_eq_None_iff)
    moreover have "f \<noteq> ''maxWorkItemSizes''" using that found(10) unfolding set_map by blast
    ultimately show ?thesis using new_info_text [OF that] by (simp add: lookups del: char_of_eq_iff)
  qed
  then have texts: "\<forall>f \<in> fst ` set text_queries. ?i3 f = None" by (rule ballI)
  have version: "?i4 ''deviceVersion'' = Some (Text ?v)"
    unfolding lookups(4) found(4) option.case by (rule refl)
  have last: "with_numbers dev later_queries ?i4 ''openclCVersion'' = None"
    unfolding lookups(3) found(5) option.case lookups(4) found(6) lookups(2) found(7) fun_upd_apply
      lookups(1) found(8,9) by simp
  have later: "meets sure (ask_later env dev) (\<lambda>i. i = ?i4) (\<lambda>i. i = reported dev)"
  proof -
    let ?above = "string_above (version_word (c_str ?v)) ''1.0''"
    let ?steps = "if ?above then map (ask_number env dev) later_queries
        @ [ask_text env dev (''openclCVersion'', ''CL_DEVICE_OPENCL_C_VERSION'')] else []"
    have "meets sure (run_steps ?steps) (\<lambda>i. i = ?i4) (\<lambda>i. i = reported dev)"
    proof (cases ?above)
      case True
      have "meets sure (run_steps [ask_text env dev (''openclCVersion'', ''CL_DEVICE_OPENCL_C_VERSION'')])
          (\<lambda>i. i = with_numbers dev later_queries ?i4) (\<lambda>i. i = reported dev)"
        by (rule meets_Cons [OF ask_text_ok [of _ _ "with_numbers dev later_queries ?i4", OF assms last]])
          (auto intro!: meets_Nil simp: reported_def Let_def True with_texts_def)
      then show ?thesis using True meets_append [OF ask_numbers_ok [OF assms]] by simp
    next
      case False
      then show ?thesis by (auto intro!: meets_Nil simp: reported_def Let_def)
    qed
    then show ?thesis unfolding meets_def ask_later_def using version by simp
  qed
  have sizes: "meets sure (ask_sizes env dev) (\<lambda>i. i = ?i1) (\<lambda>i. i = ?i2)"
    using assms i1 by (auto simp: ask_sizes_def meets_def cl_call_success all_succeed_def)
  have steps: "meets sure (run_steps (map (ask_number env dev) size_queries)) (\<lambda>i. i = new_device_info) (\<lambda>i. i = ?i1)"
    "meets sure (run_steps [ask_sizes env dev]) (\<lambda>i. i = ?i1) (\<lambda>i. i = ?i2)"
    "meets sure (run_steps (map (ask_number env dev) number_queries)) (\<lambda>i. i = ?i2) (\<lambda>i. i = ?i3)"
    "meets sure (run_steps (map (ask_text env dev) text_queries)) (\<lambda>i. i = ?i3) (\<lambda>i. i = ?i4)"
    "meets sure (run_steps [ask_later env dev]) (\<lambda>i. i = ?i4) (\<lambda>i. i = reported dev)"
    by (rule ask_numbers_ok [OF assms], assumption) (rule meets_Cons [OF sizes meets_Nil], assumption,
        rule ask_numbers_ok [OF assms], assumption, rule ask_texts_ok [OF assms distinct_queries(4) texts], assumption,
        rule meets_Cons [OF later meets_Nil], assumption)
  show ?thesis unfolding setDeviceInfo_def
    by (rule meets_append [OF steps(1) meets_append [OF steps(2) meets_append [OF steps(3) meets_append [OF steps(4,5)]]]])
qed

text \<open>What the samples look at.\<close>

lemma reported_fields:
  "reported dev ''maxWorkItemSizes'' =
     Some (Sizes (map (item_size dev) [0..<number_of dev ''CL_DEVICE_MAX_WORK_ITEM_DIMENSIONS'']))"
  "reported dev ''maxWorkGroupSize'' = Some (Number (number_of dev ''CL_DEVICE_MAX_WORK_GROUP_SIZE''))"
  "reported dev ''localMemSize'' = Some (Number (number_of dev ''CL_DEVICE_LOCAL_MEM_SIZE''))"
proof -
  let ?i = "(with_numbers dev size_queries new_device_info)
    (''maxWorkItemSizes'' \<mapsto> Sizes (map (item_size dev) [0..<number_of dev ''CL_DEVICE_MAX_WORK_ITEM_DIMENSIONS'']))"
  have one: "with_texts dev [(''openclCVersion'', c)] i f = i f" if "f \<noteq> ''openclCVersion''" for c i f
    using that by (simp add: with_texts_def)
  have rest: "reported dev f = with_numbers dev number_queries ?i f"
    if "map_of text_queries f = None" "map_of later_queries f = None" "f \<noteq> ''openclCVersion''" for f
    using that by (simp add: reported_def Let_def one lookups)
  have found: "map_of text_queries ''maxWorkItemSizes'' = None" "map_of later_queries ''maxWorkItemSizes'' = None"
    "map_of number_queries ''maxWorkItemSizes'' = None" "''maxWorkItemSizes'' \<noteq> ''openclCVersion''"
    "map_of text_queries ''maxWorkGroupSize'' = None" "map_of later_queries ''maxWorkGroupSize'' = None"
    "map_of number_queries ''maxWorkGroupSize'' = Some ''CL_DEVICE_MAX_WORK_GROUP_SIZE''"
    "''maxWorkGroupSize'' \<noteq> ''openclCVersion''"
    "map_of text_queries ''localMemSize'' = None" "map_of later_queries ''localMemSize'' = None"
    "map_of number_queries ''localMemSize'' = Some ''CL_DEVICE_LOCAL_MEM_SIZE''"
    "''localMemSize'' \<noteq> ''openclCVersion''"
    by code_simp+
  show "reported dev ''maxWorkItemSizes'' =
     Some (Sizes (map (item_size dev) [0..<number_of dev ''CL_DEVICE_MAX_WORK_ITEM_DIMENSIONS'']))"
    unfolding rest [OF found(1,2,4)] lookups found option.case by simp
  show "reported dev ''maxWorkGroupSize'' = Some (Number (number_of dev ''CL_DEVICE_MAX_WORK_GROUP_SIZE''))"
    unfolding rest [OF found(5,6,8)] lookups found option.case by simp
  show "reported dev ''localMemSize'' = Some (Number (number_of dev ''CL_DEVICE_LOCAL_MEM_SIZE''))"
    unfolding rest [OF found(9,10,12)] lookups found option.case by simp
qed

text \<open>Every field that is asked for, by the list that has it.\<close>

lemma distinct_fields:
  "distinct (map fst (size_queries @ number_queries @ text_queries @ later_queries))"
  "\<forall>f \<in> set (map fst (size_queries @ number_queries @ text_queries @ later_queries)).
     f \<noteq> ''maxWorkItemSizes'' \<and> f \<noteq> ''openclCVersion''"
  by code_simp+

lemma key_in: "(f, c) \<in> set qs \<Longrightarrow> f \<in> set (map fst qs)"
  by force

lemma map_of_elsewhere: "(f, c) \<in> set Y \<Longrightarrow> fst ` set Y \<inter> fst ` set X = {} \<Longrightarrow> map_of X f = None"
  unfolding map_of_eq_None_iff by force

lemma map_of_segments:
  assumes "distinct (map fst (A @ B @ C @ D))"
  shows "(f, c) \<in> set A \<Longrightarrow> map_of A f = Some c \<and> map_of B f = None \<and> map_of C f = None \<and> map_of D f = None"
    "(f, c) \<in> set B \<Longrightarrow> map_of A f = None \<and> map_of B f = Some c \<and> map_of C f = None \<and> map_of D f = None"
    "(f, c) \<in> set C \<Longrightarrow> map_of A f = None \<and> map_of B f = None \<and> map_of C f = Some c \<and> map_of D f = None"
    "(f, c) \<in> set D \<Longrightarrow> map_of A f = None \<and> map_of B f = None \<and> map_of C f = None \<and> map_of D f = Some c"
proof -
  have d: "distinct (map fst A)" "distinct (map fst B)" "distinct (map fst C)" "distinct (map fst D)"
    "fst ` set A \<inter> fst ` set B = {}" "fst ` set A \<inter> fst ` set C = {}" "fst ` set A \<inter> fst ` set D = {}"
    "fst ` set B \<inter> fst ` set C = {}" "fst ` set B \<inter> fst ` set D = {}" "fst ` set C \<inter> fst ` set D = {}"
    using assms by auto
  show "(f, c) \<in> set A \<Longrightarrow> map_of A f = Some c \<and> map_of B f = None \<and> map_of C f = None \<and> map_of D f = None"
    "(f, c) \<in> set B \<Longrightarrow> map_of A f = None \<and> map_of B f = Some c \<and> map_of C f = None \<and> map_of D f = None"
    "(f, c) \<in> set C \<Longrightarrow> map_of A f = None \<and> map_of B f = None \<and> map_of C f = Some c \<and> map_of D f = None"
    "(f, c) \<in> set D \<Longrightarrow> map_of A f = None \<and> map_of B f = None \<and> map_of C f = None \<and> map_of D f = Some c"
    using d(1-4) d(5-10) d(5-10) [THEN trans [OF Int_commute]] by (simp_all add: map_of_elsewhere)
qed

lemmas segments = map_of_segments [OF distinct_fields(1)]

lemma reported_lookup:
  assumes "f \<noteq> ''maxWorkItemSizes''" "f \<noteq> ''openclCVersion''"
  shows "reported dev f =
    (case (if string_above (version_word (c_str (text_of dev ''CL_DEVICE_VERSION''))) ''1.0'' then map_of later_queries f else None) of
       Some c \<Rightarrow> Some (Number (number_of dev c))
     | None \<Rightarrow> (case map_of text_queries f of
         Some c \<Rightarrow> Some (Text (text_of dev c))
       | None \<Rightarrow> (case map_of number_queries f of
           Some c \<Rightarrow> Some (Number (number_of dev c))
         | None \<Rightarrow> (case map_of size_queries f of
             Some c \<Rightarrow> Some (Number (number_of dev c)) | None \<Rightarrow> new_device_info f))))"
proof -
  have one: "with_texts dev [(''openclCVersion'', c)] i f = i f" for c i
    using assms(2) by (simp add: with_texts_def)
  show ?thesis unfolding reported_def Let_def using assms(1)
    by (cases "string_above (version_word (c_str (text_of dev ''CL_DEVICE_VERSION''))) ''1.0''")
      (simp_all only: if_True if_False one lookups fun_upd_apply option.case)
qed

lemma reported_queries:
  "(f, c) \<in> set (size_queries @ number_queries) \<Longrightarrow> reported dev f = Some (Number (number_of dev c))"
  "(f, c) \<in> set text_queries \<Longrightarrow> reported dev f = Some (Text (text_of dev c))"
  "(f, c) \<in> set later_queries \<Longrightarrow> reported dev f = Some (Number
     (if string_above (version_word (c_str (text_of dev ''CL_DEVICE_VERSION''))) ''1.0'' then number_of dev c else 0))"
proof -
  have other: "f \<noteq> ''maxWorkItemSizes'' \<and> f \<noteq> ''openclCVersion''"
    if "(f, c) \<in> set (size_queries @ number_queries @ text_queries @ later_queries)"
  proof -
    have "f \<in> set (map fst (size_queries @ number_queries @ text_queries @ later_queries))"
      using that by (rule key_in)
    then show ?thesis using distinct_fields(2) by (rule bspec [rotated])
  qed
  { assume q: "(f, c) \<in> set (size_queries @ number_queries)"
    then consider "(f, c) \<in> set size_queries" | "(f, c) \<in> set number_queries" by (auto simp only: set_append)
    then show "reported dev f = Some (Number (number_of dev c))"
    proof cases
      case 1
      with other q segments(1) [OF 1] show ?thesis by (simp add: reported_lookup)
    next
      case 2
      with other q segments(2) [OF 2] show ?thesis by (simp add: reported_lookup)
    qed }
  show "reported dev f = Some (Text (text_of dev c))" if "(f, c) \<in> set text_queries"
    using other that segments(3) [OF that] by (simp add: reported_lookup)
  have "\<forall>f \<in> set (map fst later_queries). new_device_info f = Some (Number 0)" by code_simp
  then have "new_device_info f = Some (Number 0)" if "(f, c) \<in> set later_queries"
    using key_in [OF that] by blast
  then show "reported dev f = Some (Number
     (if string_above (version_word (c_str (text_of dev ''CL_DEVICE_VERSION''))) ''1.0'' then number_of dev c else 0))"
    if "(f, c) \<in> set later_queries"
    using other that segments(4) [OF that] by (simp add: reported_lookup)
qed

lemma run_steps_continue:
  "run_steps fs sk = Some (SDK_SUCCESS, t, n) \<Longrightarrow> run_steps (fs @ gs) sk = run_steps gs (t, n)"
proof (induction fs arbitrary: sk)
  case (Cons f fs)
  then show ?case by (cases sk) (auto simp: run_steps.simps bind_eq_Some_conv split: if_splits)
qed (simp add: succeeds)

lemma second_call_undefined:
  assumes "all_succeed env" "i ''maxWorkItemSizes'' = Some v"
  shows "setDeviceInfo env dev (i, k) = None"
proof -
  obtain n where "run_steps (map (ask_number env dev) size_queries) (i, k) = Some (SDK_SUCCESS, with_numbers dev size_queries i, n)"
    using meets_sure [OF ask_numbers_ok [of True env dev size_queries i] refl, of k] assms(1) by auto
  moreover have "map_of size_queries ''maxWorkItemSizes'' = None" by code_simp
  then have "with_numbers dev size_queries i ''maxWorkItemSizes'' = Some v"
    using assms(2) by (simp only: lookups option.case)
  ultimately show ?thesis
    unfolding setDeviceInfo_def by (simp add: run_steps_continue run_steps.simps ask_sizes_def)
qed

lemma reported_c_version:
  "reported dev ''openclCVersion'' =
    (if string_above (version_word (c_str (text_of dev ''CL_DEVICE_VERSION''))) ''1.0''
     then Some (Text (text_of dev ''CL_DEVICE_OPENCL_C_VERSION'')) else None)"
proof -
  have found: "map_of later_queries ''openclCVersion'' = None" "map_of text_queries ''openclCVersion'' = None"
    "map_of number_queries ''openclCVersion'' = None" "map_of size_queries ''openclCVersion'' = None"
    "new_device_info ''openclCVersion'' = None" "''openclCVersion'' \<noteq> ''maxWorkItemSizes''"
    by code_simp+
  show ?thesis
    by (simp add: reported_def Let_def with_texts_def [of _ "[_]"] lookups found)
qed

lemma setDeviceInfo_reports:
  assumes "all_succeed env"
  shows "\<exists>i k'. setDeviceInfo env dev (new_device_info, k) = Some (SDK_SUCCESS, i, k') \<and>
    (\<forall>(f, c) \<in> set (size_queries @ number_queries). i f = Some (Number (number_of dev c))) \<and>
    (\<forall>(f, c) \<in> set text_queries. i f = Some (Text (text_of dev c))) \<and>
    i ''maxWorkItemSizes'' =
      Some (Sizes (map (item_size dev) [0..<number_of dev ''CL_DEVICE_MAX_WORK_ITEM_DIMENSIONS''])) \<and>
    (\<forall>(f, c) \<in> set later_queries. i f = Some (Number
       (if string_above (version_word (c_str (text_of dev ''CL_DEVICE_VERSION''))) ''1.0'' then number_of dev c else 0))) \<and>
    i ''openclCVersion'' =
      (if string_above (version_word (c_str (text_of dev ''CL_DEVICE_VERSION''))) ''1.0''
       then Some (Text (text_of dev ''CL_DEVICE_OPENCL_C_VERSION'')) else None) \<and>
    setDeviceInfo env dev (i, k') = None"
proof -
  obtain k' where "setDeviceInfo env dev (new_device_info, k) = Some (SDK_SUCCESS, reported dev, k')"
    using meets_sure [OF setDeviceInfo_ok [of True env dev] refl, of k] assms by auto
  moreover have "setDeviceInfo env dev (reported dev, k') = None"
    by (rule second_call_undefined [OF assms]) (rule reported_fields(1))
  ultimately show ?thesis
    using reported_queries reported_fields(1) reported_c_version
    by (intro exI [of _ "reported dev"] exI [of _ k'] conjI ballI) (auto simp del: set_append)
qed

text \<open>C33.
  \<open>setDeviceInfo\<close> on a new object, when the library works, succeeds and leaves in every field what
  the device reports under the constant listed with it; the fields of version 1.1 stay at 0, and the
  text for the version of OpenCL C stays a null pointer, for a device of version 1.0.  A second
  call for the same object is undefined, because it frees with \<open>delete\<close> what \<open>new[]\<close> allocated.\<close>

theorem device_info_as_reported:
  assumes "all_succeed env"
  shows "\<exists>i k'. setDeviceInfo env dev (new_device_info, k) = Some (SDK_SUCCESS, i, k') \<and>
    (\<forall>(f, c) \<in> set
      [(''dType'', ''CL_DEVICE_TYPE''), (''venderId'', ''CL_DEVICE_VENDOR_ID''),
       (''maxComputeUnits'', ''CL_DEVICE_MAX_COMPUTE_UNITS''), (''maxWorkItemDims'', ''CL_DEVICE_MAX_WORK_ITEM_DIMENSIONS''),
       (''maxWorkGroupSize'', ''CL_DEVICE_MAX_WORK_GROUP_SIZE''), (''preferredCharVecWidth'', ''CL_DEVICE_PREFERRED_VECTOR_WIDTH_CHAR''),
       (''preferredShortVecWidth'', ''CL_DEVICE_PREFERRED_VECTOR_WIDTH_SHORT''), (''preferredIntVecWidth'', ''CL_DEVICE_PREFERRED_VECTOR_WIDTH_INT''),
       (''preferredLongVecWidth'', ''CL_DEVICE_PREFERRED_VECTOR_WIDTH_LONG''), (''preferredFloatVecWidth'', ''CL_DEVICE_PREFERRED_VECTOR_WIDTH_FLOAT''),
       (''preferredDoubleVecWidth'', ''CL_DEVICE_PREFERRED_VECTOR_WIDTH_DOUBLE''), (''preferredHalfVecWidth'', ''CL_DEVICE_PREFERRED_VECTOR_WIDTH_HALF''),
       (''maxClockFrequency'', ''CL_DEVICE_MAX_CLOCK_FREQUENCY''), (''addressBits'', ''CL_DEVICE_ADDRESS_BITS''),
       (''maxMemAllocSize'', ''CL_DEVICE_MAX_MEM_ALLOC_SIZE''), (''imageSupport'', ''CL_DEVICE_IMAGE_SUPPORT''),
       (''maxReadImageArgs'', ''CL_DEVICE_MAX_READ_IMAGE_ARGS''), (''maxWriteImageArgs'', ''CL_DEVICE_MAX_WRITE_IMAGE_ARGS''),
       (''image2dMaxWidth'', ''CL_DEVICE_IMAGE2D_MAX_WIDTH''), (''image2dMaxHeight'', ''CL_DEVICE_IMAGE2D_MAX_HEIGHT''),
       (''image3dMaxWidth'', ''CL_DEVICE_IMAGE3D_MAX_WIDTH''), (''image3dMaxHeight'', ''CL_DEVICE_IMAGE3D_MAX_HEIGHT''),
       (''image3dMaxDepth'', ''CL_DEVICE_IMAGE3D_MAX_DEPTH''), (''maxSamplers'', ''CL_DEVICE_MAX_SAMPLERS''),
       (''maxParameterSize'', ''CL_DEVICE_MAX_PARAMETER_SIZE''), (''memBaseAddressAlign'', ''CL_DEVICE_MEM_BASE_ADDR_ALIGN''),
       (''minDataTypeAlignSize'', ''CL_DEVICE_MIN_DATA_TYPE_ALIGN_SIZE''), (''singleFpConfig'', ''CL_DEVICE_SINGLE_FP_CONFIG''),
       (''doubleFpConfig'', ''CL_DEVICE_DOUBLE_FP_CONFIG''), (''globleMemCacheType'', ''CL_DEVICE_GLOBAL_MEM_CACHE_TYPE''),
       (''globalMemCachelineSize'', ''CL_DEVICE_GLOBAL_MEM_CACHELINE_SIZE''), (''globalMemCacheSize'', ''CL_DEVICE_GLOBAL_MEM_CACHE_SIZE''),
       (''globalMemSize'', ''CL_DEVICE_GLOBAL_MEM_SIZE''), (''maxConstBufSize'', ''CL_DEVICE_MAX_CONSTANT_BUFFER_SIZE''),
       (''maxConstArgs'', ''CL_DEVICE_MAX_CONSTANT_ARGS''), (''localMemType'', ''CL_DEVICE_LOCAL_MEM_TYPE''),
       (''localMemSize'', ''CL_DEVICE_LOCAL_MEM_SIZE''), (''errCorrectionSupport'', ''CL_DEVICE_ERROR_CORRECTION_SUPPORT''),
       (''timerResolution'', ''CL_DEVICE_PROFILING_TIMER_RESOLUTION''), (''endianLittle'', ''CL_DEVICE_ENDIAN_LITTLE''),
       (''available'', ''CL_DEVICE_AVAILABLE''), (''compilerAvailable'', ''CL_DEVICE_COMPILER_AVAILABLE''),
       (''execCapabilities'', ''CL_DEVICE_EXECUTION_CAPABILITIES''), (''queueProperties'', ''CL_DEVICE_QUEUE_PROPERTIES''),
       (''platform'', ''CL_DEVICE_PLATFORM'')].
       i f = Some (Number (number_of dev c))) \<and>
    (\<forall>(f, c) \<in> set
      [(''name'', ''CL_DEVICE_NAME''), (''vendorName'', ''CL_DEVICE_VENDOR''),
       (''driverVersion'', ''CL_DRIVER_VERSION''), (''profileType'', ''CL_DEVICE_PROFILE''),
       (''deviceVersion'', ''CL_DEVICE_VERSION''), (''extensions'', ''CL_DEVICE_EXTENSIONS'')].
       i f = Some (Text (text_of dev c))) \<and>
    i ''maxWorkItemSizes'' =
      Some (Sizes (map (item_size dev) [0..<number_of dev ''CL_DEVICE_MAX_WORK_ITEM_DIMENSIONS''])) \<and>
    (\<forall>(f, c) \<in> set
      [(''nativeCharVecWidth'', ''CL_DEVICE_NATIVE_VECTOR_WIDTH_CHAR''), (''nativeShortVecWidth'', ''CL_DEVICE_NATIVE_VECTOR_WIDTH_SHORT''),
       (''nativeIntVecWidth'', ''CL_DEVICE_NATIVE_VECTOR_WIDTH_INT''), (''nativeLongVecWidth'', ''CL_DEVICE_NATIVE_VECTOR_WIDTH_LONG''),
       (''nativeFloatVecWidth'', ''CL_DEVICE_NATIVE_VECTOR_WIDTH_FLOAT''), (''nativeDoubleVecWidth'', ''CL_DEVICE_NATIVE_VECTOR_WIDTH_DOUBLE''),
       (''nativeHalfVecWidth'', ''CL_DEVICE_NATIVE_VECTOR_WIDTH_HALF''), (''hostUnifiedMem'', ''CL_DEVICE_HOST_UNIFIED_MEMORY'')].
       i f = Some (Number
         (if string_above (version_word (c_str (text_of dev ''CL_DEVICE_VERSION''))) ''1.0'' then number_of dev c else 0))) \<and>
    i ''openclCVersion'' =
      (if string_above (version_word (c_str (text_of dev ''CL_DEVICE_VERSION''))) ''1.0''
       then Some (Text (text_of dev ''CL_DEVICE_OPENCL_C_VERSION'')) else None) \<and>
    setDeviceInfo env dev (i, k') = None"
  by (rule setDeviceInfo_reports [OF assms, unfolded size_queries_def number_queries_def text_queries_def
        later_queries_def append_Cons append_Nil])

theorem device_info_as_reported_witness:
  "\<exists>i k'. setDeviceInfo \<lparr>answers = \<lambda>_. 0, platforms = []\<rparr>
      \<lparr>number_of = \<lambda>_. 3, item_size = \<lambda>d. 4 - d, text_of = \<lambda>c. ''OpenCL 1.0 CASLab''\<rparr> (new_device_info, 0) = Some (SDK_SUCCESS, i, k') \<and>
    i ''maxWorkItemSizes'' = Some (Sizes [4, 3, 2])"
proof -
  have "all_succeed \<lparr>answers = \<lambda>_. 0, platforms = []\<rparr>" by (simp add: all_succeed_def CL_SUCCESS_def)
  from device_info_as_reported [OF this,
    of "\<lparr>number_of = \<lambda>_. 3, item_size = \<lambda>d. 4 - d, text_of = \<lambda>c. ''OpenCL 1.0 CASLab''\<rparr>" 0]
  show ?thesis by (auto simp: eval_nat_numeral)
qed

end
