(* ===== verification/Launch.thy ===== *)
theory Launch
  imports Prelude
begin

text \<open>
  Launches of kernels that update a buffer in place.  A kernel is what one work item does to the
  state of the device; a launch runs every work item once, in an order that the runtime chooses.
  The locale states when the outcome does not depend on that order.
\<close>

text \<open>Every work item of a set runs once.\<close>

definition runs_all :: "'t set \<Rightarrow> 't list \<Rightarrow> bool" where
  "runs_all ts sched \<longleftrightarrow> distinct sched \<and> set sched = ts"

text \<open>The work items of a range of one and of two dimensions.\<close>

definition items2 :: "nat \<Rightarrow> nat \<Rightarrow> (nat \<times> nat) set" where
  "items2 gx gy = {0..<gx} \<times> {0..<gy}"

definition row_by_row :: "nat \<Rightarrow> nat \<Rightarrow> (nat \<times> nat) list" where
  "row_by_row gx gy = concat (map (\<lambda>y. map (\<lambda>x. (x, y)) [0..<gx]) [0..<gy])"

lemma distinct_concat_upt:
  assumes "\<And>y. distinct (f y)" "\<And>y z. y \<noteq> z \<Longrightarrow> set (f y) \<inter> set (f z) = {}"
  shows "distinct (concat (map f [0..<n]))"
proof (induction n)
  case (Suc n)
  have "set (f y) \<inter> set (f n) = {}" if "y < n" for y
    using assms(2) [of y n] that by simp
  then have "set (concat (map f [0..<n])) \<inter> set (f n) = {}"
    by (fastforce simp: disjoint_iff)
  then show ?case using Suc assms(1) by simp
qed simp

lemma row_by_row_runs_all: "runs_all (items2 gx gy) (row_by_row gx gy)"
proof -
  have "distinct (row_by_row gx gy)"
    unfolding row_by_row_def by (rule distinct_concat_upt) (auto simp: distinct_map inj_on_def)
  then show ?thesis by (auto simp: runs_all_def row_by_row_def items2_def)
qed

lemma foldM_map: "foldM body (map g xs) s = foldM (\<lambda>x. body (g x)) xs s"
proof (induction xs arbitrary: s)
  case (Cons x xs)
  then show ?case by (cases "body (g x) s") simp_all
qed simp

lemma foldM_concat_map: "foldM (\<lambda>y. foldM body (f y)) ys s = foldM body (concat (map f ys)) s"
proof (induction ys arbitrary: s)
  case (Cons y ys)
  then show ?case by (cases "foldM body (f y) s") (simp_all add: foldM_append)
qed simp

text \<open>A nest of two loops is a launch row by row.\<close>

lemma nested_loops:
  "for_loop 0 gy (\<lambda>y. for_loop 0 gx (\<lambda>x. body (x, y))) s = foldM body (row_by_row gx gy) s"
  unfolding for_loop_def row_by_row_def foldM_concat_map [symmetric] foldM_map by simp

text \<open>
  The contract: \<open>look s i\<close> is what slot \<open>i\<close> holds.  Started in \<open>s0\<close>, the work item that owns a
  slot replaces its contents by \<open>final p s0 i\<close>, and it can do so in any state between: as long
  as its own slots are as they were and every other slot is as it was or already final.
\<close>

locale in_place_kernel =
  fixes kern :: "'p \<Rightarrow> 't \<Rightarrow> 's \<Rightarrow> 's option"
    and ok :: "'p \<Rightarrow> 's \<Rightarrow> bool"
    and wf :: "'p \<Rightarrow> 's \<Rightarrow> bool"
    and look :: "'s \<Rightarrow> nat \<Rightarrow> 'v"
    and slots :: "'p \<Rightarrow> nat"
    and items :: "'p \<Rightarrow> 't set"
    and owner :: "'p \<Rightarrow> nat \<Rightarrow> 't"
    and final :: "'p \<Rightarrow> 's \<Rightarrow> nat \<Rightarrow> 'v"
  assumes start: "ok p s0 \<Longrightarrow> wf p s0"
    and item: "ok p s0 \<Longrightarrow> wf p s \<Longrightarrow> t \<in> items p
      \<Longrightarrow> (\<And>i. i < slots p \<Longrightarrow> look s i = look s0 i \<or> look s i = final p s0 i)
      \<Longrightarrow> (\<And>i. i < slots p \<Longrightarrow> owner p i = t \<Longrightarrow> look s i = look s0 i)
      \<Longrightarrow> \<exists>s'. kern p t s = Some s' \<and> wf p s'
        \<and> (\<forall>i < slots p. look s' i = (if owner p i = t then final p s0 i else look s i))"
begin

lemma some_items:
  assumes "ok p s0" "distinct ts" "set ts \<subseteq> items p"
  shows "\<exists>s'. foldM (kern p) ts s0 = Some s' \<and> wf p s'
    \<and> (\<forall>i < slots p. look s' i = (if owner p i \<in> set ts then final p s0 i else look s0 i))"
  using assms(2,3)
proof (induction ts rule: rev_induct)
  case Nil
  then show ?case using start [OF assms(1)] by simp
next
  case (snoc t ts)
  obtain s where s: "foldM (kern p) ts s0 = Some s" "wf p s"
      "\<forall>i < slots p. look s i = (if owner p i \<in> set ts then final p s0 i else look s0 i)"
    using snoc by auto
  have t: "t \<in> items p" "t \<notin> set ts" using snoc.prems by auto
  have "\<exists>s'. kern p t s = Some s' \<and> wf p s'
      \<and> (\<forall>i < slots p. look s' i = (if owner p i = t then final p s0 i else look s i))"
    using s(3) t(2) by (intro item [OF assms(1) s(2) t(1)]) auto
  then obtain s' where "kern p t s = Some s'" "wf p s'"
      "\<forall>i < slots p. look s' i = (if owner p i = t then final p s0 i else look s i)" by blast
  then show ?case using s by (auto simp: foldM_append)
qed

lemma launch:
  assumes "ok p s0" "runs_all (items p) sched" "\<And>i. i < slots p \<Longrightarrow> owner p i \<in> items p"
  shows "\<exists>s'. foldM (kern p) sched s0 = Some s' \<and> wf p s'
    \<and> (\<forall>i < slots p. look s' i = final p s0 i)"
  using some_items [OF assms(1), of sched] assms(2,3) by (auto simp: runs_all_def)

end

end
