(* ===== verification/Launch_Groups.thy ===== *)
theory Launch_Groups
  imports Launch
begin

text \<open>
  Launches of kernels whose work groups have local memory and barriers.  A work item runs through
  phases, the parts of the kernel between its barriers; it may begin a phase when all items of its
  group have finished the phases before.  Items of one group and of different groups are
  interleaved as the runtime chooses.  The locale states when the outcome does not depend on that.
\<close>

section \<open>Running the work items\<close>

text \<open>What an item does in a phase, given its group and its number in the group.\<close>

type_synonym ('l, 'g) phase = "nat \<Rightarrow> nat \<Rightarrow> 'l \<times> 'g \<Rightarrow> ('l \<times> 'g) option"

record ('l, 'g) group_launch =
  phases_done :: "nat \<times> nat \<Rightarrow> nat"
  local_mem :: "nat \<Rightarrow> 'l"
  global_mem :: 'g

definition may_step :: "nat \<Rightarrow> nat \<Rightarrow> nat \<Rightarrow> (nat \<times> nat \<Rightarrow> nat) \<Rightarrow> nat \<times> nat \<Rightarrow> bool" where
  "may_step nphases ngroups group_size pcs = (\<lambda>(b, t).
     b < ngroups \<and> t < group_size \<and> pcs (b, t) < nphases \<and> (\<forall>u \<in> {0..<group_size}. pcs (b, t) \<le> pcs (b, u)))"

text \<open>The item runs its next phase; if it has none or waits at a barrier, nothing happens.\<close>

definition try_item ::
  "('l, 'g) phase list \<Rightarrow> nat \<Rightarrow> nat \<Rightarrow> nat \<times> nat \<Rightarrow> ('l, 'g) group_launch \<Rightarrow> ('l, 'g) group_launch option" where
  "try_item phases ngroups group_size = (\<lambda>(b, t) s.
     if may_step (length phases) ngroups group_size (phases_done s) (b, t)
     then do { (l, g) \<leftarrow> (phases ! phases_done s (b, t)) b t (local_mem s b, global_mem s);
               Some (s\<lparr>phases_done := (phases_done s)((b, t) := Suc (phases_done s (b, t))),
                       local_mem := (local_mem s)(b := l), global_mem := g\<rparr>) }
     else Some s)"

definition all_finished :: "nat \<Rightarrow> nat \<Rightarrow> nat \<Rightarrow> (nat \<times> nat \<Rightarrow> nat) \<Rightarrow> bool" where
  "all_finished nphases ngroups group_size pcs \<longleftrightarrow> (\<forall>b \<in> {0..<ngroups}. \<forall>t \<in> {0..<group_size}. pcs (b, t) = nphases)"

text \<open>A launch; \<^const>\<open>None\<close> also if the order does not let every item finish, which no runtime chooses.\<close>

definition run_groups ::
  "('l, 'g) phase list \<Rightarrow> nat \<Rightarrow> nat \<Rightarrow> (nat \<Rightarrow> 'l) \<Rightarrow> (nat \<times> nat) list \<Rightarrow> 'g \<Rightarrow> 'g option" where
  "run_groups phases ngroups group_size locals sched g =
     do { s \<leftarrow> foldM (try_item phases ngroups group_size) sched
                \<lparr>phases_done = \<lambda>_. 0, local_mem = locals, global_mem = g\<rparr>;
          if all_finished (length phases) ngroups group_size (phases_done s) then Some (global_mem s) else None }"

section \<open>Orders that let every item finish\<close>

definition advance :: "nat \<Rightarrow> nat \<Rightarrow> nat \<Rightarrow> nat \<times> nat \<Rightarrow> (nat \<times> nat \<Rightarrow> nat) \<Rightarrow> nat \<times> nat \<Rightarrow> nat" where
  "advance nphases ngroups group_size i pcs =
     (if may_step nphases ngroups group_size pcs i then pcs(i := Suc (pcs i)) else pcs)"

definition lets_finish :: "nat \<Rightarrow> nat \<Rightarrow> nat \<Rightarrow> (nat \<times> nat) list \<Rightarrow> bool" where
  "lets_finish nphases ngroups group_size sched \<longleftrightarrow>
     all_finished nphases ngroups group_size (fold (advance nphases ngroups group_size) sched (\<lambda>_. 0))"

lemma try_item_advances:
  "try_item phases ngroups group_size i s = Some s' \<Longrightarrow>
     phases_done s' = advance (length phases) ngroups group_size i (phases_done s)"
  by (cases i) (auto simp: try_item_def advance_def bind_eq_Some_conv split: if_splits)

lemma foldM_advances:
  "foldM (try_item phases ngroups group_size) sched s = Some s' \<Longrightarrow>
     phases_done s' = fold (advance (length phases) ngroups group_size) sched (phases_done s)"
  by (induction sched arbitrary: s) (auto simp: bind_eq_Some_conv try_item_advances)

text \<open>One such order: phase after phase, all items row by row.\<close>

lemma one_round:
  assumes "p < nphases" "\<forall>b < ngroups. \<forall>t < group_size. pcs (b, t) = p" "runs_all (items2 ngroups group_size) is"
  shows "\<forall>b < ngroups. \<forall>t < group_size. fold (advance nphases ngroups group_size) is pcs (b, t) = Suc p"
proof -
  have "\<forall>b < ngroups. \<forall>t < group_size. fold (advance nphases ngroups group_size) js pcs (b, t) =
      (if (b, t) \<in> set js then Suc p else p)" if "distinct js" "set js \<subseteq> items2 ngroups group_size" for js
    using that
  proof (induction js rule: rev_induct)
    case (snoc j js)
    let ?pcs = "fold (advance nphases ngroups group_size) js pcs"
    obtain b t where j: "j = (b, t)" "b < ngroups" "t < group_size" "(b, t) \<notin> set js"
      using snoc.prems by (cases j) (auto simp: items2_def)
    have IH: "\<forall>b < ngroups. \<forall>t < group_size. ?pcs (b, t) = (if (b, t) \<in> set js then Suc p else p)"
      using snoc by simp
    then have "may_step nphases ngroups group_size ?pcs j" using assms(1) j by (auto simp: may_step_def)
    then have "advance nphases ngroups group_size j ?pcs = ?pcs(j := Suc (?pcs j))"
      by (subst advance_def) simp
    then show ?case using IH j by simp
  qed (use assms(2) in simp)
  from this [of "is"] assms(3) show ?thesis by (auto simp: runs_all_def items2_def)
qed

lemma round_robin_lets_finish:
  assumes "runs_all (items2 ngroups group_size) is"
  shows "lets_finish nphases ngroups group_size (concat (replicate nphases is))"
proof -
  have "\<forall>b < ngroups. \<forall>t < group_size.
      fold (advance nphases ngroups group_size) (concat (replicate m is)) (\<lambda>_. 0) (b, t) = m" if "m \<le> nphases" for m
    using that
  proof (induction m)
    case (Suc m)
    have "concat (replicate (Suc m) is) = concat (replicate m is) @ is"
      by (induction m) simp_all
    then show ?case using one_round [of m nphases, OF _ _ assms] Suc by simp
  qed simp
  then show ?thesis by (simp add: lets_finish_def all_finished_def)
qed

section \<open>The contract\<close>

text \<open>
  \<open>inv p g0 b q D l g\<close>: in a launch started on the memory \<open>g0\<close>, the items \<open>D\<close> of group \<open>b\<close> have
  finished phase \<open>q\<close> and the others have not begun it; \<open>l\<close> is the memory of the group, \<open>g\<close> the
  global one.  Any other item of the group can run the phase now, and whatever it does, what the
  other groups rely on stays.
\<close>

locale group_kernel =
  fixes phases :: "'p \<Rightarrow> ('l, 'g) phase list"
    and groups :: "'p \<Rightarrow> nat"
    and members :: "'p \<Rightarrow> nat"
    and fits :: "'p \<Rightarrow> 'l \<Rightarrow> bool"
    and ok :: "'p \<Rightarrow> 'g \<Rightarrow> bool"
    and inv :: "'p \<Rightarrow> 'g \<Rightarrow> nat \<Rightarrow> nat \<Rightarrow> nat set \<Rightarrow> 'l \<Rightarrow> 'g \<Rightarrow> bool"
  assumes nonempty: "ok p g0 \<Longrightarrow> 0 < members p"
    and start: "ok p g0 \<Longrightarrow> b < groups p \<Longrightarrow> fits p l \<Longrightarrow> inv p g0 b 0 {} l g0"
    and item: "ok p g0 \<Longrightarrow> b < groups p \<Longrightarrow> t < members p \<Longrightarrow> q < length (phases p)
      \<Longrightarrow> D \<subseteq> {0..<members p} \<Longrightarrow> t \<notin> D \<Longrightarrow> inv p g0 b q D l g
      \<Longrightarrow> \<exists>l' g'. (phases p ! q) b t (l, g) = Some (l', g') \<and> inv p g0 b q (insert t D) l' g'
        \<and> (\<forall>c < groups p. c \<noteq> b \<longrightarrow> (\<forall>r E m. inv p g0 c r E m g \<longrightarrow> inv p g0 c r E m g'))"
    and barrier: "ok p g0 \<Longrightarrow> b < groups p \<Longrightarrow> q < length (phases p)
      \<Longrightarrow> inv p g0 b q {0..<members p} l g \<Longrightarrow> inv p g0 b (Suc q) {} l g"
begin

definition at :: "'p \<Rightarrow> 'g \<Rightarrow> ('l, 'g) group_launch \<Rightarrow> nat \<Rightarrow> nat \<Rightarrow> nat set \<Rightarrow> bool" where
  "at p g0 s b q D \<longleftrightarrow> D \<subset> {0..<members p} \<and> q \<le> length (phases p) \<and> (q = length (phases p) \<longrightarrow> D = {})
     \<and> (\<forall>t < members p. phases_done s (b, t) = (if t \<in> D then Suc q else q))
     \<and> inv p g0 b q D (local_mem s b) (global_mem s)"

definition going :: "'p \<Rightarrow> 'g \<Rightarrow> ('l, 'g) group_launch \<Rightarrow> bool" where
  "going p g0 s \<longleftrightarrow> (\<forall>b < groups p. \<exists>q D. at p g0 s b q D)"

lemma try_item_going:
  assumes "ok p g0" "going p g0 s"
  shows "yields (try_item (phases p) (groups p) (members p) (b, t) s) (going p g0)"
proof (cases "may_step (length (phases p)) (groups p) (members p) (phases_done s) (b, t)")
  case False
  then show ?thesis using assms(2) by (simp add: try_item_def)
next
  case True
  then have bt: "b < groups p" "t < members p" "phases_done s (b, t) < length (phases p)"
    "\<And>u. u < members p \<Longrightarrow> phases_done s (b, t) \<le> phases_done s (b, u)"
    by (auto simp: may_step_def)
  obtain q D where q: "at p g0 s b q D" using assms(2) bt(1) by (auto simp: going_def)
  then have "D \<subset> {0..<members p}" by (simp add: at_def)
  then obtain u where u: "u < members p" "u \<notin> D" using psubset_imp_ex_mem by fastforce
  have t: "t \<notin> D" using bt(2) bt(4) [OF u(1)] q u by (auto simp: at_def)
  then have pc: "phases_done s (b, t) = q" "q < length (phases p)" using q bt(2,3) by (auto simp: at_def)
  have "D \<subseteq> {0..<members p}" "inv p g0 b q D (local_mem s b) (global_mem s)" using q by (auto simp: at_def)
  from item [OF assms(1) bt(1,2) pc(2) this(1) t this(2)] obtain l g
    where l: "(phases p ! q) b t (local_mem s b, global_mem s) = Some (l, g)" "inv p g0 b q (insert t D) l g"
      "\<forall>c < groups p. c \<noteq> b \<longrightarrow> (\<forall>r E m. inv p g0 c r E m (global_mem s) \<longrightarrow> inv p g0 c r E m g)" by blast
  let ?s = "s\<lparr>phases_done := (phases_done s)((b, t) := Suc q), local_mem := (local_mem s)(b := l), global_mem := g\<rparr>"
  have "\<exists>q D. at p g0 ?s c q D" if c: "c < groups p" for c
  proof (cases "c = b")
    case False
    obtain r E where "at p g0 s c r E" using assms(2) c by (auto simp: going_def)
    then have "at p g0 ?s c r E" using False c l(3) by (auto simp: at_def)
    then show ?thesis by blast
  next
    case True
    have pcs: "\<forall>u < members p. phases_done ?s (b, u) = (if u \<in> insert t D then Suc q else q)"
      using q by (auto simp: at_def)
    show ?thesis
    proof (cases "insert t D = {0..<members p}")
      case all: True
      then have "inv p g0 b (Suc q) {} l g" using barrier [OF assms(1) bt(1) pc(2)] l(2) by simp
      moreover have "{} \<subset> {0..<members p}" using bt(2) by auto
      ultimately have "at p g0 ?s b (Suc q) {}" using pcs pc(2) all by (auto simp: at_def)
      then show ?thesis using True by blast
    next
      case False
      then have "insert t D \<subset> {0..<members p}" using q bt(2) by (auto simp: at_def)
      then have "at p g0 ?s b q (insert t D)" using pcs pc(2) l(2) by (auto simp: at_def)
      then show ?thesis using True by blast
    qed
  qed
  then show ?thesis using True pc(1) l(1) by (simp add: try_item_def going_def)
qed

theorem launch:
  assumes "ok p g0" "lets_finish (length (phases p)) (groups p) (members p) sched" "\<And>b. fits p (locals b)"
  shows "\<exists>g. run_groups (phases p) (groups p) (members p) locals sched g0 = Some g
    \<and> (\<forall>b < groups p. \<exists>l. inv p g0 b (length (phases p)) {} l g)"
proof -
  let ?s0 = "\<lparr>phases_done = \<lambda>_. 0, local_mem = locals, global_mem = g0\<rparr>"
  have "at p g0 ?s0 b 0 {}" if "b < groups p" for b
    using start [OF assms(1) that assms(3)] nonempty [OF assms(1)] by (simp add: at_def psubset_eq)
  then have "going p g0 ?s0" by (auto simp: going_def)
  then have "yields (foldM (try_item (phases p) (groups p) (members p)) sched ?s0) (going p g0)"
  proof (induction sched arbitrary: rule: rev_induct)
    case (snoc i sched)
    then obtain s where "foldM (try_item (phases p) (groups p) (members p)) sched ?s0 = Some s" "going p g0 s"
      by (auto simp: yields_def)
    then show ?case using try_item_going [OF assms(1), of s "fst i" "snd i"] by (simp add: foldM_append)
  qed simp
  then obtain s where s: "foldM (try_item (phases p) (groups p) (members p)) sched ?s0 = Some s" "going p g0 s"
    by (auto simp: yields_def)
  have fin: "all_finished (length (phases p)) (groups p) (members p) (phases_done s)"
    using assms(2) foldM_advances [OF s(1)] by (simp add: lets_finish_def)
  have "\<exists>l. inv p g0 b (length (phases p)) {} l (global_mem s)" if b: "b < groups p" for b
  proof -
    obtain q D where q: "at p g0 s b q D" using s(2) b by (auto simp: going_def)
    then have "D \<subset> {0..<members p}" by (simp add: at_def)
    then obtain u where u: "u < members p" "u \<notin> D" using psubset_imp_ex_mem by fastforce
    have "phases_done s (b, u) = q" using q u by (simp add: at_def)
    moreover have "phases_done s (b, u) = length (phases p)" using fin b u(1) by (simp add: all_finished_def)
    ultimately have e: "q = length (phases p)" by simp
    have "D = {}" "inv p g0 b q D (local_mem s b) (global_mem s)" using q e unfolding at_def by blast+
    then show ?thesis unfolding e by blast
  qed
  then show ?thesis using s(1) fin by (simp add: run_groups_def)
qed

end

end
