(* ===== verification/Sdk_Host.thy ===== *)
theory Sdk_Host
  imports Sdk_Sample Sdk_Dump Sdk_Steps Sdk_Device Launch_Groups
begin

text \<open>
  What the samples that derive from \<open>SDKSample\<close> have in common: the OpenCL objects of the host program
  and their creation in the order of \<open>setupCL\<close>, timers, the loop of \<open>run\<close> and the frame of \<open>main\<close>.  The
  samples repeat this code; the line numbers are those of \<open>FloydWarshall.cpp\<close>.  A sample extends
  the record \<open>host\<close> by its data.  An array that is a null pointer and an object of the OpenCL
  library that does not exist are \<^const>\<open>None\<close>; the result \<^const>\<open>None\<close> of a function is undefined
  behaviour or a call that never returns.  Printing is left out.
\<close>

lemma unat_small: "x < 2 ^ 32 \<Longrightarrow> unat (word_of_nat x :: 32 word) = x"
  by (simp add: unsigned_of_nat take_bit_nat_eq_self)

section \<open>The host program and what it runs on\<close>

text \<open>
  Arguments of a kernel: a buffer, named by the field that holds it, a number, or local memory of a
  number of bytes.
\<close>

datatype kernel_arg = Buffer_arg string | Uint_arg "32 word" | Local_arg nat

record host =
  base :: sample
  timers :: "timer list"
  setupTime :: flt
  totalKernelTime :: flt
  referenceKernelTime :: flt
  cl_context :: "string list option"
  cl_devices :: "string list option"
  commandQueue :: "string option"
  cl_program :: "(program \<times> string) option"
  cl_kernel :: "(nat \<Rightarrow> kernel_arg option) option"

text \<open>
  What the program runs on: the library, which for the checks of the command line answers
  \<open>check_answers\<close>; the reported states of events; the order of the work items of the launch that
  is the \<open>k\<close>-th call, and for a kernel with barriers the order in which they run their phases; what fresh memory holds; of the transfers to the host that the program
  does not wait for, how many have not yet reached an element when the host looks at it; whether a
  kernel that reads a buffer made for writing only finds its contents, where OpenCL leaves the
  behaviour undefined; the properties of the kernel and of the device; files; \<open>rand\<close>; the
  clock, read at named places.
\<close>

record run_env =
  lib :: cl_env
  check_answers :: "nat \<Rightarrow> int"
  event :: "nat \<Rightarrow> int"
  schedule :: "nat \<Rightarrow> nat \<Rightarrow> nat \<Rightarrow> (nat \<times> nat) list"
  interleave :: "nat \<Rightarrow> nat \<Rightarrow> nat \<Rightarrow> nat \<Rightarrow> (nat \<times> nat) list"
  fresh :: "string \<Rightarrow> nat \<Rightarrow> 32 word"
  pending :: "nat \<Rightarrow> nat \<Rightarrow> nat"
  reads_write_only :: bool
  group_info :: work_group_info
  report :: device_report
  run_files :: files
  writable :: "string \<Rightarrow> bool"
  built :: "string list"
  exec_path :: string
  rand :: "nat \<Rightarrow> int"
  clock :: "string \<Rightarrow> int \<times> int"

definition iterations :: "'a host_scheme \<Rightarrow> int" where
  "iterations s = int_var ''iterations'' (base s)"

definition set_base_var :: "string \<Rightarrow> var_value \<Rightarrow> 'a host_scheme \<Rightarrow> 'a host_scheme" where
  "set_base_var a v s = s\<lparr>base := (base s)\<lparr>vars := (vars (base s))(a \<mapsto> v)\<rparr>\<rparr>"

definition fresh_array :: "run_env \<Rightarrow> string \<Rightarrow> nat \<Rightarrow> 32 word list" where
  "fresh_array env name n = map (fresh env name) [0..<n]"

text \<open>\<open>createTimer\<close>, \<open>resetTimer\<close> and \<open>startTimer\<close>; \<open>stopTimer\<close> and \<open>readTimer\<close>.\<close>

definition begin_timer :: "int \<times> int \<Rightarrow> timer list \<Rightarrow> (int \<times> timer list) option" where
  "begin_timer now ts =
     (case createTimer ts of (h, ts1) \<Rightarrow>
        do { (_, ts2) \<leftarrow> resetTimer h ts1; (_, ts3) \<leftarrow> startTimer now h ts2; Some (h, ts3) })"

definition end_timer :: "int \<times> int \<Rightarrow> int \<Rightarrow> timer list \<Rightarrow> (flt \<times> timer list) option" where
  "end_timer now h ts = do { (_, ts1) \<leftarrow> stopTimer now h ts; t \<leftarrow> readTimer h ts1; Some (t, ts1) }"

text \<open>\<open>n\<close> elements from one array to the start of another, as \<open>memcpy\<close> and the transfers do.\<close>

definition transfer :: "nat \<Rightarrow> 'a list \<Rightarrow> 'a list \<Rightarrow> 'a list option" where
  "transfer n src dst =
     (if n \<le> length src \<and> n \<le> length dst then Some (take n src @ drop n dst) else None)"

section \<open>Setting up OpenCL\<close>

definition device_type_for :: "'a host_scheme \<Rightarrow> nat" where
  "device_type_for s =
     (if string_var ''deviceType'' (base s) = ''cpu'' then CL_DEVICE_TYPE_CPU
      else if \<not> gpu (base s) then CL_DEVICE_TYPE_CPU else CL_DEVICE_TYPE_GPU)"

text \<open>The platform is chosen and its devices are shown, then \<open>rest\<close> goes on with it.\<close>

definition with_platform :: "run_env \<Rightarrow> (nat \<Rightarrow> 'a host_scheme step) \<Rightarrow> 'a host_scheme step" where
  "with_platform env rest = (\<lambda>(s, k).
     do { ((r, p), k1) \<leftarrow> getPlatform (lib env) k None (int_var ''platformId'' (base s))
                            (enablePlatform (base s));
          if r \<noteq> SDK_SUCCESS then Some (SDK_FAILURE, s, k1)
          else do { p \<leftarrow> p;
            (case displayDevices (lib env) k1 p (device_type_for s) of (r, k2) \<Rightarrow>
               if r \<noteq> SDK_SUCCESS then Some (SDK_FAILURE, s, k2) else rest p (s, k2)) } })"

definition create_context :: "run_env \<Rightarrow> nat \<Rightarrow> 'a host_scheme step" where
  "create_context env p = cl_call (lib env) (\<lambda>_ s.
     Some (s\<lparr>cl_context := Some (devices_of (platforms (lib env) ! p) (device_type_for s))\<rparr>))"

definition get_devices :: "run_env \<Rightarrow> 'a host_scheme step" where
  "get_devices env = (\<lambda>(s, k).
     do { ctx \<leftarrow> cl_context s;
          (case getDevices (lib env) k ctx (int_var ''deviceId'' (base s)) of ((r, ds), k') \<Rightarrow>
             if r \<noteq> SDK_SUCCESS then Some (SDK_FAILURE, s, k')
             else Some (SDK_SUCCESS, s\<lparr>cl_devices := ds\<rparr>, k')) })"

definition chosen_device :: "'a host_scheme \<Rightarrow> string option" where
  "chosen_device s = do { ds \<leftarrow> cl_devices s; arg_at ds (uint_var ''deviceId'' (base s)) }"

definition create_queue :: "run_env \<Rightarrow> 'a host_scheme step" where
  "create_queue env = cl_call (lib env) (\<lambda>_ s.
     do { d \<leftarrow> chosen_device s; Some (s\<lparr>commandQueue := Some d\<rparr>) })"

definition build_data_for :: "string \<Rightarrow> 'a host_scheme \<Rightarrow> build_data" where
  "build_data_for kernel_file s =
     \<lparr>kernelName = kernel_file,
      flagsFileName =
        (if isComplierFlagsSpecified (base s) then c_str (string_var ''flags'' (base s)) else []),
      flagsStr = [],
      binaryName =
        (if isLoadBinaryEnabled (base s) then c_str (string_var ''loadBinary'' (base s)) else [])\<rparr>"

definition build_program :: "run_env \<Rightarrow> string \<Rightarrow> 'a host_scheme step" where
  "build_program env kernel_file = (\<lambda>(s, k).
     case buildOpenCLProgram (lib env) (run_files env) (exec_path env) (build_data_for kernel_file s) k of
       ((r, prog), k') \<Rightarrow>
         if r \<noteq> SDK_SUCCESS then Some (SDK_FAILURE, s, k')
         else Some (SDK_SUCCESS, s\<lparr>cl_program := prog\<rparr>, k'))"

definition create_kernel :: "run_env \<Rightarrow> 'a host_scheme step" where
  "create_kernel env = cl_call (lib env) (\<lambda>_ s. Some (s\<lparr>cl_kernel := Some (\<lambda>_. None)\<rparr>))"

definition set_arg :: "run_env \<Rightarrow> nat \<Rightarrow> kernel_arg \<Rightarrow> 'a host_scheme step" where
  "set_arg env i a = cl_call (lib env) (\<lambda>_ s.
     do { args \<leftarrow> cl_kernel s; Some (s\<lparr>cl_kernel := Some (args(i \<mapsto> a))\<rparr>) })"

text \<open>
  \<open>clCreateBuffer\<close> refuses a size of 0, and \<open>clEnqueueNDRangeKernel\<close> a global size that is 0 or no
  multiple of the local size, in any dimension; for other reasons they may fail as every call may.
  \<open>sizes\<close> are the pairs of a global and a local size.
\<close>

definition create_buffer :: "run_env \<Rightarrow> nat \<Rightarrow> ('s \<Rightarrow> 's) \<Rightarrow> 's step" where
  "create_buffer env n f = (\<lambda>(s, k).
     if n = 0 then Some (SDK_FAILURE, s, k + 1) else cl_call (lib env) (\<lambda>_ s. Some (f s)) (s, k))"

definition accepted_size :: "nat \<times> nat \<Rightarrow> bool" where
  "accepted_size = (\<lambda>(g, l). 0 < g \<and> 0 < l \<and> g mod l = 0)"

definition enqueue_kernel ::
  "run_env \<Rightarrow> ('s \<Rightarrow> (nat \<times> nat) list) \<Rightarrow> (nat \<Rightarrow> 's \<Rightarrow> 's option) \<Rightarrow> 's step" where
  "enqueue_kernel env sizes launch = (\<lambda>(s, k).
     if list_all accepted_size (sizes s) then cl_call (lib env) launch (s, k)
     else Some (SDK_FAILURE, s, k + 1))"

text \<open>Statements between the calls; the wait for the event of a call.\<close>

definition local_step :: "('s \<Rightarrow> 's option) \<Rightarrow> 's step" where
  "local_step f = (\<lambda>(s, k). do { s' \<leftarrow> f s; Some (SDK_SUCCESS, s', k) })"

definition flush_and_wait :: "run_env \<Rightarrow> 's step list" where
  "flush_and_wait env = [flush (lib env), wait_event (lib env) (event env)]"

section \<open>Set-up with a timer\<close>

text \<open>The part of \<open>setup\<close> that is timed.\<close>

definition timed_setup :: "run_env \<Rightarrow> 'a host_scheme step \<Rightarrow> 'a host_scheme step" where
  "timed_setup env setupCL = (\<lambda>(s, k).
     do { (timer, ts) \<leftarrow> begin_timer (clock env ''setup begin'') (timers s);
          (r, s1, k1) \<leftarrow> setupCL (s\<lparr>timers := ts\<rparr>, k);
          if r \<noteq> SDK_SUCCESS then Some (SDK_FAILURE, s1, k1)
          else do { (t, ts') \<leftarrow> end_timer (clock env ''setup end'') timer (timers s1);
                    Some (SDK_SUCCESS, s1\<lparr>timers := ts', setupTime := t\<rparr>, k1) } })"

section \<open>Running\<close>

text \<open>\<open>run\<close>: two runs to warm up unless there is one iteration only, then the iterations.\<close>

definition run_sample :: "run_env \<Rightarrow> 'a host_scheme step \<Rightarrow> 'a host_scheme step" where
  "run_sample env runCLKernels = (\<lambda>(s, k).
     do { (r, s1, k1) \<leftarrow> run_steps (replicate (if iterations s = 1 then 0 else 2) runCLKernels) (s, k);
          if r \<noteq> SDK_SUCCESS then Some (SDK_FAILURE, s1, k1)
          else do { (timer, ts) \<leftarrow> begin_timer (clock env ''run begin'') (timers s1);
                    (r, s2, k2) \<leftarrow> run_steps (replicate (nat (iterations s1)) runCLKernels)
                                     (s1\<lparr>timers := ts\<rparr>, k1);
                    if r \<noteq> SDK_SUCCESS then Some (SDK_FAILURE, s2, k2)
                    else do { (t, ts') \<leftarrow> end_timer (clock env ''run end'') timer (timers s2);
                              Some (SDK_SUCCESS,
                                s2\<lparr>timers := ts', totalKernelTime :=
                                    f_div binary64 t (f_of_int binary64 (iterations s2))\<rparr>, k2) } } })"

section \<open>Options, dumping, main\<close>

text \<open>\<open>initialize\<close>: the options of the sample are added behind the default ones.\<close>

fun add_options :: "cmd_option list \<Rightarrow> command_args \<Rightarrow> command_args option" where
  "add_options [] ca = Some ca"
| "add_options (op # ops) ca = do { (_, ca') \<leftarrow> AddOption (Some op) ca; add_options ops ca' }"

definition initialize_sample :: "cmd_option list \<Rightarrow> 'a host_scheme \<Rightarrow> (int \<times> 'a host_scheme) option" where
  "initialize_sample opts s =
     (case initialize (base s) of (r, b) \<Rightarrow>
        if r \<noteq> SDK_SUCCESS then Some (SDK_FAILURE, s\<lparr>base := b\<rparr>)
        else do { ca \<leftarrow> sample_args b;
                  ca' \<leftarrow> add_options opts ca;
                  Some (SDK_SUCCESS, s\<lparr>base := b\<lparr>sample_args := Some ca'\<rparr>\<rparr>) })"

definition dump_program :: "run_env \<Rightarrow> string \<Rightarrow> 'a host_scheme \<Rightarrow> (int \<times> files) option" where
  "dump_program env kernel_file s =
     do { ((r, fs), _) \<leftarrow> generateBinaryImage (lib env) (writable env) (built env) (exec_path env)
            \<lparr>kernelName = kernel_file,
             flagsFileName =
               (if isComplierFlagsSpecified (base s) then c_str (string_var ''flags'' (base s)) else []),
             flagsStr = [], binaryName = c_str (string_var ''dumpBinary'' (base s))\<rparr> 0 (run_files env);
          Some (r, fs) }"

text \<open>
  \<open>main\<close>: how the program ends, the object at the end, and the files.  \<open>work\<close> is what follows the
  command line: \<open>setup\<close>, \<open>run\<close>, \<open>verifyResults\<close>, \<open>cleanup\<close>.
\<close>

definition returning :: "'s step \<Rightarrow> 's \<times> nat \<Rightarrow> (outcome \<times> 's \<times> nat) option" where
  "returning work x = do { (r, s, k) \<leftarrow> work x; Some (Returned r, s, k) }"

definition main_sample ::
  "run_env \<Rightarrow> cmd_option list \<Rightarrow> string \<Rightarrow>
   ('a host_scheme \<times> nat \<Rightarrow> (outcome \<times> 'a host_scheme \<times> nat) option) \<Rightarrow> 'a host_scheme \<Rightarrow> string list \<Rightarrow>
   (outcome \<times> 'a host_scheme \<times> files) option" where
  "main_sample env opts kernel_file work start argv =
     do { (r, s0) \<leftarrow> initialize_sample opts start;
          if r \<noteq> SDK_SUCCESS then Some (Returned SDK_FAILURE, s0, run_files env)
          else do {
            (out, b) \<leftarrow> parseCommandLine ((lib env)\<lparr>answers := check_answers env\<rparr>) argv (base s0);
            let s = s0\<lparr>base := b\<rparr> in
            if out \<noteq> Returned SDK_SUCCESS
            then Some (case out of Exited c \<Rightarrow> Exited c | Returned _ \<Rightarrow> Returned SDK_FAILURE, s, run_files env)
            else if isDumpBinaryEnabled b
            then do { (r, fs) \<leftarrow> dump_program env kernel_file s; Some (Returned r, s, fs) }
            else do { (out, s1, _) \<leftarrow> work (s, 0); Some (out, s1, run_files env) } } }"

end
