(* ===== verification/Floyd.thy ===== *)
theory Floyd
  imports Sdk_Host
begin

text \<open>
  The sample \<open>cl_testbench/FloydWarshall\<close>: shortest paths between all pairs of nodes, on the device
  by one launch for every intermediate node, and on the host for comparison.  \<open>numNodes\<close> and
  \<open>iterations\<close> are set by options, so they are variables of the base class.  Conventions are
  those of \<open>Sdk_Host\<close>.
\<close>

section \<open>Data\<close>

record floyd = host +
  pathDistanceMatrix :: "32 word list option"
  pathMatrix :: "32 word list option"
  verificationPathDistanceMatrix :: "32 word list option"
  verificationPathMatrix :: "32 word list option"
  pathDistanceBuffer :: "32 word list option"
  pathBuffer :: "32 word list option"
  blockSize :: "32 word"
  kernelInfo :: work_group_info

definition numNodes :: "floyd \<Rightarrow> int" where
  "numNodes s = int_var ''numNodes'' (base s)"

definition MAXDISTANCE :: "32 word" where
  "MAXDISTANCE = 200"

definition new_floyd :: floyd where
  "new_floyd =
     set_base_var ''iterations'' (Int_val 1) (set_base_var ''numNodes'' (Int_val 128)
       \<lparr>base = new_sample False, timers = [], setupTime = Fin 0, totalKernelTime = Fin 0,
        referenceKernelTime = Fin 0, cl_context = None, cl_devices = None, commandQueue = None,
        cl_program = None, cl_kernel = None,
        pathDistanceMatrix = None, pathMatrix = None, verificationPathDistanceMatrix = None,
        verificationPathMatrix = None, pathDistanceBuffer = None, pathBuffer = None,
        blockSize = 16, kernelInfo = new_work_group_info\<rparr>)"

section \<open>The kernel\<close>

text \<open>
  One work item of \<open>floydWarshallPass\<close>.  The weights are compared as signed numbers, the indices
  are unsigned and wrap around.
\<close>

definition floydWarshallPass ::
  "32 word \<Rightarrow> 32 word \<Rightarrow> nat \<times> nat \<Rightarrow> 32 word list \<times> 32 word list \<Rightarrow>
   (32 word list \<times> 32 word list) option" where
  "floydWarshallPass n pass = (\<lambda>(gx, gy) (dist, path).
     let xValue = word_of_nat gx; yValue = word_of_nat gy; k = pass in
     do { oldWeight \<leftarrow> arg_at dist (unat (yValue * n + xValue));
          a \<leftarrow> arg_at dist (unat (yValue * n + k));
          b \<leftarrow> arg_at dist (unat (k * n + xValue));
          let tempWeight = a + b in
          if tempWeight <s oldWeight then
            do { dist' \<leftarrow> set_at dist (unat (yValue * n + xValue)) tempWeight;
                 path' \<leftarrow> set_at path (unat (yValue * n + xValue)) k;
                 Some (dist', path') }
          else Some (dist, path) })"

section \<open>The reference on the host\<close>

definition minimum :: "32 word \<Rightarrow> 32 word \<Rightarrow> 32 word" where
  "minimum a b = (if b < a then b else a)"

definition reference_step ::
  "32 word \<Rightarrow> nat \<Rightarrow> nat \<times> nat \<Rightarrow> 32 word list \<times> 32 word list \<Rightarrow>
   (32 word list \<times> 32 word list) option" where
  "reference_step n k' = (\<lambda>(x', y') (dist, path).
     let x = word_of_nat x'; k = word_of_nat k'; yXwidth = word_of_nat y' * n in
     do { distanceYtoX \<leftarrow> arg_at dist (unat (yXwidth + x));
          distanceYtoK \<leftarrow> arg_at dist (unat (yXwidth + k));
          distanceKtoX \<leftarrow> arg_at dist (unat (k * n + x));
          let indirectDistance = distanceYtoK + distanceKtoX in
          if indirectDistance < distanceYtoX then
            do { dist' \<leftarrow> set_at dist (unat (yXwidth + x)) indirectDistance;
                 path' \<leftarrow> set_at path (unat (yXwidth + x)) k;
                 Some (dist', path') }
          else Some (dist, path) })"

definition floydWarshallCPUReference ::
  "32 word \<Rightarrow> 32 word list \<times> 32 word list \<Rightarrow> (32 word list \<times> 32 word list) option" where
  "floydWarshallCPUReference n =
     for_loop 0 (unat n) (\<lambda>k. for_loop 0 (unat n) (\<lambda>y. for_loop 0 (unat n) (\<lambda>x.
       reference_step n k (x, y))))"

section \<open>Preparing the data\<close>

definition zero_diagonal :: "nat \<Rightarrow> 32 word list \<Rightarrow> 32 word list option" where
  "zero_diagonal n = for_loop 0 n (\<lambda>i d. set_at d (i * n + i) 0)"

definition init_paths :: "nat \<Rightarrow> 32 word list \<Rightarrow> 32 word list option" where
  "init_paths n = for_loop 0 n (\<lambda>i p.
     do { p' \<leftarrow> for_loop 0 i (\<lambda>j p. do { p1 \<leftarrow> set_at p (i * n + j) (word_of_nat i);
                                        set_at p1 (j * n + i) (word_of_nat j) }) p;
          set_at p' (i * n + i) (word_of_nat i) })"

text \<open>
  \<open>setupFloydWarshall\<close>.  The number of bytes of the first two arrays is a \<open>cl_uint\<close>, which wraps
  around; the copies for the verification have their full size.
\<close>

definition setupFloydWarshall :: "run_env \<Rightarrow> floyd \<Rightarrow> (int \<times> floyd) option" where
  "setupFloydWarshall env s =
     (let n = numNodes s; nn = nat (n * n); sz = nat (n * n * 4 mod 2 ^ 32) div 4 in
      if \<not> fits_int (n * n) then None
      else do { (_, d0) \<leftarrow> fillRandom (rand env) (Some (fresh_array env ''pathDistanceMatrix'' sz))
                              n n 0 MAXDISTANCE;
                d1 \<leftarrow> d0;
                d \<leftarrow> zero_diagonal (nat n) d1;
                p \<leftarrow> init_paths (nat n) (fresh_array env ''pathMatrix'' sz);
                let s1 = s\<lparr>pathDistanceMatrix := Some d, pathMatrix := Some p\<rparr> in
                if bool_var ''verify'' (base s) then
                  do { vd \<leftarrow> transfer nn d (fresh_array env ''verificationPathDistanceMatrix'' nn);
                       vp \<leftarrow> transfer nn p (fresh_array env ''verificationPathMatrix'' nn);
                       Some (SDK_SUCCESS, s1\<lparr>verificationPathDistanceMatrix := Some vd,
                                              verificationPathMatrix := Some vp\<rparr>) }
                else Some (SDK_SUCCESS, s1) })"

section \<open>Setting up OpenCL\<close>

definition kernel_file :: string where
  "kernel_file = ''FloydWarshall_Kernels.cl''"

text \<open>The calls of \<open>setupCL\<close> once the platform is known; buffers have \<open>nn\<close> elements.\<close>

definition setupCL_calls :: "run_env \<Rightarrow> nat \<Rightarrow> nat \<Rightarrow> floyd step" where
  "setupCL_calls env nn p = run_steps
     [create_context env p,
      get_devices env,
      create_queue env,
      create_buffer env nn (\<lambda>s. s\<lparr>pathDistanceBuffer := Some (fresh_array env ''pathDistanceBuffer'' nn)\<rparr>),
      create_buffer env nn (\<lambda>s. s\<lparr>pathBuffer := Some (fresh_array env ''pathBuffer'' nn)\<rparr>),
      build_program env kernel_file,
      create_kernel env]"

definition setupCL :: "run_env \<Rightarrow> floyd step" where
  "setupCL env = (\<lambda>(s, k).
     with_platform env (setupCL_calls env (nat (numNodes s * numNodes s))) (s, k))"

text \<open>\<open>setup\<close>: the number of nodes is raised to a multiple of the block size, in unsigned arithmetic.\<close>

definition pad_nodes :: "floyd \<Rightarrow> floyd option" where
  "pad_nodes s =
     (let n = word_of_int (numNodes s); b = blockSize s in
      if b = 0 then None
      else if n mod b \<noteq> 0
           then Some (set_base_var ''numNodes'' (Int_val (sint ((n div b + 1) * b))) s)
      else Some s)"

definition setup_floyd :: "run_env \<Rightarrow> floyd step" where
  "setup_floyd env = (\<lambda>(s, k).
     do { s1 \<leftarrow> pad_nodes s;
          (r, s2) \<leftarrow> setupFloydWarshall env s1;
          if r \<noteq> SDK_SUCCESS then Some (SDK_FAILURE, s2, k)
          else timed_setup env (setupCL env) (s2, k) })"

section \<open>Running the kernel\<close>

definition query_kernel :: "run_env \<Rightarrow> floyd step" where
  "query_kernel env = (\<lambda>(s, k).
     do { _ \<leftarrow> chosen_device s;
          (case setKernelWorkGroupInfo (lib env) (group_info env) k (kernelInfo s) of ((r, i), k') \<Rightarrow>
             Some (r, s\<lparr>kernelInfo := i\<rparr>, k')) })"

definition choose_block :: "floyd \<Rightarrow> floyd" where
  "choose_block s =
     (if kernelWorkGroupSize (kernelInfo s) < unat (blockSize s * blockSize s)
      then s\<lparr>blockSize := 4\<rparr> else s)"

text \<open>
  A launch over \<open>numNodes\<close> by \<open>numNodes\<close> work items in groups of \<open>blockSize\<close> by \<open>blockSize\<close>, with the
  arguments set before.
\<close>

definition pass_threads :: "floyd \<Rightarrow> nat" where
  "pass_threads s = nat (numNodes s mod 2 ^ 64)"

definition pass_sizes :: "floyd \<Rightarrow> (nat \<times> nat) list" where
  "pass_sizes s = [(pass_threads s, unat (blockSize s)), (pass_threads s, unat (blockSize s))]"

definition launch_pass :: "run_env \<Rightarrow> nat \<Rightarrow> floyd \<Rightarrow> floyd option" where
  "launch_pass env k s =
     (let g = pass_threads s in
      do { args \<leftarrow> cl_kernel s;
           d \<leftarrow> pathDistanceBuffer s;
           p \<leftarrow> pathBuffer s;
           (case (args 0, args 1, args 2, args 3) of
              (Some (Buffer_arg a0), Some (Buffer_arg a1), Some (Uint_arg n), Some (Uint_arg pass)) \<Rightarrow>
                if a0 \<noteq> ''pathDistanceBuffer'' \<or> a1 \<noteq> ''pathBuffer'' then None
                else do { (d', p') \<leftarrow> foldM (floydWarshallPass n pass) (schedule env k g g) (d, p);
                     Some (s\<lparr>pathDistanceBuffer := Some d', pathBuffer := Some p'\<rparr>) }
            | _ \<Rightarrow> None) })"

definition one_pass :: "run_env \<Rightarrow> nat \<Rightarrow> floyd step" where
  "one_pass env i = run_steps
     [set_arg env 3 (Uint_arg (word_of_nat i)),
      enqueue_kernel env pass_sizes (launch_pass env),
      flush (lib env),
      wait_event (lib env) (event env)]"

definition write_distances :: "floyd \<Rightarrow> floyd option" where
  "write_distances s =
     do { d \<leftarrow> pathDistanceMatrix s;
          buf \<leftarrow> pathDistanceBuffer s;
          buf' \<leftarrow> transfer (nat (numNodes s * numNodes s)) d buf;
          Some (s\<lparr>pathDistanceBuffer := Some buf'\<rparr>) }"

definition read_paths :: "floyd \<Rightarrow> floyd option" where
  "read_paths s =
     do { p \<leftarrow> pathMatrix s;
          buf \<leftarrow> pathBuffer s;
          p' \<leftarrow> transfer (nat (numNodes s * numNodes s)) buf p;
          Some (s\<lparr>pathMatrix := Some p'\<rparr>) }"

definition read_distances :: "floyd \<Rightarrow> floyd option" where
  "read_distances s =
     do { d \<leftarrow> pathDistanceMatrix s;
          buf \<leftarrow> pathDistanceBuffer s;
          d' \<leftarrow> transfer (nat (numNodes s * numNodes s)) buf d;
          Some (s\<lparr>pathDistanceMatrix := Some d'\<rparr>) }"

text \<open>\<open>runCLKernels\<close>, after the two sizes have been computed.\<close>

definition kernel_calls :: "run_env \<Rightarrow> 32 word \<Rightarrow> floyd step" where
  "kernel_calls env n =
     (let sync = [flush (lib env), wait_event (lib env) (event env)] in
      run_steps
       ([query_kernel env, \<lambda>(s, k). Some (SDK_SUCCESS, choose_block s, k),
         cl_call (lib env) (\<lambda>_. write_distances)] @ sync @
        [set_arg env 0 (Buffer_arg ''pathDistanceBuffer''), set_arg env 1 (Buffer_arg ''pathBuffer''),
         set_arg env 2 (Uint_arg n), set_arg env 3 (Uint_arg n)] @
        map (one_pass env) [0..<unat n] @
        [cl_call (lib env) (\<lambda>_. read_paths)] @ sync @
        [cl_call (lib env) (\<lambda>_. read_distances)] @ sync))"

definition runCLKernels :: "run_env \<Rightarrow> floyd step" where
  "runCLKernels env = (\<lambda>(s, k).
     kernel_calls env (word_of_int (numNodes s)) (s\<lparr>totalKernelTime := Fin 0\<rparr>, k))"

definition run_floyd :: "run_env \<Rightarrow> floyd step" where
  "run_floyd env = run_sample env (runCLKernels env)"

section \<open>Verification, clean-up, main\<close>

definition verifyResults :: "run_env \<Rightarrow> floyd \<Rightarrow> (int \<times> floyd) option" where
  "verifyResults env s =
     (if bool_var ''verify'' (base s) then
        do { vd \<leftarrow> verificationPathDistanceMatrix s;
             vp \<leftarrow> verificationPathMatrix s;
             (timer, ts) \<leftarrow> begin_timer (clock env ''reference begin'') (timers s);
             (vd', vp') \<leftarrow> floydWarshallCPUReference (word_of_int (numNodes s)) (vd, vp);
             (t, ts') \<leftarrow> end_timer (clock env ''reference end'') timer ts;
             d \<leftarrow> pathDistanceMatrix s;
             let nn = nat (numNodes s * numNodes s);
                 s' = s\<lparr>verificationPathDistanceMatrix := Some vd', verificationPathMatrix := Some vp',
                        timers := ts', referenceKernelTime := t\<rparr>
             in if length d < nn \<or> length vd' < nn then None
                else if take nn d = take nn vd' then Some (SDK_SUCCESS, s') else Some (SDK_FAILURE, s') }
      else Some (SDK_SUCCESS, s))"

definition cleanup :: "run_env \<Rightarrow> floyd step" where
  "cleanup env = run_steps
     [cl_call (lib env) (\<lambda>_ s. Some (s\<lparr>cl_kernel := None\<rparr>)),
      cl_call (lib env) (\<lambda>_ s. Some (s\<lparr>cl_program := None\<rparr>)),
      cl_call (lib env) (\<lambda>_ s. Some (s\<lparr>pathDistanceBuffer := None\<rparr>)),
      cl_call (lib env) (\<lambda>_ s. Some (s\<lparr>pathBuffer := None\<rparr>)),
      cl_call (lib env) (\<lambda>_ s. Some (s\<lparr>commandQueue := None\<rparr>)),
      cl_call (lib env) (\<lambda>_ s. Some (s\<lparr>cl_context := None\<rparr>)),
      \<lambda>(s, k). Some (SDK_SUCCESS,
        s\<lparr>pathDistanceMatrix := None, pathMatrix := None, verificationPathDistanceMatrix := None,
          verificationPathMatrix := None, cl_devices := None\<rparr>, k)]"

definition floyd_options :: "cmd_option list" where
  "floyd_options =
     [make_option ''x'' ''nodes'' ''number of nodes'' CA_ARG_INT ''numNodes'',
      make_option ''i'' ''iterations'' ''Number of iterations for kernel execution''
        CA_ARG_INT ''iterations'']"

definition initialize_floyd :: "floyd \<Rightarrow> (int \<times> floyd) option" where
  "initialize_floyd s = initialize_sample floyd_options s"

definition genBinaryImage :: "run_env \<Rightarrow> floyd \<Rightarrow> (int \<times> files) option" where
  "genBinaryImage env s = dump_program env kernel_file s"

definition main_floyd :: "run_env \<Rightarrow> string list \<Rightarrow> (outcome \<times> floyd \<times> files) option" where
  "main_floyd env =
     main_sample env floyd_options kernel_file
       (returning (run_steps
         [setup_floyd env, run_floyd env,
          \<lambda>(s, k). do { (r, s') \<leftarrow> verifyResults env s; Some (r, s', k) },
          cleanup env]))
       new_floyd"

end
