(* ===== verification/Floyd_Paths.thy ===== *)
theory Floyd_Paths
  imports Prelude
begin

text \<open>
  Shortest paths: \<open>walk D x zs y\<close> is the length of the walk from \<open>x\<close> over the nodes \<open>zs\<close> to \<open>y\<close>, and
  \<open>through D k\<close> the matrix after the first \<open>k\<close> nodes have been offered as intermediate nodes.
\<close>

fun walk :: "(nat \<Rightarrow> nat \<Rightarrow> nat) \<Rightarrow> nat \<Rightarrow> nat list \<Rightarrow> nat \<Rightarrow> nat" where
  "walk D x [] y = D x y"
| "walk D x (z # zs) y = D x z + walk D z zs y"

text \<open>\<open>d\<close> is the distance from \<open>x\<close> to \<open>y\<close> by walks over nodes below \<open>n\<close>: the length of some walk and
  of no longer one.\<close>

definition is_distance :: "(nat \<Rightarrow> nat \<Rightarrow> nat) \<Rightarrow> nat \<Rightarrow> nat \<Rightarrow> nat \<Rightarrow> nat \<Rightarrow> bool" where
  "is_distance D n x y d \<longleftrightarrow>
     (\<exists>zs. set zs \<subseteq> {..<n} \<and> d = walk D x zs y) \<and> (\<forall>zs. set zs \<subseteq> {..<n} \<longrightarrow> d \<le> walk D x zs y)"

definition relax :: "(nat \<Rightarrow> nat \<Rightarrow> nat) \<Rightarrow> nat \<Rightarrow> nat \<Rightarrow> nat \<Rightarrow> nat" where
  "relax D k x y = min (D x y) (D x k + D k y)"

fun through :: "(nat \<Rightarrow> nat \<Rightarrow> nat) \<Rightarrow> nat \<Rightarrow> nat \<Rightarrow> nat \<Rightarrow> nat" where
  "through D 0 = D"
| "through D (Suc k) = relax (through D k) k"

lemma walk_append: "walk D x (as @ k # bs) y = walk D x as k + walk D k bs y"
  by (induction "as" arbitrary: x) simp_all

lemma through_attained: "\<exists>zs. set zs \<subseteq> {..<k} \<and> through D k x y = walk D x zs y"
proof (induction k arbitrary: x y)
  case 0
  then show ?case by (intro exI [of _ "[]"]) simp
next
  case (Suc k)
  show ?case
  proof (cases "through D k x y \<le> through D k x k + through D k k y")
    case True
    obtain zs where "set zs \<subseteq> {..<k}" "through D k x y = walk D x zs y" using Suc by blast
    then show ?thesis using True by (intro exI [of _ zs]) (auto simp: relax_def min_def)
  next
    case False
    obtain as bs where w: "set as \<subseteq> {..<k}" "through D k x k = walk D x as k"
        "set bs \<subseteq> {..<k}" "through D k k y = walk D k bs y"
      using Suc by metis
    then have "set (as @ k # bs) \<subseteq> {..<Suc k}" by auto
    moreover have "through D (Suc k) x y = walk D x (as @ k # bs) y"
      using False w by (simp add: relax_def min_def walk_append)
    ultimately show ?thesis by blast
  qed
qed

lemma through_le_walk: "set zs \<subseteq> {..<k} \<Longrightarrow> through D k x y \<le> walk D x zs y"
proof (induction k arbitrary: x y zs)
  case 0
  then show ?case by simp
next
  case (Suc k)
  show ?case
  proof (cases "k \<in> set zs")
    case False
    then have "set zs \<subseteq> {..<k}" using Suc.prems by (auto simp: less_Suc_eq)
    then show ?thesis using Suc.IH [of zs x y] by (simp add: relax_def)
  next
    case True
    then obtain as rest where zs: "zs = as @ k # rest" "k \<notin> set as" by (meson split_list_first)
    have to_k: "through D k x k \<le> walk D x as k"
      using Suc.prems zs by (intro Suc.IH) (auto simp: less_Suc_eq)
    have "through D k k y \<le> walk D k rest y"
    proof (cases "k \<in> set rest")
      case False
      then show ?thesis using Suc.prems zs by (intro Suc.IH) (auto simp: less_Suc_eq)
    next
      case True
      then obtain ms bs where r: "rest = ms @ k # bs" "k \<notin> set bs" by (meson split_list_last)
      then have "through D k k y \<le> walk D k bs y"
        using Suc.prems zs by (intro Suc.IH) (auto simp: less_Suc_eq)
      then show ?thesis using r by (simp add: walk_append)
    qed
    then show ?thesis using to_k zs by (simp add: relax_def walk_append)
  qed
qed

lemma through_distance: "is_distance D n x y (through D n x y)"
  unfolding is_distance_def using through_attained through_le_walk by blast

lemma through_triangle:
  assumes "z < n"
  shows "through D n x y \<le> through D n x z + through D n z y"
proof -
  obtain as bs where w: "set as \<subseteq> {..<n}" "through D n x z = walk D x as z"
      "set bs \<subseteq> {..<n}" "through D n z y = walk D z bs y"
    using through_attained by metis
  have "through D n x y \<le> walk D x (as @ z # bs) y"
    using w assms by (intro through_le_walk) auto
  then show ?thesis using w by (simp add: walk_append)
qed

lemma through_decreasing: "through D k x y \<le> D x y"
  by (induction k) (simp_all add: relax_def min.coboundedI1)

lemma relax_triangle: "(\<And>x y. D x y \<le> D x k + D k y) \<Longrightarrow> relax D k = D"
  by (intro ext) (simp add: relax_def min_def)

end
