(* ===== verification/Floyd_Facts.thy ===== *)
theory Floyd_Facts
  imports Floyd Floyd_Paths
begin

text \<open>
  What a pass of the algorithm does to the matrices, on the device in any order of the work items
  and on the host in the order of the loops: both are instances of \<open>in_place_kernel\<close> with the same
  outcome.  The reason is the diagonal of zeros: no work item changes the row and the column of the
  intermediate node, which are all that the other work items read.
\<close>

section \<open>One pass\<close>

definition pass_entry :: "nat \<Rightarrow> nat \<Rightarrow> 32 word list \<times> 32 word list \<Rightarrow> nat \<Rightarrow> 32 word \<times> 32 word" where
  "pass_entry n k s i =
     (case s of (d, p) \<Rightarrow>
        let v = d ! (i div n * n + k) + d ! (k * n + i mod n)
        in if v < d ! i then (v, word_of_nat k) else (d ! i, p ! i))"

definition pass_all :: "nat \<Rightarrow> nat \<Rightarrow> 32 word list \<times> 32 word list \<Rightarrow> 32 word list \<times> 32 word list" where
  "pass_all n k s = (map (\<lambda>i. fst (pass_entry n k s i)) [0..<n * n],
                     map (\<lambda>i. snd (pass_entry n k s i)) [0..<n * n])"

text \<open>Distances far from the overflow of \<open>int\<close>, and zeros on the diagonal.\<close>

definition matrix_ok :: "nat \<Rightarrow> 32 word list \<Rightarrow> bool" where
  "matrix_ok n d \<longleftrightarrow> n < 32768 \<and> length d = n * n \<and> (\<forall>e \<in> set d. unat e < 2 ^ 30)
     \<and> (\<forall>i < n. d ! (i * n + i) = 0)"

definition pass_ok :: "nat \<times> nat \<Rightarrow> 32 word list \<times> 32 word list \<Rightarrow> bool" where
  "pass_ok = (\<lambda>(n, k) (d, p). k < n \<and> matrix_ok n d \<and> length p = n * n)"

definition pass_wf :: "nat \<times> nat \<Rightarrow> 32 word list \<times> 32 word list \<Rightarrow> bool" where
  "pass_wf = (\<lambda>(n, k) (d, p). k < n \<and> n < 32768 \<and> length d = n * n \<and> length p = n * n)"

definition pass_look :: "32 word list \<times> 32 word list \<Rightarrow> nat \<Rightarrow> 32 word \<times> 32 word" where
  "pass_look = (\<lambda>(d, p) i. (d ! i, p ! i))"

definition pass_owner :: "nat \<times> nat \<Rightarrow> nat \<Rightarrow> nat \<times> nat" where
  "pass_owner = (\<lambda>(n, k) i. (i mod n, i div n))"

lemma unat_flat_index:
  assumes "x < n" "y < n" "n < 32768"
  shows "unat (word_of_nat y * word_of_nat n + word_of_nat x :: 32 word) = y * n + x"
proof -
  have "y * n + x < n * n" using flat_index_bound assms(1,2) by simp
  also have "\<dots> < 32768 * 32768" using assms(3) by (intro mult_strict_mono) auto
  finally have "y * n + x < 2 ^ 32" by simp
  moreover have "(word_of_nat y * word_of_nat n + word_of_nat x :: 32 word) = word_of_nat (y * n + x)"
    by simp
  ultimately show ?thesis by (simp only: unsigned_of_nat) (simp add: take_bit_nat_eq_self)
qed

lemma small_sum:
  assumes "unat (a :: 32 word) < 2 ^ 30" "unat (b :: 32 word) < 2 ^ 30"
  shows "unat (a + b) = unat a + unat b"
  using assms by (intro unat_add_lem [THEN iffD1]) simp

lemma small_signed_less:
  assumes "unat (a :: 32 word) < 2 ^ 31" "unat (b :: 32 word) < 2 ^ 31"
  shows "a <s b \<longleftrightarrow> a < b"
proof -
  have "sint v = uint v" if "unat v < 2 ^ 31" for v :: "32 word"
  proof -
    have "int (unat v) < int (2 ^ 31)" using that by (simp only: of_nat_less_iff)
    moreover have "- 2147483648 \<le> uint v" by (rule order.trans [OF _ uint_ge_0]) simp
    ultimately show ?thesis by (simp add: sint_uint signed_take_bit_int_eq_self)
  qed
  then show ?thesis using assms by (simp add: word_sless_alt word_less_def)
qed

text \<open>
  A body that reads the three entries and writes the two slots of its own, as the kernel and the
  loop on the host do; \<open>lt\<close> is their comparison.
\<close>

definition pass_body ::
  "(32 word \<Rightarrow> 32 word \<Rightarrow> bool) \<Rightarrow> nat \<times> nat \<Rightarrow> nat \<times> nat \<Rightarrow> 32 word list \<times> 32 word list \<Rightarrow>
   (32 word list \<times> 32 word list) option" where
  "pass_body lt = (\<lambda>(n, k) (x, y) (d, p).
     do { old \<leftarrow> arg_at d (y * n + x);
          a \<leftarrow> arg_at d (y * n + k);
          b \<leftarrow> arg_at d (k * n + x);
          if lt (a + b) old
          then do { d' \<leftarrow> set_at d (y * n + x) (a + b); p' \<leftarrow> set_at p (y * n + x) (word_of_nat k);
                    Some (d', p') }
          else Some (d, p) })"

lemma pass_entry_fixed:
  assumes "matrix_ok n d" "k < n" "z < n"
  shows "pass_entry n k (d, p) (z * n + k) = (d ! (z * n + k), p ! (z * n + k))"
    and "pass_entry n k (d, p) (k * n + z) = (d ! (k * n + z), p ! (k * n + z))"
  using assms by (auto simp: pass_entry_def matrix_ok_def Let_def)

lemma pass_entry_small:
  assumes "matrix_ok n d" "i < n * n"
  shows "unat (fst (pass_entry n k (d, p) i)) < 2 ^ 30"
  using assms by (auto simp: pass_entry_def matrix_ok_def Let_def word_less_nat_alt
      dest: order.strict_trans)

lemma pass_body_item:
  assumes lt: "\<And>a b. unat a < 2 ^ 31 \<Longrightarrow> unat b < 2 ^ 31 \<Longrightarrow> lt a b \<longleftrightarrow> a < b"
    and ok: "pass_ok (n, k) (d0, p0)" and wf: "pass_wf (n, k) (d, p)" and t: "x < n" "y < n"
    and slots: "\<And>i. i < n * n \<Longrightarrow> (d ! i, p ! i) = (d0 ! i, p0 ! i) \<or> (d ! i, p ! i) = pass_entry n k (d0, p0) i"
    and own: "(d ! (y * n + x), p ! (y * n + x)) = (d0 ! (y * n + x), p0 ! (y * n + x))"
  shows "\<exists>d' p'. pass_body lt (n, k) (x, y) (d, p) = Some (d', p') \<and> pass_wf (n, k) (d', p')
    \<and> (\<forall>i < n * n. (d' ! i, p' ! i) =
        (if (i mod n, i div n) = (x, y) then pass_entry n k (d0, p0) i else (d ! i, p ! i)))"
proof -
  let ?i = "y * n + x"
  have m: "matrix_ok n d0" "k < n" and len: "length d = n * n" "length p = n * n" "length d0 = n * n"
    using ok wf by (auto simp: pass_ok_def pass_wf_def matrix_ok_def)
  have ix: "?i < n * n" "y * n + k < n * n" "k * n + x < n * n"
    using flat_index_bound t m(2) by simp_all
  have here: "(i mod n, i div n) = (x, y) \<longleftrightarrow> i = ?i" if "i < n * n" for i
    using t that by (auto simp: div_mult_mod_eq)
  have read: "d ! (y * n + k) = d0 ! (y * n + k)" "d ! (k * n + x) = d0 ! (k * n + x)"
    using slots [OF ix(2)] slots [OF ix(3)] pass_entry_fixed [OF m t(2)] pass_entry_fixed [OF m t(1)]
    by auto
  have small: "unat (d0 ! i) < 2 ^ 30" if "i < n * n" for i
    using m(1) that by (simp add: matrix_ok_def)
  let ?v = "d0 ! (y * n + k) + d0 ! (k * n + x)"
  have "unat ?v < 2 ^ 31"
    using small_sum [OF small [OF ix(2)] small [OF ix(3)]] small [OF ix(2)] small [OF ix(3)] by simp
  then have cmp: "lt ?v (d0 ! ?i) \<longleftrightarrow> ?v < d0 ! ?i"
    using lt small [OF ix(1)] by simp
  have e: "pass_entry n k (d0, p0) ?i = (if ?v < d0 ! ?i then (?v, word_of_nat k) else (d0 ! ?i, p0 ! ?i))"
    using t by (simp add: pass_entry_def)
  show ?thesis
    using len ix read own cmp e here wf
    by (auto simp: pass_body_def pass_wf_def nth_list_update Let_def)
qed

section \<open>The kernel and the host as instances\<close>

definition pass_slots :: "nat \<times> nat \<Rightarrow> nat" where
  "pass_slots = (\<lambda>(n, k). n * n)"

definition pass_items :: "nat \<times> nat \<Rightarrow> (nat \<times> nat) set" where
  "pass_items = (\<lambda>(n, k). items2 n n)"

definition pass_final :: "nat \<times> nat \<Rightarrow> 32 word list \<times> 32 word list \<Rightarrow> nat \<Rightarrow> 32 word \<times> 32 word" where
  "pass_final = (\<lambda>(n, k). pass_entry n k)"

definition device_item ::
  "nat \<times> nat \<Rightarrow> nat \<times> nat \<Rightarrow> 32 word list \<times> 32 word list \<Rightarrow> (32 word list \<times> 32 word list) option" where
  "device_item = (\<lambda>(n, k). floydWarshallPass (word_of_nat n) (word_of_nat k))"

definition host_item ::
  "nat \<times> nat \<Rightarrow> nat \<times> nat \<Rightarrow> 32 word list \<times> 32 word list \<Rightarrow> (32 word list \<times> 32 word list) option" where
  "host_item = (\<lambda>(n, k). reference_step (word_of_nat n) k)"

lemma device_item_body:
  "k < n \<Longrightarrow> n < 32768 \<Longrightarrow> x < n \<Longrightarrow> y < n \<Longrightarrow>
    device_item (n, k) (x, y) (d, p) = pass_body (<s) (n, k) (x, y) (d, p)"
  by (simp add: device_item_def floydWarshallPass_def pass_body_def unat_flat_index Let_def cong: if_cong)

lemma host_item_body:
  "k < n \<Longrightarrow> n < 32768 \<Longrightarrow> x < n \<Longrightarrow> y < n \<Longrightarrow>
    host_item (n, k) (x, y) (d, p) = pass_body (<) (n, k) (x, y) (d, p)"
  by (simp add: host_item_def reference_step_def pass_body_def unat_flat_index Let_def cong: if_cong)

lemma pass_item:
  assumes same: "\<And>n k x y d p. k < n \<Longrightarrow> n < 32768 \<Longrightarrow> x < n \<Longrightarrow> y < n \<Longrightarrow>
      it (n, k) (x, y) (d, p) = pass_body lt (n, k) (x, y) (d, p)"
    and lt: "\<And>a b. unat a < 2 ^ 31 \<Longrightarrow> unat b < 2 ^ 31 \<Longrightarrow> lt a b \<longleftrightarrow> a < b"
  shows "in_place_kernel it pass_ok pass_wf pass_look pass_slots pass_items pass_owner pass_final"
proof
  fix q :: "nat \<times> nat" and s0 assume "pass_ok q s0"
  then show "pass_wf q s0" by (auto simp: pass_ok_def pass_wf_def matrix_ok_def split: prod.splits)
next
  fix q :: "nat \<times> nat" and t :: "nat \<times> nat" and s0 s
  assume ok: "pass_ok q s0" and wf: "pass_wf q s" and t: "t \<in> pass_items q"
    and slots: "\<And>i. i < pass_slots q \<Longrightarrow> pass_look s i = pass_look s0 i \<or> pass_look s i = pass_final q s0 i"
    and own: "\<And>i. i < pass_slots q \<Longrightarrow> pass_owner q i = t \<Longrightarrow> pass_look s i = pass_look s0 i"
  obtain n k where q: "q = (n, k)" by (cases q)
  obtain x y where xy: "t = (x, y)" by (cases t)
  obtain d p where s: "s = (d, p)" by (cases s)
  obtain d0 p0 where s0: "s0 = (d0, p0)" by (cases s0)
  have r: "x < n" "y < n" "k < n" "n < 32768"
    using t wf by (auto simp: q xy s pass_items_def items2_def pass_wf_def)
  have i: "y * n + x < n * n" using flat_index_bound r by simp
  have "(d ! (y * n + x), p ! (y * n + x)) = (d0 ! (y * n + x), p0 ! (y * n + x))"
    using own [of "y * n + x"] r i by (simp add: q xy s s0 pass_slots_def pass_owner_def pass_look_def)
  then obtain d' p' where "pass_body lt (n, k) (x, y) (d, p) = Some (d', p')" "pass_wf (n, k) (d', p')"
      "\<forall>i < n * n. (d' ! i, p' ! i) =
        (if (i mod n, i div n) = (x, y) then pass_entry n k (d0, p0) i else (d ! i, p ! i))"
    using pass_body_item [OF lt, of n k d0 p0 d p x y] ok wf r slots
    by (auto simp: q s s0 pass_slots_def pass_look_def pass_final_def)
  then show "\<exists>s'. it q t s = Some s' \<and> pass_wf q s' \<and> (\<forall>i < pass_slots q. pass_look s' i =
      (if pass_owner q i = t then pass_final q s0 i else pass_look s i))"
    using same [of k n x y d p] r
    by (auto simp: q xy s s0 pass_slots_def pass_owner_def pass_look_def pass_final_def)
qed

interpretation device: in_place_kernel device_item pass_ok pass_wf pass_look pass_slots pass_items
  pass_owner pass_final
  by (rule pass_item [OF device_item_body small_signed_less])

interpretation host: in_place_kernel host_item pass_ok pass_wf pass_look pass_slots pass_items
  pass_owner pass_final
  by (rule pass_item [OF host_item_body refl])

lemma pass_all_unique:
  assumes "pass_wf (n, k) (d', p')" "\<forall>i < pass_slots (n, k). pass_look (d', p') i = pass_final (n, k) s0 i"
  shows "(d', p') = pass_all n k s0"
proof -
  have "d' = fst (pass_all n k s0)" "p' = snd (pass_all n k s0)"
    using assms
    by (auto simp: pass_all_def pass_wf_def pass_slots_def pass_look_def pass_final_def prod_eq_iff
        intro!: nth_equalityI)
  then show ?thesis by (cases "pass_all n k s0") simp
qed

lemma pass_owner_item: "i < pass_slots q \<Longrightarrow> pass_owner q i \<in> pass_items q"
proof (cases q)
  case (Pair n k)
  assume "i < pass_slots q"
  then have i: "i < n * n" by (simp add: Pair pass_slots_def)
  then have "0 < n" by (cases n) simp_all
  then show ?thesis
    using i by (simp add: Pair pass_owner_def pass_items_def items2_def less_mult_imp_div_less)
qed

lemma device_pass:
  assumes "pass_ok (n, k) s" "runs_all (items2 n n) sched"
  shows "foldM (floydWarshallPass (word_of_nat n) (word_of_nat k)) sched s = Some (pass_all n k s)"
proof -
  have "runs_all (pass_items (n, k)) sched" using assms(2) by (simp add: pass_items_def)
  from device.launch [OF assms(1) this pass_owner_item] obtain d p
    where "foldM (device_item (n, k)) sched s = Some (d, p)" "pass_wf (n, k) (d, p)"
      "\<forall>i < pass_slots (n, k). pass_look (d, p) i = pass_final (n, k) s i" by auto
  then show ?thesis using pass_all_unique by (simp add: device_item_def)
qed

lemma host_pass:
  assumes "pass_ok (n, k) s"
  shows "for_loop 0 n (\<lambda>y. for_loop 0 n (\<lambda>x. reference_step (word_of_nat n) k (x, y))) s = Some (pass_all n k s)"
proof -
  have "runs_all (pass_items (n, k)) (row_by_row n n)"
    by (simp add: pass_items_def row_by_row_runs_all)
  from host.launch [OF assms this pass_owner_item] obtain d p
    where "foldM (host_item (n, k)) (row_by_row n n) s = Some (d, p)" "pass_wf (n, k) (d, p)"
      "\<forall>i < pass_slots (n, k). pass_look (d, p) i = pass_final (n, k) s i" by auto
  then show ?thesis using pass_all_unique by (simp add: host_item_def nested_loops)
qed

section \<open>All passes\<close>

definition passes :: "nat \<Rightarrow> nat \<Rightarrow> 32 word list \<times> 32 word list \<Rightarrow> 32 word list \<times> 32 word list" where
  "passes n k s = fold (pass_all n) [0..<k] s"

lemma passes_simps [simp]:
  "passes n 0 s = s" "passes n (Suc k) s = pass_all n k (passes n k s)"
  by (simp_all add: passes_def)

text \<open>The entry in a row and a column, as a number.\<close>

definition entry :: "nat \<Rightarrow> 32 word list \<Rightarrow> nat \<Rightarrow> nat \<Rightarrow> nat" where
  "entry n d y x = unat (d ! (y * n + x))"

lemma pass_all_ok:
  assumes "pass_ok (n, k) s"
  shows "matrix_ok n (fst (pass_all n k s)) \<and> length (snd (pass_all n k s)) = n * n"
proof -
  obtain d p where s: "s = (d, p)" by (cases s)
  have m: "matrix_ok n d" "k < n" using assms by (auto simp: s pass_ok_def)
  have "pass_entry n k (d, p) (i * n + i) = (0, p ! (i * n + i))" if "i < n" for i
    using m(1) that by (simp add: pass_entry_def matrix_ok_def Let_def)
  moreover have "i * n + i < n * n" if "i < n" for i using flat_index_bound that by simp
  ultimately show ?thesis
    using m pass_entry_small [OF m(1)] by (auto simp: s pass_all_def matrix_ok_def)
qed

lemma passes_ok:
  assumes "matrix_ok n d" "length p = n * n" "k \<le> n"
  shows "matrix_ok n (fst (passes n k (d, p))) \<and> length (snd (passes n k (d, p))) = n * n"
  using assms(3)
proof (induction k)
  case (Suc k)
  then have "pass_ok (n, k) (passes n k (d, p))"
    by (cases "passes n k (d, p)") (simp add: pass_ok_def)
  then show ?case using pass_all_ok by simp
qed (use assms in simp)

lemma passes_pass_ok:
  "matrix_ok n d \<Longrightarrow> length p = n * n \<Longrightarrow> k < n \<Longrightarrow> pass_ok (n, k) (passes n k (d, p))"
  using passes_ok [of n d p k] by (cases "passes n k (d, p)") (simp add: pass_ok_def)

lemma entry_pass:
  assumes "pass_ok (n, k) (d, p)" "x < n" "y < n"
  shows "entry n (fst (pass_all n k (d, p))) y x = relax (entry n d) k y x"
    and "snd (pass_all n k (d, p)) ! (y * n + x) =
      (if entry n d y k + entry n d k x < entry n d y x then word_of_nat k else p ! (y * n + x))"
proof -
  have i: "y * n + x < n * n" "y * n + k < n * n" "k * n + x < n * n"
    using flat_index_bound assms by (auto simp: pass_ok_def)
  have small: "unat (d ! j) < 2 ^ 30" if "j < n * n" for j
    using assms(1) that by (auto simp: pass_ok_def matrix_ok_def)
  have "unat (d ! (y * n + k) + d ! (k * n + x)) = entry n d y k + entry n d k x"
    using small_sum [OF small [OF i(2)] small [OF i(3)]] by (simp add: entry_def)
  then show "entry n (fst (pass_all n k (d, p))) y x = relax (entry n d) k y x"
    and "snd (pass_all n k (d, p)) ! (y * n + x) =
      (if entry n d y k + entry n d k x < entry n d y x then word_of_nat k else p ! (y * n + x))"
    using i(1) assms(2)
    by (auto simp: pass_all_def pass_entry_def relax_def entry_def Let_def word_less_nat_alt)
qed

lemma entry_passes:
  assumes "matrix_ok n d" "length p = n * n" "k \<le> n" "x < n" "y < n"
  shows "entry n (fst (passes n k (d, p))) y x = through (entry n d) k y x"
  using assms(3-5)
proof (induction k arbitrary: x y)
  case (Suc k)
  then have "pass_ok (n, k) (fst (passes n k (d, p)), snd (passes n k (d, p)))"
    using passes_pass_ok [OF assms(1,2)] by simp
  then show ?case
    using entry_pass(1) [of n k "fst (passes n k (d, p))" "snd (passes n k (d, p))" x y] Suc
    by (simp add: relax_def)
qed simp

text \<open>
  What the path matrix says after some passes: an entry that was improved names a node that the
  improved distance splits at.
\<close>

lemma path_passes:
  assumes "matrix_ok n d" "length p = n * n" "k \<le> n" "x < n" "y < n"
  shows "(through (entry n d) k y x = entry n d y x \<and> snd (passes n k (d, p)) ! (y * n + x) = p ! (y * n + x))
    \<or> (\<exists>z < k. snd (passes n k (d, p)) ! (y * n + x) = word_of_nat z \<and>
          through (entry n d) k y z + through (entry n d) k z x \<le> through (entry n d) k y x)"
  using assms(3-5)
proof (induction k arbitrary: x y)
  case (Suc k)
  let ?D = "through (entry n d) k"
  let ?P = "snd (passes n k (d, p))"
  have ok: "pass_ok (n, k) (fst (passes n k (d, p)), ?P)"
    using passes_pass_ok [OF assms(1,2)] Suc.prems by simp
  have e: "entry n (fst (passes n k (d, p))) v u = ?D v u" if "u < n" "v < n" for u v
    using entry_passes [OF assms(1,2) _ that] Suc.prems by simp
  have new: "snd (passes n (Suc k) (d, p)) ! (y * n + x) =
      (if ?D y k + ?D k x < ?D y x then word_of_nat k else ?P ! (y * n + x))"
    using entry_pass(2) [OF ok Suc.prems(2,3)] e Suc.prems by simp
  have self: "?D k k = 0"
    using through_decreasing [of "entry n d" k k k] assms(1) Suc.prems
    by (simp add: entry_def matrix_ok_def)
  show ?case
  proof (cases "?D y k + ?D k x < ?D y x")
    case True
    then show ?thesis
      using new self by (intro disjI2 exI [of _ k]) (simp add: relax_def min_def)
  next
    case False
    then have same: "relax ?D k y x = ?D y x" by (simp add: relax_def)
    have less: "relax ?D k y z + relax ?D k z x \<le> ?D y z + ?D z x" for z
      by (intro add_mono) (simp_all add: relax_def)
    consider "?D y x = entry n d y x" "?P ! (y * n + x) = p ! (y * n + x)"
      | z where "z < k" "?P ! (y * n + x) = word_of_nat z" "?D y z + ?D z x \<le> ?D y x"
      using Suc.IH [of x y] Suc.prems by auto
    then show ?thesis
    proof cases
      case 1
      then show ?thesis using new same False by simp
    next
      case 2
      then show ?thesis
        using new same False less [of z] by (intro disjI2 exI [of _ z]) auto
    qed
  qed
qed simp

lemma reference_passes:
  assumes "matrix_ok n d" "length p = n * n"
  shows "floydWarshallCPUReference (word_of_nat n) (d, p) = Some (passes n n (d, p))"
proof -
  have "n < 2 ^ 32" using assms(1) by (simp add: matrix_ok_def)
  then have n: "unat (word_of_nat n :: 32 word) = n"
    by (simp add: unsigned_of_nat take_bit_nat_eq_self)
  have "yields (for_loop 0 n (\<lambda>k. for_loop 0 n (\<lambda>y. for_loop 0 n (\<lambda>x.
      reference_step (word_of_nat n) k (x, y)))) (d, p)) (\<lambda>s. s = passes n n (d, p))"
  proof (rule for_loop_yields [where I = "\<lambda>k s. s = passes n k (d, p)"])
    fix k s assume "k < n" "s = passes n k (d, p)"
    then show "yields (for_loop 0 n (\<lambda>y. for_loop 0 n (\<lambda>x. reference_step (word_of_nat n) k (x, y))) s)
        (\<lambda>s. s = passes n (Suc k) (d, p))"
      using host_pass passes_pass_ok [OF assms] by simp
  qed simp_all
  then show ?thesis by (simp add: yields_eq floydWarshallCPUReference_def n)
qed

text \<open>The passes change nothing in a matrix they have been run on.\<close>

lemma passes_again:
  assumes "matrix_ok n d" "length p = n * n" "length p' = n * n"
  shows "passes n n (fst (passes n n (d, p)), p') = (fst (passes n n (d, p)), p')"
proof -
  let ?c = "fst (passes n n (d, p))"
  have ok: "matrix_ok n ?c" using passes_ok [OF assms(1,2)] by simp
  have tri: "entry n ?c y x \<le> entry n ?c y z + entry n ?c z x" if "x < n" "y < n" "z < n" for x y z
    using through_triangle [of z n "entry n d" y x] entry_passes [OF assms(1,2) order.refl] that by simp
  have "pass_all n k (?c, p') = (?c, p')" if "k < n" for k
  proof -
    have len: "length ?c = n * n" using ok by (simp add: matrix_ok_def)
    have "pass_entry n k (?c, p') i = (?c ! i, p' ! i)" if i: "i < n * n" for i
    proof -
      have n: "i div n < n" "i mod n < n"
        using i \<open>k < n\<close> by (simp_all add: less_mult_imp_div_less)
      have small: "unat (?c ! j) < 2 ^ 30" if "j < n * n" for j
        using ok that by (simp add: matrix_ok_def)
      have "unat (?c ! (i div n * n + k) + ?c ! (k * n + i mod n))
          = entry n ?c (i div n) k + entry n ?c k (i mod n)"
        using small_sum [OF small small] flat_index_bound n \<open>k < n\<close> by (simp add: entry_def)
      moreover have "unat (?c ! i) = entry n ?c (i div n) (i mod n)" by (simp add: entry_def)
      ultimately have "\<not> ?c ! (i div n * n + k) + ?c ! (k * n + i mod n) < ?c ! i"
        using tri [OF n(2,1) \<open>k < n\<close>] by (simp add: word_less_nat_alt)
      then show ?thesis by (simp add: pass_entry_def)
    qed
    then show ?thesis
      using len assms(3) by (auto simp: pass_all_def prod_eq_iff intro!: nth_equalityI)
  qed
  then have "passes n k (?c, p') = (?c, p')" if "k \<le> n" for k
    using that by (induction k) simp_all
  then show ?thesis by simp
qed

text \<open>The distances do not depend on the path matrix, and its entries are old or new together.\<close>

lemma passes_paths:
  assumes "k \<le> n"
  shows "fst (passes n k (d, p)) = fst (passes n k (d, q)) \<and> (\<forall>i < n * n.
      fst (passes n k (d, p)) ! i \<le> d ! i \<and>
      (if fst (passes n k (d, p)) ! i < d ! i
       then snd (passes n k (d, p)) ! i = snd (passes n k (d, q)) ! i
       else snd (passes n k (d, p)) ! i = p ! i \<and> snd (passes n k (d, q)) ! i = q ! i))"
  using assms
proof (induction k)
  case (Suc k)
  obtain c p' q' where c: "passes n k (d, p) = (c, p')" "passes n k (d, q) = (c, q')"
    using Suc by (metis Suc_leD prod.collapse)
  have old: "c ! i \<le> d ! i" "if c ! i < d ! i then p' ! i = q' ! i else p' ! i = p ! i \<and> q' ! i = q ! i"
    if "i < n * n" for i
    using Suc that by (auto simp: c)
  have same: "fst (pass_all n k (c, p')) = fst (pass_all n k (c, q'))"
    by (simp add: pass_all_def pass_entry_def Let_def)
  moreover have "fst (pass_all n k (c, p')) ! i \<le> d ! i \<and>
      (if fst (pass_all n k (c, p')) ! i < d ! i
       then snd (pass_all n k (c, p')) ! i = snd (pass_all n k (c, q')) ! i
       else snd (pass_all n k (c, p')) ! i = p ! i \<and> snd (pass_all n k (c, q')) ! i = q ! i)"
    if i: "i < n * n" for i
    using old [OF i] i by (auto simp: pass_all_def pass_entry_def Let_def split: if_splits)
  ultimately show ?case by (simp add: c)
qed simp

end
