(* ===== verification/Sdk_Host_Facts.thy ===== *)
theory Sdk_Host_Facts
  imports Sdk_Host Sdk_Sample_Props Sdk_Common_Props
begin

text \<open>
  What the common parts of the host programs do, stated with \<open>meets\<close> for a predicate \<open>P\<close> on the
  data of the sample that the steps leave alone: success means that the OpenCL objects exist, and
  the steps succeed in an environment that is \<open>usable\<close>.
\<close>

section \<open>Arrays and timers\<close>

lemma transfer_all: "length src = n \<Longrightarrow> length dst = n \<Longrightarrow> transfer n src dst = Some src"
  by (simp add: transfer_def)

lemma length_fresh_array [simp]: "length (fresh_array env a m) = m"
  by (simp add: fresh_array_def)

lemma sint_eq_unat: "unat (x :: 32 word) < 2 ^ 31 \<Longrightarrow> sint x = int (unat x)"
proof -
  assume "unat x < 2 ^ 31"
  then have "int (unat x) < int (2 ^ 31)" by (simp only: of_nat_less_iff)
  then have "uint x < 2 ^ 31" by simp
  moreover have "- (2 ^ 31) \<le> uint x" by (rule order_trans [OF _ uint_ge_0]) simp
  ultimately have "signed_take_bit 31 (uint x) = uint x" by (intro signed_take_bit_int_eq_self)
  then show ?thesis by (simp add: sint_uint)
qed

lemma begin_timer_ok: "\<exists>t. begin_timer now ts = Some (int (length ts), ts @ [t])"
  by (simp add: begin_timer_def createTimer_def resetTimer_def startTimer_def timer_at_def
      list_update_append)

lemma end_timer_ok: "\<exists>t ts'. end_timer now (int (length ts)) (ts @ [t0]) = Some (t, ts')"
  by (simp add: end_timer_def stopTimer_def readTimer_def timer_at_def Let_def list_update_append)

section \<open>A usable environment\<close>

text \<open>
  The program can run: the calls succeed, events complete, there is a platform, the device number
  is one of the devices selected on it, and the program is built from a source file that exists.
\<close>

definition used_platform :: "cl_env \<Rightarrow> sample \<Rightarrow> nat" where
  "used_platform env b =
     (if enablePlatform b then nat (int_var ''platformId'' b) else first_AMD (platforms env))"

definition usable :: "run_env \<Rightarrow> string \<Rightarrow> 'a host_scheme \<Rightarrow> bool" where
  "usable env kernel_file s \<longleftrightarrow> all_succeed (lib env) \<and> completes (event env)
     \<and> platforms (lib env) \<noteq> []
     \<and> (enablePlatform (base s) \<longrightarrow> 0 \<le> int_var ''platformId'' (base s)
          \<and> int_var ''platformId'' (base s) < int (length (platforms (lib env))))
     \<and> fits_int (int_var ''deviceId'' (base s)) \<and> 0 \<le> int_var ''deviceId'' (base s)
     \<and> int_var ''deviceId'' (base s) <
          int (length (devices_of (platforms (lib env) ! used_platform (lib env) (base s)) (device_type_for s)))
     \<and> string_var ''loadBinary'' (base s) = [] \<and> string_var ''flags'' (base s) = []
     \<and> run_files env (exec_path env @ kernel_file) \<noteq> None"

lemma getPlatform_ok:
  assumes "usable env kernel_file s"
  shows "\<exists>k'. getPlatform (lib env) k None (int_var ''platformId'' (base s)) (enablePlatform (base s))
    = Some ((SDK_SUCCESS, Some (used_platform (lib env) (base s))), k')"
proof (cases "enablePlatform (base s)")
  case True
  then show ?thesis
    using assms by (auto simp: usable_def getPlatform_def Let_def all_succeed_def used_platform_def)
next
  case False
  have "all_succeed (lib env)" "platforms (lib env) \<noteq> []" using assms by (auto simp: usable_def)
  from pick_platform_eq [OF this, of "k + 2" 0 None] False this show ?thesis
    by (auto simp: getPlatform_def Let_def all_succeed_def used_platform_def)
qed

lemma displayDevices_ok:
  assumes "all_succeed env"
  shows "\<exists>k'. displayDevices env k p ty = (SDK_SUCCESS, k')"
proof -
  have "\<exists>k'. show_devices env k ds = (SDK_SUCCESS, k')" for k ds
    using assms by (induction ds arbitrary: k) (auto simp: all_succeed_def)
  then show ?thesis using assms by (simp add: displayDevices_def all_succeed_def)
qed

definition device_chosen :: "bool \<Rightarrow> 'a host_scheme \<Rightarrow> bool" where
  "device_chosen sure s \<longleftrightarrow> (sure \<longrightarrow> chosen_device s \<noteq> None)"

text \<open>Results of \<open>rand\<close> are in its range, and every work item of a launch runs once.\<close>

definition env_ok :: "run_env \<Rightarrow> bool" where
  "env_ok env \<longleftrightarrow> (\<forall>i. 0 \<le> rand env i \<and> rand env i \<le> RAND_MAX)
     \<and> (\<forall>k gx gy. runs_all (items2 gx gy) (schedule env k gx gy))"

text \<open>Every order of phases lets all work items finish.\<close>

definition groups_ok :: "run_env \<Rightarrow> bool" where
  "groups_ok env \<longleftrightarrow> (\<forall>k p g n. lets_finish p g n (interleave env k p g n))"

definition live_env :: "bool \<Rightarrow> run_env \<Rightarrow> bool" where
  "live_env sure env \<longleftrightarrow> (sure \<longrightarrow> all_succeed (lib env) \<and> completes (event env))"

lemma int_var_other:
  assumes "base t = (base s)\<lparr>vars := vs\<rparr>" "vs a = vars (base s) a"
  shows "int_var a (base t) = int_var a (base s)" "string_var a (base t) = string_var a (base s)"
    "bool_var a (base t) = bool_var a (base s)"
  using assms by (simp_all add: int_var_def string_var_def bool_var_def)

text \<open>Only options of the base class matter.\<close>

lemma usable_cong:
  assumes "usable env kernel_file s"
    and "base t = (base s)\<lparr>vars := vs\<rparr>"
    and "\<And>a. a \<in> {''platformId'', ''deviceId'', ''deviceType'', ''loadBinary'', ''flags''} \<Longrightarrow> vs a = vars (base s) a"
  shows "usable env kernel_file t"
proof -
  note other = int_var_other [OF assms(2)]
  have "device_type_for t = device_type_for s" "used_platform (lib env) (base t) = used_platform (lib env) (base s)"
    using other assms(2,3) by (simp_all add: device_type_for_def used_platform_def)
  then show ?thesis
    using assms(1) other assms(2,3) by (simp add: usable_def)
qed

lemma usable_base: "usable env kernel_file s \<Longrightarrow> base t = base s \<Longrightarrow> usable env kernel_file t"
  by (rule usable_cong [where vs = "vars (base s)"]) simp_all

text \<open>The base class with another value of the option \<open>length\<close>, which \<open>setup\<close> changes in several samples.\<close>

definition with_length :: "nat \<Rightarrow> sample \<Rightarrow> sample" where
  "with_length n b = b\<lparr>vars := (vars b)(''length'' \<mapsto> Int_val (int n))\<rparr>"

lemma usable_with_length:
  "usable env f s \<Longrightarrow> base t = with_length n (base s) \<Longrightarrow> usable env f t"
  by (rule usable_cong [where vs = "(vars (base s))(''length'' \<mapsto> Int_val (int n))"]) (auto simp: with_length_def)

lemma host_call_ok:
  assumes "sure \<Longrightarrow> all_succeed env"
    and "\<And>s. P s \<Longrightarrow> \<exists>t. f s = Some t \<and> Q t \<and> cl_devices t = cl_devices s \<and> base t = base s"
  shows "meets sure (cl_call env (\<lambda>_. f)) (\<lambda>s. P s \<and> device_chosen sure s) (\<lambda>s. Q s \<and> device_chosen sure s)"
proof (rule meets_call [OF assms(1)])
  fix s assume s: "P s \<and> device_chosen sure s"
  then obtain t where "f s = Some t" "Q t" "cl_devices t = cl_devices s" "base t = base s"
    using assms(2) by blast
  then show "\<exists>t. f s = Some t \<and> Q t \<and> device_chosen sure t"
    using s by (simp add: device_chosen_def chosen_device_def)
qed

section \<open>The steps of setupCL\<close>

lemma with_platform_ok:
  assumes "sure \<Longrightarrow> usable env kernel_file s0"
    and "\<And>p. (sure \<Longrightarrow> p = used_platform (lib env) (base s0)) \<Longrightarrow>
      meets sure (rest p) (\<lambda>s. s = s0) Q"
  shows "meets sure (with_platform env rest) (\<lambda>s. s = s0) Q"
  unfolding meets_def
proof (intro allI impI conjI)
  fix s k assume s: "s = s0"
  { fix t m assume run: "with_platform env rest (s, k) = Some (SDK_SUCCESS, t, m)"
    then obtain p k0 where gp: "getPlatform (lib env) k None (int_var ''platformId'' (base s))
        (enablePlatform (base s)) = Some ((SDK_SUCCESS, Some p), k0)"
      by (auto simp: with_platform_def bind_eq_Some_conv split: if_splits)
    then have p: "p = used_platform (lib env) (base s0)" if sure
      using getPlatform_ok [OF assms(1) [OF that], of k] s by simp
    obtain k1 where "rest p (s, k1) = Some (SDK_SUCCESS, t, m)"
      using run by (cases "displayDevices (lib env) k0 p (device_type_for s)")
        (auto simp: with_platform_def gp split: if_splits)
    then show "Q t" using meetsD [OF assms(2) [OF p] s] by blast }
  assume sure
  then obtain k1 where k1: "getPlatform (lib env) k None (int_var ''platformId'' (base s)) (enablePlatform (base s))
      = Some ((SDK_SUCCESS, Some (used_platform (lib env) (base s0))), k1)"
    using getPlatform_ok [OF assms(1) [OF \<open>sure\<close>], of k] s by blast
  obtain k2 where k2: "displayDevices (lib env) k1 (used_platform (lib env) (base s0)) (device_type_for s) = (SDK_SUCCESS, k2)"
    using displayDevices_ok [of "lib env"] assms(1) [OF \<open>sure\<close>] unfolding usable_def by blast
  have "meets sure (rest (used_platform (lib env) (base s0))) (\<lambda>s. s = s0) Q"
    by (rule assms(2)) (rule refl)
  then obtain t m where "rest (used_platform (lib env) (base s0)) (s, k2) = Some (SDK_SUCCESS, t, m)"
    using s \<open>sure\<close> unfolding meets_def by blast
  then show "\<exists>t m. with_platform env rest (s, k) = Some (SDK_SUCCESS, t, m)"
    by (simp add: with_platform_def k1 k2)
qed

text \<open>The context, the devices and the queue.  \<open>P\<close> does not look at the objects created.\<close>

definition blind :: "('a host_scheme \<Rightarrow> bool) \<Rightarrow> bool" where
  "blind P \<longleftrightarrow> (\<forall>s x. P s \<longrightarrow> P (s\<lparr>cl_context := x\<rparr>))
     \<and> (\<forall>s x. P s \<longrightarrow> P (s\<lparr>cl_devices := x\<rparr>))
     \<and> (\<forall>s x. P s \<longrightarrow> P (s\<lparr>commandQueue := x\<rparr>)) \<and> (\<forall>s x. P s \<longrightarrow> P (s\<lparr>cl_program := x\<rparr>))
     \<and> (\<forall>s x. P s \<longrightarrow> P (s\<lparr>cl_kernel := x\<rparr>))"

lemma chosen_device_simps [simp]:
  "chosen_device (s\<lparr>commandQueue := q\<rparr>) = chosen_device s"
  "chosen_device (s\<lparr>cl_program := p\<rparr>) = chosen_device s"
  "chosen_device (s\<lparr>cl_kernel := a\<rparr>) = chosen_device s"
  "chosen_device (s\<lparr>timers := ts\<rparr>) = chosen_device s"
  "chosen_device (s\<lparr>totalKernelTime := t\<rparr>) = chosen_device s"
  "chosen_device (s\<lparr>setupTime := t\<rparr>) = chosen_device s"
  by (simp_all add: chosen_device_def)

lemma open_device_ok:
  assumes "sure \<Longrightarrow> usable env kernel_file s0" "blind P" "\<And>s. P s \<Longrightarrow> base s = base s0"
    and "sure \<Longrightarrow> p = used_platform (lib env) (base s0)"
  shows "meets sure (run_steps [create_context env p, get_devices env, create_queue env]) P
    (\<lambda>s. P s \<and> device_chosen sure s)"
proof -
  let ?ctx = "devices_of (platforms (lib env) ! p) (device_type_for s0)"
  have ok: "all_succeed (lib env)" if sure using assms(1) [OF that] by (simp add: usable_def)
  have ty: "device_type_for s = device_type_for s0" if "P s" for s
    using assms(3) [OF that] by (simp add: device_type_for_def)
  have dev: "fits_int (int_var ''deviceId'' (base s0))" "0 \<le> int_var ''deviceId'' (base s0)"
      "int_var ''deviceId'' (base s0) < int (length ?ctx)" if sure
    using assms(1) [OF that] assms(4) [OF that] by (simp_all add: usable_def)
  show ?thesis
  proof (intro meets_Cons)
    show "meets sure (create_context env p) P (\<lambda>s. P s \<and> cl_context s = Some ?ctx)"
      unfolding create_context_def
      by (rule meets_call) (use ok ty assms(2) in \<open>auto simp: blind_def\<close>)
    show "meets sure (get_devices env) (\<lambda>s. P s \<and> cl_context s = Some ?ctx) (\<lambda>s. P s \<and> device_chosen sure s)"
      unfolding meets_def
    proof (intro allI impI conjI)
      fix s k assume s: "P s \<and> cl_context s = Some ?ctx"
      { fix t m assume "get_devices env (s, k) = Some (SDK_SUCCESS, t, m)"
        then have t: "t = s\<lparr>cl_devices := Some ?ctx\<rparr>"
          using s by (auto simp: get_devices_def getDevices_def split: if_splits)
        have "uint_var ''deviceId'' (base s0) < length ?ctx" if sure
          using dev [OF that] by (simp add: uint_var_def fits_int_def nat_less_iff)
        then show "P t" "device_chosen sure t"
          using s t assms(2,3) by (auto simp: blind_def device_chosen_def chosen_device_def) }
      assume sure
      then show "\<exists>t m. get_devices env (s, k) = Some (SDK_SUCCESS, t, m)"
        using dev [OF \<open>sure\<close>] ok [OF \<open>sure\<close>] s assms(3) [of s]
        by (auto simp: get_devices_def getDevices_def all_succeed_def validateDeviceId_def)
    qed
    show "meets sure (create_queue env) (\<lambda>s. P s \<and> device_chosen sure s) (\<lambda>s. P s \<and> device_chosen sure s)"
      unfolding create_queue_def
      by (rule meets_call_partial)
        (use ok assms(2) in \<open>auto simp: blind_def device_chosen_def bind_eq_Some_conv\<close>)
  qed (rule meets_Nil)
qed

lemma build_program_ok:
  assumes "sure \<Longrightarrow> usable env kernel_file s0" "blind P" "\<And>s. P s \<Longrightarrow> base s = base s0"
    and "c_str kernel_file = kernel_file"
  shows "meets sure (run_steps [build_program env kernel_file, create_kernel env])
    (\<lambda>s. P s \<and> device_chosen sure s)
    (\<lambda>s. P s \<and> device_chosen sure s \<and> cl_kernel s \<noteq> None)"
proof (intro meets_Cons)
  have ok: "all_succeed (lib env)" if sure using assms(1) [OF that] by (simp add: usable_def)
  show "meets sure (build_program env kernel_file)
    (\<lambda>s. P s \<and> device_chosen sure s) (\<lambda>s. P s \<and> device_chosen sure s)"
    unfolding meets_def
  proof (intro allI impI conjI)
    fix s k assume s: "P s \<and> device_chosen sure s"
    { fix t m assume "build_program env kernel_file (s, k) = Some (SDK_SUCCESS, t, m)"
      then show "P t" "device_chosen sure t"
        using s assms(2)
        by (auto simp: build_program_def blind_def device_chosen_def split: prod.splits if_splits) }
    assume sure
    then show "\<exists>t m. build_program env kernel_file (s, k) = Some (SDK_SUCCESS, t, m)"
      using assms(1) [OF \<open>sure\<close>] assms(3) [of s] assms(4) s
      by (auto simp: usable_def build_program_def build_data_for_def isComplierFlagsSpecified_def
          isLoadBinaryEnabled_def buildOpenCLProgram_def create_program_def build_flags_def open_file_def
          all_succeed_def split: prod.splits option.splits)
  qed
  show "meets sure (create_kernel env) (\<lambda>s. P s \<and> device_chosen sure s)
    (\<lambda>s. P s \<and> device_chosen sure s \<and> cl_kernel s \<noteq> None)"
    unfolding create_kernel_def
    by (rule meets_call) (use ok assms(2) in \<open>auto simp: blind_def device_chosen_def\<close>)
qed (rule meets_Nil)

lemma meets_local_step:
  "(\<And>s. P s \<Longrightarrow> \<exists>t. f s = Some t \<and> Q t) \<Longrightarrow> meets sure (local_step f) P Q"
  unfolding meets_def local_step_def by fastforce

lemma meets_local_partial:
  "(\<And>s t. P s \<Longrightarrow> f s = Some t \<Longrightarrow> Q t) \<Longrightarrow> (\<And>s. sure \<Longrightarrow> P s \<Longrightarrow> f s \<noteq> None) \<Longrightarrow> meets sure (local_step f) P Q"
  unfolding meets_def local_step_def by (fastforce simp: bind_eq_Some_conv)

lemma flush_and_wait_ok:
  assumes "live_env sure env"
  shows "meets sure (run_steps (flush_and_wait env)) P P"
proof -
  have "sure \<Longrightarrow> all_succeed (lib env)" "sure \<Longrightarrow> all_succeed (lib env) \<and> completes (event env)"
    using assms by (simp_all add: live_env_def)
  then show ?thesis unfolding flush_and_wait_def
    by (intro meets_Cons [OF meets_flush meets_Cons [OF meets_wait meets_Nil]])
qed

lemma meets_create_buffer:
  assumes "sure \<Longrightarrow> all_succeed (lib env) \<and> 0 < n" "\<And>s. P s \<Longrightarrow> Q (f s)"
  shows "meets sure (create_buffer env n f) P Q"
  using assms by (auto simp: meets_def create_buffer_def cl_call_def all_succeed_def)

lemma meets_enqueue:
  assumes "sure \<Longrightarrow> all_succeed (lib env)" "\<And>s. sure \<Longrightarrow> P s \<Longrightarrow> list_all accepted_size (sizes s)"
    and "\<And>s k. P s \<Longrightarrow> \<exists>t. launch k s = Some t \<and> Q t"
  shows "meets sure (enqueue_kernel env sizes launch) P Q"
  unfolding meets_def
proof (intro allI impI)
  fix s k assume s: "P s"
  then obtain t where "launch k s = Some t" "Q t" using assms(3) by blast
  then show "(\<forall>t n. enqueue_kernel env sizes launch (s, k) = Some (SDK_SUCCESS, t, n) \<longrightarrow> Q t) \<and>
      (sure \<longrightarrow> (\<exists>t n. enqueue_kernel env sizes launch (s, k) = Some (SDK_SUCCESS, t, n)))"
    using assms(1,2) s by (auto simp: enqueue_kernel_def cl_call_def all_succeed_def)
qed

text \<open>A call with a wait for its event; the call changes nothing the host sees.\<close>

lemma call_and_wait_ok:
  assumes "live_env sure env"
  shows "meets sure (run_steps (cl_call (lib env) (\<lambda>_. Some) # flush_and_wait env)) P P"
  by (rule meets_Cons [OF meets_call flush_and_wait_ok [OF assms]]) (use assms in \<open>auto simp: live_env_def\<close>)

text \<open>Arguments that have been set.\<close>

definition args_set :: "(nat \<times> kernel_arg) list \<Rightarrow> 'a host_scheme \<Rightarrow> bool" where
  "args_set as s \<longleftrightarrow> (\<exists>f. cl_kernel s = Some f \<and> (\<forall>(i, v) \<in> set as. f i = Some v))"

lemma new_arg_ok:
  assumes "sure \<Longrightarrow> all_succeed (lib env)" "\<And>s f. P s \<Longrightarrow> P (s\<lparr>cl_kernel := Some f\<rparr>)" "i \<notin> fst ` set as"
  shows "meets sure (set_arg env i v) (\<lambda>s. P s \<and> args_set as s) (\<lambda>s. P s \<and> args_set ((i, v) # as) s)"
  unfolding set_arg_def
proof (rule meets_call [OF assms(1)])
  fix s assume s: "P s \<and> args_set as s"
  then obtain f where f: "cl_kernel s = Some f" "\<forall>(j, w) \<in> set as. f j = Some w" by (auto simp: args_set_def)
  have "(f(i \<mapsto> v)) j = Some w" if "(j, w) \<in> set ((i, v) # as)" for j w
    using that f(2) assms(3) by force
  moreover have "P (s\<lparr>cl_kernel := Some g\<rparr>)" for g using assms(2) s by blast
  ultimately show "\<exists>t. (do { args \<leftarrow> cl_kernel s; Some (s\<lparr>cl_kernel := Some (args(i \<mapsto> v))\<rparr>) }) = Some t
      \<and> P t \<and> args_set ((i, v) # as) t"
    using f(1) by (auto simp: args_set_def)
qed

section \<open>Timed parts\<close>

text \<open>\<open>I ts\<close> holds with the timers \<open>ts\<close>, and does not look at the times measured.\<close>

definition timed :: "(timer list \<Rightarrow> 'a host_scheme \<Rightarrow> bool) \<Rightarrow> bool" where
  "timed I \<longleftrightarrow> (\<forall>ts s. I ts s \<longrightarrow> timers s = ts)
     \<and> (\<forall>ts ts' s. I ts s \<longrightarrow> I ts' (s\<lparr>timers := ts'\<rparr>))
     \<and> (\<forall>ts s x. I ts s \<longrightarrow> I ts (s\<lparr>setupTime := x\<rparr>)) \<and> (\<forall>ts s x. I ts s \<longrightarrow> I ts (s\<lparr>totalKernelTime := x\<rparr>))"

lemma timed_setup_ok:
  assumes "timed Q" "\<And>ts. meets sure setupCL (\<lambda>s. s = s0\<lparr>timers := ts\<rparr>) (Q ts)"
  shows "meets sure (timed_setup env setupCL) (\<lambda>s. s = s0) (\<lambda>s. \<exists>ts. Q ts s)"
  unfolding meets_def
proof (intro allI impI)
  fix s k assume s: "s = s0"
  let ?ts = "timers s0"
  obtain t0 where t0: "begin_timer (clock env ''setup begin'') ?ts = Some (int (length ?ts), ?ts @ [t0])"
    using begin_timer_ok by blast
  obtain t1 ts1 where t1: "end_timer (clock env ''setup end'') (int (length ?ts)) (?ts @ [t0]) = Some (t1, ts1)"
    using end_timer_ok by blast
  let ?s1 = "s0\<lparr>timers := ?ts @ [t0]\<rparr>"
  have final: "Q ts1 (t\<lparr>timers := ts1, setupTime := t1\<rparr>)" "timers t = ?ts @ [t0]" if "Q (?ts @ [t0]) t" for t
    using assms(1) that unfolding timed_def by simp_all
  show "(\<forall>t m. timed_setup env setupCL (s, k) = Some (SDK_SUCCESS, t, m) \<longrightarrow> (\<exists>ts. Q ts t)) \<and>
      (sure \<longrightarrow> (\<exists>t m. timed_setup env setupCL (s, k) = Some (SDK_SUCCESS, t, m)))"
  proof (intro conjI allI impI)
    fix t m assume "timed_setup env setupCL (s, k) = Some (SDK_SUCCESS, t, m)"
    then obtain s2 k2 t' ts' where s2: "setupCL (?s1, k) = Some (SDK_SUCCESS, s2, k2)"
        "end_timer (clock env ''setup end'') (int (length ?ts)) (timers s2) = Some (t', ts')"
        "t = s2\<lparr>timers := ts', setupTime := t'\<rparr>"
      using s t0 by (auto simp: timed_setup_def bind_eq_Some_conv split: if_splits)
    have "Q (?ts @ [t0]) s2" using meetsD [OF assms(2) refl s2(1)] .
    then show "\<exists>ts. Q ts t" using final [of s2] s2(2,3) t1 by auto
  next
    assume sure
    then obtain s2 k2 where s2: "setupCL (?s1, k) = Some (SDK_SUCCESS, s2, k2)" "Q (?ts @ [t0]) s2"
      using assms(2) unfolding meets_def by blast
    then show "\<exists>t m. timed_setup env setupCL (s, k) = Some (SDK_SUCCESS, t, m)"
      using s t0 t1 final(2) [OF s2(2)] by (simp add: timed_setup_def)
  qed
qed

text \<open>
  \<open>run\<close> runs the kernel at least once.  From \<open>I\<close> a run leads to \<open>J\<close>, and from \<open>J\<close> to \<open>J\<close> again.
\<close>

lemma repeated_ok:
  assumes "meets sure R I J" "meets sure R J J"
  shows "meets sure (run_steps (replicate m R)) I (if m = 0 then I else J)"
    and "meets sure (run_steps (replicate m R)) J J"
proof -
  show all: "meets sure (run_steps (replicate m R)) J J" for m
    using assms(2) by (rule meets_replicate)
  show "meets sure (run_steps (replicate m R)) I (if m = 0 then I else J)"
    using meets_Cons [OF assms(1) all] by (cases m) (auto intro: meets_Nil)
qed

lemma run_sample_ok:
  assumes "timed I" "timed J" "\<And>ts s. I ts s \<Longrightarrow> iterations s = it" "\<And>ts s. J ts s \<Longrightarrow> iterations s = it"
    and R: "\<And>ts. meets sure R (I ts) (J ts)" "\<And>ts. meets sure R (J ts) (J ts)"
  shows "meets sure (run_sample env R) (I ts) (\<lambda>s. \<exists>ts'. J ts' s)"
  unfolding meets_def
proof (intro allI impI)
  fix s k assume s: "I ts s"
  then have ts: "timers s = ts" and it: "iterations s = it" using assms(1,3) by (auto simp: timed_def)
  let ?warm = "run_steps (replicate (if it = 1 then 0 else 2) R)"
  let ?K = "if it = 1 then I else J"
  have warm: "meets sure ?warm (I ts) (?K ts)"
    using repeated_ok(1) [OF R, of "if it = 1 then 0 else 2" ts] by (cases "it = 1") simp_all
  have main: "meets sure (run_steps (replicate (nat it) R)) (?K ts') (J ts')" for ts'
    using repeated_ok(1) [OF R, of "nat it"] repeated_ok(2) [OF R, of "nat it"]
    by (cases "it = 1") simp_all
  have K: "timers t = ts'" "iterations t = it" "?K ts'' (t\<lparr>timers := ts''\<rparr>)" if "?K ts' t" for ts' ts'' t
    using that assms(1-4) unfolding timed_def by (auto split: if_splits)
  obtain t0 where t0: "begin_timer (clock env ''run begin'') ts = Some (int (length ts), ts @ [t0])"
    using begin_timer_ok by blast
  obtain t1 ts1 where t1: "end_timer (clock env ''run end'') (int (length ts)) (ts @ [t0]) = Some (t1, ts1)"
    using end_timer_ok by blast
  have J: "timers t = ts @ [t0]" "J ts1 (t\<lparr>timers := ts1, totalKernelTime := x\<rparr>)" if "J (ts @ [t0]) t" for t x
    using that assms(2) unfolding timed_def by simp_all
  show "(\<forall>t m. run_sample env R (s, k) = Some (SDK_SUCCESS, t, m) \<longrightarrow> (\<exists>ts'. J ts' t)) \<and>
      (sure \<longrightarrow> (\<exists>t m. run_sample env R (s, k) = Some (SDK_SUCCESS, t, m)))"
  proof (intro conjI allI impI)
    fix t m assume run: "run_sample env R (s, k) = Some (SDK_SUCCESS, t, m)"
    then obtain s1 k1 where s1: "?warm (s, k) = Some (SDK_SUCCESS, s1, k1)"
      using it by (auto simp: run_sample_def bind_eq_Some_conv split: if_splits)
    have i1: "?K ts s1" using meetsD [OF warm s s1] .
    obtain s2 k2 t' ts' where s2: "run_steps (replicate (nat it) R) (s1\<lparr>timers := ts @ [t0]\<rparr>, k1)
          = Some (SDK_SUCCESS, s2, k2)"
        "end_timer (clock env ''run end'') (int (length ts)) (timers s2) = Some (t', ts')"
        "\<exists>x. t = s2\<lparr>timers := ts', totalKernelTime := x\<rparr>"
      using run s1 it K(1,2) [OF i1] t0
      by (auto simp: run_sample_def bind_eq_Some_conv split: if_splits)
    have "J (ts @ [t0]) s2" using meetsD [OF main K(3) [OF i1] s2(1)] .
    then show "\<exists>ts'. J ts' t" using J s2(2,3) t1 by auto
  next
    assume sure
    then obtain s1 k1 where s1: "?warm (s, k) = Some (SDK_SUCCESS, s1, k1)" "?K ts s1"
      using warm s unfolding meets_def by blast
    obtain s2 k2 where s2: "run_steps (replicate (nat it) R) (s1\<lparr>timers := ts @ [t0]\<rparr>, k1)
          = Some (SDK_SUCCESS, s2, k2)" "J (ts @ [t0]) s2"
      using main K(3) [OF s1(2)] \<open>sure\<close> unfolding meets_def by blast
    then show "\<exists>t m. run_sample env R (s, k) = Some (SDK_SUCCESS, t, m)"
      using s1(1) it K(1,2) [OF s1(2)] t0 t1 J(1) [OF s2(2)] by (simp add: run_sample_def)
  qed
qed

lemma run_sample_fails:
  assumes "timed I" "\<And>ts. fails R (I ts)" "I ts s" "1 \<le> iterations s"
  shows "\<exists>t n. run_sample env R (s, k) = Some (SDK_FAILURE, t, n)"
proof (cases "iterations s = 1")
  case False
  have "fails (run_steps (R # [R])) (I ts)" by (rule fails_first [OF assms(2)])
  then obtain t n where "run_steps [R, R] (s, k) = Some (SDK_FAILURE, t, n)"
    using assms(3) unfolding fails_def by blast
  then show ?thesis using False by (simp add: run_sample_def numeral_2_eq_2)
next
  case True
  obtain t0 where t0: "begin_timer (clock env ''run begin'') ts = Some (int (length ts), ts @ [t0])"
    using begin_timer_ok by blast
  have ts: "timers s = ts" "I (ts @ [t0]) (s\<lparr>timers := ts @ [t0]\<rparr>)" using assms(1,3) unfolding timed_def by blast+
  have "fails (run_steps (R # [])) (I (ts @ [t0]))" by (rule fails_first [OF assms(2)])
  then obtain t n where "run_steps [R] (s\<lparr>timers := ts @ [t0]\<rparr>, k) = Some (SDK_FAILURE, t, n)"
    using ts(2) unfolding fails_def by blast
  then show ?thesis using True t0 ts(1) by (simp add: run_sample_def run_steps_success(1) [THEN iffD2] run_steps.simps(1))
qed

section \<open>Whole programs\<close>

text \<open>A command line that is accepted and does not ask for a dump leads to the work of the sample.\<close>

lemma main_sample_ok:
  assumes "initialize_sample opts start = Some (SDK_SUCCESS, s0)"
    and "parseCommandLine ((lib env)\<lparr>answers := check_answers env\<rparr>) argv (base s0) = Some (Returned SDK_SUCCESS, b)"
    and "\<not> isDumpBinaryEnabled b" "work (s0\<lparr>base := b\<rparr>, 0) = Some (out, t, k)"
  shows "main_sample env opts kernel_file work start argv = Some (out, t, run_files env)"
  using assms by (simp add: main_sample_def)

lemma returning_iff: "returning work x = Some (Returned r, s, k) \<longleftrightarrow> work x = Some (r, s, k)"
  by (auto simp: returning_def bind_eq_Some_conv)

text \<open>A machine with one GPU, where every call succeeds.\<close>

definition demo_env :: "string \<Rightarrow> run_env" where
  "demo_env kernel_file =
     \<lparr>lib = \<lparr>answers = \<lambda>_. 0, platforms = [\<lparr>vendor = ''CASLab'', devices = [(4, ''CAS-GPU'')]\<rparr>]\<rparr>,
      check_answers = \<lambda>_. 0, event = \<lambda>_. 0, schedule = \<lambda>k. row_by_row,
      interleave = \<lambda>k p g n. concat (replicate p (row_by_row g n)), fresh = \<lambda>_ _. 0,
      pending = \<lambda>_ _. 0, reads_write_only = True, group_info = new_work_group_info,
      report = \<lparr>number_of = \<lambda>c. if c = ''CL_DEVICE_MAX_WORK_ITEM_DIMENSIONS'' then 3 else 65536,
        item_size = \<lambda>_. 1024, text_of = \<lambda>_. ''OpenCL 1.2''\<rparr>, run_files = [kernel_file \<mapsto> ''__kernel''], writable = \<lambda>_. True,
      built = [], exec_path = [], rand = \<lambda>i. int i mod 1000, clock = \<lambda>_. (0, 0)\<rparr>"

lemma demo_env_ok: "env_ok (demo_env f)" "live_env True (demo_env f)"
proof -
  have "int i mod 1000 \<le> 2147483647" for i
    by (rule order.trans [OF less_imp_le [OF pos_mod_bound]]) simp_all
  then show "env_ok (demo_env f)" "live_env True (demo_env f)"
    by (simp_all add: env_ok_def live_env_def demo_env_def row_by_row_runs_all RAND_MAX_def
        all_succeed_def completes_def CL_SUCCESS_def CL_COMPLETE_def)
qed

lemma demo_env_groups: "groups_ok (demo_env f)"
  by (simp add: groups_ok_def demo_env_def round_robin_lets_finish row_by_row_runs_all)

lemma demo_env_usable:
  assumes "\<not> enablePlatform (base s)" "int_var ''deviceId'' (base s) = 0" "gpu (base s)"
    and "string_var ''deviceType'' (base s) = ''gpu''" "string_var ''loadBinary'' (base s) = []"
    and "string_var ''flags'' (base s) = []"
  shows "usable (demo_env f) f s"
  using assms
  by (auto simp: usable_def demo_env_def all_succeed_def completes_def CL_SUCCESS_def CL_COMPLETE_def
      used_platform_def first_AMD_def AMD_def device_type_for_def devices_of_def CL_DEVICE_TYPE_GPU_def
      fits_int_def)

end
