(* ===== verification/Floyd_Run.thy ===== *)
theory Floyd_Run
  imports Floyd_Facts Sdk_Host_Facts Sdk_Common_Props
begin

text \<open>
  The host program of the shortest-path sample step by step: what the preparation leaves, what a
  run of the kernel does to the matrices, and that the steps succeed where the library's calls
  do.  Each lemma is stated with \<open>meets\<close> and holds for both readings.
\<close>

section \<open>Preparation\<close>

lemma zero_diagonal_ok:
  assumes "length a = n * n" "\<forall>e \<in> set a. e \<le> b"
  shows "yields (zero_diagonal n a)
    (\<lambda>d. length d = n * n \<and> (\<forall>e \<in> set d. e \<le> b) \<and> (\<forall>i < n. d ! (i * n + i) = 0))"
proof -
  let ?I = "\<lambda>i d. length d = n * n \<and> (\<forall>e \<in> set d. e \<le> b) \<and> (\<forall>j < i. d ! (j * n + j) = 0)"
  have "yields (zero_diagonal n a) (?I n)"
    unfolding zero_diagonal_def
  proof (rule for_loop_yields [where I = ?I])
    fix i d assume i: "i < n" and d: "?I i d"
    have "set (d[i * n + i := 0]) \<subseteq> insert 0 (set d)" by (rule set_update_subset_insert)
    moreover have "i * n + i < n * n" using flat_index_bound i by simp
    ultimately show "yields (set_at d (i * n + i) 0) (?I (Suc i))"
      using d i by (auto simp: nth_list_update less_Suc_eq)
  qed (use assms in auto)
  then show ?thesis by simp
qed

lemma init_paths_ok:
  assumes "length p = n * n"
  shows "yields (init_paths n p) (\<lambda>p'. length p' = n * n)"
  unfolding init_paths_def
proof (rule for_loop_yields [where I = "\<lambda>_ p'. length p' = n * n"])
  fix i and q :: "32 word list" assume i: "i < n" and q: "length q = n * n"
  have "yields (for_loop 0 i (\<lambda>j p. do { p1 \<leftarrow> set_at p (i * n + j) (word_of_nat i);
        set_at p1 (j * n + i) (word_of_nat j) }) q) (\<lambda>q. length q = n * n)"
  proof (rule for_loop_yields [where I = "\<lambda>_ q. length q = n * n"])
    fix j and r :: "32 word list" assume j: "j < i" and r: "length r = n * n"
    have "i * n + j < n * n" "j * n + i < n * n" using flat_index_bound i j by simp_all
    then show "yields (do { p1 \<leftarrow> set_at r (i * n + j) (word_of_nat i);
        set_at p1 (j * n + i) (word_of_nat j) }) (\<lambda>q. length q = n * n)" using r by simp
  qed (use q in simp_all)
  moreover have "i * n + i < n * n" using flat_index_bound i by simp
  ultimately show "yields (do { p' \<leftarrow> for_loop 0 i (\<lambda>j p. do { p1 \<leftarrow> set_at p (i * n + j) (word_of_nat i);
        set_at p1 (j * n + i) (word_of_nat j) }) q; set_at p' (i * n + i) (word_of_nat i) })
      (\<lambda>p'. length p' = n * n)"
    by simp (erule yields_mono, simp)
qed (use assms in simp_all)

text \<open>The host arrays after the preparation.\<close>

definition prepared :: "nat \<Rightarrow> 32 word list \<Rightarrow> floyd \<Rightarrow> bool" where
  "prepared n d s \<longleftrightarrow> matrix_ok n d \<and> numNodes s = int n
     \<and> (bool_var ''verify'' (base s) \<longrightarrow> verificationPathDistanceMatrix s = Some d
          \<and> (\<exists>vp. verificationPathMatrix s = Some vp \<and> length vp = n * n))
     \<and> (\<exists>p. pathMatrix s = Some p \<and> length p = n * n)"

lemma nat_square: "nat (int n * int n) = n * n"
  by (simp flip: of_nat_mult)

lemma setup_host_ok:
  assumes "env_ok env" "numNodes s = int n" "n < 32768"
  shows "\<exists>d t. setupFloydWarshall env s = Some (SDK_SUCCESS, t) \<and> prepared n d t
    \<and> pathDistanceMatrix t = Some d \<and> base t = base s \<and> timers t = timers s \<and> blockSize t = blockSize s"
proof -
  have nn: "n * n < 2 ^ 30" using assms(3) mult_strict_mono [of n 32768 n 32768] by simp
  then have fits: "fits_int (int n * int n)" "nat (int n * int n * 4 mod 2 ^ 32) div 4 = n * n"
    by (auto simp: fits_int_def nat_mult_distrib nat_mod_distrib simp flip: of_nat_mult)
  let ?a = "fresh_array env ''pathDistanceMatrix'' (n * n)"
  have "\<exists>v. random_value 0 (random_range 0 MAXDISTANCE) (rand env i) = Some v \<and> v \<le> MAXDISTANCE" for i
    using random_value_in_range [of 0 MAXDISTANCE "rand env i"] assms(1) by (auto simp: env_ok_def)
  then have "yields (fill_loops n n
      (\<lambda>i j. random_value 0 (random_range 0 MAXDISTANCE) (rand env (i * n + j))) ?a)
    (\<lambda>a. length a = n * n \<and> (\<forall>e \<in> set a. e \<le> MAXDISTANCE))"
    by (intro yields_mono [OF fill_loops_all [where P = "\<lambda>_ v. v \<le> MAXDISTANCE"]])
      (auto simp: in_set_conv_nth)
  then obtain a where a: "fillRandom (rand env) (Some ?a) (int n) (int n) 0 MAXDISTANCE = Some (SDK_SUCCESS, Some a)"
      "length a = n * n" "\<forall>e \<in> set a. e \<le> MAXDISTANCE"
    by (auto simp: yields_def fillRandom_def)
  obtain d where d: "zero_diagonal n a = Some d" "length d = n * n" "\<forall>e \<in> set d. e \<le> MAXDISTANCE"
      "\<forall>i < n. d ! (i * n + i) = 0"
    using zero_diagonal_ok [OF a(2,3)] by (auto simp: yields_def)
  obtain p where p: "init_paths n (fresh_array env ''pathMatrix'' (n * n)) = Some p" "length p = n * n"
    using init_paths_ok [OF length_fresh_array, of n env "''pathMatrix''"] by (auto simp: yields_def)
  have "unat e < 2 ^ 30" if "e \<in> set d" for e
    using d(3) that by (auto simp: MAXDISTANCE_def word_le_nat_alt)
  then have m: "matrix_ok n d" using assms(3) d by (simp add: matrix_ok_def)
  show ?thesis
    using assms(2) fits a(1) d(1,2) p m
    by (simp add: setupFloydWarshall_def Let_def transfer_all nat_square prepared_def numNodes_def)
qed

lemma sint_small: "0 \<le> k \<Longrightarrow> k < 2 ^ 31 \<Longrightarrow> sint (word_of_int k :: 32 word) = k"
  by (simp add: signed_of_int signed_take_bit_int_eq_self)

lemma dvd_nat_16: "0 \<le> x \<Longrightarrow> 16 dvd x \<Longrightarrow> 16 dvd nat x"
  using int_dvd_int_iff [of 16 "nat x"] by simp

lemma pad_nodes_ok:
  assumes "0 \<le> numNodes s" "numNodes s \<le> 32752" "blockSize s = 16"
  shows "\<exists>n t. pad_nodes s = Some t \<and> numNodes t = int n \<and> n < 32768
    \<and> 16 dvd n \<and> numNodes s \<le> int n \<and> blockSize t = 16
    \<and> (\<exists>vs. base t = (base s)\<lparr>vars := vs\<rparr> \<and> (\<forall>a. a \<noteq> ''numNodes'' \<longrightarrow> vs a = vars (base s) a))
    \<and> timers t = timers s"
proof -
  have small: "uint (word_of_int (numNodes s) :: 32 word) = numNodes s"
    using assms(1,2) by (simp add: unsigned_of_int take_bit_int_eq_self)
  show ?thesis
  proof (cases "word_of_int (numNodes s) mod (16 :: 32 word) = 0")
    case True
    have "uint (word_of_int (numNodes s) mod (16 :: 32 word)) = numNodes s mod 16" using small by (simp add: uint_mod)
    then have "numNodes s mod 16 = 0" using True by simp
    then have "16 dvd nat (numNodes s)" using assms(1) by (intro dvd_nat_16) auto
    then show ?thesis
      using assms True by (intro exI [of _ "nat (numNodes s)"] exI [of _ s])
        (auto simp: pad_nodes_def intro!: exI [of _ "vars (base s)"])
  next
    case False
    let ?m = "(numNodes s div 16 + 1) * 16"
    have m: "0 \<le> ?m" "?m < 32769" using assms(1,2) by auto
    have "word_of_int (numNodes s) div (16 :: 32 word) = word_of_int (numNodes s div 16)"
      using small by (simp add: word_div_def)
    then have w: "(word_of_int (numNodes s) div 16 + 1) * 16 = (word_of_int ?m :: 32 word)" by simp
    have "sint (word_of_int ?m :: 32 word) = ?m"
      using m by (intro sint_small) simp_all
    then have t: "pad_nodes s = Some (set_base_var ''numNodes'' (Int_val ?m) s)"
      using assms(3) False w by (simp add: pad_nodes_def)
    have "numNodes s mod 16 \<noteq> 0"
    proof
      assume "numNodes s mod 16 = 0"
      then have "uint (word_of_int (numNodes s) mod (16 :: 32 word)) = 0" using small by (simp add: uint_mod)
      then show False using False by (simp add: uint_0_iff)
    qed
    then have "?m < 32768" using assms(2) by presburger
    moreover have "16 dvd nat ?m" "numNodes s \<le> ?m" using m(1) by (auto intro: dvd_nat_16)
    ultimately show ?thesis
      using m t assms(3) by (intro exI [of _ "nat ?m"] exI [of _ "set_base_var ''numNodes'' (Int_val ?m) s"])
        (auto simp: set_base_var_def numNodes_def int_var_def)
  qed
qed

section \<open>Setting up OpenCL\<close>

text \<open>The state in which the kernel can run: \<open>c\<close> are the distances on the host.\<close>

definition buffers :: "nat \<Rightarrow> floyd \<Rightarrow> bool" where
  "buffers n s \<longleftrightarrow> (\<exists>buf q. pathDistanceBuffer s = Some buf \<and> length buf = n * n
     \<and> pathBuffer s = Some q \<and> length q = n * n)"

text \<open>The nodes can be divided into blocks, of 16 nodes or, when the device asks for it, of 4.\<close>

definition blocked :: "nat \<Rightarrow> floyd \<Rightarrow> bool" where
  "blocked n s \<longleftrightarrow> 16 dvd n \<and> (blockSize s = 16 \<or> blockSize s = 4)"

definition idle :: "sample \<Rightarrow> timer list \<Rightarrow> nat \<Rightarrow> 32 word list \<Rightarrow> 32 word list \<Rightarrow> floyd \<Rightarrow> bool" where
  "idle b ts n d c s \<longleftrightarrow> base s = b \<and> timers s = ts \<and> prepared n d s \<and> blocked n s
     \<and> pathDistanceMatrix s = Some c \<and> length c = n * n
     \<and> buffers n s \<and> cl_kernel s \<noteq> None"

text \<open>What the steps of \<open>setupCL\<close> keep.\<close>

definition setting_up :: "sample \<Rightarrow> timer list \<Rightarrow> nat \<Rightarrow> 32 word list \<Rightarrow> floyd \<Rightarrow> bool" where
  "setting_up b ts n d s \<longleftrightarrow>
     base s = b \<and> timers s = ts \<and> prepared n d s \<and> blocked n s \<and> pathDistanceMatrix s = Some d"

lemmas floyd_fields = setting_up_def prepared_def blocked_def numNodes_def idle_def buffers_def device_chosen_def chosen_device_def

lemma setupCL_calls_ok:
  assumes "sure \<Longrightarrow> usable env kernel_file s0" "base s0 = b"
    and "sure \<Longrightarrow> p = used_platform (lib env) b" "sure \<Longrightarrow> 0 < n"
  shows "meets sure (setupCL_calls env (n * n) p) (setting_up b ts n d)
    (\<lambda>s. idle b ts n d d s \<and> device_chosen sure s)"
proof -
  let ?U = "setting_up b ts n d" and ?C = "device_chosen sure"
  let ?V = "\<lambda>s. ?U s \<and> buffers n s"
  have ok: "all_succeed (lib env)" if sure using assms(1) [OF that] by (simp add: usable_def)
  have blind: "blind ?U" "blind ?V" by (auto simp: blind_def floyd_fields)
  have base: "?U s \<Longrightarrow> base s = base s0" for s using assms(2) by (simp add: setting_up_def)
  have open_ok: "meets sure (run_steps [create_context env p, get_devices env, create_queue env]) ?U (\<lambda>s. ?U s \<and> ?C s)"
    by (rule open_device_ok [of sure env kernel_file s0])
      (use assms blind base in auto)
  have buffers_ok: "meets sure (run_steps
     [create_buffer env (n * n) (\<lambda>s. s\<lparr>pathDistanceBuffer := Some (fresh_array env ''pathDistanceBuffer'' (n * n))\<rparr>),
      create_buffer env (n * n) (\<lambda>s. s\<lparr>pathBuffer := Some (fresh_array env ''pathBuffer'' (n * n))\<rparr>)])
     (\<lambda>s. ?U s \<and> ?C s) (\<lambda>s. ?V s \<and> ?C s)"
    by (rule meets_Cons [where R = "\<lambda>s. ?U s \<and> ?C s \<and> (\<exists>buf. pathDistanceBuffer s = Some buf \<and> length buf = n * n)"];
        intro meets_create_buffer meets_Cons [OF meets_create_buffer meets_Nil])
      (use ok assms(4) in \<open>auto simp: floyd_fields\<close>)
  have build_ok: "meets sure (run_steps [build_program env kernel_file, create_kernel env])
      (\<lambda>s. ?V s \<and> ?C s) (\<lambda>s. ?V s \<and> ?C s \<and> cl_kernel s \<noteq> None)"
    by (rule build_program_ok [of sure env kernel_file s0])
      (use assms blind base in \<open>auto simp: c_str_def kernel_file_def\<close>)
  have "meets sure (setupCL_calls env (n * n) p) ?U (\<lambda>s. ?V s \<and> ?C s \<and> cl_kernel s \<noteq> None)"
    using meets_append [OF open_ok meets_append [OF buffers_ok build_ok]]
    by (simp add: setupCL_calls_def)
  then show ?thesis by (rule meets_conseq) (auto simp: floyd_fields matrix_ok_def)
qed

lemma setupCL_ok:
  assumes "sure \<Longrightarrow> usable env kernel_file s0" "setting_up b ts n d s0" "sure \<Longrightarrow> 0 < n"
  shows "meets sure (setupCL env) (\<lambda>s. s = s0) (\<lambda>s. idle b ts n d d s \<and> device_chosen sure s)"
proof -
  have nn: "nat (numNodes s0 * numNodes s0) = n * n" and b: "base s0 = b"
    using assms(2) by (auto simp: floyd_fields nat_square)
  have "meets sure (with_platform env (setupCL_calls env (n * n))) (\<lambda>s. s = s0)
      (\<lambda>s. idle b ts n d d s \<and> device_chosen sure s)"
    by (rule with_platform_ok [OF assms(1)], assumption,
        rule meets_conseq [OF setupCL_calls_ok [of sure env s0 b]])
      (use assms b in \<open>auto simp: floyd_fields\<close>)
  then show ?thesis unfolding meets_def setupCL_def by (simp add: nn)
qed

section \<open>Running the kernel\<close>

text \<open>The distances after some passes; they do not depend on the path matrix.\<close>

definition after_passes :: "nat \<Rightarrow> nat \<Rightarrow> 32 word list \<Rightarrow> 32 word list" where
  "after_passes n k c = fst (passes n k (c, replicate (n * n) 0))"

definition arg_list :: "nat \<Rightarrow> kernel_arg list" where
  "arg_list n = [Buffer_arg ''pathDistanceBuffer'', Buffer_arg ''pathBuffer'', Uint_arg (word_of_nat n)]"

text \<open>On the way: \<open>m\<close> arguments are set and the device holds the distances \<open>e\<close>.\<close>

definition under_way ::
  "sample \<Rightarrow> timer list \<Rightarrow> nat \<Rightarrow> 32 word list \<Rightarrow> 32 word list \<Rightarrow> nat \<Rightarrow> 32 word list \<Rightarrow> floyd \<Rightarrow> bool" where
  "under_way b ts n d c m e s \<longleftrightarrow> idle b ts n d c s \<and> pathDistanceBuffer s = Some e
     \<and> (\<exists>a. cl_kernel s = Some a \<and> (\<forall>i < m. a i = Some (arg_list n ! i)))"

lemma matrix_ok_after:
  assumes "matrix_ok n c" "k \<le> n"
  shows "matrix_ok n (after_passes n k c)"
  unfolding after_passes_def by (rule passes_ok [THEN conjunct1]) (use assms in simp_all)

lemma launch_pass_ok:
  assumes "env_ok env" "matrix_ok n c" "i < n" "numNodes s = int n" "pathDistanceBuffer s = Some (after_passes n i c)"
    and "pathBuffer s = Some q" "length q = n * n"
    and "cl_kernel s = Some a" "\<forall>j < 3. a j = Some (arg_list n ! j)" "a 3 = Some (Uint_arg (word_of_nat i))"
  shows "\<exists>q'. launch_pass env k s =
      Some (s\<lparr>pathDistanceBuffer := Some (after_passes n (Suc i) c), pathBuffer := Some q'\<rparr>)
    \<and> length q' = n * n"
proof -
  let ?c = "after_passes n i c"
  have n: "n < 32768" using assms(2) by (simp add: matrix_ok_def)
  have ok: "pass_ok (n, i) (?c, q)"
    using assms(2,3,7) matrix_ok_after by (simp add: pass_ok_def)
  have g: "pass_threads s = n" using assms(4) n by (simp add: pass_threads_def)
  have args: "a 0 = Some (Buffer_arg ''pathDistanceBuffer'')" "a 1 = Some (Buffer_arg ''pathBuffer'')" "a 2 = Some (Uint_arg (word_of_nat n))"
    using assms(9) by (auto simp: arg_list_def)
  have run: "foldM (floydWarshallPass (word_of_nat n) (word_of_nat i)) (schedule env k n n) (?c, q)
      = Some (pass_all n i (?c, q))"
    using device_pass [OF ok] assms(1) by (simp add: env_ok_def)
  have "fst (pass_all n i (?c, q)) = after_passes n (Suc i) c"
    by (cases "passes n i (c, replicate (n * n) 0)")
      (simp add: after_passes_def pass_all_def pass_entry_def Let_def if_distrib)
  then show ?thesis
    using pass_all_ok [OF ok] run args g assms(5,6,8,10)
    by (intro exI [of _ "snd (pass_all n i (?c, q))"], cases "pass_all n i (?c, q)")
      (simp add: launch_pass_def Let_def)
qed

lemma set_arg_ok:
  assumes "sure \<Longrightarrow> all_succeed (lib env)" "m < 3" "v = arg_list n ! m"
  shows "meets sure (set_arg env m v) (\<lambda>s. under_way b ts n d c m e s \<and> device_chosen sure s)
    (\<lambda>s. under_way b ts n d c (Suc m) e s \<and> device_chosen sure s)"
  unfolding set_arg_def
  by (rule meets_call) (use assms in \<open>auto simp: under_way_def floyd_fields less_Suc_eq\<close>)

lemma one_pass_ok:
  assumes "live_env sure env" "env_ok env" "matrix_ok n c" "i < n"
  shows "meets sure (one_pass env i)
    (\<lambda>s. under_way b ts n d c' 3 (after_passes n i c) s \<and> device_chosen sure s)
    (\<lambda>s. under_way b ts n d c' 3 (after_passes n (Suc i) c) s \<and> device_chosen sure s)"
proof -
  let ?U = "\<lambda>i s. under_way b ts n d c' 3 (after_passes n i c) s \<and> device_chosen sure s"
  let ?A = "\<lambda>s. ?U i s \<and> (\<exists>a. cl_kernel s = Some a \<and> a 3 = Some (Uint_arg (word_of_nat i)))"
  have ok: "all_succeed (lib env)" if sure using assms(1) that by (simp add: live_env_def)
  have len: "length (after_passes n j c) = n * n" if "j \<le> n" for j
    using matrix_ok_after [OF assms(3) that] by (simp add: matrix_ok_def)
  show ?thesis
    unfolding one_pass_def
  proof (intro meets_Cons)
    show "meets sure (set_arg env 3 (Uint_arg (word_of_nat i))) (?U i) ?A"
      unfolding set_arg_def by (rule meets_call) (auto simp: ok under_way_def floyd_fields)
    show "meets sure (enqueue_kernel env pass_sizes (launch_pass env)) ?A (?U (Suc i))"
    proof (rule meets_enqueue)
      fix s assume s: "?A s"
      have "pass_threads s = n" "blocked n s"
        using s assms(3) by (auto simp: under_way_def idle_def prepared_def pass_threads_def matrix_ok_def)
      moreover have "4 dvd n" if "16 dvd n" using that by (rule dvd_trans [rotated]) simp
      ultimately show "list_all accepted_size (pass_sizes s)"
        using assms(4) by (auto simp: pass_sizes_def accepted_size_def blocked_def mod_eq_0_iff_dvd)
    next
      fix s k assume s: "?A s"
      then obtain a q where a: "cl_kernel s = Some a" "\<forall>j < 3. a j = Some (arg_list n ! j)"
          "a 3 = Some (Uint_arg (word_of_nat i))" "pathBuffer s = Some q" "length q = n * n"
          "pathDistanceBuffer s = Some (after_passes n i c)" "numNodes s = int n"
        by (auto simp: under_way_def idle_def buffers_def prepared_def)
      then obtain q' where "launch_pass env k s =
          Some (s\<lparr>pathDistanceBuffer := Some (after_passes n (Suc i) c), pathBuffer := Some q'\<rparr>)" "length q' = n * n"
        using launch_pass_ok [OF assms(2-4)] by blast
      then show "\<exists>t. launch_pass env k s = Some t \<and> ?U (Suc i) t"
        using s a(1,2) len [of "Suc i"] assms(4) by (auto simp: under_way_def floyd_fields)
    qed (use ok in simp)
  qed (use assms(1) in \<open>auto simp: live_env_def intro: meets_flush meets_wait meets_Nil\<close>)
qed

lemma query_kernel_ok:
  assumes "sure \<Longrightarrow> all_succeed (lib env)"
  shows "meets sure (query_kernel env) (\<lambda>s. idle b ts n d c s \<and> device_chosen sure s)
    (\<lambda>s. idle b ts n d c s \<and> device_chosen sure s)"
  using assms unfolding meets_def
  by (auto simp: query_kernel_def floyd_fields setKernelWorkGroupInfo_def Let_def all_succeed_def
      bind_eq_Some_conv split: if_splits prod.splits)

lemma read_paths_ok:
  assumes "under_way b ts n d c m e s"
  shows "\<exists>t. read_paths s = Some t \<and> under_way b ts n d c m e t \<and> cl_devices t = cl_devices s \<and> base t = base s"
  using assms
  by (auto simp: read_paths_def under_way_def floyd_fields nat_square transfer_all)

lemma read_distances_ok:
  assumes "under_way b ts n d c m e s" "length e = n * n"
  shows "\<exists>t. read_distances s = Some t \<and> idle b ts n d e t \<and> cl_devices t = cl_devices s \<and> base t = base s"
  using assms
  by (auto simp: read_distances_def under_way_def floyd_fields nat_square transfer_all)

lemma write_distances_ok:
  assumes "idle b ts n d c s"
  shows "\<exists>t. write_distances s = Some t \<and> under_way b ts n d c 0 c t \<and> cl_devices t = cl_devices s \<and> base t = base s"
  using assms
  by (auto simp: write_distances_def under_way_def floyd_fields nat_square transfer_all)

text \<open>A run of the kernel replaces the distances on the host by those after all passes.\<close>

lemma runCLKernels_ok:
  assumes "live_env sure env" "env_ok env" "matrix_ok n c"
  shows "meets sure (runCLKernels env) (\<lambda>s. idle b ts n d c s \<and> device_chosen sure s)
    (\<lambda>s. idle b ts n d (after_passes n n c) s \<and> device_chosen sure s)"
proof -
  let ?I = "\<lambda>c s. idle b ts n d c s \<and> device_chosen sure s"
  let ?U = "\<lambda>m e s. under_way b ts n d c m e s \<and> device_chosen sure s"
  let ?e = "after_passes n n c"
  have ok: "all_succeed (lib env)" if sure using assms(1) that by (simp add: live_env_def)
  have n: "n < 32768" using assms(3) by (simp add: matrix_ok_def)
  have len: "length ?e = n * n" using matrix_ok_after [OF assms(3) order.refl] by (simp add: matrix_ok_def)
  have start: "after_passes n 0 c = c" by (simp add: after_passes_def)
  have sync: "meets sure (run_steps [flush (lib env), wait_event (lib env) (event env)]) P P" for P
    by (intro meets_Cons [OF meets_flush] meets_Cons [OF meets_wait] meets_Nil) (use assms(1) in \<open>auto simp: live_env_def\<close>)
  have first: "meets sure (run_steps [query_kernel env, \<lambda>(s, k). Some (SDK_SUCCESS, choose_block s, k),
      cl_call (lib env) (\<lambda>_. write_distances)]) (?I c) (?U 0 c)"
  proof (intro meets_Cons)
    show "meets sure (\<lambda>(s, k). Some (SDK_SUCCESS, choose_block s, k)) (?I c) (?I c)"
      by (rule meets_local) (auto simp: choose_block_def floyd_fields)
    show "meets sure (cl_call (lib env) (\<lambda>_. write_distances)) (?I c) (?U 0 c)"
      using host_call_ok [OF ok write_distances_ok] .
  qed (auto intro: query_kernel_ok meets_Nil ok)
  have args: "meets sure (run_steps [set_arg env 0 (Buffer_arg ''pathDistanceBuffer''), set_arg env 1 (Buffer_arg ''pathBuffer''),
      set_arg env 2 (Uint_arg (word_of_nat n)), set_arg env 3 (Uint_arg (word_of_nat n))])
      (?U 0 c) (?U 3 (after_passes n 0 c))"
    unfolding start
  proof (intro meets_Cons)
    show "meets sure (set_arg env 0 (Buffer_arg ''pathDistanceBuffer'')) (?U 0 c) (?U 1 c)"
      using set_arg_ok [of sure env 0] ok by (simp add: arg_list_def)
    show "meets sure (set_arg env 1 (Buffer_arg ''pathBuffer'')) (?U 1 c) (?U 2 c)"
      using set_arg_ok [of sure env 1] ok by (simp add: arg_list_def numeral_2_eq_2)
    show "meets sure (set_arg env 2 (Uint_arg (word_of_nat n))) (?U 2 c) (?U 3 c)"
      using set_arg_ok [of sure env 2] ok by (simp add: arg_list_def numeral_3_eq_3)
    show "meets sure (set_arg env 3 (Uint_arg (word_of_nat n))) (?U 3 c) (?U 3 c)"
      unfolding set_arg_def by (rule meets_call) (auto simp: ok under_way_def floyd_fields)
  qed (auto intro: meets_Nil)
  have loop: "meets sure (run_steps (map (one_pass env) [0..<n])) (?U 3 (after_passes n 0 c)) (?U 3 ?e)"
    by (rule meets_loop [where I = "\<lambda>i. ?U 3 (after_passes n i c)"])
      (use one_pass_ok assms in auto)
  have paths: "meets sure (run_steps [cl_call (lib env) (\<lambda>_. read_paths)]) (?U 3 ?e) (?U 3 ?e)"
    by (rule meets_Cons [OF host_call_ok [OF ok read_paths_ok] meets_Nil])
  have dists: "meets sure (run_steps [cl_call (lib env) (\<lambda>_. read_distances)]) (?U 3 ?e) (?I ?e)"
    by (rule meets_Cons [OF host_call_ok [OF ok read_distances_ok [OF _ len]] meets_Nil])
  have "unat (word_of_nat n :: 32 word) = n" using n by (simp add: unsigned_of_nat take_bit_nat_eq_self)
  then have all: "meets sure (kernel_calls env (word_of_nat n))
      (?I c) (?I ?e)"
    unfolding kernel_calls_def Let_def
    by (simp only:) (intro meets_append; rule first sync args loop paths dists)
  show ?thesis
    unfolding meets_def
  proof (intro allI impI)
    fix s k assume s: "?I c s"
    have nodes: "numNodes s = int n" using s by (simp add: idle_def prepared_def)
    have s': "?I c (s\<lparr>totalKernelTime := Fin 0\<rparr>)" using s by (auto simp: floyd_fields)
    show "(\<forall>t m. runCLKernels env (s, k) = Some (SDK_SUCCESS, t, m) \<longrightarrow> ?I ?e t) \<and>
        (sure \<longrightarrow> (\<exists>t m. runCLKernels env (s, k) = Some (SDK_SUCCESS, t, m)))"
      using all s' unfolding meets_def by (simp add: runCLKernels_def nodes) blast
  qed
qed

section \<open>The whole program\<close>

lemma after_passes_again:
  assumes "matrix_ok n c"
  shows "after_passes n n (after_passes n n c) = after_passes n n c"
  using passes_again [OF assms, of "replicate (n * n) 0" "replicate (n * n) 0"]
  by (simp add: after_passes_def)

lemma timed_idle: "timed (\<lambda>ts s. idle b ts n d c s \<and> device_chosen sure s)"
  by (auto simp: timed_def floyd_fields)

lemma run_floyd_ok:
  assumes "live_env sure env" "env_ok env" "matrix_ok n d"
  shows "meets sure (run_floyd env) (\<lambda>s. idle b ts n d d s \<and> device_chosen sure s)
    (\<lambda>s. \<exists>ts'. idle b ts' n d (after_passes n n d) s)"
proof -
  let ?J = "\<lambda>ts s. idle b ts n d (after_passes n n d) s \<and> device_chosen sure s"
  have "meets sure (runCLKernels env) (?J ts) (?J ts)" for ts
    using runCLKernels_ok [OF assms(1,2) matrix_ok_after [OF assms(3) order.refl], of b ts d]
      after_passes_again [OF assms(3)] by simp
  then have "meets sure (run_floyd env) (\<lambda>s. idle b ts n d d s \<and> device_chosen sure s) (\<lambda>s. \<exists>ts'. ?J ts' s)"
    unfolding run_floyd_def
    by (intro run_sample_ok [where I = "\<lambda>ts s. idle b ts n d d s \<and> device_chosen sure s" and J = ?J
          and it = "int_var ''iterations'' b"] timed_idle runCLKernels_ok [OF assms])
      (auto simp: iterations_def idle_def)
  then show ?thesis by (rule meets_conseq) auto
qed

text \<open>The device's distances are those of the reference, so the verification passes.\<close>

lemma verifyResults_ok:
  assumes "idle b ts n d (after_passes n n d) s"
  shows "\<exists>t. verifyResults env s = Some (SDK_SUCCESS, t)"
proof (cases "bool_var ''verify'' b")
  case True
  let ?e = "after_passes n n d"
  obtain vp where vp: "verificationPathDistanceMatrix s = Some d" "verificationPathMatrix s = Some vp"
      "length vp = n * n" and m: "matrix_ok n d"
    using assms True by (auto simp: idle_def prepared_def)
  have s: "numNodes s = int n" "pathDistanceMatrix s = Some ?e" "length ?e = n * n" "timers s = ts" "base s = b"
    using assms by (auto simp: idle_def prepared_def)
  have "fst (passes n n (d, vp)) = ?e"
    using passes_paths [OF order.refl, of n d vp "replicate (n * n) 0"] by (simp add: after_passes_def)
  then obtain vp' where ref: "floydWarshallCPUReference (word_of_nat n) (d, vp) = Some (?e, vp')"
    using reference_passes [OF m vp(3)] by (cases "passes n n (d, vp)") simp
  obtain t0 where t0: "begin_timer (clock env ''reference begin'') ts = Some (int (length ts), ts @ [t0])"
    using begin_timer_ok by blast
  obtain t1 ts1 where t1: "end_timer (clock env ''reference end'') (int (length ts)) (ts @ [t0]) = Some (t1, ts1)"
    using end_timer_ok by blast
  show ?thesis
    using True vp s ref t0 t1 by (simp add: verifyResults_def Let_def nat_square)
next
  case False
  then show ?thesis using assms by (simp add: verifyResults_def idle_def)
qed

lemma cleanup_ok:
  assumes "all_succeed (lib env)"
  shows "\<exists>t k'. cleanup env (s, k) = Some (SDK_SUCCESS, t, k')
    \<and> pathDistanceMatrix t = None \<and> pathMatrix t = None \<and> verificationPathDistanceMatrix t = None
    \<and> verificationPathMatrix t = None \<and> cl_devices t = None \<and> cl_context t = None \<and> commandQueue t = None
    \<and> pathDistanceBuffer t = None \<and> pathBuffer t = None \<and> cl_program t = None \<and> cl_kernel t = None"
  using assms by (simp add: cleanup_def run_steps.simps cl_call_def all_succeed_def)

text \<open>
  The steps of \<open>setup\<close>, when it succeeds: the host's matrix of distances is \<open>d\<close>.
\<close>

definition setup_done :: "bool \<Rightarrow> floyd \<Rightarrow> bool" where
  "setup_done sure t \<longleftrightarrow> (\<exists>b ts n d. idle b ts n d d t \<and> device_chosen sure t)"

lemma setup_floyd_ok:
  assumes "sure \<Longrightarrow> usable env kernel_file s0" "env_ok env" "0 \<le> numNodes s0" "numNodes s0 \<le> 32752"
    and "blockSize s0 = 16" "sure \<Longrightarrow> 0 < numNodes s0"
  shows "meets sure (setup_floyd env) (\<lambda>s. s = s0) (setup_done sure)"
proof -
  obtain n s1 vs where s1: "pad_nodes s0 = Some s1" "numNodes s1 = int n" "n < 32768"
      "16 dvd n" "numNodes s0 \<le> int n" "blockSize s1 = 16"
      "base s1 = (base s0)\<lparr>vars := vs\<rparr>" "\<forall>a. a \<noteq> ''numNodes'' \<longrightarrow> vs a = vars (base s0) a"
    using pad_nodes_ok [OF assms(3-5)] by blast
  obtain d s2 where s2: "setupFloydWarshall env s1 = Some (SDK_SUCCESS, s2)" "prepared n d s2"
      "pathDistanceMatrix s2 = Some d" "base s2 = base s1" "blockSize s2 = blockSize s1"
    using setup_host_ok [OF assms(2) s1(2,3)] by blast
  have use: "usable env kernel_file (s2\<lparr>timers := ts\<rparr>)" if sure for ts
    by (rule usable_cong [OF assms(1) [OF that], where vs = vs]) (use s1(7,8) s2(4) in auto)
  have up: "setting_up (base s1) ts n d (s2\<lparr>timers := ts\<rparr>)" for ts
    using s2 s1(4,6) by (auto simp: floyd_fields)
  have "0 < n" if sure using assms(6) [OF that] s1(5) by simp
  then have "meets sure (timed_setup env (setupCL env)) (\<lambda>s. s = s2)
      (\<lambda>s. \<exists>ts. idle (base s1) ts n d d s \<and> device_chosen sure s)"
    by (intro timed_setup_ok timed_idle setupCL_ok use up)
  then show ?thesis
    unfolding meets_def setup_floyd_def setup_done_def using s1(1) s2(1) by (simp; blast)
qed

end
