(* ===== verification/Floyd_Props.thy ===== *)
theory Floyd_Props
  imports Floyd_Run
begin

text \<open>
  The properties of the shortest-path sample: what the reference computes, that the device
  computes the same distances in every order of its work items, and what a run of the whole
  program amounts to.
\<close>

section \<open>The reference and the device\<close>

text \<open>C21.
  The reference on the host computes shortest paths: for a matrix with zeros on the diagonal and
  entries below 2^30 it ends, every entry of the result is the length of a shortest walk between
  the two nodes, and the entry of the path matrix is the old one when the direct way is shortest,
  or a node that a shortest walk goes over.\<close>

theorem reference_finds_shortest_paths:
  assumes "matrix_ok n d" "length p = n * n"
  shows "\<exists>d' p'. floydWarshallCPUReference (word_of_nat n) (d, p) = Some (d', p') \<and>
    (\<forall>y < n. \<forall>x < n.
      is_distance (entry n d) n y x (entry n d' y x) \<and>
      (entry n d' y x = entry n d y x \<and> p' ! (y * n + x) = p ! (y * n + x) \<or>
       (\<exists>z < n. p' ! (y * n + x) = word_of_nat z \<and> entry n d' y x = entry n d' y z + entry n d' z x)))"
proof (intro exI conjI allI impI)
  show "floydWarshallCPUReference (word_of_nat n) (d, p) = Some (fst (passes n n (d, p)), snd (passes n n (d, p)))"
    using reference_passes [OF assms] by simp
  fix y x assume yx: "y < n" "x < n"
  let ?D = "through (entry n d) n"
  have e: "entry n (fst (passes n n (d, p))) v u = ?D v u" if "v < n" "u < n" for v u
    using entry_passes [OF assms order.refl that(2,1)] .
  show "is_distance (entry n d) n y x (entry n (fst (passes n n (d, p))) y x)"
    using e yx through_distance by simp
  show "entry n (fst (passes n n (d, p))) y x = entry n d y x \<and> snd (passes n n (d, p)) ! (y * n + x) = p ! (y * n + x) \<or>
      (\<exists>z < n. snd (passes n n (d, p)) ! (y * n + x) = word_of_nat z \<and>
        entry n (fst (passes n n (d, p))) y x =
          entry n (fst (passes n n (d, p))) y z + entry n (fst (passes n n (d, p))) z x)"
    using path_passes [OF assms order.refl yx(2,1)] through_triangle [of _ n "entry n d" y x] e yx
    by (metis order.antisym)
qed

definition demo_matrix :: "32 word list" where
  "demo_matrix = [0, 9, 2, 9, 0, 9, 9, 3, 0]"

lemma demo_matrix_ok: "matrix_ok 3 demo_matrix"
proof -
  have "i < 3 \<longleftrightarrow> i = 0 \<or> i = 1 \<or> i = 2" for i :: nat by arith
  then show ?thesis by (auto simp: matrix_ok_def demo_matrix_def)
qed

theorem reference_finds_shortest_paths_witness:
  "\<exists>d' p'. floydWarshallCPUReference 3 (demo_matrix, [0, 0, 0, 1, 1, 1, 2, 2, 2]) = Some (d', p') \<and>
    is_distance (entry 3 demo_matrix) 3 0 1 (entry 3 d' 0 1)"
proof -
  obtain d' p' where run: "floydWarshallCPUReference (word_of_nat 3) (demo_matrix, [0, 0, 0, 1, 1, 1, 2, 2, 2]) = Some (d', p')"
    and all: "\<forall>y < 3. \<forall>x < 3. is_distance (entry 3 demo_matrix) 3 y x (entry 3 d' y x) \<and>
      (entry 3 d' y x = entry 3 demo_matrix y x \<and> p' ! (y * 3 + x) = [0, 0, 0, 1, 1, 1, 2, 2, 2] ! (y * 3 + x) \<or>
       (\<exists>z < 3. p' ! (y * 3 + x) = word_of_nat z \<and> entry 3 d' y x = entry 3 d' y z + entry 3 d' z x))"
    using reference_finds_shortest_paths [OF demo_matrix_ok, of "[0, 0, 0, 1, 1, 1, 2, 2, 2]"] by auto
  show ?thesis using run all by (intro exI [of _ d'] exI [of _ p']) simp
qed

text \<open>C22.
  The device computes the distances of the reference, whatever the order in which the work items
  of each launch run; and where a distance was improved, its path matrix agrees too.  The entries
  for which the direct way is shortest are what the buffer held before, which the program never
  initialises.\<close>

theorem device_equals_reference:
  assumes "matrix_ok n d" "length p = n * n" "length q = n * n"
    and "\<And>k. k < n \<Longrightarrow> runs_all (items2 n n) (sched k)"
  shows "\<exists>d' p' q'. floydWarshallCPUReference (word_of_nat n) (d, p) = Some (d', p') \<and>
    for_loop 0 n (\<lambda>k. foldM (floydWarshallPass (word_of_nat n) (word_of_nat k)) (sched k)) (d, q) = Some (d', q') \<and>
    (\<forall>i < n * n. q' ! i = (if d' ! i < d ! i then p' ! i else q ! i))"
proof (intro exI conjI allI impI)
  show "floydWarshallCPUReference (word_of_nat n) (d, p) = Some (fst (passes n n (d, p)), snd (passes n n (d, p)))"
    using reference_passes [OF assms(1,2)] by simp
  have "yields (for_loop 0 n (\<lambda>k. foldM (floydWarshallPass (word_of_nat n) (word_of_nat k)) (sched k)) (d, q))
      (\<lambda>s. s = passes n n (d, q))"
    using device_pass [OF passes_pass_ok [OF assms(1,3)] assms(4)]
    by (intro for_loop_yields [where I = "\<lambda>k s. s = passes n k (d, q)"]) simp_all
  then show "for_loop 0 n (\<lambda>k. foldM (floydWarshallPass (word_of_nat n) (word_of_nat k)) (sched k)) (d, q)
      = Some (fst (passes n n (d, p)), snd (passes n n (d, q)))"
    using passes_paths [OF order.refl, of n d p q] by (simp add: yields_eq)
  fix i assume "i < n * n"
  then show "snd (passes n n (d, q)) ! i =
      (if fst (passes n n (d, p)) ! i < d ! i then snd (passes n n (d, p)) ! i else q ! i)"
    using passes_paths [OF order.refl, of n d p q] by simp
qed

theorem device_equals_reference_witness:
  "\<exists>d' p' q'. floydWarshallCPUReference (word_of_nat 3) (demo_matrix, replicate 9 0) = Some (d', p') \<and>
    for_loop 0 3 (\<lambda>k. foldM (floydWarshallPass (word_of_nat 3) (word_of_nat k)) (row_by_row 3 3))
      (demo_matrix, replicate 9 77) = Some (d', q') \<and>
    (\<forall>i < 3 * 3. q' ! i = (if d' ! i < demo_matrix ! i then p' ! i else replicate 9 77 ! i))"
  using device_equals_reference [OF demo_matrix_ok, of "replicate 9 0" "replicate 9 77" "\<lambda>_. row_by_row 3 3"]
    row_by_row_runs_all by simp

section \<open>The program\<close>

text \<open>C23.
  Whatever the OpenCL library answers: when \<open>setup\<close> and \<open>run\<close> report success, for any number of
  iterations, the distances on the host are the lengths of shortest walks in the graph that was
  set up, and \<open>verifyResults\<close> ends and reports success.  (The padded number of nodes has to be
  below 32768, where the size of the matrices in bytes fits \<open>cl_uint\<close>.)\<close>

theorem successful_run_is_correct:
  assumes "env_ok env" "0 \<le> numNodes s" "numNodes s \<le> 32752" "blockSize s = 16"
    and "setup_floyd env (s, k) = Some (SDK_SUCCESS, s1, k1)"
    and "run_floyd env (s1, k1) = Some (SDK_SUCCESS, s2, k2)"
  shows "\<exists>n d c. numNodes s1 = int n \<and> pathDistanceMatrix s1 = Some d \<and> pathDistanceMatrix s2 = Some c \<and>
    (\<forall>y < n. \<forall>x < n. is_distance (entry n d) n y x (entry n c y x)) \<and>
    (\<exists>t. verifyResults env s2 = Some (SDK_SUCCESS, t))"
proof -
  have "setup_done False s1"
    using meetsD [OF setup_floyd_ok [of False env s, OF _ assms(1-4)] refl assms(5)] by simp
  then obtain b ts n d where i1: "idle b ts n d d s1" "device_chosen False s1"
    unfolding setup_done_def by blast
  then have m: "matrix_ok n d" by (simp add: idle_def prepared_def)
  have live: "live_env False env" by (simp add: live_env_def)
  from meetsD [OF run_floyd_ok [OF live assms(1) m] conjI [OF i1] assms(6)]
  obtain ts' where i2: "idle b ts' n d (after_passes n n d) s2" by blast
  have "is_distance (entry n d) n y x (entry n (after_passes n n d) y x)" if "y < n" "x < n" for y x
    using entry_passes [OF m _ order.refl that(2,1), of "replicate (n * n) 0"] through_distance
    by (simp add: after_passes_def)
  moreover have "numNodes s1 = int n" "pathDistanceMatrix s1 = Some d"
      "pathDistanceMatrix s2 = Some (after_passes n n d)"
    using i1(1) i2 by (auto simp: idle_def prepared_def)
  moreover have "\<exists>t. verifyResults env s2 = Some (SDK_SUCCESS, t)" using verifyResults_ok [OF i2] .
  ultimately show ?thesis by blast
qed

abbreviation floyd_demo :: run_env where
  "floyd_demo \<equiv> demo_env kernel_file"

theorem successful_run_is_correct_witness:
  "\<exists>s1 k1 s2 k2 n d c. setup_floyd floyd_demo (new_floyd, 0) = Some (SDK_SUCCESS, s1, k1) \<and>
    run_floyd floyd_demo (s1, k1) = Some (SDK_SUCCESS, s2, k2) \<and>
    numNodes s1 = int n \<and> pathDistanceMatrix s1 = Some d \<and> pathDistanceMatrix s2 = Some c \<and>
    (\<forall>y < n. \<forall>x < n. is_distance (entry n d) n y x (entry n c y x))"
proof -
  have new: "0 \<le> numNodes new_floyd" "numNodes new_floyd \<le> 32752" "blockSize new_floyd = 16"
    "0 < numNodes new_floyd"
    by (simp_all add: new_floyd_def set_base_var_def numNodes_def int_var_def)
  have use: "usable floyd_demo kernel_file new_floyd"
    by (rule demo_env_usable)
      (simp_all add: new_floyd_def set_base_var_def int_var_def string_var_def new_sample_def)
  obtain s1 k1 where s1: "setup_floyd floyd_demo (new_floyd, 0) = Some (SDK_SUCCESS, s1, k1)"
      "setup_done True s1"
    using meets_sure [OF setup_floyd_ok [of True, OF use demo_env_ok(1) new] refl] by blast
  then obtain b ts n d where i1: "idle b ts n d d s1" "device_chosen True s1"
    unfolding setup_done_def by blast
  then have m: "matrix_ok n d" by (simp add: idle_def prepared_def)
  obtain s2 k2 where s2: "run_floyd floyd_demo (s1, k1) = Some (SDK_SUCCESS, s2, k2)"
    using meets_sure [OF run_floyd_ok [OF demo_env_ok(2,1) m] conjI [OF i1]] by blast
  show ?thesis
    using successful_run_is_correct [OF demo_env_ok(1) new(1-3) s1(1) s2] s1(1) s2 by blast
qed

text \<open>C24.
  A command line that is accepted, asks for 1 to 32752 nodes and uses none of \<open>--dump\<close>, \<open>--load\<close> and
  \<open>--flags\<close> leads to a run that ends with success, all OpenCL objects released and all memory freed,
  whenever the library's calls succeed where their arguments allow it, the events complete, the
  device number is one of the devices of the type used, and the kernel file is there.\<close>

theorem program_succeeds:
  assumes "initialize_floyd new_floyd = Some (SDK_SUCCESS, s0)"
    and "parseCommandLine ((lib env)\<lparr>answers := check_answers env\<rparr>) argv (base s0) = Some (Returned SDK_SUCCESS, b)"
    and "\<not> isDumpBinaryEnabled b" "usable env kernel_file (s0\<lparr>base := b\<rparr>)" "env_ok env"
    and "0 < int_var ''numNodes'' b" "int_var ''numNodes'' b \<le> 32752"
  shows "\<exists>t. main_floyd env argv = Some (Returned SDK_SUCCESS, t, run_files env) \<and>
    cl_context t = None \<and> commandQueue t = None \<and> pathDistanceBuffer t = None \<and> pathBuffer t = None \<and>
    cl_program t = None \<and> cl_kernel t = None \<and> pathDistanceMatrix t = None \<and> pathMatrix t = None \<and>
    verificationPathDistanceMatrix t = None \<and> verificationPathMatrix t = None \<and> cl_devices t = None"
proof -
  let ?s = "s0\<lparr>base := b\<rparr>"
  have nodes: "0 \<le> numNodes ?s" "numNodes ?s \<le> 32752" "0 < numNodes ?s" using assms(6,7) by (simp_all add: numNodes_def)
  have block: "blockSize ?s = 16"
    using assms(1) by (auto simp: initialize_floyd_def initialize_sample_def new_floyd_def set_base_var_def bind_eq_Some_conv
        split: prod.splits if_splits)
  have live: "live_env True env" "all_succeed (lib env)" using assms(4) by (auto simp: live_env_def usable_def)
  obtain s1 k1 where s1: "setup_floyd env (?s, 0) = Some (SDK_SUCCESS, s1, k1)" "setup_done True s1"
    using meets_sure [OF setup_floyd_ok [of True, OF assms(4,5) nodes(1,2) block nodes(3)] refl] by blast
  then obtain b' ts n d where i1: "idle b' ts n d d s1" "device_chosen True s1"
    unfolding setup_done_def by blast
  then have m: "matrix_ok n d" by (simp add: idle_def prepared_def)
  obtain s2 k2 ts' where s2: "run_floyd env (s1, k1) = Some (SDK_SUCCESS, s2, k2)"
      "idle b' ts' n d (after_passes n n d) s2"
    using meets_sure [OF run_floyd_ok [OF live(1) assms(5) m] conjI [OF i1]] by blast
  obtain s3 where s3: "verifyResults env s2 = Some (SDK_SUCCESS, s3)"
    using verifyResults_ok [OF s2(2)] by blast
  have main: "main_floyd env argv = Some (Returned SDK_SUCCESS, t, run_files env)"
    if "cleanup env (s3, k2) = Some (SDK_SUCCESS, t, k')" for t k'
    unfolding main_floyd_def
    by (rule main_sample_ok [OF assms(1) [unfolded initialize_floyd_def] assms(2,3), where k = k'])
      (simp add: returning_def run_steps.simps s1(1) s2(1) s3 that)
  show ?thesis using cleanup_ok [OF live(2), of s3 k2] main by blast
qed

definition demo_start :: floyd where
  "demo_start = snd (the (initialize_floyd new_floyd))"

definition demo_args :: "string list" where
  "demo_args = [''FloydWarshall'', ''-e'', ''-x'', ''60'']"

lemma demo_start_ok: "initialize_floyd new_floyd = Some (SDK_SUCCESS, demo_start)"
proof -
  have "map_option fst (initialize_floyd new_floyd) = Some SDK_SUCCESS" by code_simp
  then show ?thesis by (auto simp: demo_start_def)
qed

lemma demo_parse:
  "map_option (\<lambda>(o', b). (o', isDumpBinaryEnabled b, enablePlatform b, int_var ''deviceId'' b, gpu b,
      string_var ''deviceType'' b, string_var ''loadBinary'' b, string_var ''flags'' b,
      int_var ''numNodes'' b, bool_var ''verify'' b))
    (parseCommandLine ((lib floyd_demo)\<lparr>answers := check_answers floyd_demo\<rparr>) demo_args (base demo_start))
   = Some (Returned SDK_SUCCESS, False, False, 0, True, ''gpu'', [], [], 60, True)"
  by code_simp

theorem program_succeeds_witness:
  "\<exists>t. main_floyd floyd_demo demo_args = Some (Returned SDK_SUCCESS, t, run_files floyd_demo) \<and>
    pathDistanceMatrix t = None \<and> cl_context t = None"
proof -
  obtain b where b: "parseCommandLine ((lib floyd_demo)\<lparr>answers := check_answers floyd_demo\<rparr>) demo_args
      (base demo_start) = Some (Returned SDK_SUCCESS, b)"
      "\<not> isDumpBinaryEnabled b" "\<not> enablePlatform b" "int_var ''deviceId'' b = 0" "gpu b"
      "string_var ''deviceType'' b = ''gpu''" "string_var ''loadBinary'' b = []" "string_var ''flags'' b = []"
      "int_var ''numNodes'' b = 60"
    using demo_parse by auto
  then have "usable floyd_demo kernel_file (demo_start\<lparr>base := b\<rparr>)" by (intro demo_env_usable) simp_all
  then show ?thesis
    using program_succeeds [OF demo_start_ok b(1,2) _ demo_env_ok(1)] b(9) by auto
qed

end
