(* ===== verification/Bitonic.thy ===== *)
theory Bitonic
  imports Sdk_Host "HOL-Library.Signed_Division"
begin

unbundle bit_operations_syntax

text \<open>
  The sample \<open>cl_testbench/BitonicSort\<close>: an array whose length is a power of two is sorted on the
  device by a network of exchanges, one launch for every pass of every stage, and on the host for
  comparison.  \<open>length\<close>, \<open>sortDescending\<close> and \<open>iterations\<close> are set by options, so they are variables of
  the base class.  Conventions are those of \<open>Sdk_Host\<close>.
\<close>

section \<open>Data\<close>

record bitonic = host +
  sortOrder :: "32 word"
  input :: "32 word list option"
  earlier_inputs :: "32 word list list"
  verificationInput :: "32 word list option"
  inputBuffer :: "32 word list option"

text \<open>
  The program does not wait for the transfers: \<open>input\<close> is the array on the host as the commands of
  the queue, which are in order, leave it, and \<open>earlier_inputs\<close> is what it held before each of them
  that writes it, the last one first.
\<close>

definition array_length :: "bitonic \<Rightarrow> int" where
  "array_length s = int_var ''length'' (base s)"

definition sort_word :: "bitonic \<Rightarrow> string" where
  "sort_word s = string_var ''sortDescending'' (base s)"

definition GROUP_SIZE :: nat where
  "GROUP_SIZE = 256"

definition new_bitonic :: bitonic where
  "new_bitonic =
     set_base_var ''iterations'' (Int_val 1) (set_base_var ''length'' (Int_val 1024)
      (set_base_var ''sortDescending'' (String_val ''desc'')
       \<lparr>base = new_sample False, timers = [], setupTime = Fin 0, totalKernelTime = Fin 0,
        referenceKernelTime = Fin 0, cl_context = None, cl_devices = None, commandQueue = None,
        cl_program = None, cl_kernel = None,
        sortOrder = 0, input = None, earlier_inputs = [], verificationInput = None, inputBuffer = None\<rparr>))"

section \<open>The kernel\<close>

text \<open>One work item: it orders the two elements of its pair.  A shift takes its amount modulo 32.\<close>

definition bitonicSort ::
  "32 word \<Rightarrow> 32 word \<Rightarrow> 32 word \<Rightarrow> nat \<times> nat \<Rightarrow> 32 word list \<Rightarrow> 32 word list option" where
  "bitonicSort stage passOfStage direction = (\<lambda>(gx, _) theArray.
     let threadId = word_of_nat gx :: 32 word;
         pairDistance = push_bit (unat (stage - passOfStage) mod 32) 1;
         blockWidth = 2 * pairDistance;
         leftId = threadId mod pairDistance + threadId div pairDistance * blockWidth;
         rightId = leftId + pairDistance;
         sameDirectionBlockWidth = push_bit (unat stage mod 32) 1;
         sortIncreasing = (if threadId div sameDirectionBlockWidth mod 2 = 1 then 1 - direction else direction)
     in do { leftElement \<leftarrow> arg_at theArray (unat leftId);
             rightElement \<leftarrow> arg_at theArray (unat rightId);
             let (greater, lesser) = (if rightElement < leftElement then (leftElement, rightElement)
                                      else (rightElement, leftElement));
                 (l, r) = (if sortIncreasing \<noteq> 0 then (lesser, greater) else (greater, lesser))
             in do { a \<leftarrow> set_at theArray (unat leftId) l; set_at a (unat rightId) r } })"

section \<open>The reference on the host\<close>

definition swapIfFirstIsGreater :: "nat \<Rightarrow> nat \<Rightarrow> 32 word list \<Rightarrow> 32 word list option" where
  "swapIfFirstIsGreater a b xs =
     do { x \<leftarrow> arg_at xs a;
          y \<leftarrow> arg_at xs b;
          if y < x then do { xs1 \<leftarrow> set_at xs a y; set_at xs1 b x } else Some xs }"

text \<open>The loop over the blocks, \<open>for (k = 0; k < length; k += j)\<close>.\<close>

definition next_direction :: "nat \<Rightarrow> nat \<Rightarrow> nat \<Rightarrow> bool \<Rightarrow> bool" where
  "next_direction len i k increasing =
     (if i < len \<and> (k = i \<or> k mod i = 0 \<and> k \<noteq> len div 2) then \<not> increasing else increasing)"

function sort_blocks ::
  "nat \<Rightarrow> nat \<Rightarrow> nat \<Rightarrow> nat \<Rightarrow> bool \<Rightarrow> 32 word list \<Rightarrow> 32 word list option" where
  "sort_blocks len i j k increasing xs =
     (if k < len \<and> 0 < j then
        let increasing' = next_direction len i k increasing
        in do { xs' \<leftarrow> for_loop k (k + j div 2)
                  (\<lambda>l. if increasing' then swapIfFirstIsGreater l (l + j div 2)
                       else swapIfFirstIsGreater (l + j div 2) l) xs;
                sort_blocks len i j (k + j) increasing' xs' }
      else Some xs)"
  by pat_completeness auto
termination by (relation "measure (\<lambda>(len, i, j, k, inc, xs). len - k)") auto

declare sort_blocks.simps [simp del]

text \<open>The loops over the passes, \<open>for (j = i; j > 1; j /= 2)\<close>, and the stages.\<close>

function sort_passes :: "nat \<Rightarrow> nat \<Rightarrow> bool \<Rightarrow> nat \<Rightarrow> 32 word list \<Rightarrow> 32 word list option" where
  "sort_passes len i sortIncreasing j xs =
     (if 1 < j then do { xs' \<leftarrow> sort_blocks len i j 0 sortIncreasing xs;
                         sort_passes len i sortIncreasing (j div 2) xs' }
      else Some xs)"
  by pat_completeness auto
termination by (relation "measure (\<lambda>(len, i, inc, j, xs). j)") auto

declare sort_passes.simps [simp del]

function sort_stages :: "nat \<Rightarrow> bool \<Rightarrow> nat \<Rightarrow> 32 word list \<Rightarrow> 32 word list option" where
  "sort_stages len sortIncreasing i xs =
     (if i \<le> len \<and> 0 < i then do { xs' \<leftarrow> sort_passes len i sortIncreasing i xs;
                                  sort_stages len sortIncreasing (i * 2) xs' }
      else Some xs)"
  by pat_completeness auto
termination by (relation "measure (\<lambda>(len, inc, i, xs). Suc len - i)") auto

declare sort_stages.simps [simp del]

text \<open>From a length of 2^31 on, \<open>i\<close> wraps around to 0 and the loop never ends.\<close>

definition bitonicSortCPUReference :: "32 word \<Rightarrow> 32 word \<Rightarrow> 32 word list \<Rightarrow> 32 word list option" where
  "bitonicSortCPUReference len sortIncreasing xs =
     (if 2 ^ 31 \<le> unat len then None
      else sort_stages (unat len) (sortIncreasing \<noteq> 0) 2 xs)"

section \<open>Preparing the data\<close>

text \<open>
  The number of bytes of the array is a \<open>cl_uint\<close>, which wraps around; the copy for the verification
  has its full size.
\<close>

definition setupBitonicSort :: "run_env \<Rightarrow> bitonic \<Rightarrow> (int \<times> bitonic) option" where
  "setupBitonicSort env s =
     (let n = array_length s; sz = nat (n * 4 mod 2 ^ 32) div 4 in
      do { (_, a0) \<leftarrow> fillRandom (rand env) (Some (fresh_array env ''input'' sz)) n 1 0 1024;
           a \<leftarrow> a0;
           let s1 = s\<lparr>input := Some a, earlier_inputs := []\<rparr> in
           if bool_var ''verify'' (base s) then
             do { v \<leftarrow> transfer (nat n) a (fresh_array env ''verificationInput'' (nat n));
                  Some (SDK_SUCCESS, s1\<lparr>verificationInput := Some v\<rparr>) }
           else Some (SDK_SUCCESS, s1) })"

section \<open>Setting up OpenCL\<close>

definition sort_kernel_file :: string where
  "sort_kernel_file = ''BitonicSort_Kernels.cl''"

text \<open>The calls of \<open>setupCL\<close> once the platform is known; the buffer has \<open>n\<close> elements.\<close>

definition sort_setup_calls :: "run_env \<Rightarrow> nat \<Rightarrow> nat \<Rightarrow> bitonic step" where
  "sort_setup_calls env n p = run_steps
     [create_context env p,
      get_devices env,
      create_queue env,
      create_buffer env n (\<lambda>s. s\<lparr>inputBuffer := Some (fresh_array env ''inputBuffer'' n)\<rparr>),
      build_program env sort_kernel_file,
      create_kernel env]"

definition setupCL_sort :: "run_env \<Rightarrow> bitonic step" where
  "setupCL_sort env = (\<lambda>(s, k).
     with_platform env (sort_setup_calls env (nat (array_length s))) (s, k))"

text \<open>\<open>setup\<close> leaves the program when there is no iteration, and refuses lengths by \<open>length & (length - 1)\<close>.\<close>

definition setup_bitonic :: "run_env \<Rightarrow> bitonic \<times> nat \<Rightarrow> (outcome \<times> bitonic \<times> nat) option" where
  "setup_bitonic env = (\<lambda>(s, k).
     let n = array_length s in
     if iterations s < 1 then Some (Exited 0, s, k)
     else if \<not> fits_int (n - 1) then None
     else if n AND (n - 1) \<noteq> 0 then Some (Returned SDK_FAILURE, s, k)
     else do { (r, s1) \<leftarrow> setupBitonicSort env s;
               if r \<noteq> SDK_SUCCESS then Some (Returned SDK_FAILURE, s1, k)
               else returning (timed_setup env (setupCL_sort env)) (s1, k) })"

section \<open>Running the kernel\<close>

text \<open>The loop that halves the length.\<close>

function count_stages :: "32 word \<Rightarrow> nat" where
  "count_stages temp = (if 1 < temp then Suc (count_stages (drop_bit 1 temp)) else 0)"
  by pat_completeness auto
termination
  by (relation "measure unat") (auto simp: drop_bit_Suc unat_div word_less_nat_alt)

declare count_stages.simps [simp del]

definition choose_order :: "bitonic \<Rightarrow> bitonic" where
  "choose_order s = s\<lparr>sortOrder := if sort_word s = ''asc'' then 1 else 0\<rparr>"

text \<open>
  A launch of \<open>length / 2\<close> work items in groups of \<open>GROUP_SIZE\<close>, with the arguments set before.
\<close>

definition sort_threads :: "bitonic \<Rightarrow> nat" where
  "sort_threads s = nat ((array_length s sdiv 2) mod 2 ^ 64)"

definition sort_sizes :: "bitonic \<Rightarrow> (nat \<times> nat) list" where
  "sort_sizes s = [(sort_threads s, GROUP_SIZE)]"

definition launch_sort :: "run_env \<Rightarrow> nat \<Rightarrow> bitonic \<Rightarrow> bitonic option" where
  "launch_sort env k s =
     (let g = sort_threads s in
      do { args \<leftarrow> cl_kernel s;
           buf \<leftarrow> inputBuffer s;
           (case (args 0, args 1, args 2, args 3) of
              (Some (Buffer_arg a), Some (Uint_arg stage), Some (Uint_arg pass), Some (Uint_arg direction)) \<Rightarrow>
                if a \<noteq> ''inputBuffer'' then None
                else do { buf' \<leftarrow> foldM (bitonicSort stage pass direction) (schedule env k g 1) buf;
                          Some (s\<lparr>inputBuffer := Some buf'\<rparr>) }
            | _ \<Rightarrow> None) })"

definition sort_pass :: "run_env \<Rightarrow> nat \<Rightarrow> bitonic step" where
  "sort_pass env passOfStage = run_steps
     [set_arg env 2 (Uint_arg (word_of_nat passOfStage)),
      enqueue_kernel env sort_sizes (launch_sort env)]"

definition sort_stage :: "run_env \<Rightarrow> nat \<Rightarrow> bitonic step" where
  "sort_stage env stage = run_steps
     (set_arg env 1 (Uint_arg (word_of_nat stage)) # map (sort_pass env) [0..<stage + 1])"

definition write_input :: "bitonic \<Rightarrow> bitonic option" where
  "write_input s =
     do { xs \<leftarrow> input s;
          buf \<leftarrow> inputBuffer s;
          buf' \<leftarrow> transfer (nat (array_length s)) xs buf;
          Some (s\<lparr>inputBuffer := Some buf'\<rparr>) }"

definition read_input :: "bitonic \<Rightarrow> bitonic option" where
  "read_input s =
     do { xs \<leftarrow> input s;
          buf \<leftarrow> inputBuffer s;
          xs' \<leftarrow> transfer (nat (array_length s)) buf xs;
          Some (s\<lparr>input := Some xs', earlier_inputs := xs # earlier_inputs s\<rparr>) }"

definition runCLKernels_sort :: "run_env \<Rightarrow> bitonic step" where
  "runCLKernels_sort env = (\<lambda>(s, k).
     run_steps
      ([cl_call (lib env) (\<lambda>_. write_input),
        set_arg env 0 (Buffer_arg ''inputBuffer''),
        \<lambda>(s, k). Some (SDK_SUCCESS, choose_order s, k),
        \<lambda>(s, k). set_arg env 3 (Uint_arg (sortOrder s)) (s, k)] @
       map (sort_stage env) [0..<count_stages (word_of_int (array_length s))] @
       [cl_call (lib env) (\<lambda>_. read_input)]) (s, k))"

definition run_bitonic :: "run_env \<Rightarrow> bitonic step" where
  "run_bitonic env = run_sample env (runCLKernels_sort env)"

section \<open>Verification, clean-up, main\<close>

text \<open>
  What the host finds in the array: an element may be that of an earlier contents, as nothing
  waits for the transfers.
\<close>

definition seen_on_host :: "run_env \<Rightarrow> 32 word list \<Rightarrow> 32 word list list \<Rightarrow> 32 word list" where
  "seen_on_host env xs earlier =
     map (\<lambda>i. (xs # earlier) ! min (pending env (length earlier) i) (length earlier) ! i) [0..<length xs]"

definition verify_sort :: "run_env \<Rightarrow> bitonic \<Rightarrow> (int \<times> bitonic) option" where
  "verify_sort env s =
     (if bool_var ''verify'' (base s) then
        do { v \<leftarrow> verificationInput s;
             (timer, ts) \<leftarrow> begin_timer (clock env ''reference begin'') (timers s);
             v' \<leftarrow> bitonicSortCPUReference (word_of_int (array_length s)) (sortOrder s) v;
             (t, ts') \<leftarrow> end_timer (clock env ''reference end'') timer ts;
             xs \<leftarrow> input s;
             let n = nat (array_length s);
                 s' = s\<lparr>verificationInput := Some v', timers := ts', referenceKernelTime := t\<rparr>
             in if length xs < n \<or> length v' < n then None
                else if take n (seen_on_host env xs (earlier_inputs s)) = take n v'
                     then Some (SDK_SUCCESS, s') else Some (SDK_FAILURE, s') }
      else Some (SDK_SUCCESS, s))"

definition cleanup_sort :: "run_env \<Rightarrow> bitonic step" where
  "cleanup_sort env = run_steps
     [cl_call (lib env) (\<lambda>_ s. Some (s\<lparr>cl_kernel := None\<rparr>)),
      cl_call (lib env) (\<lambda>_ s. Some (s\<lparr>cl_program := None\<rparr>)),
      cl_call (lib env) (\<lambda>_ s. Some (s\<lparr>inputBuffer := None\<rparr>)),
      cl_call (lib env) (\<lambda>_ s. Some (s\<lparr>commandQueue := None\<rparr>)),
      cl_call (lib env) (\<lambda>_ s. Some (s\<lparr>cl_context := None\<rparr>)),
      \<lambda>(s, k). Some (SDK_SUCCESS, s\<lparr>input := None, verificationInput := None, cl_devices := None\<rparr>, k)]"

definition bitonic_options :: "cmd_option list" where
  "bitonic_options =
     [make_option ''x'' ''length'' ''Length of the array to be sorted'' CA_ARG_INT ''length'',
      make_option ''s'' ''sort'' ''Sort in descending/ascending order[desc/asc]'' CA_ARG_STRING ''sortDescending'',
      make_option ''i'' ''iterations'' ''Number of iterations for kernel execution''
        CA_ARG_INT ''iterations'']"

definition initialize_bitonic :: "bitonic \<Rightarrow> (int \<times> bitonic) option" where
  "initialize_bitonic s = initialize_sample bitonic_options s"

definition genBinaryImage_sort :: "run_env \<Rightarrow> bitonic \<Rightarrow> (int \<times> files) option" where
  "genBinaryImage_sort env s = dump_program env sort_kernel_file s"

text \<open>What follows the command line: \<open>exit\<close> in \<open>setup\<close> ends it.\<close>

definition bitonic_work :: "run_env \<Rightarrow> bitonic \<times> nat \<Rightarrow> (outcome \<times> bitonic \<times> nat) option" where
  "bitonic_work env x =
     do { (out, s, k) \<leftarrow> setup_bitonic env x;
          if out = Returned SDK_SUCCESS
          then returning (run_steps
                 [run_bitonic env,
                  \<lambda>(s, k). do { (r, s') \<leftarrow> verify_sort env s; Some (r, s', k) },
                  cleanup_sort env]) (s, k)
          else Some (out, s, k) }"

definition main_bitonic :: "run_env \<Rightarrow> string list \<Rightarrow> (outcome \<times> bitonic \<times> files) option" where
  "main_bitonic env =
     main_sample env bitonic_options sort_kernel_file (bitonic_work env) new_bitonic"

end
