(* ===== verification/Bitonic_Network.thy ===== *)
theory Bitonic_Network
  imports Main
begin

text \<open>
  Bitonic sorting as a network of exchanges on functions from positions to values.  An exchange
  commutes with monotone functions, so that it is enough to look at sequences of truth values:
  there a block is bitonic when its true positions, or its false ones, are an interval.
\<close>

section \<open>Exchanges\<close>

text \<open>The positions are paired at distance \<open>2 ^ q\<close>; \<open>up i\<close> tells in which order the pair of \<open>i\<close> is put.\<close>

definition partner :: "nat \<Rightarrow> nat \<Rightarrow> nat" where
  "partner q i = (if even (i div 2 ^ q) then i + 2 ^ q else i - 2 ^ q)"

definition exchange :: "nat \<Rightarrow> (nat \<Rightarrow> bool) \<Rightarrow> (nat \<Rightarrow> 'a::linorder) \<Rightarrow> nat \<Rightarrow> 'a" where
  "exchange q up f i =
     (if even (i div 2 ^ q) = up i then min (f i) (f (partner q i)) else max (f i) (f (partner q i)))"

text \<open>The passes of one stage, at distances that halve, and the stages.\<close>

primrec merge_passes :: "nat \<Rightarrow> (nat \<Rightarrow> bool) \<Rightarrow> (nat \<Rightarrow> 'a::linorder) \<Rightarrow> nat \<Rightarrow> 'a" where
  "merge_passes 0 up f = f"
| "merge_passes (Suc q) up f = merge_passes q up (exchange q up f)"

primrec network :: "(nat \<Rightarrow> nat \<Rightarrow> bool) \<Rightarrow> nat \<Rightarrow> (nat \<Rightarrow> 'a::linorder) \<Rightarrow> nat \<Rightarrow> 'a" where
  "network D 0 f = f"
| "network D (Suc w) f = merge_passes (Suc w) (\<lambda>i. D w (i div 2 ^ Suc w)) (network D w f)"

lemma exchange_mono:
  assumes "mono h"
  shows "exchange q up (\<lambda>i. h (f i)) = (\<lambda>i. h (exchange q up f i))"
  by (auto simp: exchange_def min_of_mono [OF assms] max_of_mono [OF assms])

lemma merge_passes_mono:
  assumes "mono h"
  shows "merge_passes q up (\<lambda>i. h (f i)) = (\<lambda>i. h (merge_passes q up f i))"
  by (induction q arbitrary: f) (simp_all add: exchange_mono [OF assms])

lemma network_mono:
  assumes "mono h"
  shows "network D w (\<lambda>i. h (f i)) = (\<lambda>i. h (network D w f i))"
  by (induction w) (simp_all only: network.simps merge_passes_mono [OF assms])

section \<open>Intervals of truth values\<close>

definition is_interval :: "(nat \<Rightarrow> bool) \<Rightarrow> nat \<Rightarrow> bool" where
  "is_interval P m \<longleftrightarrow> (\<exists>a e. a \<le> e \<and> e \<le> m \<and> (\<forall>i < m. P i \<longleftrightarrow> a \<le> i \<and> i < e))"

definition cyclic :: "(nat \<Rightarrow> bool) \<Rightarrow> nat \<Rightarrow> bool" where
  "cyclic P m \<longleftrightarrow> is_interval P m \<or> is_interval (\<lambda>i. \<not> P i) m"

lemma is_intervalI: "a \<le> e \<Longrightarrow> e \<le> m \<Longrightarrow> (\<And>i. i < m \<Longrightarrow> P i \<longleftrightarrow> a \<le> i \<and> i < e) \<Longrightarrow> is_interval P m"
  unfolding is_interval_def by blast

lemma join_interval:
  assumes "a \<le> e" "e \<le> 2 * h" "\<And>i. i < h \<Longrightarrow> P i \<longleftrightarrow> a \<le> i \<and> i < e"
    and "\<And>i. i < h \<Longrightarrow> P (h + i) \<longleftrightarrow> a \<le> h + i \<and> h + i < e"
  shows "is_interval P (2 * h)"
proof (rule is_intervalI [OF assms(1,2)])
  fix i assume i: "i < 2 * h"
  show "P i \<longleftrightarrow> a \<le> i \<and> i < e"
  proof (cases "i < h")
    case False
    then show ?thesis using assms(4) [of "i - h"] i by simp
  qed (rule assms(3))
qed

lemma interval_halves:
  assumes "is_interval P (2 * h)"
  shows "cyclic (\<lambda>i. P i \<and> P (h + i)) h" "cyclic (\<lambda>i. P i \<or> P (h + i)) h"
    and "(\<forall>i < h. \<not> (P i \<and> P (h + i))) \<or> (\<forall>i < h. P i \<or> P (h + i))"
proof -
  obtain a e where ae: "a \<le> e" "e \<le> 2 * h" "\<And>i. i < 2 * h \<Longrightarrow> P i \<longleftrightarrow> a \<le> i \<and> i < e"
    using assms unfolding is_interval_def by blast
  have P: "P i \<longleftrightarrow> a \<le> i \<and> i < e" "P (h + i) \<longleftrightarrow> a \<le> h + i \<and> h + i < e" if "i < h" for i
    using ae(3) that by simp_all
  have "is_interval (\<lambda>i. P i \<and> P (h + i)) h"
    by (rule is_intervalI [of "min a (e - h)" "e - h"]) (use ae(1,2) P in auto)
  then show "cyclic (\<lambda>i. P i \<and> P (h + i)) h" by (simp add: cyclic_def)
  have either: "(P i \<or> P (h + i)) \<longleftrightarrow> a \<le> i \<and> i < e \<or> a \<le> h + i \<and> h + i < e" if "i < h" for i
    using P [OF that] by simp
  consider "e \<le> h" | "h \<le> a" | "a < h" "h < e" by arith
  then show "cyclic (\<lambda>i. P i \<or> P (h + i)) h"
  proof cases
    case 1
    have "is_interval (\<lambda>i. P i \<or> P (h + i)) h"
      by (rule is_intervalI [of a e]) (use ae(1) 1 in \<open>simp_all add: either\<close>)
    then show ?thesis by (simp add: cyclic_def)
  next
    case 2
    have "is_interval (\<lambda>i. P i \<or> P (h + i)) h"
      by (rule is_intervalI [of "a - h" "e - h"]) (use ae(1,2) 2 in \<open>auto simp: either\<close>)
    then show ?thesis by (simp add: cyclic_def)
  next
    case 3
    have "is_interval (\<lambda>i. \<not> (P i \<or> P (h + i))) h"
      by (rule is_intervalI [of "min (e - h) a" a]) (use 3 in \<open>auto simp: either simp del: de_Morgan_disj\<close>)
    then show ?thesis by (simp add: cyclic_def)
  qed
  show "(\<forall>i < h. \<not> (P i \<and> P (h + i))) \<or> (\<forall>i < h. P i \<or> P (h + i))"
  proof (cases "e - h \<le> a")
    case True
    then show ?thesis using P ae(1,2) by auto
  next
    case False
    then show ?thesis using P ae(1,2) by auto
  qed
qed

lemma cyclic_halves:
  assumes "cyclic P (2 * h)"
  shows "cyclic (\<lambda>i. P i \<and> P (h + i)) h" "cyclic (\<lambda>i. P i \<or> P (h + i)) h"
    and "(\<forall>i < h. \<not> (P i \<and> P (h + i))) \<or> (\<forall>i < h. P i \<or> P (h + i))"
proof -
  consider "is_interval P (2 * h)" | "is_interval (\<lambda>i. \<not> P i) (2 * h)"
    using assms by (auto simp: cyclic_def)
  then have all: "cyclic (\<lambda>i. P i \<and> P (h + i)) h \<and> cyclic (\<lambda>i. P i \<or> P (h + i)) h
    \<and> ((\<forall>i < h. \<not> (P i \<and> P (h + i))) \<or> (\<forall>i < h. P i \<or> P (h + i)))"
  proof cases
    case 1
    then show ?thesis using interval_halves by blast
  next
    case 2
    then show ?thesis
      using interval_halves [OF 2] by (auto simp: cyclic_def)
  qed
  then show "cyclic (\<lambda>i. P i \<and> P (h + i)) h" "cyclic (\<lambda>i. P i \<or> P (h + i)) h"
    "(\<forall>i < h. \<not> (P i \<and> P (h + i))) \<or> (\<forall>i < h. P i \<or> P (h + i))" by blast+
qed

text \<open>Blocks in order, upwards or downwards.\<close>

definition ordered :: "bool \<Rightarrow> (nat \<Rightarrow> 'a::linorder) \<Rightarrow> nat \<Rightarrow> bool" where
  "ordered u f m \<longleftrightarrow> (\<forall>j < m. \<forall>i < j. if u then f i \<le> f j else f j \<le> f i)"

lemma ordered_threshold:
  "ordered u f m \<longleftrightarrow> (\<forall>t. ordered u (\<lambda>i. t < f i) m)"
proof
  assume "ordered u f m"
  then show "\<forall>t. ordered u (\<lambda>i. t < f i) m"
    by (auto simp: ordered_def le_bool_def intro: less_le_trans split: if_splits)
next
  assume all: "\<forall>t. ordered u (\<lambda>i. t < f i) m"
  then show "ordered u f m"
    unfolding ordered_def by (auto simp: le_bool_def not_le [symmetric] split: if_splits)
qed

lemma ordered_up_interval:
  assumes "ordered True P m"
  shows "\<exists>p \<le> m. \<forall>i < m. P i \<longleftrightarrow> p \<le> i"
  using assms
proof (induction m)
  case (Suc m)
  then have "ordered True P m" by (simp add: ordered_def)
  then obtain p where p: "p \<le> m" "\<forall>i < m. P i \<longleftrightarrow> p \<le> i" using Suc.IH by blast
  show ?case
  proof (cases "P m")
    case True
    then show ?thesis using p by (intro exI [of _ p]) (auto simp: less_Suc_eq)
  next
    case False
    then have "\<not> P i" if "i < m" for i
      using Suc.prems that by (auto simp: ordered_def le_bool_def)
    then show ?thesis using False by (intro exI [of _ "Suc m"]) (auto simp: less_Suc_eq)
  qed
qed simp

lemma ordered_down_interval:
  assumes "ordered False P m"
  shows "\<exists>p \<le> m. \<forall>i < m. P i \<longleftrightarrow> i < p"
proof -
  have "ordered True (\<lambda>i. \<not> P i) m" using assms by (auto simp: ordered_def le_bool_def)
  from ordered_up_interval [OF this] show ?thesis by (metis not_le)
qed

text \<open>Two halves in opposite orders make a bitonic block.\<close>

lemma opposite_halves:
  assumes "ordered u P h" "ordered (\<not> u) (\<lambda>i. P (h + i)) h"
  shows "cyclic P (2 * h)"
proof -
  show ?thesis
  proof (cases u)
    case True
    then obtain p r where "p \<le> h" "\<forall>i < h. P i \<longleftrightarrow> p \<le> i" "r \<le> h" "\<forall>i < h. P (h + i) \<longleftrightarrow> i < r"
      using ordered_up_interval [of P h] ordered_down_interval [of "\<lambda>i. P (h + i)" h] assms by auto
    then have "is_interval P (2 * h)"
      by (intro join_interval [of p "h + r"]) auto
    then show ?thesis by (simp add: cyclic_def)
  next
    case False
    then obtain p r where "p \<le> h" "\<forall>i < h. P i \<longleftrightarrow> i < p" "r \<le> h" "\<forall>i < h. P (h + i) \<longleftrightarrow> r \<le> i"
      using ordered_down_interval [of P h] ordered_up_interval [of "\<lambda>i. P (h + i)" h] assms by auto
    then have "is_interval (\<lambda>i. \<not> P i) (2 * h)"
      by (intro join_interval [of p "h + r"]) auto
    then show ?thesis by (simp add: cyclic_def)
  qed
qed

section \<open>A stage orders every bitonic block\<close>

lemma exchange_pair:
  assumes "i < 2 ^ q"
  shows "exchange q up f (c * 2 ^ Suc q + i) =
      (if up (c * 2 ^ Suc q + i) then min (f (c * 2 ^ Suc q + i)) (f (c * 2 ^ Suc q + (2 ^ q + i)))
       else max (f (c * 2 ^ Suc q + i)) (f (c * 2 ^ Suc q + (2 ^ q + i))))"
    and "exchange q up f (c * 2 ^ Suc q + (2 ^ q + i)) =
      (if up (c * 2 ^ Suc q + (2 ^ q + i)) then max (f (c * 2 ^ Suc q + i)) (f (c * 2 ^ Suc q + (2 ^ q + i)))
       else min (f (c * 2 ^ Suc q + i)) (f (c * 2 ^ Suc q + (2 ^ q + i))))"
proof -
  have left: "(c * 2 ^ Suc q + i) div 2 ^ q = 2 * c"
    using div_mult_self3 [of "2 ^ q" "2 * c" i] assms by (simp add: ac_simps)
  have "(c * 2 ^ Suc q + (2 ^ q + i)) div 2 ^ q = 2 * c + 1"
    using div_mult_self3 [of "2 ^ q" "2 * c + 1" i] assms by (simp add: algebra_simps)
  then show "exchange q up f (c * 2 ^ Suc q + i) =
      (if up (c * 2 ^ Suc q + i) then min (f (c * 2 ^ Suc q + i)) (f (c * 2 ^ Suc q + (2 ^ q + i)))
       else max (f (c * 2 ^ Suc q + i)) (f (c * 2 ^ Suc q + (2 ^ q + i))))"
    and "exchange q up f (c * 2 ^ Suc q + (2 ^ q + i)) =
      (if up (c * 2 ^ Suc q + (2 ^ q + i)) then max (f (c * 2 ^ Suc q + i)) (f (c * 2 ^ Suc q + (2 ^ q + i)))
       else min (f (c * 2 ^ Suc q + i)) (f (c * 2 ^ Suc q + (2 ^ q + i))))"
    using left by (simp_all add: exchange_def partner_def ac_simps min.commute max.commute)
qed

text \<open>On a block with one direction \<open>u\<close>: the two halves after an exchange.\<close>

lemma exchange_halves:
  assumes "\<forall>i < 2 ^ Suc q. up (c * 2 ^ Suc q + i) = u" "i < 2 ^ q"
  shows "exchange q up P ((2 * c) * 2 ^ q + i) \<longleftrightarrow>
      (if u then P (c * 2 ^ Suc q + i) \<and> P (c * 2 ^ Suc q + (2 ^ q + i))
       else P (c * 2 ^ Suc q + i) \<or> P (c * 2 ^ Suc q + (2 ^ q + i)))"
    and "exchange q up P ((2 * c + 1) * 2 ^ q + i) \<longleftrightarrow>
      (if u then P (c * 2 ^ Suc q + i) \<or> P (c * 2 ^ Suc q + (2 ^ q + i))
       else P (c * 2 ^ Suc q + i) \<and> P (c * 2 ^ Suc q + (2 ^ q + i)))"
proof -
  have b: "(2 * c) * 2 ^ q + i = c * 2 ^ Suc q + i" "(2 * c + 1) * 2 ^ q + i = c * 2 ^ Suc q + (2 ^ q + i)"
    by (simp_all add: algebra_simps)
  have "up (c * 2 ^ Suc q + i) = u" "up (c * 2 ^ Suc q + (2 ^ q + i)) = u"
    using assms by simp_all
  then show "exchange q up P ((2 * c) * 2 ^ q + i) \<longleftrightarrow>
      (if u then P (c * 2 ^ Suc q + i) \<and> P (c * 2 ^ Suc q + (2 ^ q + i))
       else P (c * 2 ^ Suc q + i) \<or> P (c * 2 ^ Suc q + (2 ^ q + i)))"
    and "exchange q up P ((2 * c + 1) * 2 ^ q + i) \<longleftrightarrow>
      (if u then P (c * 2 ^ Suc q + i) \<or> P (c * 2 ^ Suc q + (2 ^ q + i))
       else P (c * 2 ^ Suc q + i) \<and> P (c * 2 ^ Suc q + (2 ^ q + i)))"
    unfolding b exchange_pair [OF assms(2)] by (simp_all add: min_def max_def le_bool_def) blast+
qed

text \<open>A block of equal values stays as it is.\<close>

lemma merge_passes_constant:
  assumes "\<forall>i < 2 ^ m. f (c * 2 ^ m + i) = v" "i < 2 ^ m"
  shows "merge_passes m up f (c * 2 ^ m + i) = v"
  using assms
proof (induction m arbitrary: c f i)
  case (Suc m)
  have same: "exchange m up f ((2 * c) * 2 ^ m + j) = v" "exchange m up f ((2 * c + 1) * 2 ^ m + j) = v"
    if "j < 2 ^ m" for j
  proof -
    have "f (c * 2 ^ Suc m + j) = v" "f (c * 2 ^ Suc m + (2 ^ m + j)) = v"
      using Suc.prems(1) that by simp_all
    then show "exchange m up f ((2 * c) * 2 ^ m + j) = v" "exchange m up f ((2 * c + 1) * 2 ^ m + j) = v"
      using exchange_pair [OF that, of up f c] by (simp_all add: algebra_simps)
  qed
  show ?case
  proof (cases "i < 2 ^ m")
    case True
    then show ?thesis using Suc.IH [of "exchange m up f" "2 * c" i] same(1) by (simp add: ac_simps)
  next
    case False
    then show ?thesis
      using Suc.IH [of "exchange m up f" "2 * c + 1" "i - 2 ^ m"] same(2) Suc.prems(2)
      by (simp add: algebra_simps)
  qed
qed simp

lemma ordered_halves:
  assumes "ordered u f h" "ordered u (\<lambda>i. f (h + i)) h"
    and "\<And>i j. i < h \<Longrightarrow> j < h \<Longrightarrow> if u then f i \<le> f (h + j) else f (h + j) \<le> f i"
  shows "ordered u f (2 * h)"
  unfolding ordered_def
proof (intro allI impI)
  fix j i assume ij: "j < 2 * h" "i < j"
  consider "j < h" | "h \<le> i" | "i < h" "h \<le> j" by arith
  then show "if u then f i \<le> f j else f j \<le> f i"
  proof cases
    case 1
    then show ?thesis using assms(1) ij by (simp add: ordered_def)
  next
    case 2
    then have "j - h < h" "i - h < j - h" "h + (j - h) = j" "h + (i - h) = i" using ij by simp_all
    then show ?thesis using assms(2) unfolding ordered_def by metis
  next
    case 3
    then have "h + (j - h) = j" "j - h < h" using ij by simp_all
    then show ?thesis using assms(3) [of i "j - h"] 3 by metis
  qed
qed

lemma merge_passes_orders:
  assumes "cyclic (\<lambda>i. P (c * 2 ^ m + i)) (2 ^ m)" "\<forall>i < 2 ^ m. up (c * 2 ^ m + i) = u"
  shows "ordered u (\<lambda>i. merge_passes m up P (c * 2 ^ m + i)) (2 ^ m)"
  using assms
proof (induction m arbitrary: c P)
  case 0
  then show ?case by (simp add: ordered_def)
next
  case (Suc m)
  let ?h = "2 ^ m :: nat" and ?b = "c * 2 ^ Suc m"
  let ?Q = "exchange m up P"
  let ?A = "\<lambda>i. P (?b + i) \<and> P (?b + (?h + i))" and ?O = "\<lambda>i. P (?b + i) \<or> P (?b + (?h + i))"
  have "cyclic (\<lambda>i. P (?b + i)) (2 * ?h)" using Suc.prems(1) by simp
  note halves = cyclic_halves [OF this]
  have Q: "?Q ((2 * c) * ?h + i) \<longleftrightarrow> (if u then ?A i else ?O i)"
      "?Q ((2 * c + 1) * ?h + i) \<longleftrightarrow> (if u then ?O i else ?A i)" if "i < ?h" for i
    using exchange_halves [OF Suc.prems(2) that] by simp_all
  have cong: "cyclic R ?h \<longleftrightarrow> cyclic S ?h" if "\<And>i. i < ?h \<Longrightarrow> R i \<longleftrightarrow> S i" for R S
    using that by (auto simp: cyclic_def is_interval_def)
  have dir: "\<forall>i < ?h. up ((2 * c) * ?h + i) = u" "\<forall>i < ?h. up ((2 * c + 1) * ?h + i) = u"
  proof -
    have "up (?b + i) = u" "up (?b + (?h + i)) = u" if "i < ?h" for i
      using Suc.prems(2) that by simp_all
    then show "\<forall>i < ?h. up ((2 * c) * ?h + i) = u" "\<forall>i < ?h. up ((2 * c + 1) * ?h + i) = u"
      by (simp_all add: algebra_simps)
  qed
  have cyc: "cyclic (\<lambda>i. ?Q ((2 * c) * ?h + i)) ?h" "cyclic (\<lambda>i. ?Q ((2 * c + 1) * ?h + i)) ?h"
    using halves(1,2) cong [OF Q(1)] cong [OF Q(2)] by (cases u; simp)+
  let ?M = "merge_passes m up ?Q"
  have pos: "(2 * c) * ?h + i = ?b + i" "(2 * c + 1) * ?h + i = ?b + (?h + i)" for i
    by (simp_all add: algebra_simps)
  have "ordered u (\<lambda>i. ?M (?b + i)) (2 * ?h)"
  proof (rule ordered_halves)
    show "ordered u (\<lambda>i. ?M (?b + i)) ?h" "ordered u (\<lambda>i. ?M (?b + (?h + i))) ?h"
      using Suc.IH [OF cyc(1) dir(1)] Suc.IH [OF cyc(2) dir(2)] by (simp_all only: pos)
    fix i j assume ij: "i < ?h" "j < ?h"
    consider "\<forall>i < ?h. \<not> ?A i" | "\<forall>i < ?h. ?O i" using halves(3) by blast
    then show "if u then ?M (?b + i) \<le> ?M (?b + (?h + j)) else ?M (?b + (?h + j)) \<le> ?M (?b + i)"
    proof cases
      case 1
      show ?thesis
      proof (cases u)
        case True
        then have "\<not> ?M ((2 * c) * ?h + i)"
          using merge_passes_constant [of m ?Q "2 * c" False i up] Q(1) 1 ij by simp
        then show ?thesis using True by (simp add: pos le_bool_def)
      next
        case False
        then have "\<not> ?M ((2 * c + 1) * ?h + j)"
          using merge_passes_constant [of m ?Q "2 * c + 1" False j up] Q(2) 1 ij by simp
        then show ?thesis using False by (simp only: pos) (simp add: le_bool_def)
      qed
    next
      case 2
      show ?thesis
      proof (cases u)
        case True
        then have "?M ((2 * c + 1) * ?h + j)"
          using merge_passes_constant [of m ?Q "2 * c + 1" True j up] Q(2) 2 ij by simp
        then show ?thesis using True by (simp only: pos) (simp add: le_bool_def)
      next
        case False
        then have "?M ((2 * c) * ?h + i)"
          using merge_passes_constant [of m ?Q "2 * c" True i up] Q(1) 2 ij by simp
        then show ?thesis using False by (simp only: pos) (simp add: le_bool_def)
      qed
    qed
  qed
  then show ?case by simp
qed

section \<open>The network sorts\<close>

text \<open>Neighbouring blocks are put in opposite orders, except in the last stage.\<close>

lemma network_orders:
  assumes "\<And>w c. w < n \<Longrightarrow> Suc w < n \<Longrightarrow> 2 * c + 1 < 2 ^ (n - Suc w) \<Longrightarrow> D w (2 * c) \<noteq> D w (2 * c + 1)"
    and "w < n" "c < 2 ^ (n - Suc w)"
  shows "ordered (D w c) (\<lambda>i. network D (Suc w) f (c * 2 ^ Suc w + i)) (2 ^ Suc w)"
proof (rule ordered_threshold [THEN iffD2], rule allI)
  fix t
  let ?P = "\<lambda>i. t < f i"
  have "mono (\<lambda>x. t < x)" by (auto simp: mono_def le_bool_def)
  from network_mono [OF this] have bool: "(\<lambda>i. t < network D w f i) = network D w ?P" for w by metis
  have stage: "ordered (D w c) (\<lambda>i. network D (Suc w) ?P (c * 2 ^ Suc w + i)) (2 ^ Suc w)"
    if "cyclic (\<lambda>i. network D w ?P (c * 2 ^ Suc w + i)) (2 ^ Suc w)" for w c
  proof -
    have "(c * 2 ^ Suc w + i) div 2 ^ Suc w = c" if "i < 2 ^ Suc w" for i
      using that by (metis add.right_neutral div_less div_mult_self3 power_not_zero zero_neq_numeral)
    then show ?thesis
      using merge_passes_orders [OF that, of "\<lambda>i. D w (i div 2 ^ Suc w)" "D w c"] by (simp del: merge_passes.simps)
  qed
  have "ordered (D w c) (\<lambda>i. network D (Suc w) ?P (c * 2 ^ Suc w + i)) (2 ^ Suc w)"
    using assms(2,3)
  proof (induction w arbitrary: c)
    case 0
    have "cyclic (\<lambda>i. ?P (c * 2 ^ Suc 0 + i)) (2 * 1)"
      by (rule opposite_halves [of True]) (simp_all add: ordered_def)
    then show ?case using stage [of 0 c] by simp
  next
    case (Suc w)
    have c: "2 * c < 2 ^ (n - Suc w)" "2 * c + 1 < 2 ^ (n - Suc w)"
    proof -
      have "n - Suc w = Suc (n - Suc (Suc w))" using Suc.prems(1) by simp
      then have "(2 :: nat) ^ (n - Suc w) = 2 * 2 ^ (n - Suc (Suc w))" by simp
      then show "2 * c < 2 ^ (n - Suc w)" "2 * c + 1 < 2 ^ (n - Suc w)" using Suc.prems(2) by simp_all
    qed
    have b: "(2 * c) * 2 ^ Suc w + i = c * 2 ^ Suc (Suc w) + i"
      "(2 * c + 1) * 2 ^ Suc w + i = c * 2 ^ Suc (Suc w) + (2 ^ Suc w + i)" for i
      by (simp_all add: algebra_simps)
    have "ordered (D w (2 * c)) (\<lambda>i. network D (Suc w) ?P (c * 2 ^ Suc (Suc w) + i)) (2 ^ Suc w)"
      "ordered (D w (2 * c + 1)) (\<lambda>i. network D (Suc w) ?P (c * 2 ^ Suc (Suc w) + (2 ^ Suc w + i))) (2 ^ Suc w)"
      using Suc.IH [OF _ c(1)] Suc.IH [OF _ c(2)] Suc.prems(1) by (simp_all only: b Suc_lessD)
    note halves = this
    have "D w (2 * c) \<noteq> D w (2 * c + 1)"
      using Suc.prems(1) by (intro assms(1) c(2)) simp_all
    then have "D w (2 * c + 1) = (\<not> D w (2 * c))" by blast
    with halves(2) have "ordered (\<not> D w (2 * c)) (\<lambda>i. network D (Suc w) ?P (c * 2 ^ Suc (Suc w) + (2 ^ Suc w + i))) (2 ^ Suc w)"
      by (simp only:)
    from opposite_halves [OF halves(1) this]
    have "cyclic (\<lambda>i. network D (Suc w) ?P (c * 2 ^ Suc (Suc w) + i)) (2 * 2 ^ Suc w)" .
    then show ?case using stage [of "Suc w" c] by (simp only: power_Suc)
  qed
  then show "ordered (D w c) (\<lambda>i. t < network D (Suc w) f (c * 2 ^ Suc w + i)) (2 ^ Suc w)"
    using fun_cong [OF bool [of "Suc w"]] by simp
qed

corollary network_sorts:
  assumes "\<And>w c. w < n \<Longrightarrow> Suc w < n \<Longrightarrow> 2 * c + 1 < 2 ^ (n - Suc w) \<Longrightarrow> D w (2 * c) \<noteq> D w (2 * c + 1)"
  shows "ordered (D (n - 1) 0) (network D n f) (2 ^ n)"
proof (cases n)
  case 0
  then show ?thesis by (simp add: ordered_def)
next
  case (Suc w)
  then have "w < n" "0 < (2 :: nat) ^ (n - Suc w)" by simp_all
  from network_orders [of n D, OF assms this] show ?thesis by (simp add: Suc del: network.simps)
qed

end
