(* ===== verification/Bitonic_Pairs.thy ===== *)
theory Bitonic_Pairs
  imports Bitonic_Network Launch "HOL-Library.Multiset"
begin

text \<open>
  A pass of the network on an array: every pair is put in order once, in any order of the pairs,
  and the result is that of \<^const>\<open>exchange\<close>, with the elements of before.
\<close>

section \<open>One pair\<close>

definition pair_item :: "nat \<Rightarrow> (nat \<Rightarrow> bool) \<Rightarrow> nat \<Rightarrow> 'a::linorder list \<Rightarrow> 'a list option" where
  "pair_item q up l xs =
     do { x \<leftarrow> arg_at xs l;
          y \<leftarrow> arg_at xs (l + 2 ^ q);
          xs1 \<leftarrow> set_at xs l (if up l then min x y else max x y);
          set_at xs1 (l + 2 ^ q) (if up l then max x y else min x y) }"

type_synonym 'a pass = "nat \<times> nat \<times> (nat \<Rightarrow> bool) \<times> 'a multiset"

text \<open>The left positions, and the left position of the pair of a position.\<close>

definition lefts :: "nat \<Rightarrow> nat \<Rightarrow> nat set" where
  "lefts n q = {l. l < 2 ^ n \<and> even (l div 2 ^ q)}"

definition left_of :: "nat \<Rightarrow> nat \<Rightarrow> nat" where
  "left_of q i = (if even (i div 2 ^ q) then i else i - 2 ^ q)"

fun array_wf :: "'a pass \<Rightarrow> 'a list \<Rightarrow> bool" where
  "array_wf (n, q, up, M) xs \<longleftrightarrow>
     q < n \<and> (\<forall>l \<in> lefts n q. up (l + 2 ^ q) = up l) \<and> length xs = 2 ^ n \<and> mset xs = M"

lemma next_half: "(l + 2 ^ q) div 2 ^ q = Suc (l div (2 :: nat) ^ q)"
  using div_add_self2 [of "2 ^ q" l] by simp

lemma left_in_range:
  assumes "l \<in> lefts n q" "q < n"
  shows "l + 2 ^ q < 2 ^ n"
proof -
  have n: "(2 :: nat) ^ n = 2 ^ (n - q) * 2 ^ q" using assms(2) by (simp flip: power_add)
  have "l div 2 ^ q < 2 ^ (n - q)"
    using assms by (simp add: lefts_def n less_mult_imp_div_less)
  moreover have "even ((2 :: nat) ^ (n - q))" "even (l div 2 ^ q)"
    using assms by (simp_all add: lefts_def)
  ultimately have "l div 2 ^ q + 1 < 2 ^ (n - q)"
    by (metis Suc_eq_plus1 Suc_lessI even_Suc)
  then have "(l + 2 ^ q) div 2 ^ q < 2 ^ (n - q)" by (simp add: next_half)
  then show ?thesis by (simp add: n div_less_iff_less_mult)
qed

lemma left_of_cases:
  assumes "left_of q i = l" "l \<in> lefts n q"
  shows "i = l \<or> i = l + 2 ^ q"
proof (cases "even (i div 2 ^ q)")
  case False
  then have "0 < i div 2 ^ q" by (cases "i div 2 ^ q") simp_all
  then have "2 ^ q \<le> i" by (simp add: div_greater_zero_iff)
  then show ?thesis using assms False by (auto simp: left_of_def)
qed (use assms in \<open>simp add: left_of_def\<close>)

lemma left_of_pair:
  assumes "l \<in> lefts n q"
  shows "left_of q l = l" "left_of q (l + 2 ^ q) = l" "partner q l = l + 2 ^ q" "partner q (l + 2 ^ q) = l"
    and "even (l div 2 ^ q)" "odd ((l + 2 ^ q) div 2 ^ q)"
  using assms by (simp_all add: left_of_def lefts_def partner_def next_half del: div_add_self2)

lemma left_of_lefts:
  assumes "i < 2 ^ n"
  shows "left_of q i \<in> lefts n q"
proof (cases "even (i div 2 ^ q)")
  case False
  then obtain c where c: "i div 2 ^ q = 2 * c + 1" by (rule oddE)
  then have "2 ^ q \<le> i" by (metis div_greater_zero_iff add_gr_0 zero_less_one)
  then have "(i - 2 ^ q) div 2 ^ q = 2 * c" using c by (simp add: le_div_geq)
  then show ?thesis using assms False by (simp add: left_of_def lefts_def)
qed (use assms in \<open>simp add: left_of_def lefts_def\<close>)

lemma pair_item_ok:
  assumes wf: "array_wf (n, q, up, M) xs" and l: "l \<in> lefts n q"
  shows "\<exists>ys. pair_item q up l xs = Some ys \<and> array_wf (n, q, up, M) ys
    \<and> (\<forall>i < 2 ^ n. ys ! i = (if left_of q i = l then exchange q up ((!) xs) i else xs ! i))"
proof -
  let ?r = "l + 2 ^ q" and ?x = "xs ! l" and ?y = "xs ! (l + 2 ^ q)"
  let ?a = "if up l then min ?x ?y else max ?x ?y" and ?b = "if up l then max ?x ?y else min ?x ?y"
  let ?ys = "xs[l := ?a, ?r := ?b]"
  have r: "?r < length xs" "l < length xs" "?r < 2 ^ n" "l < 2 ^ n" "l \<noteq> ?r"
    using wf left_in_range [OF l] by (auto simp: lefts_def)
  note pair = left_of_pair [OF l]
  have up: "up ?r = up l" using wf l by simp
  have run: "pair_item q up l xs = Some ?ys" using r by (simp add: pair_item_def)
  have "?ys = xs \<or> ?ys = xs[l := ?y, ?r := ?x]" by (auto simp: min_def max_def)
  then have "mset ?ys = mset xs"
    using mset_swap [OF r(2,1)] list_update_swap [OF r(5)] by metis
  then have "array_wf (n, q, up, M) ?ys" using wf by simp
  moreover have "?ys ! i = (if left_of q i = l then exchange q up ((!) xs) i else xs ! i)" if "i < 2 ^ n" for i
  proof -
    consider "i = l" | "i = ?r" | "left_of q i \<noteq> l"
      using left_of_cases [OF _ l] by blast
    then show ?thesis
    proof cases
      case 1
      then show ?thesis using r pair by (simp add: exchange_def)
    next
      case 2
      then show ?thesis using r pair up by (simp add: exchange_def min.commute max.commute)
    next
      case 3
      then have "i \<noteq> l" "i \<noteq> ?r" using pair by auto
      then show ?thesis using 3 by simp
    qed
  qed
  ultimately show ?thesis using run by blast
qed

section \<open>All pairs\<close>

definition pass_kernel :: "'a::linorder pass \<Rightarrow> nat \<Rightarrow> 'a list \<Rightarrow> 'a list option" where
  "pass_kernel = (\<lambda>(n, q, up, M). pair_item q up)"

definition pass_range :: "'a pass \<Rightarrow> nat" where
  "pass_range = (\<lambda>(n, q, up, M). 2 ^ n)"

definition pass_lefts :: "'a pass \<Rightarrow> nat set" where
  "pass_lefts = (\<lambda>(n, q, up, M). lefts n q)"

definition pass_left :: "'a pass \<Rightarrow> nat \<Rightarrow> nat" where
  "pass_left = (\<lambda>(n, q, up, M). left_of q)"

definition pass_result :: "'a::linorder pass \<Rightarrow> 'a list \<Rightarrow> nat \<Rightarrow> 'a" where
  "pass_result = (\<lambda>(n, q, up, M) xs. exchange q up ((!) xs))"

interpretation pairs: in_place_kernel pass_kernel array_wf array_wf "(!)" pass_range pass_lefts pass_left pass_result
proof
  fix p :: "'a pass" and s0 s :: "'a list" and l
  assume wf: "array_wf p s" "array_wf p s0" and l: "l \<in> pass_lefts p"
    and own: "\<And>i. i < pass_range p \<Longrightarrow> pass_left p i = l \<Longrightarrow> s ! i = s0 ! i"
  obtain n q up M where p: "p = (n, q, up, M)" by (cases p)
  have left: "l \<in> lefts n q" using l by (simp add: p pass_lefts_def)
  then have "l + 2 ^ q < 2 ^ n" "l < 2 ^ n" using left_in_range [OF left] wf(1) by (simp_all add: p)
  then have same: "s ! l = s0 ! l" "s ! (l + 2 ^ q) = s0 ! (l + 2 ^ q)"
    using own left_of_pair [OF left] by (simp_all add: p pass_range_def pass_left_def)
  have "exchange q up ((!) s) i = exchange q up ((!) s0) i" if "left_of q i = l" for i
    using left_of_cases [OF that left] same left_of_pair [OF left] by (auto simp: exchange_def)
  then show "\<exists>s'. pass_kernel p l s = Some s' \<and> array_wf p s' \<and> (\<forall>i < pass_range p. s' ! i =
      (if pass_left p i = l then pass_result p s0 i else s ! i))"
    using pair_item_ok [of n q up M s l] wf(1) left
    by (auto simp: p pass_kernel_def pass_range_def pass_left_def pass_result_def)
qed

text \<open>The first \<open>2 ^ n\<close> values of a function, as an array.\<close>

definition tab :: "nat \<Rightarrow> (nat \<Rightarrow> 'a) \<Rightarrow> 'a list" where
  "tab n f = map f [0..<2 ^ n]"

lemma length_tab [simp]: "length (tab n f) = 2 ^ n"
  by (simp add: tab_def)

lemma nth_tab [simp]: "i < 2 ^ n \<Longrightarrow> tab n f ! i = f i"
  by (simp add: tab_def)

lemma tab_nth: "length xs = 2 ^ n \<Longrightarrow> tab n ((!) xs) = xs"
  using map_nth [of xs] by (simp add: tab_def)

lemma exchange_tab:
  assumes "i < 2 ^ n" "q < n"
  shows "exchange q up ((!) (tab n f)) i = exchange q up f i"
proof -
  have "partner q i < 2 ^ n"
    using left_in_range [of i n q] assms by (auto simp: partner_def lefts_def)
  then show ?thesis using assms by (simp add: exchange_def)
qed

text \<open>Pairs have one direction.\<close>

definition paired :: "nat \<Rightarrow> nat \<Rightarrow> (nat \<Rightarrow> bool) \<Rightarrow> bool" where
  "paired n q up \<longleftrightarrow> q < n \<and> (\<forall>l \<in> lefts n q. up (l + 2 ^ q) = up l)"

lemma pass_all_pairs:
  assumes "paired n q up" "runs_all (lefts n q) sched"
  shows "foldM (pair_item q up) sched (tab n f) = Some (tab n (exchange q up f))"
    and "mset (tab n (exchange q up f)) = mset (tab n f)"
proof -
  let ?p = "(n, q, up, mset (tab n f))"
  have wf: "array_wf ?p (tab n f)" using assms(1) by (simp add: paired_def)
  have "runs_all (pass_lefts ?p) sched" using assms(2) by (simp add: pass_lefts_def)
  moreover have "pass_left ?p i \<in> pass_lefts ?p" if "i < pass_range ?p" for i
    using that left_of_lefts by (simp add: pass_left_def pass_lefts_def pass_range_def)
  ultimately obtain ys where ys: "foldM (pair_item q up) sched (tab n f) = Some ys" "array_wf ?p ys"
      "\<forall>i < 2 ^ n. ys ! i = exchange q up ((!) (tab n f)) i"
    using pairs.launch [OF wf, of sched] by (auto simp: pass_kernel_def pass_range_def pass_result_def)
  have "ys = tab n (exchange q up f)"
    using ys(2,3) by (intro nth_equalityI) (auto simp: exchange_tab)
  then show "foldM (pair_item q up) sched (tab n f) = Some (tab n (exchange q up f))"
    and "mset (tab n (exchange q up f)) = mset (tab n f)"
    using ys(1,2) by auto
qed

lemma exchange_permutes:
  assumes "paired n q up"
  shows "mset (tab n (exchange q up f)) = mset (tab n f)"
proof -
  have "finite (lefts n q)" by (rule finite_subset [of _ "{..<2 ^ n}"]) (auto simp: lefts_def)
  then obtain sched where "set sched = lefts n q" "distinct sched" using finite_distinct_list by blast
  then show ?thesis using pass_all_pairs(2) [OF assms, of sched] by (simp add: runs_all_def)
qed

section \<open>All passes\<close>

text \<open>The array after \<open>p\<close> passes of stage \<open>w\<close>, and after all stages.\<close>

primrec after_pass :: "(nat \<Rightarrow> bool) \<Rightarrow> nat \<Rightarrow> nat \<Rightarrow> (nat \<Rightarrow> 'a::linorder) \<Rightarrow> nat \<Rightarrow> 'a" where
  "after_pass up w 0 f = f"
| "after_pass up w (Suc p) f = exchange (w - p) up (after_pass up w p f)"

lemma after_pass_rest:
  "p \<le> Suc w \<Longrightarrow> merge_passes (Suc w - p) up (after_pass up w p f) = merge_passes (Suc w) up f"
proof (induction p)
  case (Suc p)
  then have "Suc w - p = Suc (w - p)" by simp
  then show ?case using Suc by simp
qed simp

lemma after_all_passes: "after_pass up w (Suc w) f = merge_passes (Suc w) up f"
  using after_pass_rest [of "Suc w" w up f] by simp

text \<open>The direction of stage \<open>w\<close> is that of the block of \<open>2 ^ Suc w\<close> elements.\<close>

definition block_dir :: "(nat \<Rightarrow> nat \<Rightarrow> bool) \<Rightarrow> nat \<Rightarrow> nat \<Rightarrow> bool" where
  "block_dir D w i = D w (i div 2 ^ Suc w)"

lemma network_Suc: "network D (Suc w) f = after_pass (block_dir D w) w (Suc w) (network D w f)"
  by (simp only: network.simps after_all_passes block_dir_def [abs_def])

lemma block_dir_paired:
  assumes "w < n" "q \<le> w"
  shows "paired n q (block_dir D w)"
proof -
  have "(l + 2 ^ q) div 2 ^ Suc w = l div 2 ^ Suc w" if "even (l div 2 ^ q)" for l :: nat
  proof -
    have w: "(2 :: nat) ^ Suc w = 2 ^ q * 2 * 2 ^ (w - q)"
      using assms(2) by (simp flip: power_add)
    have "(l + 2 ^ q) div 2 ^ q div 2 = l div 2 ^ q div 2"
      unfolding next_half using that by (simp add: even_Suc_div_two)
    then show ?thesis unfolding w div_mult2_eq by simp
  qed
  then show ?thesis using assms by (auto simp: paired_def lefts_def block_dir_def)
qed

lemma network_permutes:
  assumes "w \<le> n"
  shows "mset (tab n (network D w f)) = mset (tab n f)"
  using assms
proof (induction w)
  case (Suc w)
  have "mset (tab n (after_pass (block_dir D w) w p (network D w f))) = mset (tab n (network D w f))"
    if "p \<le> Suc w" for p
    using that
  proof (induction p)
    case (Suc p)
    have "paired n (w - p) (block_dir D w)"
      using \<open>Suc w \<le> n\<close> by (intro block_dir_paired) simp_all
    then show ?case using Suc by (simp add: exchange_permutes)
  qed simp
  then show ?case using Suc by (simp only: network_Suc order.refl Suc_leD)
qed simp

text \<open>Which array a sorting network leaves.\<close>

definition opposite_blocks :: "nat \<Rightarrow> (nat \<Rightarrow> nat \<Rightarrow> bool) \<Rightarrow> bool" where
  "opposite_blocks n D \<longleftrightarrow>
     (\<forall>w c. Suc w < n \<and> 2 * c + 1 < 2 ^ (n - Suc w) \<longrightarrow> D w (2 * c) \<noteq> D w (2 * c + 1))"

lemma network_result:
  assumes "length xs = 2 ^ n" "opposite_blocks n D"
  shows "tab n (network D n ((!) xs)) = (if D (n - 1) 0 then sort xs else rev (sort xs))"
proof -
  let ?ys = "tab n (network D n ((!) xs))"
  have "ordered (D (n - 1) 0) (network D n ((!) xs)) (2 ^ n)"
    using assms(2) by (intro network_sorts) (simp add: opposite_blocks_def)
  then have sorted: "if D (n - 1) 0 then sorted ?ys else sorted (rev ?ys)"
    by (auto simp: ordered_def tab_def sorted_wrt_iff_nth_less rev_nth)
  have "mset ?ys = mset xs" using network_permutes [OF order.refl, of n D "(!) xs"] assms(1) by (simp add: tab_nth)
  then show ?thesis
    using sorted properties_for_sort [of ?ys xs] properties_for_sort [of "rev ?ys" xs]
    by (auto split: if_splits)
qed

end
