(* ===== verification/Bitonic_Facts.thy ===== *)
theory Bitonic_Facts
  imports Bitonic Bitonic_Pairs
begin

text \<open>
  The kernel and the reference of the sorting sample are passes over all pairs: the kernel with
  the pairs numbered by the work items, the reference block by block.  They differ in the
  directions of the stages before the last one.
\<close>

lemma power_split: "a \<le> n \<Longrightarrow> (2 :: nat) ^ n = 2 ^ (n - a) * 2 ^ a"
  by (simp flip: power_add)

section \<open>The device\<close>

definition pair_left :: "nat \<Rightarrow> nat \<Rightarrow> nat" where
  "pair_left q g = g mod 2 ^ q + g div 2 ^ q * 2 ^ Suc q"

definition device_dir :: "bool \<Rightarrow> nat \<Rightarrow> nat \<Rightarrow> bool" where
  "device_dir increasing w c \<longleftrightarrow> (increasing \<longleftrightarrow> even c)"

lemma device_dir_opposite: "opposite_blocks n (device_dir increasing)"
  by (simp add: opposite_blocks_def device_dir_def)

lemma pair_left_div:
  "pair_left q g div 2 ^ q = 2 * (g div 2 ^ q)" "pair_left q g mod 2 ^ q = g mod 2 ^ q"
proof -
  have "pair_left q g = g mod 2 ^ q + 2 ^ q * (2 * (g div 2 ^ q))" by (simp add: pair_left_def)
  then show "pair_left q g div 2 ^ q = 2 * (g div 2 ^ q)" "pair_left q g mod 2 ^ q = g mod 2 ^ q"
    by (simp_all only: div_mult_self2 mod_mult_self2) simp_all
qed

lemma pair_left_block:
  assumes "q \<le> w"
  shows "pair_left q g div 2 ^ Suc w = g div 2 ^ w"
proof -
  have w: "(2 :: nat) ^ Suc w = 2 ^ q * 2 * 2 ^ (w - q)" "(2 :: nat) ^ w = 2 ^ q * 2 ^ (w - q)"
    using assms by (simp_all flip: power_add)
  show ?thesis unfolding w div_mult2_eq pair_left_div by simp
qed

lemma pair_left_range:
  assumes "g < 2 ^ m" "q \<le> m"
  shows "pair_left q g + 2 ^ q < 2 ^ Suc m" "pair_left q g \<in> lefts (Suc m) q"
proof -
  have "(2 :: nat) ^ m = 2 ^ (m - q) * 2 ^ q" using assms(2) by (simp flip: power_add)
  then have "g div 2 ^ q < 2 ^ (m - q)" using assms(1) by (simp add: less_mult_imp_div_less)
  then have "(g div 2 ^ q + 1) * 2 ^ Suc q \<le> 2 ^ (m - q) * 2 ^ Suc q" by (intro mult_right_mono) simp_all
  also have "\<dots> = 2 ^ Suc m" using assms(2) by (simp flip: power_add)
  finally have "(g div 2 ^ q + 1) * 2 ^ Suc q \<le> 2 ^ Suc m" .
  moreover have "(g div 2 ^ q + 1) * 2 ^ Suc q = g div 2 ^ q * 2 ^ Suc q + 2 * 2 ^ q" by (simp add: algebra_simps)
  moreover have "g mod 2 ^ q < 2 ^ q" by simp
  ultimately show r: "pair_left q g + 2 ^ q < 2 ^ Suc m"
    unfolding pair_left_def by linarith
  then show "pair_left q g \<in> lefts (Suc m) q" using pair_left_div(1) by (simp add: lefts_def)
qed

lemma pair_left_inj: "inj (pair_left q)"
proof (rule injI)
  fix g h assume eq: "pair_left q g = pair_left q h"
  have "2 * (g div 2 ^ q) = 2 * (h div 2 ^ q)" "g mod 2 ^ q = h mod 2 ^ q"
    using pair_left_div [of q g] pair_left_div [of q h] by (simp_all only: eq)
  then show "g = h" by (metis div_mult_mod_eq nat_mult_eq_cancel1 zero_less_numeral)
qed

lemma pair_left_all: "pair_left q ` {0..<2 ^ m} = lefts (Suc m) q" if "q \<le> m"
proof (intro equalityI subsetI)
  fix l assume "l \<in> lefts (Suc m) q"
  then obtain c where c: "l div 2 ^ q = 2 * c" "l < 2 ^ Suc m" by (auto simp: lefts_def)
  let ?g = "l mod 2 ^ q + c * 2 ^ q"
  have g: "?g div 2 ^ q = c" "?g mod 2 ^ q = l mod 2 ^ q" by simp_all
  have "pair_left q ?g = l mod 2 ^ q + l div 2 ^ q * 2 ^ q"
    unfolding pair_left_def g by (simp add: c(1))
  then have l: "l = pair_left q ?g" using mod_mult_div_eq [of l "2 ^ q"] by (simp add: mult.commute)
  have "?g < 2 ^ m"
  proof -
    have "(2 :: nat) ^ m = 2 ^ (m - q) * 2 ^ q" using that by (simp flip: power_add)
    moreover have "2 * c * 2 ^ q \<le> l" using div_mult_mod_eq [of l "2 ^ q"] by (simp add: c(1))
    then have "c * 2 ^ q < 2 ^ m" using c(2) by simp
    ultimately have "c < 2 ^ (m - q)" by simp
    then have "(c + 1) * 2 ^ q \<le> 2 ^ (m - q) * 2 ^ q" by (intro mult_right_mono) simp_all
    then have "(c + 1) * 2 ^ q \<le> 2 ^ m" using \<open>2 ^ m = 2 ^ (m - q) * 2 ^ q\<close> by simp
    moreover have "l mod 2 ^ q < 2 ^ q" by simp
    moreover have "(c + 1) * 2 ^ q = c * 2 ^ q + 2 ^ q" by simp
    ultimately show "?g < 2 ^ m" by linarith
  qed
  then show "l \<in> pair_left q ` {0..<2 ^ m}" using l by (intro image_eqI [of _ _ ?g]) auto
qed (use pair_left_range(2) that in auto)

text \<open>A work item of pass \<open>p\<close> of stage \<open>w\<close>.\<close>

lemma push_one: "q < 32 \<Longrightarrow> unat (push_bit q 1 :: 32 word) = 2 ^ q"
proof -
  assume "q < 32"
  then have "(2 :: nat) ^ q < 2 ^ 32" by (intro power_strict_increasing) simp_all
  then have "unat (word_of_nat (2 ^ q) :: 32 word) = 2 ^ q" by (rule unat_small)
  then show ?thesis by (simp add: push_bit_eq_mult)
qed

lemma device_item_pair:
  assumes "w \<le> m" "m < 31" "p \<le> w" "g < 2 ^ m" "length xs = 2 ^ Suc m" "dir = 0 \<or> dir = 1"
  shows "bitonicSort (word_of_nat w) (word_of_nat p) dir (g, y) xs =
    pair_item (w - p) (block_dir (device_dir (dir = 1)) w) (pair_left (w - p) g) xs"
proof -
  let ?q = "w - p" and ?g = "word_of_nat g :: 32 word" and ?L = "pair_left (w - p) g"
  have q: "?q \<le> m" "?q < 31" "w < 32" using assms(1,2) by simp_all
  have "(2 :: nat) ^ m < 2 ^ 31" using assms(2) by (intro power_strict_increasing) simp_all
  then have g: "unat ?g = g" using assms(4) by (intro unat_small) simp
  have range: "?L + 2 ^ ?q < 2 ^ Suc m" "?L + 2 ^ ?q < 2 ^ 32"
  proof -
    show "?L + 2 ^ ?q < 2 ^ Suc m" using pair_left_range(1) [OF assms(4) q(1)] .
    also have "(2 :: nat) ^ Suc m \<le> 2 ^ 32" using assms(2) by (intro power_increasing) simp_all
    finally show "?L + 2 ^ ?q < 2 ^ 32" .
  qed
  have "unat (word_of_nat w - word_of_nat p :: 32 word) = ?q"
    using assms(3) q by (simp add: unat_small flip: of_nat_diff)
  then have shift: "unat (word_of_nat w - word_of_nat p :: 32 word) mod 32 = ?q" "unat (word_of_nat w :: 32 word) mod 32 = w"
    using q by (simp_all add: unat_small)
  define d :: "32 word" where "d = push_bit ?q 1"
  have d: "d = word_of_nat (2 ^ ?q)" "unat d = 2 ^ ?q"
    using q push_one [of ?q] by (simp_all add: d_def push_bit_eq_mult)
  have small: "g mod 2 ^ ?q < 2 ^ 32" "g div 2 ^ ?q < 2 ^ 32"
    using order.strict_trans1 [OF mod_less_eq_dividend, of g "2 ^ 32" "2 ^ ?q"]
      order.strict_trans1 [OF div_le_dividend, of g "2 ^ 32" "2 ^ ?q"] \<open>2 ^ m < 2 ^ 31\<close> assms(4) by simp_all
  have "2 * d = word_of_nat (2 ^ Suc ?q)" using d(1) by simp
  moreover have "?g mod d = word_of_nat (g mod 2 ^ ?q)" "?g div d = word_of_nat (g div 2 ^ ?q)"
    using g d(2) by (simp_all only: word_unat_eq_iff unat_mod unat_div unat_small [OF small(1)] unat_small [OF small(2)])
  ultimately have left: "?g mod d + ?g div d * (2 * d) = word_of_nat ?L"
    by (simp add: pair_left_def)
  then have l: "unat (?g mod d + ?g div d * (2 * d)) = ?L"
    and r: "unat (?g mod d + ?g div d * (2 * d) + d) = ?L + 2 ^ ?q"
    using range(2) d(1) by (simp_all only: left unat_small add_lessD1 flip: of_nat_add)
  define e :: "32 word" where "e = push_bit w 1"
  have block: "?g div e mod 2 = 1 \<longleftrightarrow> odd (?L div 2 ^ Suc w)"
  proof -
    have "unat (?g div e mod 2) = g div 2 ^ w mod 2"
      using g push_one [OF q(3)] by (simp only: e_def unat_div unat_mod) simp
    then show ?thesis
      using pair_left_block [of ?q w g] by (simp add: odd_iff_mod_2_eq_one word_unat_eq_iff)
  qed
  have up: "(if ?g div e mod 2 = 1 then 1 - dir else dir) \<noteq> 0 \<longleftrightarrow>
      block_dir (device_dir (dir = 1)) w ?L"
    using assms(6) unfolding block block_dir_def device_dir_def by auto
  have len: "?L < length xs" "?L + 2 ^ ?q < length xs" using range(1) assms(5) by simp_all
  show ?thesis
    using up len
    unfolding bitonicSort_def Let_def prod.case shift d_def [symmetric] e_def [symmetric] l r pair_item_def
    by (auto simp: min_def max_def not_le not_less)
qed

lemma device_pass_tab:
  assumes "w \<le> m" "m < 31" "p \<le> w" "dir = 0 \<or> dir = 1" "runs_all (items2 (2 ^ m) 1) sched"
  shows "foldM (bitonicSort (word_of_nat w) (word_of_nat p) dir) sched (tab (Suc m) f) =
    Some (tab (Suc m) (exchange (w - p) (block_dir (device_dir (dir = 1)) w) f))"
proof -
  let ?up = "block_dir (device_dir (dir = 1)) w" and ?q = "w - p" and ?n = "Suc m"
  let ?ls = "map (pair_left ?q) (map fst sched)"
  have sched: "distinct (map fst sched)" "fst ` set sched = {0..<2 ^ m}"
  proof -
    have "inj_on fst (set sched)" using assms(5) by (auto simp: runs_all_def items2_def inj_on_def)
    then show "distinct (map fst sched)" using assms(5) by (simp add: runs_all_def distinct_map)
    show "fst ` set sched = {0..<2 ^ m}" using assms(5) by (force simp: runs_all_def items2_def)
  qed
  have "runs_all (lefts ?n ?q) ?ls"
    unfolding runs_all_def distinct_map set_map sched(2)
    using pair_left_all [of ?q m] pair_left_inj sched(1) assms(1) by (auto simp: distinct_map intro: inj_on_subset)
  moreover have paired: "paired ?n ?q ?up" using assms(1) by (intro block_dir_paired) simp_all
  ultimately have "foldM (pair_item ?q ?up) ?ls (tab ?n f) = Some (tab ?n (exchange ?q ?up f))"
    by (intro pass_all_pairs(1))
  moreover have "foldM (bitonicSort (word_of_nat w) (word_of_nat p) dir) ts xs = foldM (pair_item ?q ?up) (map (pair_left ?q) (map fst ts)) xs"
    if "\<forall>t \<in> set ts. fst t < 2 ^ m" "array_wf (?n, ?q, ?up, M) xs" for ts xs M
    using that
  proof (induction ts arbitrary: xs)
    case (Cons t ts)
    obtain g y where t: "t = (g, y)" by (cases t)
    then have g: "g < 2 ^ m" using Cons.prems(1) by simp
    have "?q \<le> m" using assms(1) by simp
    from pair_item_ok [OF Cons.prems(2) pair_left_range(2) [OF g this]]
    obtain ys where "pair_item ?q ?up (pair_left ?q g) xs = Some ys" "array_wf (?n, ?q, ?up, M) ys"
      by blast
    then show ?case
      using device_item_pair [OF assms(1-3) g _ assms(4)] Cons by (simp add: t)
  qed simp
  moreover have "array_wf (?n, ?q, ?up, mset (tab ?n f)) (tab ?n f)"
    using paired by (simp add: paired_def)
  moreover have "\<forall>t \<in> set sched. fst t < 2 ^ m" using sched(2) by (auto simp: set_eq_iff)
  ultimately show ?thesis by metis
qed

section \<open>The reference\<close>

text \<open>
  The direction of block \<open>c\<close> of \<open>2 ^ Suc w\<close> elements: it alternates, but not at the middle of the array,
  unless the block there is the second one.
\<close>

definition host_dir :: "nat \<Rightarrow> bool \<Rightarrow> nat \<Rightarrow> nat \<Rightarrow> bool" where
  "host_dir n increasing w c =
     (if n \<le> Suc w then increasing
      else if c < 2 ^ (n - Suc (Suc w)) \<or> n = Suc (Suc w) then increasing \<longleftrightarrow> odd c
      else increasing \<longleftrightarrow> even c)"

lemma host_dir_opposite: "opposite_blocks n (host_dir n increasing)"
  unfolding opposite_blocks_def
proof (intro allI impI)
  fix w c :: nat assume wc: "Suc w < n \<and> 2 * c + 1 < 2 ^ (n - Suc w)"
  show "host_dir n increasing w (2 * c) \<noteq> host_dir n increasing w (2 * c + 1)"
  proof (cases "n = Suc (Suc w)")
    case False
    then obtain m where m: "n - Suc (Suc w) = Suc m" using wc by (cases "n - Suc (Suc w)") simp_all
    have "2 * c < 2 ^ Suc m \<longleftrightarrow> 2 * c + 1 < 2 ^ Suc m" by auto
    then show ?thesis using wc False by (auto simp: host_dir_def m)
  qed (simp add: host_dir_def)
qed

text \<open>\<open>k\<close> is the start of a block of the pass, \<open>2 ^ Suc q\<close> elements; the direction so far is that of the last one.\<close>

lemma next_direction_block:
  assumes "w < n" "q \<le> w" "b < 2 ^ (n - Suc q)"
  shows "next_direction (2 ^ n) (2 ^ Suc w) (b * 2 ^ Suc q)
      (if b = 0 then increasing else block_dir (host_dir n increasing) w ((b - 1) * 2 ^ Suc q)) =
    block_dir (host_dir n increasing) w (b * 2 ^ Suc q)"
proof -
  let ?r = "2 ^ (w - q) :: nat"
  have i: "(2 :: nat) ^ Suc w = ?r * 2 ^ Suc q" using assms(2) by (simp flip: power_add)
  have div: "a * 2 ^ Suc q div 2 ^ Suc w = a div ?r" "a * 2 ^ Suc q mod 2 ^ Suc w = 0 \<longleftrightarrow> a mod ?r = 0"
    "a * 2 ^ Suc q = 2 ^ Suc w \<longleftrightarrow> a = ?r" for a
    unfolding i by (simp_all add: mod_mult_mult2 del: power_Suc)
  have i_n: "(2 :: nat) ^ Suc w < 2 ^ n \<longleftrightarrow> Suc w < n" by (rule power_strict_increasing_iff) simp
  show ?thesis
  proof (cases "Suc w < n")
    case False
    then show ?thesis using i_n by (simp add: next_direction_def block_dir_def host_dir_def del: power_Suc)
  next
    case True
    define H where "H = (2 :: nat) ^ (n - Suc (Suc w))"
    have H: "0 < H" "n = Suc (Suc w) \<longleftrightarrow> H = 1" "n = Suc (Suc w) \<or> even H"
      using True by (auto simp: H_def)
    have half: "(2 :: nat) ^ n div 2 = H * ?r * 2 ^ Suc q"
    proof -
      have "(2 :: nat) ^ n = 2 * (H * 2 ^ Suc w)"
        using True unfolding H_def by (simp flip: power_Suc power_add)
      then show ?thesis unfolding i by (simp del: power_Suc)
    qed
    have mid: "b * 2 ^ Suc q = 2 ^ n div 2 \<longleftrightarrow> b = H * ?r" unfolding half by (simp del: power_Suc)
    have dir: "host_dir n increasing w c = (if c < H \<or> H = 1 then increasing \<longleftrightarrow> odd c else increasing \<longleftrightarrow> even c)" for c
      using True H(2) by (auto simp: host_dir_def H_def)
    show ?thesis
    proof (cases "b mod ?r = 0")
      case False
      then have "b \<noteq> 0" "b \<noteq> ?r" by (auto intro: ccontr)
      moreover have "(b - 1) div ?r = b div ?r"
      proof -
        have "b - 1 = b div ?r * ?r + (b mod ?r - 1)" using False div_mult_mod_eq [of b ?r] by simp
        moreover have "b mod ?r - 1 < ?r" by (rule le_less_trans [of _ "b mod ?r"]) simp_all
        ultimately show ?thesis by (metis add.right_neutral div_less div_mult_self3 power_not_zero zero_neq_numeral)
      qed
      ultimately show ?thesis
        using False i_n True by (simp add: next_direction_def block_dir_def div del: power_Suc)
    next
      case True
      then obtain c where c: "b = c * ?r" by auto
      have m: "b * 2 ^ Suc q = 2 ^ n div 2 \<longleftrightarrow> c = H" "b = ?r \<longleftrightarrow> c = 1" "b div ?r = c" "b = 0 \<longleftrightarrow> c = 0"
        unfolding mid by (simp_all add: c)
      have prev: "(b - 1) div ?r = c - 1" if "0 < c"
      proof -
        have "b - 1 = (c - 1) * ?r + (?r - 1)" using that by (cases c) (simp_all add: c)
        then show ?thesis by (simp only:) (subst div_mult_self3, simp_all)
      qed
      have flip: "next_direction (2 ^ n) (2 ^ Suc w) (b * 2 ^ Suc q) inc = ((c = 1 \<or> c \<noteq> H) \<noteq> inc)" for inc
        using True i_n \<open>Suc w < n\<close> m(1,2) by (auto simp: next_direction_def div simp del: power_Suc)
      show ?thesis
      proof (cases "c = 0")
        case True
        then show ?thesis using H(1) m unfolding flip block_dir_def div dir by simp
      next
        case False
        then have "c - 1 < H \<longleftrightarrow> c < H \<or> c = H" "odd (c - 1) \<longleftrightarrow> even c" by auto
        moreover have "H = 1 \<or> even H" using H(2,3) by blast
        ultimately show ?thesis
          using False m prev unfolding flip block_dir_def div dir by auto
      qed
    qed
  qed
qed

text \<open>The left positions block by block.\<close>

definition block_lefts :: "nat \<Rightarrow> nat \<Rightarrow> nat list" where
  "block_lefts q b = [b * 2 ^ Suc q..<b * 2 ^ Suc q + 2 ^ q]"

lemma block_lefts_mem: "l \<in> set (block_lefts q b) \<longleftrightarrow> l div 2 ^ Suc q = b \<and> even (l div 2 ^ q)"
proof -
  have l: "l = l div 2 ^ Suc q * 2 ^ Suc q + l mod 2 ^ Suc q" by (rule div_mult_mod_eq [symmetric])
  have "l mod 2 ^ Suc q = 2 ^ q * (l div 2 ^ q mod 2) + l mod 2 ^ q"
    using mod_mult2_eq [of l "2 ^ q" 2] by (simp add: mult.commute)
  moreover have "l mod 2 ^ q < 2 ^ q" by simp
  ultimately have lower: "even (l div 2 ^ q) \<longleftrightarrow> l mod 2 ^ Suc q < 2 ^ q"
    by (cases "even (l div 2 ^ q)") (auto simp: even_iff_mod_2_eq_zero odd_iff_mod_2_eq_one)
  have "l div 2 ^ Suc q = b" if "b * 2 ^ Suc q \<le> l" "l < b * 2 ^ Suc q + 2 ^ q"
    using that by (intro div_nat_eqI) (simp_all add: algebra_simps)
  then show ?thesis
    using l lower unfolding block_lefts_def by (auto simp del: power_Suc)
qed

lemma block_lefts_runs_all:
  assumes "q < n"
  shows "runs_all (lefts n q) (concat (map (block_lefts q) [0..<2 ^ (n - Suc q)]))"
  unfolding runs_all_def
proof
  show "distinct (concat (map (block_lefts q) [0..<2 ^ (n - Suc q)]))"
  proof (rule distinct_concat_upt)
    show "distinct (block_lefts q b)" for b by (simp add: block_lefts_def)
  qed (auto simp: block_lefts_mem)
  have "(2 :: nat) ^ n = 2 ^ (n - Suc q) * 2 ^ Suc q" using assms by (intro power_split) simp
  then have range: "l < 2 ^ n \<longleftrightarrow> l div 2 ^ Suc q < 2 ^ (n - Suc q)" for l :: nat
    by (simp only: div_less_iff_less_mult zero_less_power zero_less_numeral)
  have "l \<in> set (concat (map (block_lefts q) [0..<2 ^ (n - Suc q)])) \<longleftrightarrow>
      (\<exists>b < 2 ^ (n - Suc q). l \<in> set (block_lefts q b))" for l
    by auto
  then show "set (concat (map (block_lefts q) [0..<2 ^ (n - Suc q)])) = lefts n q"
    unfolding block_lefts_mem lefts_def by (intro set_eqI) (simp only: range mem_Collect_eq, blast)
qed

text \<open>A block of the reference, and all its blocks.\<close>

lemma swap_pair:
  "pair_item q up l xs =
     (if up l then swapIfFirstIsGreater l (l + 2 ^ q) xs else swapIfFirstIsGreater (l + 2 ^ q) l xs)"
proof (cases "l + 2 ^ q < length xs")
  case True
  have "xs[l := xs ! (l + 2 ^ q)] = xs" if "xs ! l = xs ! (l + 2 ^ q)"
    using that by (metis list_update_id)
  then show ?thesis
    using True
    by (auto simp: pair_item_def swapIfFirstIsGreater_def min_def max_def list_update_swap [of "l + 2 ^ q" l])
next
  case False
  then show ?thesis by (auto simp: arg_at_def pair_item_def swapIfFirstIsGreater_def)
qed

lemma sort_blocks_pairs:
  assumes "w < n" "q \<le> w" "b \<le> 2 ^ (n - Suc q)"
  shows "sort_blocks (2 ^ n) (2 ^ Suc w) (2 ^ Suc q) (b * 2 ^ Suc q)
      (if b = 0 then increasing else block_dir (host_dir n increasing) w ((b - 1) * 2 ^ Suc q)) xs =
    foldM (pair_item q (block_dir (host_dir n increasing) w))
      (concat (map (block_lefts q) [b..<2 ^ (n - Suc q)])) xs"
  using assms(3)
proof (induction "2 ^ (n - Suc q) - b" arbitrary: b xs)
  case 0
  then have "b = 2 ^ (n - Suc q)" by simp
  then have "b * 2 ^ Suc q = 2 ^ n" using power_split [of "Suc q" n] assms by simp
  then show ?case using 0 by (subst sort_blocks.simps) (simp del: power_Suc)
next
  case (Suc d)
  let ?up = "block_dir (host_dir n increasing) w"
  have b: "b < 2 ^ (n - Suc q)" using Suc by simp
  have n: "(2 :: nat) ^ n = 2 ^ (n - Suc q) * 2 ^ Suc q" using assms by (intro power_split) simp
  have in_range: "b * 2 ^ Suc q < 2 ^ n" unfolding n using b by (simp del: power_Suc)
  have half: "(2 :: nat) ^ Suc q div 2 = 2 ^ q" by simp
  have up: "?up l = ?up (b * 2 ^ Suc q)" if "l \<in> set (block_lefts q b)" for l
  proof -
    have w: "(2 :: nat) ^ Suc w = 2 ^ Suc q * 2 ^ (w - q)" using assms(2) by (simp flip: power_add)
    have "l div 2 ^ Suc q = b" using that by (simp add: block_lefts_mem del: power_Suc)
    then show ?thesis unfolding block_dir_def w div_mult2_eq by (simp del: power_Suc)
  qed
  have block: "for_loop (b * 2 ^ Suc q) (b * 2 ^ Suc q + 2 ^ q)
      (\<lambda>l. if ?up (b * 2 ^ Suc q) then swapIfFirstIsGreater l (l + 2 ^ q) else swapIfFirstIsGreater (l + 2 ^ q) l) xs =
    foldM (pair_item q ?up) (block_lefts q b) xs"
  proof -
    have "for_loop (b * 2 ^ Suc q) (b * 2 ^ Suc q + 2 ^ q)
      (\<lambda>l. if ?up (b * 2 ^ Suc q) then swapIfFirstIsGreater l (l + 2 ^ q) else swapIfFirstIsGreater (l + 2 ^ q) l) xs =
      for_loop (b * 2 ^ Suc q) (b * 2 ^ Suc q + 2 ^ q) (pair_item q ?up) xs"
    proof (rule for_loop_cong)
      fix l ys assume "b * 2 ^ Suc q \<le> l" "l < b * 2 ^ Suc q + 2 ^ q"
      then have "?up l = ?up (b * 2 ^ Suc q)" by (intro up) (simp add: block_lefts_def)
      then show "(if ?up (b * 2 ^ Suc q) then swapIfFirstIsGreater l (l + 2 ^ q) else swapIfFirstIsGreater (l + 2 ^ q) l) ys =
          pair_item q ?up l ys"
        unfolding swap_pair by presburger
    qed
    then show ?thesis by (simp add: for_loop_def block_lefts_def del: power_Suc)
  qed
  have rest: "concat (map (block_lefts q) [b..<2 ^ (n - Suc q)]) =
      block_lefts q b @ concat (map (block_lefts q) [Suc b..<2 ^ (n - Suc q)])"
    using b by (simp add: upt_conv_Cons)
  have next_start: "b * 2 ^ Suc q + 2 ^ Suc q = Suc b * 2 ^ Suc q" by simp
  have "d = 2 ^ (n - Suc q) - Suc b" "Suc b \<le> 2 ^ (n - Suc q)" using Suc.hyps(2) b by simp_all
  note step = Suc.hyps(1) [OF this]
  have step: "sort_blocks (2 ^ n) (2 ^ Suc w) (2 ^ Suc q) (Suc b * 2 ^ Suc q) (?up (b * 2 ^ Suc q)) =
      foldM (pair_item q ?up) (concat (map (block_lefts q) [Suc b..<2 ^ (n - Suc q)]))"
    using step by (intro ext) (simp del: power_Suc)
  define inc where "inc = (if b = 0 then increasing else ?up ((b - 1) * 2 ^ Suc q))"
  have turn: "next_direction (2 ^ n) (2 ^ Suc w) (b * 2 ^ Suc q) inc = ?up (b * 2 ^ Suc q)"
    unfolding inc_def by (rule next_direction_block [OF assms(1,2) b])
  show ?case
    unfolding rest foldM_append block [symmetric] inc_def [symmetric]
    by (subst sort_blocks.simps)
      (simp add: in_range turn half next_start step Let_def del: power_Suc mult_Suc cong: if_cong)
qed

lemma reference_pass:
  assumes "w < n" "q \<le> w"
  shows "sort_blocks (2 ^ n) (2 ^ Suc w) (2 ^ Suc q) 0 increasing (tab n f) =
    Some (tab n (exchange q (block_dir (host_dir n increasing) w) f))"
  using sort_blocks_pairs [OF assms, of 0 increasing "tab n f"]
    pass_all_pairs(1) [OF block_dir_paired [OF assms] block_lefts_runs_all, of "host_dir n increasing" f] assms
  by simp

text \<open>A stage, and all stages.\<close>

lemma reference_stage:
  assumes "w < n" "p \<le> Suc w"
  shows "sort_passes (2 ^ n) (2 ^ Suc w) increasing (2 ^ p) (tab n f) =
    Some (tab n (merge_passes p (block_dir (host_dir n increasing) w) f))"
  using assms(2)
proof (induction p arbitrary: f)
  case 0
  then show ?case by (subst sort_passes.simps) simp
next
  case (Suc p)
  have "(1 :: nat) < 2 ^ Suc p" by (rule one_less_power) simp_all
  moreover have "(2 :: nat) ^ Suc p div 2 = 2 ^ p" by simp
  moreover note reference_pass [OF assms(1), of p increasing f]
  ultimately show ?case
    using Suc
    by (subst sort_passes.simps) (simp del: power_Suc)
qed

lemma reference_stages:
  assumes "w \<le> n"
  shows "sort_stages (2 ^ n) increasing (2 ^ Suc w) (tab n (network (host_dir n increasing) w f)) =
    Some (tab n (network (host_dir n increasing) n f))"
  using assms
proof (induction "n - w" arbitrary: w)
  case 0
  then have "w = n" by simp
  then show ?case by (subst sort_stages.simps) simp
next
  case (Suc d)
  then have "w < n" by simp
  then have "(2 :: nat) ^ Suc w \<le> 2 ^ n" by (intro power_increasing) simp_all
  moreover have "merge_passes (Suc w) (block_dir (host_dir n increasing) w) (network (host_dir n increasing) w f)
      = network (host_dir n increasing) (Suc w) f"
    by (simp only: network_Suc after_all_passes)
  moreover have "(2 :: nat) ^ Suc w * 2 = 2 ^ Suc (Suc w)" by simp
  moreover have "sort_stages (2 ^ n) increasing (2 ^ Suc (Suc w)) (tab n (network (host_dir n increasing) (Suc w) f)) =
      Some (tab n (network (host_dir n increasing) n f))"
    using Suc by (intro Suc.hyps(1)) simp_all
  ultimately show ?case
    using reference_stage [OF \<open>w < n\<close> order.refl, of increasing "network (host_dir n increasing) w f"]
    by (subst sort_stages.simps) (simp del: power_Suc network.simps merge_passes.simps)
qed

lemma reference_sorts:
  assumes "n < 31" "length xs = 2 ^ n"
  shows "bitonicSortCPUReference (word_of_nat (2 ^ n)) inc xs =
    Some (if inc \<noteq> 0 then sort xs else rev (sort xs))"
proof -
  have "(2 :: nat) ^ n < 2 ^ 31" using assms(1) by (intro power_strict_increasing) simp_all
  moreover from this have "unat (word_of_nat (2 ^ n) :: 32 word) = 2 ^ n" by (intro unat_small) simp
  moreover have "sort_stages (2 ^ n) (inc \<noteq> 0) (2 ^ Suc 0) (tab n (network (host_dir n (inc \<noteq> 0)) 0 ((!) xs))) =
      Some (tab n (network (host_dir n (inc \<noteq> 0)) n ((!) xs)))"
    by (rule reference_stages) simp
  moreover have "host_dir n (inc \<noteq> 0) (n - 1) 0 = (inc \<noteq> 0)" by (auto simp: host_dir_def)
  ultimately show ?thesis
    using network_result [OF assms(2) host_dir_opposite, of "inc \<noteq> 0"] assms(2)
    by (simp add: bitonicSortCPUReference_def tab_nth del: of_nat_power)
qed

text \<open>The device's array after stage \<open>w\<close>, and at the end.\<close>

definition device_array :: "nat \<Rightarrow> bool \<Rightarrow> nat \<Rightarrow> nat \<Rightarrow> 32 word list \<Rightarrow> 32 word list" where
  "device_array n increasing w p xs =
     tab n (after_pass (block_dir (device_dir increasing) w) w p (network (device_dir increasing) w ((!) xs)))"

lemma device_array_start: "length xs = 2 ^ n \<Longrightarrow> device_array n increasing 0 0 xs = xs"
  by (simp add: device_array_def tab_nth)

lemma device_array_stage: "device_array n increasing w (Suc w) xs = device_array n increasing (Suc w) 0 xs"
  by (simp only: device_array_def network_Suc after_pass.simps(1))

lemma device_array_end:
  "length xs = 2 ^ n \<Longrightarrow> device_array n increasing n 0 xs = (if increasing then sort xs else rev (sort xs))"
  using network_result [OF _ device_dir_opposite, of xs n increasing]
  by (simp add: device_array_def device_dir_def)

lemma device_array_pass:
  assumes "w < n" "n \<le> 31" "p \<le> w" "dir = 0 \<or> dir = 1" "runs_all (items2 (2 ^ (n - 1)) 1) sched"
  shows "foldM (bitonicSort (word_of_nat w) (word_of_nat p) dir) sched (device_array n (dir = 1) w p xs) =
    Some (device_array n (dir = 1) w (Suc p) xs)"
  using device_pass_tab [of w "n - 1" p dir sched] assms by (simp add: device_array_def)

end
