(* ===== verification/Bitonic_Run.thy ===== *)
theory Bitonic_Run
  imports Bitonic_Facts Sdk_Host_Facts
begin

text \<open>
  The host program of the sorting sample step by step: what the preparation leaves, what a run of
  the kernel does to the array, and that the steps succeed where the library's calls do.
\<close>

section \<open>Preparation\<close>

lemma split_bits: "(v :: int) = (v AND w) + (v AND NOT w)"
proof -
  have "(v AND w) + (v AND NOT w) = (v AND w) OR (v AND NOT w)"
    by (rule disjunctive_add) (simp add: bit_simps)
  also have "\<dots> = v" by (rule bit_eqI) (auto simp: bit_simps)
  finally show ?thesis by simp
qed

lemma power_of_two_test:
  fixes v :: int
  assumes "0 < v"
  shows "v AND (v - 1) = 0 \<longleftrightarrow> (\<exists>k. v = 2 ^ k)"
proof -
  have "- v = NOT (v - 1)" by (rule minus_eq_not_minus_1)
  then have "v AND (v - 1) = 0 \<longleftrightarrow> v AND - v = v"
    using split_bits [of v "v - 1"] by auto
  then show ?thesis using lowest_bit [OF assms] by simp
qed

definition ascending :: "sample \<Rightarrow> bool" where
  "ascending b \<longleftrightarrow> string_var ''sortDescending'' b = ''asc''"

definition in_order :: "bool \<Rightarrow> 32 word list \<Rightarrow> 32 word list" where
  "in_order up xs = (if up then sort xs else rev (sort xs))"

lemma length_in_order [simp]: "length (in_order up xs) = length xs"
  by (simp add: in_order_def)

lemma in_order_again: "in_order up (in_order up xs) = in_order up xs"
proof -
  have "sort (rev (sort xs)) = sort xs" by (rule properties_for_sort) simp_all
  then show ?thesis by (simp add: in_order_def sort_key_id_if_sorted sorted_sort)
qed

text \<open>The host arrays after the preparation; \<open>a\<close> is the unsorted array.\<close>

definition array_prepared :: "sample \<Rightarrow> timer list \<Rightarrow> nat \<Rightarrow> 32 word list \<Rightarrow> bitonic \<Rightarrow> bool" where
  "array_prepared b ts n a s \<longleftrightarrow> base s = b \<and> timers s = ts \<and> n < 30
     \<and> array_length s = 2 ^ n \<and> length a = 2 ^ n
     \<and> (bool_var ''verify'' b \<longrightarrow> verificationInput s = Some a)"

definition holds :: "32 word list \<Rightarrow> 32 word list list \<Rightarrow> bitonic \<Rightarrow> bool" where
  "holds xs e s \<longleftrightarrow> input s = Some xs \<and> length xs = nat (array_length s) \<and> earlier_inputs s = e"

lemma setup_array_ok:
  assumes "env_ok env" "array_length s = 2 ^ n" "n < 30"
  shows "\<exists>a t. setupBitonicSort env s = Some (SDK_SUCCESS, t)
    \<and> array_prepared (base s) (timers s) n a t \<and> holds a [] t"
proof -
  have "(2 :: int) ^ n \<le> 2 ^ 29" using assms(3) by (intro power_increasing) simp_all
  then have bytes: "nat (2 ^ n * 4 mod 2 ^ 32) div 4 = 2 ^ n"
    by (simp add: nat_mult_distrib nat_power_eq)
  have pos: "(0 :: int) < 2 ^ n" by simp
  let ?a = "fresh_array env ''input'' (2 ^ n)"
  have "\<exists>v. random_value 0 (random_range 0 1024) (rand env i) = Some v" for i
    using random_value_in_range [of 0 1024 "rand env i"] assms(1) by (auto simp: env_ok_def)
  then have "yields (fill_loops (2 ^ n) 1
      (\<lambda>i j. random_value 0 (random_range 0 1024) (rand env (i * 2 ^ n + j))) ?a) (\<lambda>a. length a = 2 ^ n)"
    by (intro yields_mono [OF fill_loops_all [where P = "\<lambda>_ _. True"]]) auto
  then obtain a where a: "fillRandom (rand env) (Some ?a) (2 ^ n) 1 0 1024 = Some (SDK_SUCCESS, Some a)" "length a = 2 ^ n"
    by (auto simp: yields_def fillRandom_def nat_power_eq)
  show ?thesis
    using assms(1,3) a unfolding setupBitonicSort_def Let_def assms(2) bytes
    by (auto simp: transfer_all nat_power_eq array_prepared_def holds_def array_length_def
        assms(2) [unfolded array_length_def])
qed

section \<open>Setting up OpenCL\<close>

definition buffer_ready :: "nat \<Rightarrow> bitonic \<Rightarrow> bool" where
  "buffer_ready n s \<longleftrightarrow> (\<exists>buf. inputBuffer s = Some buf \<and> length buf = 2 ^ n)"

definition sort_idle :: "sample \<Rightarrow> timer list \<Rightarrow> nat \<Rightarrow> 32 word list \<Rightarrow> bitonic \<Rightarrow> bool" where
  "sort_idle b ts n a s \<longleftrightarrow> array_prepared b ts n a s \<and> buffer_ready n s \<and> cl_kernel s \<noteq> None"

lemmas sort_fields = array_prepared_def array_length_def sort_idle_def buffer_ready_def holds_def

lemma sort_setup_calls_ok:
  assumes "sure \<Longrightarrow> usable env sort_kernel_file s0" "base s0 = b"
    and "sure \<Longrightarrow> p = used_platform (lib env) b"
  shows "meets sure (sort_setup_calls env (2 ^ n) p) (\<lambda>s. array_prepared b ts n a s \<and> holds a [] s)
    (\<lambda>s. sort_idle b ts n a s \<and> holds a [] s)"
proof -
  let ?U = "\<lambda>s. array_prepared b ts n a s \<and> holds a [] s" and ?C = "device_chosen sure"
  let ?V = "\<lambda>s. ?U s \<and> buffer_ready n s"
  have ok: "all_succeed (lib env)" if sure using assms(1) [OF that] by (simp add: usable_def)
  have blind: "blind ?U" "blind ?V" by (auto simp: blind_def sort_fields)
  have base: "?U s \<Longrightarrow> base s = base s0" for s using assms(2) by (simp add: array_prepared_def)
  have open_ok: "meets sure (run_steps [create_context env p, get_devices env, create_queue env]) ?U (\<lambda>s. ?U s \<and> ?C s)"
    by (rule open_device_ok [of sure env sort_kernel_file s0])
      (use assms blind base in auto)
  have buffer_ok: "meets sure (run_steps
     [create_buffer env (2 ^ n) (\<lambda>s. s\<lparr>inputBuffer := Some (fresh_array env ''inputBuffer'' (2 ^ n))\<rparr>)])
     (\<lambda>s. ?U s \<and> ?C s) (\<lambda>s. ?V s \<and> ?C s)"
    by (intro meets_Cons [OF meets_create_buffer meets_Nil]) (auto simp: ok sort_fields device_chosen_def chosen_device_def)
  have build_ok: "meets sure (run_steps [build_program env sort_kernel_file, create_kernel env])
      (\<lambda>s. ?V s \<and> ?C s) (\<lambda>s. ?V s \<and> ?C s \<and> cl_kernel s \<noteq> None)"
    by (rule build_program_ok [of sure env sort_kernel_file s0])
      (use assms blind base in \<open>auto simp: c_str_def sort_kernel_file_def\<close>)
  have "meets sure (sort_setup_calls env (2 ^ n) p) ?U (\<lambda>s. ?V s \<and> ?C s \<and> cl_kernel s \<noteq> None)"
    using meets_append [OF open_ok meets_append [OF buffer_ok build_ok]]
    by (simp add: sort_setup_calls_def)
  then show ?thesis by (rule meets_conseq) (auto simp: sort_idle_def)
qed

lemma setupCL_sort_ok:
  assumes "sure \<Longrightarrow> usable env sort_kernel_file s0" "array_prepared b ts n a s0" "holds a [] s0"
  shows "meets sure (setupCL_sort env) (\<lambda>s. s = s0) (\<lambda>s. sort_idle b ts n a s \<and> holds a [] s)"
proof -
  have len: "nat (array_length s0) = 2 ^ n" and b: "base s0 = b"
    using assms(2) by (auto simp: array_prepared_def nat_power_eq)
  have "meets sure (with_platform env (sort_setup_calls env (2 ^ n))) (\<lambda>s. s = s0)
      (\<lambda>s. sort_idle b ts n a s \<and> holds a [] s)"
    by (rule with_platform_ok [OF assms(1)], assumption,
        rule meets_conseq [OF sort_setup_calls_ok [of sure env s0 b]])
      (use assms b in auto)
  then show ?thesis unfolding meets_def setupCL_sort_def by (simp add: len)
qed

section \<open>Running the kernel\<close>

definition order_word :: "sample \<Rightarrow> 32 word" where
  "order_word b = (if ascending b then 1 else 0)"

text \<open>On the way: the buffer holds \<open>buf\<close> and the arguments \<open>as\<close> are set.\<close>

definition sorting ::
  "sample \<Rightarrow> timer list \<Rightarrow> nat \<Rightarrow> 32 word list \<Rightarrow> 32 word list \<Rightarrow> 32 word list list \<Rightarrow>
   32 word list \<Rightarrow> (nat \<times> kernel_arg) list \<Rightarrow> bitonic \<Rightarrow> bool" where
  "sorting b ts n a xs e buf as s \<longleftrightarrow> array_prepared b ts n a s \<and> holds xs e s
     \<and> inputBuffer s = Some buf \<and> length buf = 2 ^ n \<and> args_set as s"

abbreviation fixed_args :: "sample \<Rightarrow> (nat \<times> kernel_arg) list" where
  "fixed_args b \<equiv> [(0, Buffer_arg ''inputBuffer''), (3, Uint_arg (order_word b))]"

lemmas sorting_fields = sorting_def args_set_def sort_fields

lemma sorting_arg_ok:
  assumes "sure \<Longrightarrow> all_succeed (lib env)"
    and "\<And>j w. (j, w) \<in> set as' \<Longrightarrow> (j, w) = (i, v) \<or> j \<noteq> i \<and> (j, w) \<in> set as"
  shows "meets sure (set_arg env i v) (\<lambda>s. sorting b ts n a xs e buf as s \<and> sortOrder s = d)
    (\<lambda>s. sorting b ts n a xs e buf as' s \<and> sortOrder s = d)"
  unfolding set_arg_def
proof (rule meets_call)
  fix s k assume s: "sorting b ts n a xs e buf as s \<and> sortOrder s = d"
  then obtain f where f: "cl_kernel s = Some f" "\<forall>(j, w) \<in> set as. f j = Some w"
    by (auto simp: sorting_def args_set_def)
  have "(f(i \<mapsto> v)) j = Some w" if "(j, w) \<in> set as'" for j w
    using assms(2) [OF that] f(2) by auto
  then show "\<exists>t. (do { args \<leftarrow> cl_kernel s; Some (s\<lparr>cl_kernel := Some (args(i \<mapsto> v))\<rparr>) }) = Some t
      \<and> sorting b ts n a xs e buf as' t \<and> sortOrder t = d"
    using s f(1) by (auto simp: sorting_fields)
qed (use assms(1) in simp)

text \<open>The launch is accepted when the array has at least two groups' worth of elements.\<close>

lemma sort_threads_power:
  assumes "array_length s = 2 ^ n" "0 < n" "n < 30"
  shows "sort_threads s = 2 ^ (n - 1)"
proof -
  have "(2 :: int) ^ n = 2 * 2 ^ (n - 1)" using assms(2) by (cases n) simp_all
  then have half: "array_length s sdiv 2 = 2 ^ (n - 1)" by (simp add: assms(1) signed_divide_int_def)
  have "(2 :: int) ^ (n - 1) < 2 ^ 64" using assms(3) by (intro power_strict_increasing) simp_all
  then show ?thesis unfolding sort_threads_def half by (simp add: nat_power_eq)
qed

lemma sort_launchable:
  assumes "array_length s = 2 ^ n" "0 < n" "n < 30"
  shows "list_all accepted_size (sort_sizes s) \<longleftrightarrow> 9 \<le> n"
proof -
  have "(256 :: nat) dvd 2 ^ (n - 1) \<longleftrightarrow> 8 \<le> n - 1"
    using power_dvd_imp_le [of "2 :: nat" 8 "n - 1"] le_imp_power_dvd [of 8 "n - 1" "2 :: nat"] by auto
  then show ?thesis
    using assms(2) by (auto simp: sort_sizes_def sort_threads_power [OF assms] accepted_size_def GROUP_SIZE_def mod_eq_0_iff_dvd)
qed

lemma launch_sort_ok:
  assumes "env_ok env" "w < n" "p \<le> w" "length xs = 2 ^ n"
    and "sorting b ts n a xs e (device_array n (ascending b) w p xs)
      ((2, Uint_arg (word_of_nat p)) # (1, Uint_arg (word_of_nat w)) # fixed_args b) s"
  shows "launch_sort env k s = Some (s\<lparr>inputBuffer := Some (device_array n (ascending b) w (Suc p) xs)\<rparr>)"
proof -
  obtain f where f: "cl_kernel s = Some f" "f 2 = Some (Uint_arg (word_of_nat p))" "f 1 = Some (Uint_arg (word_of_nat w))"
      "f 0 = Some (Buffer_arg ''inputBuffer'')" "f 3 = Some (Uint_arg (order_word b))"
    and n: "n < 30" "array_length s = 2 ^ n"
    and buf: "inputBuffer s = Some (device_array n (ascending b) w p xs)"
    using assms(5) by (auto simp: sorting_def args_set_def array_prepared_def)
  have g: "sort_threads s = 2 ^ (n - 1)" using sort_threads_power [OF n(2) _ n(1)] assms(2) by simp
  have "order_word b = 0 \<or> order_word b = 1" and up: "ascending b \<longleftrightarrow> order_word b = 1"
    by (simp_all add: order_word_def)
  then have "foldM (bitonicSort (word_of_nat w) (word_of_nat p) (order_word b)) (schedule env k (2 ^ (n - 1)) 1)
      (device_array n (ascending b) w p xs) = Some (device_array n (ascending b) w (Suc p) xs)"
    unfolding up using assms(1-3) n(1) by (intro device_array_pass) (auto simp: env_ok_def)
  then show ?thesis unfolding launch_sort_def Let_def g using f buf by simp
qed

lemma length_device_array [simp]: "length (device_array n u w p xs) = 2 ^ n"
  by (simp add: device_array_def)

lemma sort_pass_ok:
  assumes "live_env sure env" "env_ok env" "w < n" "p \<le> w" "length xs = 2 ^ n" "sure \<Longrightarrow> 9 \<le> n"
  shows "meets sure (sort_pass env p)
    (\<lambda>s. sorting b ts n a xs e (device_array n (ascending b) w p xs)
      ((1, Uint_arg (word_of_nat w)) # fixed_args b) s \<and> sortOrder s = d)
    (\<lambda>s. sorting b ts n a xs e (device_array n (ascending b) w (Suc p) xs)
      ((1, Uint_arg (word_of_nat w)) # fixed_args b) s \<and> sortOrder s = d)"
  unfolding sort_pass_def
proof (intro meets_Cons)
  let ?as = "(1, Uint_arg (word_of_nat w)) # fixed_args b"
  let ?S = "\<lambda>p as s. sorting b ts n a xs e (device_array n (ascending b) w p xs) as s \<and> sortOrder s = d"
  have ok: "all_succeed (lib env)" if sure using assms(1) that by (simp add: live_env_def)
  show "meets sure (set_arg env 2 (Uint_arg (word_of_nat p))) (?S p ?as) (?S p ((2, Uint_arg (word_of_nat p)) # ?as))"
    by (rule sorting_arg_ok) (auto simp: ok)
  show "meets sure (enqueue_kernel env sort_sizes (launch_sort env)) (?S p ((2, Uint_arg (word_of_nat p)) # ?as)) (?S (Suc p) ?as)"
  proof (rule meets_enqueue [OF ok])
    fix s assume sure "?S p ((2, Uint_arg (word_of_nat p)) # ?as) s"
    then show "list_all accepted_size (sort_sizes s)"
      using sort_launchable [of s n] assms(3,6) by (simp add: sorting_def array_prepared_def)
  next
    fix s k assume s: "?S p ((2, Uint_arg (word_of_nat p)) # ?as) s"
    then have "launch_sort env k s = Some (s\<lparr>inputBuffer := Some (device_array n (ascending b) w (Suc p) xs)\<rparr>)"
      using launch_sort_ok [OF assms(2-5)] by blast
    then show "\<exists>t. launch_sort env k s = Some t \<and> ?S (Suc p) ?as t"
      using s by (auto simp: sorting_fields)
  qed
qed (rule meets_Nil)

lemma sort_stage_ok:
  assumes "live_env sure env" "env_ok env" "w < n" "length xs = 2 ^ n" "sure \<Longrightarrow> 9 \<le> n"
  shows "meets sure (sort_stage env w)
    (\<lambda>s. sorting b ts n a xs e (device_array n (ascending b) w 0 xs) (fixed_args b) s \<and> sortOrder s = d)
    (\<lambda>s. sorting b ts n a xs e (device_array n (ascending b) (Suc w) 0 xs) (fixed_args b) s \<and> sortOrder s = d)"
proof -
  let ?as = "(1, Uint_arg (word_of_nat w)) # fixed_args b"
  let ?S = "\<lambda>p as s. sorting b ts n a xs e (device_array n (ascending b) w p xs) as s \<and> sortOrder s = d"
  have "meets sure (run_steps (map (sort_pass env) [0..<Suc w])) (?S 0 ?as) (?S (Suc w) ?as)"
    using assms by (intro meets_loop [where I = "\<lambda>p. ?S p ?as"] sort_pass_ok) simp_all
  moreover have "meets sure (set_arg env 1 (Uint_arg (word_of_nat w))) (?S 0 (fixed_args b)) (?S 0 ?as)"
    by (rule sorting_arg_ok) (use assms(1) in \<open>auto simp: live_env_def\<close>)
  ultimately have "meets sure (sort_stage env w) (?S 0 (fixed_args b)) (?S (Suc w) ?as)"
    unfolding sort_stage_def Suc_eq_plus1 [symmetric] by (rule meets_Cons [rotated])
  then show ?thesis
    unfolding device_array_stage by (rule meets_conseq) (auto simp: sorting_def args_set_def)
qed

lemma count_stages_power: "n < 32 \<Longrightarrow> count_stages (word_of_nat (2 ^ n)) = n"
proof (induction n)
  case 0
  then show ?case by (subst count_stages.simps) simp
next
  case (Suc n)
  then have "(2 :: nat) ^ Suc n < 2 ^ 32" "(2 :: nat) ^ n < 2 ^ 32"
    by (intro power_strict_increasing; simp)+
  then have u: "unat (word_of_nat (2 ^ Suc n) :: 32 word) = 2 ^ Suc n" "unat (word_of_nat (2 ^ n) :: 32 word) = 2 ^ n"
    by (simp_all only: unat_small)
  have "(1 :: nat) < 2 ^ Suc n" by (rule one_less_power) simp_all
  then have "1 < (word_of_nat (2 ^ Suc n) :: 32 word)" unfolding word_less_nat_alt u by simp
  moreover have "drop_bit 1 (word_of_nat (2 ^ Suc n) :: 32 word) = word_of_nat (2 ^ n)"
    by (simp only: word_unat_eq_iff unat_drop_bit_eq u) (simp add: drop_bit_Suc)
  ultimately show ?case using Suc by (subst count_stages.simps) (simp del: of_nat_power power_Suc)
qed

text \<open>With fewer elements, the first launch is refused.\<close>

lemma sort_stage_fails:
  assumes "live_env True env" "0 < n" "n < 9"
  shows "fails (sort_stage env 0) (sorting b ts n a xs e buf as)"
proof -
  let ?S = "sorting b ts n a xs e buf"
  have "meets True (set_arg env i v) (\<lambda>s. ?S [] s \<and> sortOrder s = d) (\<lambda>s. ?S [] s \<and> sortOrder s = d)" for i v d
    by (rule sorting_arg_ok) (use assms(1) in \<open>auto simp: live_env_def\<close>)
  then have arg: "meets True (set_arg env i v) (?S []) (?S [])" for i v
    unfolding meets_def by blast
  have "fails (enqueue_kernel env sort_sizes (launch_sort env)) (?S [])"
    unfolding fails_def
  proof (intro allI impI)
    fix s k assume "?S [] s"
    then have "\<not> list_all accepted_size (sort_sizes s)"
      using sort_launchable [of s n] assms(2,3) by (simp add: sorting_def array_prepared_def)
    then show "\<exists>t m. enqueue_kernel env sort_sizes (launch_sort env) (s, k) = Some (SDK_FAILURE, t, m)"
      by (simp add: enqueue_kernel_def)
  qed
  then have "fails (sort_pass env 0) (?S [])"
    unfolding sort_pass_def by (rule fails_Cons [OF arg fails_first])
  then have "fails (sort_stage env 0) (?S [])"
    unfolding sort_stage_def using fails_Cons [OF arg fails_first] by simp
  then show ?thesis unfolding fails_def by (auto simp: sorting_def args_set_def)
qed

lemma runCLKernels_sort_ok:
  assumes "live_env sure env" "env_ok env" "sure \<Longrightarrow> n = 0 \<or> 9 \<le> n"
  shows "meets sure (runCLKernels_sort env)
    (\<lambda>s. sort_idle b ts n a s \<and> holds xs e s)
    (\<lambda>s. sort_idle b ts n a s \<and> holds (in_order (ascending b) xs) (xs # e) s \<and> sortOrder s = order_word b)"
proof (cases "length xs = 2 ^ n \<and> n < 30")
  case False
  then show ?thesis by (auto simp: meets_def sort_fields nat_power_eq)
next
  case True
  then have len: "length xs = 2 ^ n" and n: "n < 30" by simp_all
  let ?I = "\<lambda>s. sort_idle b ts n a s \<and> holds xs e s"
  let ?S = "\<lambda>buf as s. sorting b ts n a xs e buf as s"
  let ?R = "\<lambda>s. ?S (device_array n (ascending b) 0 0 xs) (fixed_args b) s \<and> sortOrder s = order_word b"
  let ?F = "\<lambda>s. ?S (device_array n (ascending b) n 0 xs) (fixed_args b) s \<and> sortOrder s = order_word b"
  let ?J = "\<lambda>s. sort_idle b ts n a s \<and> holds (in_order (ascending b) xs) (xs # e) s \<and> sortOrder s = order_word b"
  have ok: "all_succeed (lib env)" if sure using assms(1) that by (simp add: live_env_def)
  have start: "device_array n (ascending b) 0 0 xs = xs" using device_array_start [OF len] .
  have stop: "device_array n (ascending b) n 0 xs = in_order (ascending b) xs"
    using device_array_end [OF len] by (simp add: in_order_def)
  have first: "meets sure (run_steps [cl_call (lib env) (\<lambda>_. write_input), set_arg env 0 (Buffer_arg ''inputBuffer''),
      \<lambda>(s, k). Some (SDK_SUCCESS, choose_order s, k),
      \<lambda>(s, k). set_arg env 3 (Uint_arg (sortOrder s)) (s, k)]) ?I ?R"
    unfolding start
  proof (intro meets_Cons)
    show "meets sure (cl_call (lib env) (\<lambda>_. write_input)) ?I (?S xs [])"
      by (rule meets_call) (auto simp: ok sorting_fields write_input_def transfer_all nat_power_eq len)
    show "meets sure (set_arg env 0 (Buffer_arg ''inputBuffer'')) (?S xs []) (?S xs [(0, Buffer_arg ''inputBuffer'')])"
    proof -
      have "meets sure (set_arg env 0 (Buffer_arg ''inputBuffer'')) (\<lambda>s. ?S xs [] s \<and> sortOrder s = d)
          (\<lambda>s. ?S xs [(0, Buffer_arg ''inputBuffer'')] s \<and> sortOrder s = d)" for d
        by (rule sorting_arg_ok) (auto simp: ok)
      then show ?thesis unfolding meets_def by blast
    qed
    show "meets sure (\<lambda>(s, k). Some (SDK_SUCCESS, choose_order s, k)) (?S xs [(0, Buffer_arg ''inputBuffer'')])
        (\<lambda>s. ?S xs [(0, Buffer_arg ''inputBuffer'')] s \<and> sortOrder s = order_word b)"
      by (rule meets_local) (auto simp: choose_order_def order_word_def ascending_def sort_word_def sorting_fields)
    have "meets sure (set_arg env 3 (Uint_arg (order_word b)))
        (\<lambda>s. ?S xs [(0, Buffer_arg ''inputBuffer'')] s \<and> sortOrder s = order_word b)
        (\<lambda>s. ?S xs (fixed_args b) s \<and> sortOrder s = order_word b)"
      by (rule sorting_arg_ok) (auto simp: ok)
    then show "meets sure (\<lambda>(s, k). set_arg env 3 (Uint_arg (sortOrder s)) (s, k))
        (\<lambda>s. ?S xs [(0, Buffer_arg ''inputBuffer'')] s \<and> sortOrder s = order_word b)
        (\<lambda>s. ?S xs (fixed_args b) s \<and> sortOrder s = order_word b)"
      unfolding meets_def by simp
  qed (rule meets_Nil)
  have loop: "meets sure (run_steps (map (sort_stage env) [0..<n])) ?R ?F"
    by (rule meets_loop [where I = "\<lambda>w s. ?S (device_array n (ascending b) w 0 xs) (fixed_args b) s \<and> sortOrder s = order_word b"])
      (use sort_stage_ok [OF assms(1,2)] assms(3) len in auto)
  have last_step: "meets sure (run_steps [cl_call (lib env) (\<lambda>_. read_input)]) ?F ?J"
    unfolding stop
    by (intro meets_Cons [OF meets_call meets_Nil])
      (auto simp: ok sorting_fields read_input_def transfer_all nat_power_eq len)
  have "word_of_int (array_length s) = (word_of_nat (2 ^ n) :: 32 word)" if "?I s" for s
    using that by (simp add: sort_idle_def array_prepared_def)
  then have count: "count_stages (word_of_int (array_length s)) = n" if "?I s" for s
    using that n by (simp only: count_stages_power)
  define steps where "steps m = run_steps
      ([cl_call (lib env) (\<lambda>_. write_input), set_arg env 0 (Buffer_arg ''inputBuffer''),
        \<lambda>(s, k). Some (SDK_SUCCESS, choose_order s, k),
        \<lambda>(s, k). set_arg env 3 (Uint_arg (sortOrder s)) (s, k)] @
       map (sort_stage env) [0..<m] @ [cl_call (lib env) (\<lambda>_. read_input)])" for m
  have "meets sure (steps n) ?I ?J"
    unfolding steps_def using meets_append [OF first meets_append [OF loop last_step]] .
  moreover have "runCLKernels_sort env (s, k) = steps n (s, k)" if "?I s" for s k
    using count [OF that] by (simp only: runCLKernels_sort_def steps_def prod.case)
  ultimately show ?thesis unfolding meets_def by metis
qed

section \<open>The parts of the program\<close>

text \<open>The start of \<open>runCLKernels\<close>, and its failure for arrays that are too small.\<close>

lemma runCLKernels_sort_fails:
  assumes "live_env True env" "0 < n" "n < 9"
  shows "fails (runCLKernels_sort env) (\<lambda>s. sort_idle b ts n a s \<and> holds a [] s)"
  unfolding fails_def
proof (intro allI impI)
  fix s k assume s: "sort_idle b ts n a s \<and> holds a [] s"
  let ?S = "\<lambda>as. sorting b ts n a a [] a as"
  have ok: "all_succeed (lib env)" using assms(1) by (simp add: live_env_def)
  have arg: "meets True (set_arg env i v) (?S []) (?S [])" for i v
    unfolding set_arg_def by (rule meets_call) (auto simp: ok sorting_fields)
  have put: "meets True (cl_call (lib env) (\<lambda>_. write_input)) (\<lambda>s. sort_idle b ts n a s \<and> holds a [] s) (?S [])"
    by (rule meets_call) (auto simp: ok sorting_fields write_input_def transfer_all nat_power_eq)
  have choose: "meets True (\<lambda>(s, k). Some (SDK_SUCCESS, choose_order s, k)) (?S []) (?S [])"
    by (rule meets_local) (auto simp: choose_order_def sorting_fields)
  have direction: "meets True (\<lambda>(s, k). set_arg env 3 (Uint_arg (sortOrder s)) (s, k)) (?S []) (?S [])"
    using arg unfolding meets_def by simp
  have start: "meets True (run_steps [cl_call (lib env) (\<lambda>_. write_input),
      set_arg env 0 (Buffer_arg ''inputBuffer''), \<lambda>(s, k). Some (SDK_SUCCESS, choose_order s, k),
      \<lambda>(s, k). set_arg env 3 (Uint_arg (sortOrder s)) (s, k)]) (\<lambda>s. sort_idle b ts n a s \<and> holds a [] s) (?S [])"
    by (rule meets_Cons [OF put meets_Cons [OF arg meets_Cons [OF choose meets_Cons [OF direction meets_Nil]]]])
  have "word_of_int (array_length s) = (word_of_nat (2 ^ n) :: 32 word)"
    using s by (simp add: sort_idle_def array_prepared_def)
  then have "count_stages (word_of_int (array_length s)) = n"
    using assms(3) by (simp only: count_stages_power)
  moreover have "[0..<n] = 0 # [Suc 0..<n]" using assms(2) by (simp add: upt_conv_Cons)
  ultimately show "\<exists>t m. runCLKernels_sort env (s, k) = Some (SDK_FAILURE, t, m)"
    using fails_append [OF start fails_first [OF sort_stage_fails [OF assms]]] s
    unfolding fails_def runCLKernels_sort_def by simp
qed

text \<open>After \<open>run\<close>: the array is in order, and what the host had first is the unsorted array.\<close>

definition before_run :: "sample \<Rightarrow> nat \<Rightarrow> 32 word list \<Rightarrow> timer list \<Rightarrow> bitonic \<Rightarrow> bool" where
  "before_run b n a ts s \<longleftrightarrow> sort_idle b ts n a s \<and> holds a [] s"

definition after_run :: "sample \<Rightarrow> nat \<Rightarrow> 32 word list \<Rightarrow> timer list \<Rightarrow> bitonic \<Rightarrow> bool" where
  "after_run b n a ts s \<longleftrightarrow> sort_idle b ts n a s \<and> sortOrder s = order_word b
     \<and> (\<exists>e. holds (in_order (ascending b) a) e s \<and> e \<noteq> [] \<and> last e = a)"

lemma timed_runs: "timed (before_run b n a)" "timed (after_run b n a)"
  by (auto simp: timed_def before_run_def after_run_def sort_fields)

lemma run_bitonic_ok:
  assumes "live_env sure env" "env_ok env" "sure \<Longrightarrow> n = 0 \<or> 9 \<le> n"
  shows "meets sure (run_bitonic env) (before_run b n a ts) (\<lambda>s. \<exists>ts'. after_run b n a ts' s)"
  unfolding run_bitonic_def
proof (rule run_sample_ok [where it = "int_var ''iterations'' b"])
  let ?R = "runCLKernels_sort env" and ?c = "in_order (ascending b) a"
  show "meets sure ?R (before_run b n a ts) (after_run b n a ts)" for ts
    by (rule meets_conseq [OF runCLKernels_sort_ok [OF assms, where b = b and ts = ts and a = a and xs = a and e = "[]"]])
      (auto simp: before_run_def after_run_def)
  have "meets sure ?R (\<lambda>s. sort_idle b ts n a s \<and> holds ?c e s) (\<lambda>s. sort_idle b ts n a s \<and>
      holds ?c (?c # e) s \<and> sortOrder s = order_word b)" for ts e
    using runCLKernels_sort_ok [OF assms, where b = b and ts = ts and a = a and xs = ?c and e = e] by (simp only: in_order_again)
  then have "meets sure ?R (\<lambda>s. sort_idle b ts n a s \<and> sortOrder s = order_word b \<and> holds ?c e s \<and> e \<noteq> [] \<and> last e = a)
      (\<lambda>s. sort_idle b ts n a s \<and> sortOrder s = order_word b \<and> holds ?c (?c # e) s \<and> (?c # e) \<noteq> [] \<and> last (?c # e) = a)"
    for ts e
    unfolding meets_def by (metis last.simps list.discI)
  then show "meets sure ?R (after_run b n a ts) (after_run b n a ts)" for ts
    unfolding meets_def after_run_def by blast
next
  show "iterations s = int_var ''iterations'' b" if "before_run b n a ts s" for ts s
    using that by (simp add: before_run_def sort_idle_def array_prepared_def iterations_def)
  show "iterations s = int_var ''iterations'' b" if "after_run b n a ts s" for ts s
    using that by (simp add: after_run_def sort_idle_def array_prepared_def iterations_def)
qed (rule timed_runs)+

lemma run_bitonic_fails:
  assumes "live_env True env" "0 < n" "n < 9" "before_run b n a ts s" "1 \<le> iterations s"
  shows "\<exists>t m. run_bitonic env (s, k) = Some (SDK_FAILURE, t, m)"
  unfolding run_bitonic_def
  by (rule run_sample_fails [OF timed_runs(1) _ assms(4,5)])
    (use runCLKernels_sort_fails [OF assms(1-3)] in \<open>simp add: before_run_def\<close>)

text \<open>What the verification reports depends on what the host sees.\<close>

lemma verify_sort_ok:
  assumes "after_run b n a ts s"
  shows "\<exists>t. verify_sort env s = Some
    (if \<not> bool_var ''verify'' b \<or> seen_on_host env (in_order (ascending b) a) (earlier_inputs s) = in_order (ascending b) a
     then SDK_SUCCESS else SDK_FAILURE, t)"
proof (cases "bool_var ''verify'' b")
  case True
  let ?c = "in_order (ascending b) a"
  have s: "input s = Some ?c" "length a = 2 ^ n" "n < 30" "base s = b" "timers s = ts" "array_length s = 2 ^ n"
      "verificationInput s = Some a" "sortOrder s = order_word b"
    using assms True by (auto simp: after_run_def sort_idle_def array_prepared_def holds_def)
  have "order_word b \<noteq> 0 \<longleftrightarrow> ascending b" by (simp add: order_word_def)
  then have ref: "bitonicSortCPUReference (word_of_nat (2 ^ n)) (order_word b) a = Some ?c"
    using reference_sorts [of n a] s(2,3) by (simp add: in_order_def del: of_nat_power)
  have len: "word_of_int (array_length s) = (word_of_nat (2 ^ n) :: 32 word)" "nat (array_length s) = 2 ^ n"
    by (simp_all add: s(6) nat_power_eq)
  obtain t0 where t0: "begin_timer (clock env ''reference begin'') ts = Some (int (length ts), ts @ [t0])"
    using begin_timer_ok by blast
  obtain t1 ts1 where t1: "end_timer (clock env ''reference end'') (int (length ts)) (ts @ [t0]) = Some (t1, ts1)"
    using end_timer_ok by blast
  have seen: "length (seen_on_host env ?c e) = 2 ^ n" for e by (simp add: seen_on_host_def s(2))
  show ?thesis
    unfolding verify_sort_def len using True s ref t0 t1 seen by (auto simp: Let_def)
next
  case False
  then show ?thesis using assms by (simp add: verify_sort_def after_run_def sort_idle_def array_prepared_def)
qed

lemma seen_all: "(\<And>i. i < length xs \<Longrightarrow> pending env (length e) i = 0) \<Longrightarrow> seen_on_host env xs e = xs"
  by (auto simp: seen_on_host_def intro!: nth_equalityI)

lemma seen_none:
  assumes "\<And>i. length e \<le> pending env (length e) i" "e \<noteq> []" "last e = a" "length a = length xs"
  shows "seen_on_host env xs e = a"
  using assms by (auto simp: seen_on_host_def min_absorb2 last_conv_nth intro!: nth_equalityI)

lemma cleanup_sort_ok:
  assumes "all_succeed (lib env)"
  shows "\<exists>t k'. cleanup_sort env (s, k) = Some (SDK_SUCCESS, t, k')
    \<and> input t = None \<and> verificationInput t = None \<and> cl_devices t = None \<and> cl_context t = None
    \<and> commandQueue t = None \<and> inputBuffer t = None \<and> cl_program t = None \<and> cl_kernel t = None"
  using assms by (simp add: cleanup_sort_def run_steps.simps cl_call_def all_succeed_def)

text \<open>\<open>setup\<close> on a length between 1 and 2^30.\<close>

lemma setup_bitonic_refuses:
  assumes "1 \<le> iterations s" "0 < array_length s" "array_length s < 2 ^ 30" "\<not> (\<exists>n. array_length s = 2 ^ n)"
  shows "setup_bitonic env (s, k) = Some (Returned SDK_FAILURE, s, k)"
  using assms power_of_two_test by (auto simp: setup_bitonic_def Let_def fits_int_def)

lemma setup_bitonic_timed:
  assumes "1 \<le> iterations s" "array_length s = 2 ^ n" "n < 30" "setupBitonicSort env s = Some (SDK_SUCCESS, s1)"
  shows "setup_bitonic env (s, k) = returning (timed_setup env (setupCL_sort env)) (s1, k)"
proof -
  have "(2 :: int) ^ n \<le> 2 ^ 29" using assms(3) by (intro power_increasing) simp_all
  moreover have "- 2147483648 < (2 :: int) ^ n" by (rule less_le_trans [of _ 0]) simp_all
  ultimately have "fits_int (array_length s - 1)" unfolding assms(2) fits_int_def by auto
  moreover have "array_length s AND (array_length s - 1) = 0"
    using power_of_two_test [of "array_length s"] assms(2) by auto
  ultimately show ?thesis using assms(1,4) by (simp add: setup_bitonic_def Let_def)
qed

lemma setup_bitonic_ok:
  assumes "sure \<Longrightarrow> usable env sort_kernel_file s0" "env_ok env" "1 \<le> iterations s0" "array_length s0 = 2 ^ n" "n < 30"
  shows "\<exists>s1 a. setup_bitonic env (s0, k) = returning (timed_setup env (setupCL_sort env)) (s1, k)
    \<and> setupBitonicSort env s0 = Some (SDK_SUCCESS, s1) \<and> input s1 = Some a
    \<and> meets sure (timed_setup env (setupCL_sort env)) (\<lambda>s. s = s1) (\<lambda>s. \<exists>ts. before_run (base s0) n a ts s)"
proof -
  obtain a s1 where s1: "setupBitonicSort env s0 = Some (SDK_SUCCESS, s1)"
      "array_prepared (base s0) (timers s0) n a s1" "holds a [] s1"
    using setup_array_ok [OF assms(2,4,5)] by blast
  have use: "usable env sort_kernel_file (s1\<lparr>timers := ts\<rparr>)" if sure for ts
    by (rule usable_base [OF assms(1) [OF that]]) (use s1(2) in \<open>simp add: array_prepared_def\<close>)
  have "meets sure (setupCL_sort env) (\<lambda>s. s = s1\<lparr>timers := ts\<rparr>) (before_run (base s0) n a ts)" for ts
    unfolding before_run_def
    by (rule setupCL_sort_ok [OF use]) (use s1(2,3) in \<open>auto simp: sort_fields\<close>)
  then have "meets sure (timed_setup env (setupCL_sort env)) (\<lambda>s. s = s1) (\<lambda>s. \<exists>ts. before_run (base s0) n a ts s)"
    by (intro timed_setup_ok timed_runs)
  then show ?thesis using setup_bitonic_timed [OF assms(3-5) s1(1)] s1(1,3) by (auto simp: holds_def)
qed

lemma setup_bitonic_succeeds:
  assumes "usable env sort_kernel_file s0" "env_ok env" "1 \<le> iterations s0" "array_length s0 = 2 ^ n" "n < 30"
  shows "\<exists>s1 k1 a ts. setup_bitonic env (s0, k) = Some (Returned SDK_SUCCESS, s1, k1) \<and> before_run (base s0) n a ts s1
    \<and> (\<exists>s. setupBitonicSort env s0 = Some (SDK_SUCCESS, s) \<and> input s = Some a)"
proof -
  obtain s a where s: "setup_bitonic env (s0, k) = returning (timed_setup env (setupCL_sort env)) (s, k)"
      "setupBitonicSort env s0 = Some (SDK_SUCCESS, s)" "input s = Some a"
      "meets True (timed_setup env (setupCL_sort env)) (\<lambda>t. t = s) (\<lambda>t. \<exists>ts. before_run (base s0) n a ts t)"
    using setup_bitonic_ok [OF assms, where sure = True] by blast
  obtain t m ts where t: "timed_setup env (setupCL_sort env) (s, k) = Some (SDK_SUCCESS, t, m)"
      "before_run (base s0) n a ts t"
    using meets_sure [OF s(4) refl, of k] by blast
  then have "setup_bitonic env (s0, k) = Some (Returned SDK_SUCCESS, t, m)"
    using s(1) by (simp add: returning_iff)
  then show ?thesis using t(2) s(2,3) by blast
qed

lemma setup_bitonic_success:
  assumes "env_ok env" "0 < array_length s0" "array_length s0 < 2 ^ 30"
    and "setup_bitonic env (s0, k) = Some (Returned SDK_SUCCESS, s1, k1)"
  shows "\<exists>n a ts. n < 30 \<and> array_length s0 = 2 ^ n \<and> before_run (base s0) n a ts s1"
proof -
  have it: "1 \<le> iterations s0" using assms(4) by (auto simp: setup_bitonic_def Let_def split: if_splits)
  have "\<exists>n. array_length s0 = 2 ^ n"
    using setup_bitonic_refuses [OF it assms(2,3), of env k] assms(4) by auto
  then obtain n where n: "array_length s0 = 2 ^ n" by blast
  then have "(2 :: int) ^ n < 2 ^ 30" using assms(3) by simp
  then have n30: "n < 30" by (simp only: power_strict_increasing_iff)
  obtain s a where s: "setup_bitonic env (s0, k) = returning (timed_setup env (setupCL_sort env)) (s, k)"
      "meets False (timed_setup env (setupCL_sort env)) (\<lambda>t. t = s) (\<lambda>t. \<exists>ts. before_run (base s0) n a ts t)"
    using setup_bitonic_ok [OF _ assms(1) it n n30, where sure = False] by blast
  have "timed_setup env (setupCL_sort env) (s, k) = Some (SDK_SUCCESS, s1, k1)"
    using assms(4) unfolding s(1) returning_iff .
  then have "\<exists>ts. before_run (base s0) n a ts s1" using meetsD [OF s(2) refl] by blast
  then show ?thesis using n n30 by blast
qed

end
