(* ===== verification/Bitonic_Props.thy ===== *)
theory Bitonic_Props
  imports Bitonic_Run
begin

text \<open>
  The properties of the sorting sample: the reference sorts, the device does so in every order of
  its work items, and what a run of the whole program amounts to, in which nothing waits for the
  result to arrive on the host.
\<close>

section \<open>The reference and the device\<close>

text \<open>C25.
  The reference on the host sorts: on an array of 2^n elements, n below 31, it ends with the
  elements in ascending order when its flag is set and in descending order otherwise.\<close>

theorem bitonic_reference_sorts:
  assumes "n < 31" "length xs = 2 ^ n"
  shows "\<exists>ys. bitonicSortCPUReference (word_of_nat (2 ^ n)) sortIncreasing xs = Some ys \<and>
    mset ys = mset xs \<and> (if sortIncreasing \<noteq> 0 then sorted ys else sorted (rev ys))"
  using reference_sorts [OF assms] by simp

theorem bitonic_reference_sorts_witness:
  "\<exists>ys. bitonicSortCPUReference (word_of_nat (2 ^ 3)) 0 [3, 1, 4, 1, 5, 9, 2, 6] = Some ys \<and>
    mset ys = mset [3, 1, 4, 1, 5, 9, 2, 6] \<and> (if (0 :: 32 word) \<noteq> 0 then sorted ys else sorted (rev ys))"
  by (rule bitonic_reference_sorts) simp_all

text \<open>C26.
  The launches of all passes of all stages leave the array that the reference computes, whatever
  the order in which the work items of each launch run, although the two put the blocks of the
  earlier stages in different orders.\<close>

theorem bitonic_device_equals_reference:
  assumes "n < 31" "length xs = 2 ^ n" "direction = 0 \<or> direction = 1"
    and "\<And>w p. p \<le> w \<Longrightarrow> w < n \<Longrightarrow> runs_all (items2 (2 ^ n div 2) 1) (sched w p)"
  shows "\<exists>ys. bitonicSortCPUReference (word_of_nat (2 ^ n)) direction xs = Some ys \<and>
    for_loop 0 n (\<lambda>w. for_loop 0 (w + 1) (\<lambda>p.
      foldM (bitonicSort (word_of_nat w) (word_of_nat p) direction) (sched w p))) xs = Some ys"
proof -
  let ?u = "direction = 1" and ?A = "\<lambda>w p. device_array n (direction = 1) w p xs"
  let ?pass = "\<lambda>w p. foldM (bitonicSort (word_of_nat w) (word_of_nat p) direction) (sched w p)"
  have pass: "?pass w p (?A w p) = Some (?A w (Suc p))" if "w < n" "p \<le> w" for w p
  proof -
    have "(2 :: nat) ^ n div 2 = 2 ^ (n - 1)" using that by (cases n) simp_all
    then have "runs_all (items2 (2 ^ (n - 1)) 1) (sched w p)" using assms(4) [of p w] that by simp
    then show ?thesis using device_array_pass [of w n p direction] that assms(1,3) by simp
  qed
  have "yields (for_loop 0 (w + 1) (?pass w) (?A w 0)) (\<lambda>s. s = ?A w (w + 1))" if "w < n" for w
    by (rule for_loop_yields [where I = "\<lambda>p s. s = ?A w p"]) (use pass that in auto)
  then have stage: "for_loop 0 (w + 1) (?pass w) (?A w 0) = Some (?A (Suc w) 0)" if "w < n" for w
    using that device_array_stage [of n ?u w xs] by (simp add: yields_eq)
  have "yields (for_loop 0 n (\<lambda>w. for_loop 0 (w + 1) (?pass w)) xs) (\<lambda>s. s = ?A n 0)"
    by (rule for_loop_yields [where I = "\<lambda>w s. s = ?A w 0"])
      (use stage device_array_start [OF assms(2), of ?u] in auto)
  then have "for_loop 0 n (\<lambda>w. for_loop 0 (w + 1) (?pass w)) xs = Some (?A n 0)" by (simp add: yields_eq)
  moreover have "direction \<noteq> 0 \<longleftrightarrow> ?u" using assms(3) by auto
  ultimately show ?thesis
    using reference_sorts [OF assms(1,2), of direction] device_array_end [OF assms(2), of ?u] by simp
qed

theorem bitonic_device_equals_reference_witness:
  "\<exists>ys. bitonicSortCPUReference (word_of_nat (2 ^ 3)) 1 [3, 1, 4, 1, 5, 9, 2, 6] = Some ys \<and>
    for_loop 0 3 (\<lambda>w. for_loop 0 (w + 1) (\<lambda>p.
      foldM (bitonicSort (word_of_nat w) (word_of_nat p) 1) (rev (row_by_row 4 1)))) [3, 1, 4, 1, 5, 9, 2, 6] = Some ys"
proof (rule bitonic_device_equals_reference)
  show "runs_all (items2 (2 ^ 3 div 2) 1) (rev (row_by_row 4 1))"
    using row_by_row_runs_all [of 4 1] by (simp add: runs_all_def)
qed simp_all

section \<open>The program\<close>

text \<open>C27.
  Whatever the OpenCL library answers: when \<open>setup\<close> and \<open>run\<close> report success, for any number of
  iterations, the transfers leave on the host the array that was set up, in the order asked for;
  \<open>verifyResults\<close> ends, and reports success exactly when what the host sees at that moment is this
  array (or verification is off).  When every transfer has arrived, it is.\<close>

theorem successful_sort_is_correct:
  assumes "env_ok env" "0 < array_length s" "array_length s < 2 ^ 30"
    and "setup_bitonic env (s, k) = Some (Returned SDK_SUCCESS, s1, k1)"
    and "run_bitonic env (s1, k1) = Some (SDK_SUCCESS, s2, k2)"
  shows "\<exists>a c t. input s1 = Some a \<and> input s2 = Some c \<and>
    c = (if sort_word s = ''asc'' then sort a else rev (sort a)) \<and>
    verify_sort env s2 = Some
      (if \<not> bool_var ''verify'' (base s) \<or> seen_on_host env c (earlier_inputs s2) = c
       then SDK_SUCCESS else SDK_FAILURE, t) \<and>
    ((\<forall>m i. pending env m i = 0) \<longrightarrow> seen_on_host env c (earlier_inputs s2) = c)"
proof -
  obtain n a ts where i1: "before_run (base s) n a ts s1"
    using setup_bitonic_success [OF assms(1-4)] by blast
  have "live_env False env" by (simp add: live_env_def)
  from meetsD [OF run_bitonic_ok [OF this assms(1)] i1 assms(5)]
  obtain ts' where i2: "after_run (base s) n a ts' s2" by blast
  let ?c = "in_order (ascending (base s)) a"
  have "input s1 = Some a" "input s2 = Some ?c"
    using i1 i2 by (auto simp: before_run_def after_run_def holds_def)
  moreover have "?c = (if sort_word s = ''asc'' then sort a else rev (sort a))"
    by (simp add: in_order_def ascending_def sort_word_def)
  moreover have "(\<forall>m i. pending env m i = 0) \<longrightarrow> seen_on_host env ?c (earlier_inputs s2) = ?c"
    by (intro impI seen_all) simp
  moreover obtain t where "verify_sort env s2 = Some
      (if \<not> bool_var ''verify'' (base s) \<or> seen_on_host env ?c (earlier_inputs s2) = ?c
       then SDK_SUCCESS else SDK_FAILURE, t)"
    using verify_sort_ok [OF i2, of env] by blast
  ultimately show ?thesis by (intro exI conjI)
qed

abbreviation sort_demo :: run_env where
  "sort_demo \<equiv> demo_env sort_kernel_file"

lemma new_bitonic_fields:
  "iterations new_bitonic = 1" "array_length new_bitonic = 2 ^ 10" "sort_word new_bitonic = ''desc''"
  by (simp_all add: new_bitonic_def set_base_var_def iterations_def array_length_def sort_word_def
      int_var_def string_var_def)

lemma sort_demo_usable: "usable (demo_env sort_kernel_file) sort_kernel_file new_bitonic"
  by (rule demo_env_usable)
    (simp_all add: new_bitonic_def set_base_var_def int_var_def string_var_def new_sample_def)

lemma enough_elements: "(9 :: nat) = 0 \<or> 9 \<le> (9 :: nat)" "(10 :: nat) = 0 \<or> 9 \<le> (10 :: nat)"
  by simp_all

theorem successful_sort_is_correct_witness:
  "\<exists>s1 k1 s2 k2 a. setup_bitonic sort_demo (new_bitonic, 0) = Some (Returned SDK_SUCCESS, s1, k1) \<and>
    run_bitonic sort_demo (s1, k1) = Some (SDK_SUCCESS, s2, k2) \<and>
    input s1 = Some a \<and> input s2 = Some (rev (sort a)) \<and>
    (\<exists>t. verify_sort sort_demo s2 = Some (SDK_SUCCESS, t))"
proof -
  have pos: "0 < array_length new_bitonic" "array_length new_bitonic < 2 ^ 30"
    by (simp_all add: new_bitonic_fields)
  obtain s1 k1 a ts where s1: "setup_bitonic sort_demo (new_bitonic, 0) = Some (Returned SDK_SUCCESS, s1, k1)"
      "before_run (base new_bitonic) 10 a ts s1"
    using setup_bitonic_succeeds [OF sort_demo_usable demo_env_ok(1) _ new_bitonic_fields(2), of 0]
      new_bitonic_fields(1) by auto
  obtain s2 k2 where s2: "run_bitonic sort_demo (s1, k1) = Some (SDK_SUCCESS, s2, k2)"
    using meets_sure [OF run_bitonic_ok [OF demo_env_ok(2,1) enough_elements(2)] s1(2)] by blast
  have "pending sort_demo m i = 0" for m i by (simp add: demo_env_def)
  then show ?thesis
    using successful_sort_is_correct [OF demo_env_ok(1) pos s1(1) s2] s1(1) s2 new_bitonic_fields(3) by auto
qed

text \<open>C28.
  The program does not wait for the result: when every call succeeds but no element of the transfers
  has arrived by the time \<open>verifyResults\<close> looks at the array, it finds the unsorted array and reports
  failure, unless that array was in order from the start.\<close>

theorem unsynchronised_verification_fails:
  assumes "env_ok env" "0 < array_length s" "array_length s < 2 ^ 30" "bool_var ''verify'' (base s)"
    and "setup_bitonic env (s, k) = Some (Returned SDK_SUCCESS, s1, k1)" "input s1 = Some a"
    and "run_bitonic env (s1, k1) = Some (SDK_SUCCESS, s2, k2)"
    and "\<And>m i. m \<le> pending env m i"
  shows "\<exists>c t. input s2 = Some c \<and> c = (if sort_word s = ''asc'' then sort a else rev (sort a)) \<and>
    verify_sort env s2 = Some (if c = a then SDK_SUCCESS else SDK_FAILURE, t)"
proof -
  obtain n a' ts where i1: "before_run (base s) n a' ts s1"
    using setup_bitonic_success [OF assms(1-3,5)] by blast
  then have a: "a' = a" using assms(6) by (simp add: before_run_def holds_def)
  have "live_env False env" by (simp add: live_env_def)
  from meetsD [OF run_bitonic_ok [OF this assms(1)] i1 assms(7)]
  obtain ts' where i2: "after_run (base s) n a ts' s2" unfolding a by blast
  let ?c = "in_order (ascending (base s)) a"
  have c: "input s2 = Some ?c" "earlier_inputs s2 \<noteq> []" "last (earlier_inputs s2) = a" "length a = length ?c"
    using i2 by (auto simp: after_run_def holds_def)
  have "?c = (if sort_word s = ''asc'' then sort a else rev (sort a))"
    by (simp add: in_order_def ascending_def sort_word_def)
  moreover have "seen_on_host env ?c (earlier_inputs s2) = a" by (rule seen_none [OF assms(8) c(2-4)])
  moreover obtain t where "verify_sort env s2 = Some (if ?c = a then SDK_SUCCESS else SDK_FAILURE, t)"
    using verify_sort_ok [OF i2, of env] assms(4) calculation(2) by (cases "?c = a") auto
  ultimately show ?thesis using c(1) by (intro exI conjI)
qed

definition late_sort :: bitonic where
  "late_sort = set_base_var ''verify'' (Bool_val True) (set_base_var ''length'' (Int_val 512) new_bitonic)"

definition late_env :: run_env where
  "late_env = (demo_env sort_kernel_file)
     \<lparr>rand := \<lambda>i. if i = 0 then 0 else 1000000000, pending := \<lambda>m _. m\<rparr>"

lemma late_env_ok: "env_ok late_env" "live_env True late_env" "usable late_env sort_kernel_file late_sort"
proof -
  show "env_ok late_env" "live_env True late_env"
    using demo_env_ok [of sort_kernel_file] by (auto simp: env_ok_def live_env_def late_env_def RAND_MAX_def)
  have "usable (demo_env sort_kernel_file) sort_kernel_file late_sort"
    by (rule demo_env_usable)
      (simp_all add: late_sort_def new_bitonic_def set_base_var_def int_var_def string_var_def new_sample_def)
  then show "usable late_env sort_kernel_file late_sort" by (simp add: usable_def late_env_def)
qed

lemma late_sort_fields:
  "iterations late_sort = 1" "array_length late_sort = 2 ^ 9" "bool_var ''verify'' (base late_sort)"
  "sort_word late_sort = ''desc''"
  by (simp_all add: late_sort_def new_bitonic_def set_base_var_def iterations_def array_length_def
      int_var_def bool_var_def sort_word_def string_var_def)

text \<open>The first number drawn is 0, the others are 477, so the array is not in descending order.\<close>

lemma late_random:
  assumes "setupBitonicSort late_env late_sort = Some (SDK_SUCCESS, s)" "input s = Some a"
  shows "a ! 0 = 0 \<and> a ! 1 = 477"
proof -
  let ?arr = "fresh_array late_env ''input'' 512"
  have "random_value 0 (random_range 0 1024) 0 = Some (0 :: 32 word)"
      "random_value 0 (random_range 0 1024) 1000000000 = Some (477 :: 32 word)"
    by code_simp+
  then have "yields (fill_loops 512 1 (\<lambda>i j. random_value 0 (random_range 0 1024) (rand late_env (i * 512 + j))) ?arr)
      (\<lambda>a. a ! 0 = 0 \<and> a ! 1 = 477)"
    by (intro yields_mono [OF fill_loops_all [where P = "\<lambda>i v. v = (if i = 0 then 0 else 477)"]])
      (auto simp: late_env_def split: if_splits)
  then show ?thesis
    using assms late_sort_fields(2)
    by (auto simp: setupBitonicSort_def fillRandom_def yields_def Let_def bind_eq_Some_conv transfer_all split: if_splits)
qed

theorem unsynchronised_verification_fails_witness:
  "\<exists>s1 k1 a s2 k2 t. setup_bitonic late_env (late_sort, 0) = Some (Returned SDK_SUCCESS, s1, k1) \<and>
    input s1 = Some a \<and> length a = 512 \<and> run_bitonic late_env (s1, k1) = Some (SDK_SUCCESS, s2, k2) \<and>
    input s2 = Some (rev (sort a)) \<and> verify_sort late_env s2 = Some (SDK_FAILURE, t)"
proof -
  obtain s1 k1 a ts s where s1: "setup_bitonic late_env (late_sort, 0) = Some (Returned SDK_SUCCESS, s1, k1)"
      "before_run (base late_sort) 9 a ts s1"
      and s: "setupBitonicSort late_env late_sort = Some (SDK_SUCCESS, s)" "input s = Some a"
    using setup_bitonic_succeeds [OF late_env_ok(3,1) _ late_sort_fields(2), of 0]
      late_sort_fields(1) by auto
  have i1: "input s1 = Some a" "length a = 512"
    using s1(2) by (simp_all add: before_run_def holds_def sort_idle_def array_prepared_def)
  have "rev (sort a) \<noteq> a"
  proof
    assume "rev (sort a) = a"
    then have "sorted (rev a)" by (metis rev_rev_ident sorted_sort)
    moreover have "rev a ! 510 = a ! 1" "rev a ! 511 = a ! 0" using i1(2) by (simp_all add: rev_nth)
    ultimately have "a ! 1 \<le> a ! 0" using sorted_nth_mono [of "rev a" 510 511] i1(2) by simp
    then show False using late_random [OF s] by simp
  qed
  moreover obtain s2 k2 where s2: "run_bitonic late_env (s1, k1) = Some (SDK_SUCCESS, s2, k2)"
    using meets_sure [OF run_bitonic_ok [OF late_env_ok(2,1) enough_elements(1)] s1(2)] by blast
  moreover have "0 < array_length late_sort" "array_length late_sort < 2 ^ 30" "m \<le> pending late_env m i" for m i
    by (simp_all add: late_sort_fields late_env_def)
  ultimately show ?thesis
    using unsynchronised_verification_fails [OF late_env_ok(1) _ _ late_sort_fields(3) s1(1) i1(1) s2] s1(1) i1
      late_sort_fields(4) by auto
qed

text \<open>C29.
  A command line that is accepted and uses none of \<open>--dump\<close>, \<open>--load\<close> and \<open>--flags\<close>, with a length of 1
  to 2^30 - 1, leads \<open>main\<close> to an end when the library works and the transfers arrive in time: without an
  iteration the program leaves with \<open>exit(0)\<close>; otherwise it ends with success, with the OpenCL objects
  released and the arrays freed, exactly when the length is 1 or a power of two that is at least 512, twice
  the size of a work group.  It fails for a length that is no power of two, and for the powers of two from
  2 to 256, whose launches the library refuses.\<close>

theorem bitonic_program_ends:
  assumes "initialize_bitonic new_bitonic = Some (SDK_SUCCESS, s0)"
    and "parseCommandLine ((lib env)\<lparr>answers := check_answers env\<rparr>) argv (base s0) = Some (Returned SDK_SUCCESS, b)"
    and "\<not> isDumpBinaryEnabled b" "usable env sort_kernel_file (s0\<lparr>base := b\<rparr>)" "env_ok env"
    and "0 < int_var ''length'' b" "int_var ''length'' b < 2 ^ 30" "\<And>m i. pending env m i = 0"
  shows "\<exists>out t. main_bitonic env argv = Some (out, t, run_files env) \<and>
    out = (if int_var ''iterations'' b < 1 then Exited 0
           else if int_var ''length'' b = 1 \<or> 512 \<le> int_var ''length'' b \<and> (\<exists>n. int_var ''length'' b = 2 ^ n)
           then Returned SDK_SUCCESS else Returned SDK_FAILURE) \<and>
    (out = Returned SDK_SUCCESS \<longrightarrow> input t = None \<and> verificationInput t = None \<and> cl_devices t = None \<and>
      cl_context t = None \<and> commandQueue t = None \<and> inputBuffer t = None \<and> cl_program t = None \<and> cl_kernel t = None)"
proof -
  let ?s = "s0\<lparr>base := b\<rparr>"
  have main: "main_bitonic env argv = Some (out, t, run_files env)"
    if "bitonic_work env (?s, 0) = Some (out, t, k)" for out t k
    unfolding main_bitonic_def
    by (rule main_sample_ok [OF assms(1) [unfolded initialize_bitonic_def] assms(2,3)]) (rule that)
  have s: "iterations ?s = int_var ''iterations'' b" "array_length ?s = int_var ''length'' b"
    by (simp_all add: iterations_def array_length_def)
  consider "int_var ''iterations'' b < 1" | "1 \<le> int_var ''iterations'' b" "\<not> (\<exists>n. int_var ''length'' b = 2 ^ n)"
    | n where "1 \<le> int_var ''iterations'' b" "int_var ''length'' b = 2 ^ n"
    by (meson not_le)
  then show ?thesis
  proof cases
    case 1
    then have "bitonic_work env (?s, 0) = Some (Exited 0, ?s, 0)"
      using s by (simp add: bitonic_work_def setup_bitonic_def)
    then show ?thesis using main 1 by fastforce
  next
    case 2
    then have "setup_bitonic env (?s, 0) = Some (Returned SDK_FAILURE, ?s, 0)"
      using assms(6,7) s by (intro setup_bitonic_refuses) simp_all
    then have "bitonic_work env (?s, 0) = Some (Returned SDK_FAILURE, ?s, 0)" by (simp add: bitonic_work_def)
    moreover have "int_var ''length'' b \<noteq> 1" using 2(2) by (metis power_0)
    ultimately show ?thesis using main 2 by fastforce
  next
    case 3
    have large: "512 \<le> (2 :: int) ^ n \<longleftrightarrow> 9 \<le> n" using power_increasing_iff [of "2 :: int" 9 n] by simp
    have one: "(2 :: int) ^ n = 1 \<longleftrightarrow> n = 0" using power_inject_exp [of "2 :: int" n 0] by simp
    have "(2 :: int) ^ n < 2 ^ 30" using 3(2) assms(7) by simp
    then have n: "n < 30" by (simp only: power_strict_increasing_iff)
    have live: "live_env True env" "all_succeed (lib env)" using assms(4) by (auto simp: live_env_def usable_def)
    obtain s1 k1 a ts where s1: "setup_bitonic env (?s, 0) = Some (Returned SDK_SUCCESS, s1, k1)"
        "before_run b n a ts s1"
      using setup_bitonic_succeeds [OF assms(4,5) _ _ n, of 0] s 3 by auto
    show ?thesis
    proof (cases "n = 0 \<or> 9 \<le> n")
      case False
      then have small: "0 < n" "n < 9" by simp_all
      have "1 \<le> iterations s1"
        using s1(2) 3(1) by (simp add: before_run_def sort_idle_def array_prepared_def iterations_def)
      then obtain t m where "run_bitonic env (s1, k1) = Some (SDK_FAILURE, t, m)"
        using run_bitonic_fails [OF live(1) small s1(2)] by blast
      then have "bitonic_work env (?s, 0) = Some (Returned SDK_FAILURE, t, m)"
        by (simp add: bitonic_work_def s1(1) returning_def run_steps.simps)
      from main [OF this] show ?thesis using 3 False large one by (intro exI [of _ "Returned SDK_FAILURE"] exI [of _ t]) auto
    next
      case True
      obtain s2 k2 ts' where s2: "run_bitonic env (s1, k1) = Some (SDK_SUCCESS, s2, k2)" "after_run b n a ts' s2"
        using meets_sure [OF run_bitonic_ok [OF live(1) assms(5)] s1(2)] True by blast
      have "seen_on_host env (in_order (ascending b) a) (earlier_inputs s2) = in_order (ascending b) a"
        by (rule seen_all) (rule assms(8))
      then obtain s3 where s3: "verify_sort env s2 = Some (SDK_SUCCESS, s3)"
        using verify_sort_ok [OF s2(2), of env] by auto
      obtain t k' where t: "cleanup_sort env (s3, k2) = Some (SDK_SUCCESS, t, k')" "input t = None"
          "verificationInput t = None" "cl_devices t = None" "cl_context t = None" "commandQueue t = None"
          "inputBuffer t = None" "cl_program t = None" "cl_kernel t = None"
        using cleanup_sort_ok [OF live(2)] by blast
      have "bitonic_work env (?s, 0) = Some (Returned SDK_SUCCESS, t, k')"
        by (simp add: bitonic_work_def s1(1) returning_iff run_steps.simps s2(1) s3 t(1))
      from main [OF this] show ?thesis using 3 True large one t by (intro exI [of _ "Returned SDK_SUCCESS"] exI [of _ t]) auto
    qed
  qed
qed

definition sort_start :: bitonic where
  "sort_start = snd (the (initialize_bitonic new_bitonic))"

definition sort_args :: "string list" where
  "sort_args = [''BitonicSort'', ''-e'', ''-s'', ''asc'', ''-x'', ''512'']"

lemma sort_start_ok: "initialize_bitonic new_bitonic = Some (SDK_SUCCESS, sort_start)"
proof -
  have "map_option fst (initialize_bitonic new_bitonic) = Some SDK_SUCCESS" by code_simp
  then show ?thesis by (auto simp: sort_start_def)
qed

lemma sort_parse:
  "map_option (\<lambda>(o', b). (o', isDumpBinaryEnabled b, enablePlatform b, int_var ''deviceId'' b, gpu b,
      string_var ''deviceType'' b, string_var ''loadBinary'' b, string_var ''flags'' b,
      int_var ''length'' b, int_var ''iterations'' b))
    (parseCommandLine ((lib sort_demo)\<lparr>answers := check_answers sort_demo\<rparr>) sort_args (base sort_start))
   = Some (Returned SDK_SUCCESS, False, False, 0, True, ''gpu'', [], [], 512, 1)"
  by code_simp

theorem bitonic_program_ends_witness:
  "\<exists>t. main_bitonic sort_demo sort_args = Some (Returned SDK_SUCCESS, t, run_files sort_demo) \<and>
    input t = None \<and> cl_context t = None"
proof -
  obtain b where b: "parseCommandLine ((lib sort_demo)\<lparr>answers := check_answers sort_demo\<rparr>) sort_args
      (base sort_start) = Some (Returned SDK_SUCCESS, b)"
      "\<not> isDumpBinaryEnabled b" "\<not> enablePlatform b" "int_var ''deviceId'' b = 0" "gpu b"
      "string_var ''deviceType'' b = ''gpu''" "string_var ''loadBinary'' b = []" "string_var ''flags'' b = []"
      "int_var ''length'' b = 512" "int_var ''iterations'' b = 1"
    using sort_parse by auto
  then have "usable sort_demo sort_kernel_file (sort_start\<lparr>base := b\<rparr>)" by (intro demo_env_usable) simp_all
  moreover have "pending sort_demo m i = 0" for m i by (simp add: demo_env_def)
  moreover have "\<exists>n. int_var ''length'' b = 2 ^ n" using b(9) by (intro exI [of _ 9]) simp
  ultimately show ?thesis
    using bitonic_program_ends [OF sort_start_ok b(1,2) _ demo_env_ok(1)] b(9,10) by auto
qed

end
