(* ===== verification/Bfs.thy ===== *)
theory Bfs
  imports Sdk_Host
begin

text \<open>
  The test program \<open>cl_testbench/bfs\<close>: breadth-first search from node 0, on the device by two kernels
  per level, and on the host for comparison.  It does not use the support library but the helpers of
  \<open>CLHelper.h\<close>.  They are modelled as the Makefile's default target builds them, without \<open>ERRMSG\<close>:
  most of them record the status of a call and go on.  Only the initialisation and the release throw;
  the handler then releases uninitialised or already released handles, which is undefined behaviour,
  \<^const>\<open>None\<close>.
\<close>

section \<open>Graphs and the arrays of a search\<close>

record node =
  starting :: int
  no_of_edges :: int

record graph =
  graph_nodes :: "node list"
  graph_edges :: "int list"

text \<open>The masks are arrays of \<open>char\<close>; \<open>over\<close> is the flag of the last level (\<open>stop\<close> on the host).\<close>

record search =
  graph_mask :: "8 word list"
  updating_mask :: "8 word list"
  visited :: "8 word list"
  cost :: "int list"
  over :: "8 word"

definition int_at :: "'a list \<Rightarrow> int \<Rightarrow> 'a option" where
  "int_at xs i = (if i < 0 then None else arg_at xs (nat i))"

definition int_set :: "'a list \<Rightarrow> int \<Rightarrow> 'a \<Rightarrow> 'a list option" where
  "int_set xs i x = (if i < 0 then None else set_at xs (nat i) x)"

definition checked :: "int \<Rightarrow> int option" where
  "checked i = (if fits_int i then Some i else None)"

section \<open>The search on the host\<close>

text \<open>The loop over the edges of a node; the text of the kernel is the same.\<close>

definition visit_edge :: "graph \<Rightarrow> int \<Rightarrow> int \<Rightarrow> search \<Rightarrow> search option" where
  "visit_edge g tid i s =
     do { id \<leftarrow> int_at (graph_edges g) i;
          seen \<leftarrow> int_at (visited s) id;
          if seen = 0 then
            do { c \<leftarrow> int_at (cost s) tid;
                 c' \<leftarrow> checked (c + 1);
                 cost' \<leftarrow> int_set (cost s) id c';
                 mask' \<leftarrow> int_set (updating_mask s) id 1;
                 Some (s\<lparr>cost := cost', updating_mask := mask'\<rparr>) }
          else Some s }"

definition visit_edges :: "graph \<Rightarrow> int \<Rightarrow> search \<Rightarrow> search option" where
  "visit_edges g tid s =
     do { nd \<leftarrow> int_at (graph_nodes g) tid;
          last \<leftarrow> checked (no_of_edges nd + starting nd);
          foldM (visit_edge g tid) [starting nd..last - 1] s }"

definition cpu_visit :: "graph \<Rightarrow> nat \<Rightarrow> search \<Rightarrow> search option" where
  "cpu_visit g tid s =
     do { m \<leftarrow> arg_at (graph_mask s) tid;
          if m = 1 then
            do { mask' \<leftarrow> set_at (graph_mask s) tid 0; visit_edges g (int tid) (s\<lparr>graph_mask := mask'\<rparr>) }
          else Some s }"

definition enter_level :: "int \<Rightarrow> search \<Rightarrow> search option" where
  "enter_level tid s =
     do { mask' \<leftarrow> int_set (graph_mask s) tid 1;
          visited' \<leftarrow> int_set (visited s) tid 1;
          updating' \<leftarrow> int_set (updating_mask s) tid 0;
          Some (s\<lparr>graph_mask := mask', visited := visited', over := 1, updating_mask := updating'\<rparr>) }"

definition cpu_update :: "nat \<Rightarrow> search \<Rightarrow> search option" where
  "cpu_update tid s =
     do { m \<leftarrow> arg_at (updating_mask s) tid;
          if m = 1 then enter_level (int tid) s else Some s }"

definition cpu_level :: "graph \<Rightarrow> nat \<Rightarrow> search \<Rightarrow> search option" where
  "cpu_level g n s =
     do { s1 \<leftarrow> for_loop 0 n (cpu_visit g) (s\<lparr>over := 0\<rparr>); for_loop 0 n cpu_update s1 }"

partial_function (option) run_bfs_cpu :: "graph \<Rightarrow> nat \<Rightarrow> search \<Rightarrow> search option" where
  "run_bfs_cpu g n s =
     Option.bind (cpu_level g n s) (\<lambda>s'. if over s' \<noteq> 0 then run_bfs_cpu g n s' else Some s')"

section \<open>The kernels\<close>

definition global_id :: "nat \<times> nat \<Rightarrow> int" where
  "global_id = (\<lambda>(gx, gy). sint (word_of_nat gx :: 32 word))"

definition BFS_1 :: "graph \<Rightarrow> int \<Rightarrow> nat \<times> nat \<Rightarrow> search \<Rightarrow> search option" where
  "BFS_1 g n item s =
     (let tid = global_id item in
      if tid < n then
        do { m \<leftarrow> int_at (graph_mask s) tid;
             if m \<noteq> 0 then
               do { mask' \<leftarrow> int_set (graph_mask s) tid 0; visit_edges g tid (s\<lparr>graph_mask := mask'\<rparr>) }
             else Some s }
      else Some s)"

definition BFS_2 :: "int \<Rightarrow> nat \<times> nat \<Rightarrow> search \<Rightarrow> search option" where
  "BFS_2 n item s =
     (let tid = global_id item in
      if tid < n then
        do { m \<leftarrow> int_at (updating_mask s) tid;
             if m \<noteq> 0 then enter_level tid s else Some s }
      else Some s)"

section \<open>The helpers: handles and buffers\<close>

text \<open>
  A handle of a buffer is named by the variable that holds it.  The buffers that exist are in
  \<open>memory\<close>; a null handle is one that does not.  \<open>write_only\<close> are the buffers that kernels may only write.
\<close>

datatype buffer = Nodes_buffer "node list" | Int_buffer "int list" | Char_buffer "8 word list"

datatype helper_arg = Mem_arg string | Int_arg int

record helper =
  cl_status :: int
  has_context :: bool
  device_list :: "string list option"
  cl_queue :: "string option"
  cl_source :: "string option"
  cl_kernels :: "string list"
  memory :: "string \<Rightarrow> buffer option"
  write_only :: "string \<Rightarrow> bool"
  kernel_args :: "nat \<Rightarrow> nat \<Rightarrow> helper_arg option"

definition new_helper :: helper where
  "new_helper = \<lparr>cl_status = 0, has_context = False, device_list = None, cl_queue = None, cl_source = None,
     cl_kernels = [], memory = \<lambda>_. None, write_only = \<lambda>_. False, kernel_args = \<lambda>_ _. None\<rparr>"

text \<open>Steps that may throw: the exception, if any, and the handles.\<close>

type_synonym throwing = "helper \<times> nat \<Rightarrow> (string option \<times> helper \<times> nat) option"

fun run_throwing :: "throwing list \<Rightarrow> throwing" where
  "run_throwing [] (s, k) = Some (None, s, k)"
| "run_throwing (f # fs) (s, k) =
     do { (ex, s', k') \<leftarrow> f (s, k);
          if ex \<noteq> None then Some (ex, s', k') else run_throwing fs (s', k') }"

definition call_or_throw :: "run_env \<Rightarrow> string \<Rightarrow> (helper \<Rightarrow> helper option) \<Rightarrow> throwing" where
  "call_or_throw env msg f = (\<lambda>(s, k).
     if answers (lib env) k \<noteq> CL_SUCCESS then Some (Some msg, s, k + 1)
     else do { s' \<leftarrow> f s; Some (None, s', k + 1) })"

definition require :: "string \<Rightarrow> bool \<Rightarrow> throwing" where
  "require msg b = (\<lambda>(s, k). Some (if b then None else Some msg, s, k))"

section \<open>Initialisation and release\<close>

definition bfs_kernel_file :: string where
  "bfs_kernel_file = ''bfs_kernels.cl''"

definition FileToString :: "files \<Rightarrow> string \<Rightarrow> string + string" where
  "FileToString fs name =
     (case fs name of
        Some s \<Rightarrow> Inr (c_str s)
      | None \<Rightarrow> Inl (''FileToString()::Error: Unable to open file '' @ name))"

definition load_source :: "run_env \<Rightarrow> throwing" where
  "load_source env = (\<lambda>(s, k).
     case FileToString (run_files env) bfs_kernel_file of
       Inl msg \<Rightarrow> Some (Some msg, s, k)
     | Inr src \<Rightarrow>
         call_or_throw env
           ''InitCL()::Error: Loading Binary into cl_program. (clCreateProgramWithBinary)''
           (\<lambda>s. Some (s\<lparr>cl_source := Some src\<rparr>)) (s, k))"

text \<open>When the build fails, the log is queried, and an exception is thrown in any case.\<close>

definition build_source :: "run_env \<Rightarrow> throwing" where
  "build_source env = (\<lambda>(s, k).
     if answers (lib env) k = CL_SUCCESS then Some (None, s, k + 1)
     else run_throwing
       [call_or_throw env ''InitCL()::Error: Getting Program build info(clGetProgramBuildInfo)'' Some,
        call_or_throw env ''InitCL()::Error: Getting Program build info(clGetProgramBuildInfo)'' Some,
        require ''InitCL()::Error: Building Program (clBuildProgram)'' False] (s, k + 1))"

definition kernel_names :: "string list" where
  "kernel_names = [''BFS_1'', ''BFS_2'']"

definition create_bfs_kernel :: "run_env \<Rightarrow> string \<Rightarrow> throwing" where
  "create_bfs_kernel env name =
     call_or_throw env (''InitCL()::Error: Creating Kernel (clCreateKernel) '' @ [CHR 0x22] @ name @ [CHR 0x22])
       (\<lambda>s. Some (s\<lparr>cl_kernels := cl_kernels s @ [name]\<rparr>))"

text \<open>The first platform and the first GPU on it are used.\<close>

definition clInit :: "run_env \<Rightarrow> throwing" where
  "clInit env = (\<lambda>(s, k).
     let ps = platforms (lib env); ds = devices_of (ps ! 0) CL_DEVICE_TYPE_GPU in
     run_throwing
       ([call_or_throw env ''InitCL()::Error: Getting number of platforms (clGetPlatformIDs)'' Some,
         require ''InitCL()::Error: No platforms found (clGetPlatformIDs)'' (ps \<noteq> []),
         call_or_throw env ''InitCL()::Error: Getting platform ids (clGetPlatformIDs)'' Some] @
        replicate (length ps)
          (call_or_throw env ''InitCL()::Error: Getting platform info (clGetPlatformInfo)'' Some) @
        [call_or_throw env ''InitCL()::Error: Creating Context (clCreateContextFromType)''
           (\<lambda>s. Some (s\<lparr>has_context := True\<rparr>)),
         call_or_throw env ''exception in _clInit -> clGetDeviceIDs'' Some,
         require ''InitCL()::Error: No devices found.'' (ds \<noteq> []),
         call_or_throw env ''exception in _clInit -> clGetDeviceIDs-2'' (\<lambda>s. Some (s\<lparr>device_list := Some ds\<rparr>)),
         call_or_throw env ''InitCL()::Creating Command Queue. (clCreateCommandQueue)''
           (\<lambda>s. Some (s\<lparr>cl_queue := Some (ds ! 0)\<rparr>)),
         load_source env, build_source env] @
        map (create_bfs_kernel env) kernel_names)
       (s\<lparr>has_context := False, device_list := None, cl_queue := None, cl_source := None\<rparr>, k))"

text \<open>
  The loop over the kernels empties the vector in its first iteration, so that only one kernel is
  released.
\<close>

definition release_if :: "run_env \<Rightarrow> bool \<Rightarrow> bool \<times> nat \<Rightarrow> bool \<times> nat" where
  "release_if env present = (\<lambda>(failed, k).
     if present then (failed \<or> answers (lib env) k \<noteq> CL_SUCCESS, k + 1) else (failed, k))"

definition clRelease :: "run_env \<Rightarrow> throwing" where
  "clRelease env = (\<lambda>(s, k).
     case release_if env (has_context s) (release_if env (cl_queue s \<noteq> None)
            (release_if env (cl_source s \<noteq> None) (release_if env (cl_kernels s \<noteq> []) (False, k)))) of
       (failed, k') \<Rightarrow>
         Some (if failed then Some ''ReleaseCL()::Error encountered.'' else None,
               s\<lparr>cl_kernels := [], cl_source := None, cl_queue := None, device_list := None,
                 has_context := False\<rparr>, k'))"

section \<open>Buffers, arguments, launches\<close>

text \<open>A call whose status is recorded; it has its effect when it succeeds.\<close>

definition CL_INVALID_MEM_OBJECT :: int where
  "CL_INVALID_MEM_OBJECT = - 38"

definition CL_INVALID_BUFFER_SIZE :: int where
  "CL_INVALID_BUFFER_SIZE = - 61"

definition CL_INVALID_KERNEL_ARGS :: int where
  "CL_INVALID_KERNEL_ARGS = - 52"

definition recorded :: "run_env \<Rightarrow> (nat \<Rightarrow> helper \<Rightarrow> helper option) \<Rightarrow> helper \<times> nat \<Rightarrow> (helper \<times> nat) option" where
  "recorded env f = (\<lambda>(s, k).
     if answers (lib env) k \<noteq> CL_SUCCESS then Some (s\<lparr>cl_status := answers (lib env) k\<rparr>, k + 1)
     else do { s' \<leftarrow> f k (s\<lparr>cl_status := CL_SUCCESS\<rparr>); Some (s', k + 1) })"

text \<open>
  \<open>_clMalloc\<close> makes a buffer that kernels may only write, \<open>_clMallocRW\<close> one that they may also read.
  A size of 0 is refused.
\<close>

fun no_bytes :: "buffer \<Rightarrow> bool" where
  "no_bytes (Nodes_buffer xs) = (xs = [])"
| "no_bytes (Int_buffer xs) = (xs = [])"
| "no_bytes (Char_buffer xs) = (xs = [])"

definition make_buffer :: "run_env \<Rightarrow> bool \<Rightarrow> string \<Rightarrow> buffer \<Rightarrow> helper \<times> nat \<Rightarrow> (helper \<times> nat) option" where
  "make_buffer env only_write name contents = (\<lambda>(s, k).
     recorded env (\<lambda>_ s.
       if no_bytes contents then Some (s\<lparr>cl_status := CL_INVALID_BUFFER_SIZE\<rparr>)
       else Some (s\<lparr>memory := (memory s)(name \<mapsto> contents), write_only := (write_only s)(name := only_write)\<rparr>))
       (s\<lparr>memory := (memory s)(name := None)\<rparr>, k))"

definition clMalloc :: "run_env \<Rightarrow> string \<Rightarrow> buffer \<Rightarrow> helper \<times> nat \<Rightarrow> (helper \<times> nat) option" where
  "clMalloc env = make_buffer env True"

definition clMallocRW :: "run_env \<Rightarrow> string \<Rightarrow> buffer \<Rightarrow> helper \<times> nat \<Rightarrow> (helper \<times> nat) option" where
  "clMallocRW env = make_buffer env False"

definition clMemcpyH2D :: "run_env \<Rightarrow> string \<Rightarrow> buffer \<Rightarrow> helper \<times> nat \<Rightarrow> (helper \<times> nat) option" where
  "clMemcpyH2D env name contents = recorded env (\<lambda>_ s.
     if memory s name = None then Some (s\<lparr>cl_status := CL_INVALID_MEM_OBJECT\<rparr>)
     else Some (s\<lparr>memory := (memory s)(name \<mapsto> contents)\<rparr>))"

text \<open>What is read back, if the call succeeds.\<close>

definition clMemcpyD2H :: "run_env \<Rightarrow> string \<Rightarrow> helper \<times> nat \<Rightarrow> (buffer option \<times> helper \<times> nat) option" where
  "clMemcpyD2H env name = (\<lambda>(s, k).
     do { (s', k') \<leftarrow> recorded env (\<lambda>_ s.
            if memory s name = None then Some (s\<lparr>cl_status := CL_INVALID_MEM_OBJECT\<rparr>) else Some s) (s, k);
          Some (if cl_status s' = CL_SUCCESS then memory s name else None, s', k') })"

definition clSetArgs :: "run_env \<Rightarrow> nat \<Rightarrow> nat \<Rightarrow> helper_arg \<Rightarrow> helper \<times> nat \<Rightarrow> (helper \<times> nat) option" where
  "clSetArgs env kernel_id arg_idx a = recorded env (\<lambda>_ s.
     Some (s\<lparr>kernel_args := (kernel_args s)(kernel_id := (kernel_args s kernel_id)(arg_idx \<mapsto> a))\<rparr>))"

definition clFinish :: "run_env \<Rightarrow> helper \<times> nat \<Rightarrow> (helper \<times> nat) option" where
  "clFinish env = recorded env (\<lambda>_. Some)"

definition clFree :: "run_env \<Rightarrow> string \<Rightarrow> helper \<times> nat \<Rightarrow> (helper \<times> nat) option" where
  "clFree env name = (\<lambda>(s, k).
     if memory s name = None then Some (s, k)
     else recorded env (\<lambda>_ s. Some (s\<lparr>memory := (memory s)(name := None)\<rparr>)) (s, k))"

text \<open>
  The kernels on their arguments.  From the nodes and edges \<open>BFS_1\<close> only reads: where it may not read
  them, any read is undefined, as from an array without elements; so is a null buffer.  The masks and
  costs are also written; without the right to read them the launch is undefined.
\<close>

definition may_read :: "run_env \<Rightarrow> helper \<Rightarrow> string \<Rightarrow> bool" where
  "may_read env s name \<longleftrightarrow> reads_write_only env \<or> \<not> write_only s name"

definition as_read :: "bool \<Rightarrow> 'a list \<Rightarrow> 'a list" where
  "as_read readable xs = (if readable then xs else [])"

fun node_elements :: "buffer option \<Rightarrow> node list option" where
  "node_elements None = Some []"
| "node_elements (Some (Nodes_buffer xs)) = Some xs"
| "node_elements _ = None"

fun int_elements :: "buffer option \<Rightarrow> int list option" where
  "int_elements None = Some []"
| "int_elements (Some (Int_buffer xs)) = Some xs"
| "int_elements _ = None"

definition run_BFS_1 ::
  "(string \<Rightarrow> bool) \<Rightarrow> (nat \<Rightarrow> helper_arg option) \<Rightarrow> (nat \<times> nat) list \<Rightarrow>
   (string \<Rightarrow> buffer option) \<Rightarrow> (string \<Rightarrow> buffer option) option" where
  "run_BFS_1 readable args sched m =
     (case (args 0, args 1, args 2, args 3, args 4, args 5, args 6) of
        (Some (Mem_arg a0), Some (Mem_arg a1), Some (Mem_arg a2), Some (Mem_arg a3), Some (Mem_arg a4),
         Some (Mem_arg a5), Some (Int_arg n)) \<Rightarrow>
          (case (node_elements (m a0), int_elements (m a1), m a2, m a3, m a4, m a5) of
             (Some nodes, Some edges, Some (Char_buffer gm),
              Some (Char_buffer updating), Some (Char_buffer seen), Some (Int_buffer c)) \<Rightarrow>
               if \<not> list_all readable [a2, a4, a5] then None
               else do { s \<leftarrow> foldM (BFS_1 \<lparr>graph_nodes = as_read (readable a0) nodes, graph_edges = as_read (readable a1) edges\<rparr> n)
                           sched
                           \<lparr>graph_mask = gm, updating_mask = updating, visited = seen, cost = c, over = 0\<rparr>;
                    Some (m(a2 \<mapsto> Char_buffer (graph_mask s), a3 \<mapsto> Char_buffer (updating_mask s),
                            a5 \<mapsto> Int_buffer (cost s))) }
           | _ \<Rightarrow> None)
      | _ \<Rightarrow> None)"

definition run_BFS_2 ::
  "(string \<Rightarrow> bool) \<Rightarrow> (nat \<Rightarrow> helper_arg option) \<Rightarrow> (nat \<times> nat) list \<Rightarrow>
   (string \<Rightarrow> buffer option) \<Rightarrow> (string \<Rightarrow> buffer option) option" where
  "run_BFS_2 readable args sched m =
     (case (args 0, args 1, args 2, args 3, args 4) of
        (Some (Mem_arg a0), Some (Mem_arg a1), Some (Mem_arg a2), Some (Mem_arg a3), Some (Int_arg n)) \<Rightarrow>
          (case (m a0, m a1, m a2, m a3) of
             (Some (Char_buffer gm), Some (Char_buffer updating), Some (Char_buffer seen), Some (Char_buffer [flag])) \<Rightarrow>
               if \<not> readable a1 then None
               else do { s \<leftarrow> foldM (BFS_2 n) sched
                           \<lparr>graph_mask = gm, updating_mask = updating, visited = seen, cost = [], over = flag\<rparr>;
                    Some (m(a0 \<mapsto> Char_buffer (graph_mask s), a1 \<mapsto> Char_buffer (updating_mask s),
                            a2 \<mapsto> Char_buffer (visited s), a3 \<mapsto> Char_buffer [over s])) }
           | _ \<Rightarrow> None)
      | _ \<Rightarrow> None)"

definition args_missing :: "nat \<Rightarrow> (nat \<Rightarrow> helper_arg option) \<Rightarrow> bool" where
  "args_missing n args \<longleftrightarrow> (\<exists>i \<in> {0..<n}. args i = None)"

text \<open>The number of work items is rounded up to whole groups.\<close>

definition clInvokeKernel :: "run_env \<Rightarrow> nat \<Rightarrow> int \<Rightarrow> int \<Rightarrow> helper \<times> nat \<Rightarrow> (helper \<times> nat) option" where
  "clInvokeKernel env kernel_id work_items group_size x =
     (if group_size \<le> 0 \<or> work_items < 0 then None
      else do { g \<leftarrow> (if work_items mod group_size \<noteq> 0
                       then checked (work_items + (group_size - work_items mod group_size))
                       else Some work_items);
                recorded env (\<lambda>k s.
                  let args = kernel_args s kernel_id; sched = schedule env k (nat g) 1 in
                  do { name \<leftarrow> arg_at (cl_kernels s) kernel_id;
                       if args_missing (if name = ''BFS_1'' then 7 else 5) args
                       then Some (s\<lparr>cl_status := CL_INVALID_KERNEL_ARGS\<rparr>)
                       else do { m \<leftarrow> (if name = ''BFS_1'' then run_BFS_1 else run_BFS_2) (may_read env s) args sched (memory s);
                                 Some (s\<lparr>memory := m\<rparr>) } }) x })"

section \<open>The search on the device\<close>

definition then_run :: "(helper \<times> nat \<Rightarrow> (helper \<times> nat) option) list \<Rightarrow> helper \<times> nat \<Rightarrow> (helper \<times> nat) option" where
  "then_run fs x = foldM (\<lambda>f. f) fs x"

definition set_args :: "run_env \<Rightarrow> nat \<Rightarrow> helper_arg list \<Rightarrow> helper \<times> nat \<Rightarrow> (helper \<times> nat) option" where
  "set_args env kernel_id as = then_run (map (\<lambda>i. clSetArgs env kernel_id i (as ! i)) [0..<length as])"

text \<open>One level: \<open>h_over\<close> and the handles after it.  A failed transfer leaves \<open>h_over\<close> as it is.\<close>

definition gpu_level :: "run_env \<Rightarrow> int \<Rightarrow> int \<Rightarrow> helper \<times> nat \<Rightarrow> (8 word \<times> helper \<times> nat) option" where
  "gpu_level env n group_size x =
     do { x \<leftarrow> then_run
            [clMemcpyH2D env ''d_over'' (Char_buffer [0]),
             set_args env 0
               [Mem_arg ''d_graph_nodes'', Mem_arg ''d_graph_edges'', Mem_arg ''d_graph_mask'',
                Mem_arg ''d_updating_graph_mask'', Mem_arg ''d_graph_visited'', Mem_arg ''d_cost'', Int_arg n],
             clInvokeKernel env 0 n group_size,
             set_args env 1
               [Mem_arg ''d_graph_mask'', Mem_arg ''d_updating_graph_mask'', Mem_arg ''d_graph_visited'',
                Mem_arg ''d_over'', Int_arg n],
             clInvokeKernel env 1 n group_size] x;
          (b, s, k) \<leftarrow> clMemcpyD2H env ''d_over'' x;
          Some (case b of Some (Char_buffer [flag]) \<Rightarrow> flag | _ \<Rightarrow> 0, s, k) }"

partial_function (option) gpu_levels :: "run_env \<Rightarrow> int \<Rightarrow> int \<Rightarrow> helper \<times> nat \<Rightarrow> (helper \<times> nat) option" where
  "gpu_levels env n group_size x =
     Option.bind (gpu_level env n group_size x)
       (\<lambda>(flag, y). if flag \<noteq> 0 then gpu_levels env n group_size y else Some y)"

definition graph_buffers :: "graph \<Rightarrow> (string \<times> buffer) list" where
  "graph_buffers g =
     [(''d_graph_nodes'', Nodes_buffer (graph_nodes g)), (''d_graph_edges'', Int_buffer (graph_edges g))]"

definition search_buffers :: "search \<Rightarrow> (string \<times> buffer) list" where
  "search_buffers s =
     [(''d_graph_mask'', Char_buffer (graph_mask s)), (''d_updating_graph_mask'', Char_buffer (updating_mask s)),
      (''d_graph_visited'', Char_buffer (visited s)), (''d_cost'', Int_buffer (cost s))]"

definition device_buffers :: "graph \<Rightarrow> search \<Rightarrow> (string \<times> buffer) list" where
  "device_buffers g s = graph_buffers g @ search_buffers s"

text \<open>The costs on the host afterwards.  The flag on the host is not initialised when its buffer is made.\<close>

definition run_bfs_gpu :: "run_env \<Rightarrow> graph \<Rightarrow> int \<Rightarrow> int \<Rightarrow> search \<Rightarrow> int list option" where
  "run_bfs_gpu env g n group_size s =
     do { (ex, x) \<leftarrow> clInit env (new_helper, 0);
          if ex \<noteq> None then None
          else do {
            y \<leftarrow> then_run
              (map (\<lambda>(name, b). clMalloc env name b) (graph_buffers g) @
               map (\<lambda>(name, b). clMallocRW env name b)
                 (search_buffers s @ [(''d_over'', Char_buffer [ucast (fresh env ''h_over'' 0)])]) @
               map (\<lambda>(name, b). clMemcpyH2D env name b) (device_buffers g s)) x;
            y1 \<leftarrow> gpu_levels env n group_size y;
            y2 \<leftarrow> clFinish env y1;
            (b, y3) \<leftarrow> clMemcpyD2H env ''d_cost'' y2;
            y4 \<leftarrow> then_run (map (clFree env) (map fst (device_buffers g s) @ [''d_over''])) y3;
            (ex, _) \<leftarrow> clRelease env y4;
            if ex \<noteq> None then None
            else Some (case b of Some (Int_buffer c) \<Rightarrow> c | _ \<Rightarrow> cost s) } }"

section \<open>The graph file\<close>

text \<open>
  \<open>fscanf\<close> with \<open>%d\<close>: the number, if there is one, and the rest of the stream; a number that does not
  fit is undefined.  A variable that has not been assigned is \<^const>\<open>None\<close>.
\<close>

definition fscanf_d :: "string \<Rightarrow> (int option \<times> string) option" where
  "fscanf_d st =
     (let (neg, s1) = take_sign (dropWhile isspace st); ds = takeWhile isdigit s1;
          n = digits_value 10 digit_value ds; v = (if neg then - n else n)
      in if ds = [] then Some (None, s1)
         else do { v \<leftarrow> checked v; Some (Some v, dropWhile isdigit s1) })"

definition scanned :: "int option \<Rightarrow> int option \<Rightarrow> int option" where
  "scanned old new = (case new of None \<Rightarrow> old | Some v \<Rightarrow> Some v)"

definition scan_node ::
  "nat \<Rightarrow> string \<times> int option \<times> int option \<times> node list \<Rightarrow> (string \<times> int option \<times> int option \<times> node list) option" where
  "scan_node i = (\<lambda>(st, start, edgeno, nodes).
     do { (a, st1) \<leftarrow> fscanf_d st;
          (b, st2) \<leftarrow> (if a = None then Some (None, st1) else fscanf_d st1);
          let start' = scanned start a; edgeno' = scanned edgeno b in
          do { x \<leftarrow> start'; y \<leftarrow> edgeno';
               Some (st2, start', edgeno', nodes @ [\<lparr>starting = x, no_of_edges = y\<rparr>]) } })"

definition scan_edge :: "nat \<Rightarrow> string \<times> int option \<times> int list \<Rightarrow> (string \<times> int option \<times> int list) option" where
  "scan_edge i = (\<lambda>(st, id, edges).
     do { (a, st1) \<leftarrow> fscanf_d st;
          (_, st2) \<leftarrow> fscanf_d st1;
          let id' = scanned id a in do { v \<leftarrow> id'; Some (st2, id', edges @ [v]) } })"

text \<open>The number of nodes and the graph; the source in the file is read and not used.\<close>

definition read_graph :: "string \<Rightarrow> (int \<times> graph) option" where
  "read_graph st =
     do { (a, st1) \<leftarrow> fscanf_d st;
          n \<leftarrow> a;
          (st2, _, _, nodes) \<leftarrow> for_loop 0 (nat n) scan_node (st1, None, None, []);
          (_, st3) \<leftarrow> fscanf_d st2;
          (b, st4) \<leftarrow> fscanf_d st3;
          m \<leftarrow> b;
          (_, _, edges) \<leftarrow> for_loop 0 (nat m) scan_edge (st4, None, []);
          Some (n, \<lparr>graph_nodes = nodes, graph_edges = edges\<rparr>) }"

section \<open>Comparison and main\<close>

text \<open>The masks and costs at the start; \<open>source\<close> is 0.\<close>

definition initial_search :: "int \<Rightarrow> search option" where
  "initial_search n =
     do { m \<leftarrow> set_at (replicate (nat n) 0) 0 1;
          v \<leftarrow> set_at (replicate (nat n) 0) 0 1;
          c \<leftarrow> set_at (replicate (nat n) (- 1)) 0 0;
          Some \<lparr>graph_mask = m, updating_mask = replicate (nat n) 0, visited = v, cost = c, over = 0\<rparr> }"

definition compare_results :: "int list \<Rightarrow> int list \<Rightarrow> nat \<Rightarrow> string option" where
  "compare_results cpu_results gpu_results size' =
     do { passed \<leftarrow> for_loop 0 size' (\<lambda>i passed.
            do { a \<leftarrow> arg_at cpu_results i; b \<leftarrow> arg_at gpu_results i; Some (if a \<noteq> b then False else passed) }) True;
          Some (if passed then ''--cambine:passed:-)'' else ''--cambine: failed:-('') }"

definition MAX_THREADS_PER_BLOCK :: int where
  "MAX_THREADS_PER_BLOCK = 256"

text \<open>How the program ends, and the line about the comparison, if it is reached.\<close>

definition main_bfs :: "run_env \<Rightarrow> string list \<Rightarrow> (outcome \<times> string option) option" where
  "main_bfs env argv =
     (if length argv \<noteq> 2 then Some (Exited 0, None)
      else case run_files env (argv ! 1) of
        None \<Rightarrow> Some (Returned 0, None)
      | Some text \<Rightarrow>
          do { (n, g) \<leftarrow> read_graph text;
               let group_size = (if n > MAX_THREADS_PER_BLOCK then MAX_THREADS_PER_BLOCK else n) in
               do { s \<leftarrow> initial_search n;
                    h_cost \<leftarrow> run_bfs_gpu env g n group_size s;
                    ref \<leftarrow> run_bfs_cpu g (nat n) s;
                    line \<leftarrow> compare_results (cost ref) h_cost (nat n);
                    Some (Returned 0, Some line) } })"

end
