(* ===== verification/Bfs_Levels.thy ===== *)
theory Bfs_Levels
  imports Bfs
begin

text \<open>
  Levels of a graph by the number of hops from node 0, and the phases of one level of the search:
  in whatever order the nodes are visited, the arrays afterwards are those of the next level.
\<close>

section \<open>Levels\<close>

definition out_range :: "node \<Rightarrow> int set" where
  "out_range nd = {starting nd..<starting nd + no_of_edges nd}"

definition edge :: "graph \<Rightarrow> (nat \<times> nat) set" where
  "edge g = {(u, v). u < length (graph_nodes g) \<and>
     (\<exists>i \<in> out_range (graph_nodes g ! u). graph_edges g ! nat i = int v)}"

definition graph_ok :: "nat \<Rightarrow> graph \<Rightarrow> bool" where
  "graph_ok n g \<longleftrightarrow> 0 < n \<and> n < 2 ^ 31 \<and> length (graph_nodes g) = n
     \<and> (\<forall>nd \<in> set (graph_nodes g). fits_int (no_of_edges nd + starting nd)
          \<and> (\<forall>i \<in> out_range nd. 0 \<le> i \<and> i < int (length (graph_edges g))))
     \<and> (\<forall>v \<in> set (graph_edges g). 0 \<le> v \<and> v < int n)"

text \<open>The number of hops to a node, -1 for a node that cannot be reached.\<close>

definition hops :: "graph \<Rightarrow> nat \<Rightarrow> int" where
  "hops g v = (if \<exists>k. (0, v) \<in> edge g ^^ k then int (LEAST k. (0, v) \<in> edge g ^^ k) else - 1)"

definition reached :: "graph \<Rightarrow> nat \<Rightarrow> nat set" where
  "reached g k = {v. \<exists>j \<le> k. (0, v) \<in> edge g ^^ j}"

definition level :: "graph \<Rightarrow> nat \<Rightarrow> nat set" where
  "level g k = {v. (0, v) \<in> edge g ^^ k \<and> (\<forall>j < k. (0, v) \<notin> edge g ^^ j)}"

declare relpow.simps(2) [simp del]

lemma level_0: "level g 0 = {0}" "reached g 0 = {0}"
  by (auto simp: level_def reached_def)

lemma level_reached: "level g k \<subseteq> reached g k"
  by (auto simp: level_def reached_def)

lemma reached_Suc: "reached g (Suc k) = reached g k \<union> level g (Suc k)"
  unfolding reached_def level_def by (auto simp: le_Suc_eq less_Suc_eq_le)

lemma level_Suc: "level g (Suc k) = edge g `` level g k - reached g k"
proof (intro equalityI subsetI)
  fix v assume v: "v \<in> level g (Suc k)"
  then obtain u where u: "(0, u) \<in> edge g ^^ k" "(u, v) \<in> edge g"
    by (auto simp: level_def elim: relpow_Suc_E)
  have "(0, u) \<notin> edge g ^^ j" if "j < k" for j
  proof
    assume "(0, u) \<in> edge g ^^ j"
    then have "(0, v) \<in> edge g ^^ Suc j" using u(2) by (rule relpow_Suc_I)
    then show False using v that by (auto simp: level_def)
  qed
  then show "v \<in> edge g `` level g k - reached g k"
    using u v by (auto simp: level_def reached_def less_Suc_eq_le)
next
  fix v assume "v \<in> edge g `` level g k - reached g k"
  then show "v \<in> level g (Suc k)" by (auto simp: level_def reached_def less_Suc_eq_le intro: relpow_Suc_I)
qed

lemma hops_level: "v \<in> level g k \<Longrightarrow> hops g v = int k"
proof -
  assume v: "v \<in> level g k"
  then have "(LEAST k. (0, v) \<in> edge g ^^ k) = k"
    by (intro Least_equality) (auto simp: level_def not_less [symmetric])
  then show ?thesis using v by (auto simp: hops_def level_def)
qed

lemma reached_level: "v \<in> reached g k \<Longrightarrow> \<exists>j \<le> k. v \<in> level g j"
proof (induction k)
  case (Suc k)
  then show ?case by (auto simp: reached_Suc intro: le_SucI)
qed (simp add: level_0)

lemma graph_edge:
  assumes "graph_ok n g" "(u, v) \<in> edge g"
  shows "v < n"
proof -
  obtain i where i: "u < length (graph_nodes g)" "i \<in> out_range (graph_nodes g ! u)" "graph_edges g ! nat i = int v"
    using assms(2) by (auto simp: edge_def)
  then have "0 \<le> i \<and> i < int (length (graph_edges g))"
    using assms(1) by (auto simp: graph_ok_def)
  then have "nat i < length (graph_edges g)" by linarith
  then have "graph_edges g ! nat i \<in> set (graph_edges g)" by simp
  then show ?thesis using assms(1) i(3) by (auto simp: graph_ok_def)
qed

lemma reached_range:
  assumes "graph_ok n g"
  shows "reached g k \<subseteq> {..<n}"
proof (induction k)
  case 0
  then show ?case using assms by (simp add: level_0 graph_ok_def)
next
  case (Suc k)
  then show ?case using graph_edge [OF assms] by (auto simp: reached_Suc level_Suc)
qed

text \<open>A level that is not empty adds a node, so there are at most as many as nodes.\<close>

lemma level_nonempty_below:
  assumes "level g (Suc k) \<noteq> {}"
  shows "level g k \<noteq> {}"
  using assms by (auto simp: level_Suc)

lemma card_reached:
  assumes "graph_ok n g" "level g k \<noteq> {}"
  shows "k < card (reached g k)"
  using assms(2)
proof (induction k)
  case 0
  then show ?case by (simp add: level_0)
next
  case (Suc k)
  have fin: "finite (reached g (Suc k))" using reached_range [OF assms(1)] finite_subset by blast
  have "reached g k \<subset> reached g (Suc k)"
    using Suc.prems by (auto simp: reached_Suc level_Suc)
  then have "card (reached g k) < card (reached g (Suc k))" using fin psubset_card_mono by blast
  then show ?case using Suc level_nonempty_below by fastforce
qed

lemma level_bound:
  assumes "graph_ok n g" "level g k \<noteq> {}"
  shows "k < n"
proof -
  have "card (reached g k) \<le> n" using card_mono [OF _ reached_range [OF assms(1)]] by simp
  then show ?thesis using card_reached [OF assms] by simp
qed

text \<open>When a level is empty, every node that can be reached has been.\<close>

lemma reached_all:
  assumes "level g (Suc k) = {}" "(0, v) \<in> edge g ^^ j"
  shows "v \<in> reached g k"
  using assms(2)
proof (induction j arbitrary: v)
  case 0
  then show ?case by (auto simp: reached_def)
next
  case (Suc j)
  from Suc.prems obtain u where "(0, u) \<in> edge g ^^ j" and e: "(u, v) \<in> edge g" by (rule relpow_Suc_E)
  then have u: "u \<in> reached g k" "(u, v) \<in> edge g" using Suc.IH by auto
  then obtain i where i: "i \<le> k" "(0, u) \<in> edge g ^^ i" by (auto simp: reached_def)
  from i(2) u(2) have "(0, v) \<in> edge g ^^ Suc i" by (rule relpow_Suc_I)
  show ?case
  proof (cases "i = k")
    case True
    then show ?thesis
      using assms(1) \<open>(0, v) \<in> edge g ^^ Suc i\<close> by (auto simp: level_def reached_def less_Suc_eq_le)
  next
    case False
    then have "Suc i \<le> k" using i(1) by simp
    then show ?thesis using \<open>(0, v) \<in> edge g ^^ Suc i\<close> unfolding reached_def by blast
  qed
qed

section \<open>Folds that collect\<close>

lemma foldM_collects:
  assumes "I A s" "\<And>x B t. x \<in> set xs \<Longrightarrow> I B t \<Longrightarrow> yields (body x t) (I (insert x B))"
  shows "yields (foldM body xs s) (I (A \<union> set xs))"
  using assms
proof (induction xs arbitrary: A s)
  case (Cons x xs)
  have "yields (body x s) (I (insert x A))" using Cons.prems by simp
  then obtain t where t: "body x s = Some t" "I (insert x A) t" by (auto simp: yields_def)
  have "yields (foldM body xs t) (I (insert x A \<union> set xs))"
    using Cons.prems(2) t(2) by (intro Cons.IH) auto
  then show ?case by (simp add: t(1))
qed simp

section \<open>Marking the next level\<close>

text \<open>
  While level \<open>k\<close> is visited: \<open>T\<close> are the nodes that have been taken out of the mask, \<open>F\<close> the nodes
  that edges have led to.
\<close>

definition marked :: "graph \<Rightarrow> nat \<Rightarrow> nat \<Rightarrow> nat set \<Rightarrow> nat set \<Rightarrow> search \<Rightarrow> bool" where
  "marked g n k T F s \<longleftrightarrow> length (graph_mask s) = n \<and> length (updating_mask s) = n
     \<and> length (visited s) = n \<and> length (cost s) = n \<and> over s = 0 \<and> (\<forall>v < n.
       graph_mask s ! v = (if v \<in> level g k - T then 1 else 0)
     \<and> visited s ! v = (if v \<in> reached g k then 1 else 0)
     \<and> updating_mask s ! v = (if v \<in> F - reached g k then 1 else 0)
     \<and> cost s ! v = (if v \<in> reached g k then hops g v else if v \<in> F then int (Suc k) else - 1))"

lemma int_at_nat [simp]: "int_at xs (int i) = arg_at xs i"
  by (simp add: int_at_def)

lemma int_set_nat [simp]: "int_set xs (int i) x = set_at xs i x"
  by (simp add: int_set_def)

lemma visit_edge_marked:
  assumes "graph_ok n g" "marked g n k T F s" "u \<in> level g k" "u < n"
    and "i \<in> out_range (graph_nodes g ! u)"
  shows "yields (visit_edge g (int u) i s) (marked g n k T (insert (nat (graph_edges g ! nat i)) F))"
proof -
  have "0 \<le> i \<and> i < int (length (graph_edges g))"
    using assms(1,4,5) by (auto simp: graph_ok_def)
  then have i: "0 \<le> i" "nat i < length (graph_edges g)" by linarith+
  then have "graph_edges g ! nat i \<in> set (graph_edges g)" by simp
  then have "0 \<le> graph_edges g ! nat i" "graph_edges g ! nat i < int n" using assms(1) by (auto simp: graph_ok_def)
  then obtain v where e: "graph_edges g ! nat i = int v" and v: "v < n"
    by (metis nonneg_int_cases of_nat_less_iff)
  have k: "k < n" using assms(3) by (intro level_bound [OF assms(1)]) auto
  then have c: "fits_int (int k + 1)" using assms(1) by (auto simp: graph_ok_def fits_int_def)
  have u: "cost s ! u = int k"
    using assms(2,4) hops_level [OF assms(3)] level_reached [of g k] assms(3) by (auto simp: marked_def)
  have lens: "length (visited s) = n" "length (cost s) = n" "length (updating_mask s) = n"
    using assms(2) by (simp_all add: marked_def)
  have at: "int_at (graph_edges g) i = Some (int v)" using i e by (simp add: int_at_def)
  show ?thesis
  proof (cases "v \<in> reached g k")
    case True
    then have "visited s ! v = 1" using assms(2) v by (simp add: marked_def)
    moreover have "marked g n k T (insert v F) s"
      using assms(2) True unfolding marked_def by auto
    ultimately show ?thesis using lens v by (simp add: visit_edge_def at e)
  next
    case False
    then have "visited s ! v = 0" using assms(2) v by (simp add: marked_def)
    moreover have "marked g n k T (insert v F)
        (s\<lparr>cost := (cost s)[v := int k + 1], updating_mask := (updating_mask s)[v := 1]\<rparr>)"
      using assms(2) False v unfolding marked_def by (simp add: nth_list_update)
    ultimately show ?thesis
      using lens v u c assms(4) by (simp add: visit_edge_def at e checked_def)
  qed
qed

lemma visit_edges_marked:
  assumes "graph_ok n g" "marked g n k T F s" "u \<in> level g k" "u < n"
  shows "yields (visit_edges g (int u) s) (marked g n k T (F \<union> edge g `` {u}))"
proof -
  let ?nd = "graph_nodes g ! u"
  have nd: "u < length (graph_nodes g)" "fits_int (no_of_edges ?nd + starting ?nd)"
    using assms(1,4) by (auto simp: graph_ok_def)
  have range: "set [starting ?nd..no_of_edges ?nd + starting ?nd - 1] = out_range ?nd"
    by (auto simp: out_range_def)
  let ?to = "\<lambda>i. nat (graph_edges g ! nat i)"
  have "yields (foldM (visit_edge g (int u)) [starting ?nd..no_of_edges ?nd + starting ?nd - 1] s)
      (\<lambda>t. marked g n k T (F \<union> ?to ` ({} \<union> out_range ?nd)) t)"
    unfolding range [symmetric]
  proof (rule foldM_collects [where I = "\<lambda>B t. marked g n k T (F \<union> ?to ` B) t"])
    show "marked g n k T (F \<union> ?to ` {}) s" using assms(2) by simp
    fix i B t
    assume "i \<in> set [starting ?nd..no_of_edges ?nd + starting ?nd - 1]" "marked g n k T (F \<union> ?to ` B) t"
    then have "yields (visit_edge g (int u) i t) (marked g n k T (insert (?to i) (F \<union> ?to ` B)))"
      unfolding range by (intro visit_edge_marked [OF assms(1) _ assms(3,4)])
    then show "yields (visit_edge g (int u) i t) (marked g n k T (F \<union> ?to ` insert i B))" by simp
  qed
  moreover have "?to ` out_range ?nd = edge g `` {u}"
  proof -
    have "0 \<le> graph_edges g ! nat i" if "i \<in> out_range ?nd" for i
    proof -
      have "0 \<le> i \<and> i < int (length (graph_edges g))"
        using that nd(1) assms(1) by (auto simp: graph_ok_def)
      then have "nat i < length (graph_edges g)" by linarith
      then have "graph_edges g ! nat i \<in> set (graph_edges g)" by simp
      then show ?thesis using assms(1) by (auto simp: graph_ok_def)
    qed
    then show ?thesis using nd(1) by (force simp: edge_def image_iff)
  qed
  ultimately show ?thesis by (simp add: visit_edges_def nd checked_def)
qed

text \<open>A node of the level is visited, or another one is left alone.\<close>

lemma cpu_visit_marked:
  assumes "graph_ok n g" "marked g n k T (edge g `` (level g k \<inter> T)) s" "u < n"
  shows "yields (cpu_visit g u s) (marked g n k (insert u T) (edge g `` (level g k \<inter> insert u T)))"
proof (cases "u \<in> level g k - T")
  case True
  then have m: "graph_mask s ! u = 1" "u < length (graph_mask s)" using assms(2,3) by (auto simp: marked_def)
  have "marked g n k (insert u T) (edge g `` (level g k \<inter> T)) (s\<lparr>graph_mask := (graph_mask s)[u := 0]\<rparr>)"
    using assms(2,3) unfolding marked_def by (auto simp: nth_list_update)
  then have "yields (visit_edges g (int u) (s\<lparr>graph_mask := (graph_mask s)[u := 0]\<rparr>))
      (marked g n k (insert u T) (edge g `` (level g k \<inter> T) \<union> edge g `` {u}))"
    using True by (intro visit_edges_marked [OF assms(1) _ _ assms(3)]) auto
  moreover have "edge g `` (level g k \<inter> T) \<union> edge g `` {u} = edge g `` (level g k \<inter> insert u T)"
    using True by auto
  ultimately show ?thesis using m by (simp add: cpu_visit_def)
next
  case False
  then have "graph_mask s ! u = 0" "u < length (graph_mask s)" using assms(2,3) by (auto simp: marked_def)
  moreover have "marked g n k (insert u T) (edge g `` (level g k \<inter> insert u T)) s"
  proof (cases "u \<in> T")
    case True
    then show ?thesis using assms(2) by (simp add: insert_absorb)
  next
    case nt: False
    then have "u \<notin> level g k" using False by simp
    then have "level g k - insert u T = level g k - T" "level g k \<inter> insert u T = level g k \<inter> T" by auto
    then show ?thesis using assms(2) unfolding marked_def by simp
  qed
  ultimately show ?thesis by (simp add: cpu_visit_def)
qed

section \<open>Entering the next level\<close>

definition entered :: "graph \<Rightarrow> nat \<Rightarrow> nat \<Rightarrow> nat set \<Rightarrow> search \<Rightarrow> bool" where
  "entered g n k T s \<longleftrightarrow> length (graph_mask s) = n \<and> length (updating_mask s) = n \<and> length (visited s) = n
     \<and> over s = (if level g (Suc k) \<inter> T = {} then 0 else 1) \<and> (\<forall>v < n.
       graph_mask s ! v = (if v \<in> level g (Suc k) \<inter> T then 1 else 0)
     \<and> visited s ! v = (if v \<in> reached g k \<union> (level g (Suc k) \<inter> T) then 1 else 0)
     \<and> updating_mask s ! v = (if v \<in> level g (Suc k) - T then 1 else 0))"

lemma cpu_update_entered:
  assumes "entered g n k T s" "u < n"
  shows "yields (cpu_update u s) (\<lambda>t. entered g n k (insert u T) t \<and> cost t = cost s)"
proof (cases "u \<in> level g (Suc k) - T")
  case True
  then have "updating_mask s ! u = 1" using assms by (simp add: entered_def)
  moreover have "entered g n k (insert u T)
     (s\<lparr>graph_mask := (graph_mask s)[u := 1], visited := (visited s)[u := 1], over := 1,
        updating_mask := (updating_mask s)[u := 0]\<rparr>)"
    using assms True unfolding entered_def by (auto simp: nth_list_update)
  ultimately show ?thesis using assms by (simp add: cpu_update_def enter_level_def entered_def)
next
  case False
  then have "updating_mask s ! u = 0" using assms by (simp add: entered_def)
  moreover have "level g (Suc k) \<inter> insert u T = level g (Suc k) \<inter> T" "level g (Suc k) - insert u T = level g (Suc k) - T"
    using False by auto
  then have "entered g n k (insert u T) s" using assms(1) unfolding entered_def by simp
  moreover have "u < length (updating_mask s)" using assms by (simp add: entered_def)
  ultimately show ?thesis by (simp add: cpu_update_def)
qed

text \<open>At the start of level \<open>k\<close>.\<close>

definition at_level :: "graph \<Rightarrow> nat \<Rightarrow> nat \<Rightarrow> search \<Rightarrow> bool" where
  "at_level g n k s \<longleftrightarrow> length (graph_mask s) = n \<and> length (updating_mask s) = n
     \<and> length (visited s) = n \<and> length (cost s) = n \<and> (\<forall>v < n.
       graph_mask s ! v = (if v \<in> level g k then 1 else 0)
     \<and> visited s ! v = (if v \<in> reached g k then 1 else 0)
     \<and> updating_mask s ! v = 0
     \<and> cost s ! v = (if v \<in> reached g k then hops g v else - 1))"

lemma start_marked: "at_level g n k s \<Longrightarrow> marked g n k {} {} (s\<lparr>over := 0\<rparr>)"
  by (simp add: at_level_def marked_def)

text \<open>All nodes visited: the marks are those of the next level.\<close>

lemma marked_all:
  assumes "graph_ok n g" "marked g n k T (edge g `` (level g k \<inter> T)) s" "{..<n} \<subseteq> T"
  shows "entered g n k {} s" "length (cost s) = n"
    "\<forall>v < n. cost s ! v = (if v \<in> reached g (Suc k) then hops g v else - 1)"
proof -
  have "level g k \<subseteq> {..<n}" using level_reached reached_range [OF assms(1)] by blast
  then have T: "level g k \<inter> T = level g k" "level g k - T = {}" using assms(3) by auto
  show "entered g n k {} s"
    using assms(2) unfolding marked_def entered_def T by (auto simp: level_Suc)
  show "length (cost s) = n" using assms(2) by (simp add: marked_def)
  show "\<forall>v < n. cost s ! v = (if v \<in> reached g (Suc k) then hops g v else - 1)"
    using assms(2) hops_level [of _ g "Suc k"]
    unfolding marked_def T by (auto simp: reached_Suc level_Suc)
qed

lemma entered_all:
  assumes "graph_ok n g" "entered g n k T s" "{..<n} \<subseteq> T" "length (cost s) = n"
    and "\<forall>v < n. cost s ! v = (if v \<in> reached g (Suc k) then hops g v else - 1)"
  shows "at_level g n (Suc k) s" "over s = (if level g (Suc k) = {} then 0 else 1)"
proof -
  have "level g (Suc k) \<subseteq> {..<n}" using level_reached reached_range [OF assms(1)] by blast
  then have T: "level g (Suc k) \<inter> T = level g (Suc k)" "level g (Suc k) - T = {}" using assms(3) by auto
  show "at_level g n (Suc k) s"
    using assms(2,4,5) unfolding entered_def at_level_def T by (auto simp: reached_Suc)
  show "over s = (if level g (Suc k) = {} then 0 else 1)"
    using assms(2) unfolding entered_def T by auto
qed

section \<open>The search on the host\<close>

lemma cpu_level_ok:
  assumes "graph_ok n g" "at_level g n k s"
  shows "yields (cpu_level g n s) (\<lambda>t. at_level g n (Suc k) t \<and> (over t = (if level g (Suc k) = {} then 0 else 1)))"
proof -
  have "yields (foldM (cpu_visit g) [0..<n] (s\<lparr>over := 0\<rparr>))
      (\<lambda>t. marked g n k ({} \<union> set [0..<n]) (edge g `` (level g k \<inter> ({} \<union> set [0..<n]))) t)"
    by (rule foldM_collects [where I = "\<lambda>T t. marked g n k T (edge g `` (level g k \<inter> T)) t"])
      (use start_marked [OF assms(2)] cpu_visit_marked [OF assms(1)] in auto)
  then obtain t where t: "for_loop 0 n (cpu_visit g) (s\<lparr>over := 0\<rparr>) = Some t"
      "marked g n k {0..<n} (edge g `` (level g k \<inter> {0..<n})) t"
    by (auto simp: yields_def for_loop_def)
  have "{..<n} \<subseteq> {0..<n}" by auto
  note all = marked_all [OF assms(1) t(2) this]
  have "yields (foldM cpu_update [0..<n] t) (\<lambda>u. entered g n k ({} \<union> set [0..<n]) u \<and> cost u = cost t)"
  proof (rule foldM_collects [where I = "\<lambda>T u. entered g n k T u \<and> cost u = cost t"])
    fix v T u assume "v \<in> set [0..<n]" "entered g n k T u \<and> cost u = cost t"
    then show "yields (cpu_update v u) (\<lambda>u. entered g n k (insert v T) u \<and> cost u = cost t)"
      using cpu_update_entered [of g n k T u v] by simp
  qed (use all(1) in simp)
  then obtain u where u: "for_loop 0 n cpu_update t = Some u" "entered g n k {0..<n} u" "cost u = cost t"
    by (auto simp: yields_def for_loop_def)
  have "{..<n} \<subseteq> {0..<n}" by auto
  from entered_all [OF assms(1) u(2) this] all(2,3) u(3)
  have "at_level g n (Suc k) u" "over u = (if level g (Suc k) = {} then 0 else 1)" by simp_all
  then show ?thesis by (simp add: cpu_level_def t(1) u(1) yields_def)
qed

text \<open>The search ends with the number of hops to every node.\<close>

lemma search_ends:
  assumes "graph_ok n g" "at_level g n k s" "level g (Suc k) = {}"
  shows "cost s = map (hops g) [0..<n]"
proof (rule nth_equalityI)
  fix v assume "v < length (cost s)"
  then have v: "v < n" using assms(2) by (simp add: at_level_def)
  have "hops g v = - 1" if "v \<notin> reached g k"
    using reached_all [OF assms(3), of v] that by (auto simp: hops_def)
  then show "cost s ! v = map (hops g) [0..<n] ! v" using assms(2) v by (auto simp: at_level_def)
qed (use assms(2) in \<open>simp add: at_level_def\<close>)

text \<open>The arrays of a level are determined.\<close>

lemma at_level_unique:
  assumes "at_level g n k s" "at_level g n k t" "over s = over t"
  shows "s = t"
  using assms by (intro search.equality nth_equalityI) (auto simp: at_level_def)

text \<open>Induction along the levels, which come to an end.\<close>

lemma levels_induct:
  assumes "graph_ok n g" "\<And>k. (level g (Suc k) \<noteq> {} \<Longrightarrow> P (Suc k)) \<Longrightarrow> P k"
  shows "P k"
proof (induction "n - k" arbitrary: k rule: less_induct)
  case less
  show ?case
  proof (rule assms(2))
    assume "level g (Suc k) \<noteq> {}"
    then show "P (Suc k)" using level_bound [OF assms(1), of "Suc k"] by (intro less) simp
  qed
qed

lemma run_bfs_cpu_ends:
  assumes "graph_ok n g" "at_level g n k s"
  shows "yields (run_bfs_cpu g n s) (\<lambda>t. cost t = map (hops g) [0..<n])"
  using assms(2)
proof (induction k arbitrary: s rule: levels_induct [OF assms(1)])
  case (1 k)
  obtain t where t: "cpu_level g n s = Some t" "at_level g n (Suc k) t" "over t = (if level g (Suc k) = {} then 0 else 1)"
    using cpu_level_ok [OF assms(1) 1(2)] by (auto simp: yields_def)
  show ?case
  proof (cases "level g (Suc k) = {}")
    case True
    then have "level g (Suc (Suc k)) = {}" using level_nonempty_below by blast
    then show ?thesis
      using t True search_ends [OF assms(1) t(2)] by (subst run_bfs_cpu.simps) simp
  next
    case False
    then show ?thesis using t 1(1) by (subst run_bfs_cpu.simps) simp
  qed
qed

lemma initial_search_ok:
  assumes "graph_ok n g"
  obtains s where "initial_search (int n) = Some s" "at_level g n 0 s" "length (cost s) = n"
proof -
  have n: "0 < n" using assms by (simp add: graph_ok_def)
  have "hops g 0 = 0" using hops_level [of 0 g 0] by (simp add: level_0)
  then show thesis
    using n that by (force simp: initial_search_def at_level_def level_0 nth_list_update)
qed

end
