(* ===== verification/Bfs_Run.thy ===== *)
theory Bfs_Run
  imports Bfs_Levels Sdk_Host_Facts
begin

text \<open>
  The search on the device: one level by the two kernels on any schedule, and the whole run with a
  library whose calls succeed.
\<close>

section \<open>The kernels as phases of a level\<close>

lemma global_id_small: "gx < 2 ^ 31 \<Longrightarrow> global_id (gx, gy) = int gx"
  by (simp add: global_id_def signed_of_nat signed_take_bit_int_eq_self)

lemma BFS_1_marked:
  assumes "graph_ok n g" "marked g n k T (edge g `` (level g k \<inter> T)) s" "gx < 2 ^ 31"
  shows "yields (BFS_1 g (int n) (gx, gy) s) (marked g n k (insert gx T) (edge g `` (level g k \<inter> insert gx T)))"
proof (cases "gx < n")
  case True
  then have "graph_mask s ! gx \<in> {0, 1}" "gx < length (graph_mask s)" using assms(2) by (auto simp: marked_def)
  then have "BFS_1 g (int n) (gx, gy) s = cpu_visit g gx s"
    using True by (auto simp: BFS_1_def cpu_visit_def global_id_small [OF assms(3)])
  then show ?thesis using cpu_visit_marked [OF assms(1,2) True] by simp
next
  case False
  then have "gx \<notin> level g k" using level_reached reached_range [OF assms(1)] by blast
  then have "level g k - insert gx T = level g k - T" "level g k \<inter> insert gx T = level g k \<inter> T" by auto
  then have "marked g n k (insert gx T) (edge g `` (level g k \<inter> insert gx T)) s"
    using assms(2) unfolding marked_def by simp
  then show ?thesis using False by (simp add: BFS_1_def global_id_small [OF assms(3)])
qed

lemma BFS_2_entered:
  assumes "graph_ok n g" "entered g n k T s" "gx < 2 ^ 31"
  shows "yields (BFS_2 (int n) (gx, gy) s) (\<lambda>t. entered g n k (insert gx T) t \<and> cost t = cost s)"
proof (cases "gx < n")
  case True
  then have "updating_mask s ! gx \<in> {0, 1}" "gx < length (updating_mask s)" using assms(2) by (auto simp: entered_def)
  then have "BFS_2 (int n) (gx, gy) s = cpu_update gx s"
    using True by (auto simp: BFS_2_def cpu_update_def global_id_small [OF assms(3)])
  then show ?thesis using cpu_update_entered [OF assms(2) True] by simp
next
  case False
  then have "gx \<notin> level g (Suc k)" using level_reached reached_range [OF assms(1)] by blast
  then have "level g (Suc k) - insert gx T = level g (Suc k) - T" "level g (Suc k) \<inter> insert gx T = level g (Suc k) \<inter> T" by auto
  then have "entered g n k (insert gx T) s"
    using assms(2) unfolding entered_def by simp
  then show ?thesis using False by (simp add: BFS_2_def global_id_small [OF assms(3)])
qed

text \<open>A launch on at least the nodes, in any order.\<close>

lemma launch_collects:
  assumes "runs_all (items2 G 1) sched" "I {} s"
    and "\<And>gx gy B t. gx < G \<Longrightarrow> I B t \<Longrightarrow> yields (body (gx, gy) t) (I (insert gx B))"
  shows "yields (foldM body sched s) (I {0..<G})"
proof -
  have sched: "set sched = {0..<G} \<times> {0..<1 :: nat}" using assms(1) by (simp add: runs_all_def items2_def)
  have "yields (foldM body sched s) (\<lambda>t. I (fst ` ({} \<union> set sched)) t)"
  proof (rule foldM_collects [where I = "\<lambda>B :: (nat \<times> nat) set. I (fst ` B)"])
    fix x :: "nat \<times> nat" and B :: "(nat \<times> nat) set" and t assume "x \<in> set sched" "I (fst ` B) t"
    then show "yields (body x t) (I (fst ` insert x B))"
      using assms(3) [of "fst x" _ t "snd x"] sched by auto
  qed (use assms(2) in simp)
  then show ?thesis by (simp add: sched)
qed

lemma BFS_1_level:
  assumes "graph_ok n g" "at_level g n k s" "over s = 0" "runs_all (items2 G 1) sched" "n \<le> G" "G < 2 ^ 31"
  obtains t where "foldM (BFS_1 g (int n)) sched s = Some t" "entered g n k {} t" "length (cost t) = n"
    "\<forall>v < n. cost t ! v = (if v \<in> reached g (Suc k) then hops g v else - 1)"
proof -
  have "s\<lparr>over := 0\<rparr> = s" using assms(3) by simp
  then have "yields (foldM (BFS_1 g (int n)) sched s) (marked g n k {0..<G} (edge g `` (level g k \<inter> {0..<G})))"
    using start_marked [OF assms(2)] assms(6)
    by (intro launch_collects [OF assms(4), where I = "\<lambda>T. marked g n k T (edge g `` (level g k \<inter> T))"]
        BFS_1_marked [OF assms(1)]) simp_all
  then obtain t where t: "foldM (BFS_1 g (int n)) sched s = Some t"
      "marked g n k {0..<G} (edge g `` (level g k \<inter> {0..<G})) t"
    by (auto simp: yields_def)
  have "{..<n} \<subseteq> {0..<G}" using assms(5) by auto
  note all = marked_all [OF assms(1) t(2) this]
  show thesis by (rule that [OF t(1) all])
qed

lemma BFS_2_level:
  assumes "graph_ok n g" "entered g n k {} s" "runs_all (items2 G 1) sched" "n \<le> G" "G < 2 ^ 31"
    and "length c = n" "\<forall>v < n. c ! v = (if v \<in> reached g (Suc k) then hops g v else - 1)"
  obtains t where "foldM (BFS_2 (int n)) sched s = Some t" "at_level g n (Suc k) (t\<lparr>cost := c\<rparr>)"
    "over t = (if level g (Suc k) = {} then 0 else 1)" "cost t = cost s"
proof -
  have "yields (foldM (BFS_2 (int n)) sched s) (\<lambda>t. entered g n k {0..<G} t \<and> cost t = cost s)"
  proof (rule launch_collects [OF assms(3), where I = "\<lambda>T t. entered g n k T t \<and> cost t = cost s"])
    fix gx gy T t assume "gx < G" "entered g n k T t \<and> cost t = cost s"
    then show "yields (BFS_2 (int n) (gx, gy) t) (\<lambda>t. entered g n k (insert gx T) t \<and> cost t = cost s)"
      using BFS_2_entered [OF assms(1), of k T t gx gy] assms(5) by simp
  qed (use assms(2) in simp)
  then obtain t where t: "foldM (BFS_2 (int n)) sched s = Some t" "entered g n k {0..<G} t" "cost t = cost s"
    by (auto simp: yields_def)
  have "{..<n} \<subseteq> {0..<G}" "entered g n k {0..<G} (t\<lparr>cost := c\<rparr>)"
    using assms(4) t(2) by (auto simp: entered_def)
  note all = entered_all [OF assms(1) this(2,1)]
  show thesis using all assms(6,7) t(3) by (intro that [OF t(1)]) simp_all
qed

text \<open>Both kernels together do what a level on the host does.\<close>

lemma device_level:
  assumes "graph_ok n g" "at_level g n k s"
    and "runs_all (items2 G 1) sched" "n \<le> G" "G < 2 ^ 31" "runs_all (items2 G' 1) sched'" "n \<le> G'" "G' < 2 ^ 31"
  shows "Option.bind (foldM (BFS_1 g (int n)) sched (s\<lparr>over := 0\<rparr>)) (foldM (BFS_2 (int n)) sched') = cpu_level g n s"
proof -
  have "at_level g n k (s\<lparr>over := 0\<rparr>)" using assms(2) by (simp add: at_level_def)
  from BFS_1_level [OF assms(1) this _ assms(3-5)] obtain t
    where t: "foldM (BFS_1 g (int n)) sched (s\<lparr>over := 0\<rparr>) = Some t" "entered g n k {} t" "length (cost t) = n"
      "\<forall>v < n. cost t ! v = (if v \<in> reached g (Suc k) then hops g v else - 1)" by auto
  obtain u where u: "foldM (BFS_2 (int n)) sched' t = Some u" "at_level g n (Suc k) (u\<lparr>cost := cost t\<rparr>)"
      "over u = (if level g (Suc k) = {} then 0 else 1)" "cost u = cost t"
    by (rule BFS_2_level [OF assms(1) t(2) assms(6-8) t(3,4)])
  have "u\<lparr>cost := cost t\<rparr> = u" using u(4) by (intro search.equality) simp_all
  then have lu: "at_level g n (Suc k) u" using u(2) by simp
  obtain v where v: "cpu_level g n s = Some v" "at_level g n (Suc k) v" "over v = (if level g (Suc k) = {} then 0 else 1)"
    using cpu_level_ok [OF assms(1,2)] by (auto simp: yields_def)
  have "u = v" using at_level_unique [OF lu v(2)] u(3) v(3) by simp
  then show ?thesis by (simp add: t(1) u(1) v(1))
qed

section \<open>The helpers when every call succeeds\<close>

text \<open>The graph and the arrays of a search are in the buffers, and the kernels have been made.\<close>

definition on_device :: "graph \<Rightarrow> search \<Rightarrow> helper \<Rightarrow> bool" where
  "on_device g s h \<longleftrightarrow> cl_kernels h = kernel_names
     \<and> node_elements (memory h ''d_graph_nodes'') = Some (graph_nodes g)
     \<and> int_elements (memory h ''d_graph_edges'') = Some (graph_edges g)
     \<and> write_only h ''d_graph_nodes'' \<and> (\<forall>name. write_only h name \<longrightarrow> name \<in> {''d_graph_nodes'', ''d_graph_edges''})
     \<and> memory h ''d_graph_mask'' = Some (Char_buffer (graph_mask s))
     \<and> memory h ''d_updating_graph_mask'' = Some (Char_buffer (updating_mask s))
     \<and> memory h ''d_graph_visited'' = Some (Char_buffer (visited s))
     \<and> memory h ''d_cost'' = Some (Int_buffer (cost s))
     \<and> memory h ''d_over'' = Some (Char_buffer [over s])"

lemma on_device_cong: "memory h' = memory h \<Longrightarrow> write_only h' = write_only h \<Longrightarrow> cl_kernels h' = cl_kernels h \<Longrightarrow> on_device g s h' = on_device g s h"
  by (simp add: on_device_def)

lemma recorded_ok:
  "all_succeed (lib env) \<Longrightarrow> recorded env f (h, c) =
     Option.bind (f c (h\<lparr>cl_status := CL_SUCCESS\<rparr>)) (\<lambda>h'. Some (h', c + 1))"
  by (simp add: recorded_def all_succeed_def)

lemma set_args_ok:
  assumes "all_succeed (lib env)"
  obtains h' c' where "set_args env kernel_id as (h, c) = Some (h', c')" "memory h' = memory h"
    "write_only h' = write_only h" "cl_kernels h' = cl_kernels h" "\<forall>i < length as. kernel_args h' kernel_id i = Some (as ! i)"
proof -
  have "yields (for_loop 0 (length as) (\<lambda>i. clSetArgs env kernel_id i (as ! i)) (h, c))
      (\<lambda>(h', c'). memory h' = memory h \<and> write_only h' = write_only h \<and> cl_kernels h' = cl_kernels h
        \<and> (\<forall>i < length as. kernel_args h' kernel_id i = Some (as ! i)))"
    by (rule for_loop_yields [where I = "\<lambda>j (h', c'). memory h' = memory h \<and> write_only h' = write_only h \<and> cl_kernels h' = cl_kernels h
        \<and> (\<forall>i < j. kernel_args h' kernel_id i = Some (as ! i))"])
      (auto simp: clSetArgs_def recorded_ok [OF assms] less_Suc_eq)
  then show thesis
    using that by (auto simp: yields_def set_args_def then_run_def foldM_map for_loop_def)
qed

lemma rounded_up:
  fixes n m :: int
  assumes "0 < m" "0 \<le> n" "n + m \<le> 2 ^ 31"
  obtains G where "(if n mod m \<noteq> 0 then checked (n + (m - n mod m)) else Some n) = Some G" "n \<le> G" "G < 2 ^ 31"
proof (cases "n mod m = 0")
  case False
  then have "0 < n mod m" "n mod m < m" using pos_mod_bound [OF assms(1)] pos_mod_sign [OF assms(1), of n] by auto
  then show ?thesis using assms(2,3) False by (intro that [of "n + (m - n mod m)"]) (auto simp: checked_def fits_int_def)
qed (use assms that [of n] in auto)

lemma may_read_status [simp]: "may_read env (h\<lparr>cl_status := x\<rparr>) = may_read env h"
  by (rule ext) (simp add: may_read_def)

lemma clInvokeKernel_ok:
  assumes "all_succeed (lib env)" "0 < m" "int n + m \<le> 2 ^ 31" "env_ok env"
    and "kernel_id < length (cl_kernels h)"
    and "\<not> args_missing (if cl_kernels h ! kernel_id = ''BFS_1'' then 7 else 5) (kernel_args h kernel_id)"
  obtains G c' where "n \<le> G" "G < 2 ^ 31" "runs_all (items2 G 1) (schedule env c G 1)"
    "clInvokeKernel env kernel_id (int n) m (h, c) =
       Option.bind ((if cl_kernels h ! kernel_id = ''BFS_1'' then run_BFS_1 else run_BFS_2)
           (may_read env h) (kernel_args h kernel_id) (schedule env c G 1) (memory h))
         (\<lambda>mem. Some (h\<lparr>cl_status := CL_SUCCESS, memory := mem\<rparr>, c'))"
proof -
  obtain G where G: "(if int n mod m \<noteq> 0 then checked (int n + (m - int n mod m)) else Some (int n)) = Some G"
      "int n \<le> G" "G < 2 ^ 31"
    by (rule rounded_up [OF assms(2) _ assms(3)]) simp_all
  show thesis
  proof (rule that [of "nat G" "c + 1"])
    show "clInvokeKernel env kernel_id (int n) m (h, c) =
       Option.bind ((if cl_kernels h ! kernel_id = ''BFS_1'' then run_BFS_1 else run_BFS_2)
           (may_read env h) (kernel_args h kernel_id) (schedule env c (nat G) 1) (memory h))
         (\<lambda>mem. Some (h\<lparr>cl_status := CL_SUCCESS, memory := mem\<rparr>, c + 1))"
      unfolding clInvokeKernel_def G(1)
      using assms(2,5,6) by (simp add: recorded_ok [OF assms(1)] Let_def split: if_splits)
  qed (use G(2,3) assms(4) in \<open>auto simp: env_ok_def\<close>)
qed

section \<open>A level on the device\<close>

lemma args_found:
  "(\<And>i. i < m \<Longrightarrow> args i = Some (as ! i)) \<Longrightarrow> \<not> args_missing m args"
  by (auto simp: args_missing_def)

lemma run_BFS_1_ok:
  assumes "graph_ok n g" "at_level g n k s" "over s = 0" "on_device g s h"
    and "runs_all (items2 G 1) sched" "n \<le> G" "G < 2 ^ 31"
    and "\<forall>i < 7. args i = Some ([Mem_arg ''d_graph_nodes'', Mem_arg ''d_graph_edges'',
      Mem_arg ''d_graph_mask'', Mem_arg ''d_updating_graph_mask'', Mem_arg ''d_graph_visited'',
      Mem_arg ''d_cost'', Int_arg (int n)] ! i)"
    and "\<And>name. readable name"
  obtains t mem where "run_BFS_1 readable args sched (memory h) = Some mem" "on_device g t (h\<lparr>cl_status := CL_SUCCESS, memory := mem\<rparr>)"
    "entered g n k {} t" "length (cost t) = n"
    "\<forall>v < n. cost t ! v = (if v \<in> reached g (Suc k) then hops g v else - 1)"
proof -
  obtain t where t: "foldM (BFS_1 g (int n)) sched s = Some t" "entered g n k {} t" "length (cost t) = n"
    "\<forall>v < n. cost t ! v = (if v \<in> reached g (Suc k) then hops g v else - 1)"
    by (rule BFS_1_level [OF assms(1-3,5-7)])
  have s: "\<lparr>graph_mask = graph_mask s, updating_mask = updating_mask s, visited = visited s, cost = cost s, over = 0\<rparr> = s"
    using assms(3) by simp
  have g: "\<lparr>graph_nodes = graph_nodes g, graph_edges = graph_edges g\<rparr> = g" by simp
  have a: "args 0 = Some (Mem_arg ''d_graph_nodes'')" "args 1 = Some (Mem_arg ''d_graph_edges'')"
    "args 2 = Some (Mem_arg ''d_graph_mask'')" "args 3 = Some (Mem_arg ''d_updating_graph_mask'')"
    "args 4 = Some (Mem_arg ''d_graph_visited'')" "args 5 = Some (Mem_arg ''d_cost'')" "args 6 = Some (Int_arg (int n))"
    by (simp_all add: assms(8))
  have "over t = 0" using t(2) by (simp add: entered_def)
  moreover have "visited t = visited s"
    using t(2) assms(2) by (intro nth_equalityI) (simp_all add: entered_def at_level_def)
  moreover have "run_BFS_1 readable args sched (memory h) = Some ((memory h)(''d_graph_mask'' \<mapsto> Char_buffer (graph_mask t),
      ''d_updating_graph_mask'' \<mapsto> Char_buffer (updating_mask t), ''d_cost'' \<mapsto> Int_buffer (cost t)))"
    using assms(3,4,9) unfolding run_BFS_1_def a by (simp add: on_device_def as_read_def s g t(1))
  ultimately show thesis
    using assms(3,4) by (intro that [OF _ _ t(2-4)]) (auto simp: on_device_def)
qed

lemma run_BFS_2_ok:
  assumes "graph_ok n g" "entered g n k {} s" "on_device g s h"
    and "runs_all (items2 G 1) sched" "n \<le> G" "G < 2 ^ 31"
    and "length (cost s) = n" "\<forall>v < n. cost s ! v = (if v \<in> reached g (Suc k) then hops g v else - 1)"
    and "\<forall>i < 5. args i = Some ([Mem_arg ''d_graph_mask'', Mem_arg ''d_updating_graph_mask'',
      Mem_arg ''d_graph_visited'', Mem_arg ''d_over'', Int_arg (int n)] ! i)"
    and "readable ''d_updating_graph_mask''"
  obtains t mem where "run_BFS_2 readable args sched (memory h) = Some mem" "on_device g t (h\<lparr>cl_status := CL_SUCCESS, memory := mem\<rparr>)"
    "at_level g n (Suc k) t" "over t = (if level g (Suc k) = {} then 0 else 1)"
proof -
  let ?s = "\<lparr>graph_mask = graph_mask s, updating_mask = updating_mask s, visited = visited s, cost = [], over = over s\<rparr>"
  have "entered g n k {} ?s" using assms(2) by (simp add: entered_def)
  from BFS_2_level [OF assms(1) this assms(4-8)] obtain t
    where t: "foldM (BFS_2 (int n)) sched ?s = Some t" "at_level g n (Suc k) (t\<lparr>cost := cost s\<rparr>)"
      "over t = (if level g (Suc k) = {} then 0 else 1)" by blast
  have a: "args 0 = Some (Mem_arg ''d_graph_mask'')" "args 1 = Some (Mem_arg ''d_updating_graph_mask'')"
    "args 2 = Some (Mem_arg ''d_graph_visited'')" "args 3 = Some (Mem_arg ''d_over'')" "args 4 = Some (Int_arg (int n))"
    by (simp_all add: assms(9))
  have "run_BFS_2 readable args sched (memory h) = Some ((memory h)(''d_graph_mask'' \<mapsto> Char_buffer (graph_mask t),
      ''d_updating_graph_mask'' \<mapsto> Char_buffer (updating_mask t), ''d_graph_visited'' \<mapsto> Char_buffer (visited t),
      ''d_over'' \<mapsto> Char_buffer [over t]))"
    using assms(3,10) unfolding run_BFS_2_def a by (simp add: on_device_def t(1))
  then show thesis
    using assms(3) t(3) by (intro that [OF _ _ t(2)]) (auto simp: on_device_def)
qed

text \<open>The first launch of a level.\<close>

abbreviation visit_args :: "nat \<Rightarrow> helper_arg list" where
  "visit_args n \<equiv> [Mem_arg ''d_graph_nodes'', Mem_arg ''d_graph_edges'', Mem_arg ''d_graph_mask'',
    Mem_arg ''d_updating_graph_mask'', Mem_arg ''d_graph_visited'', Mem_arg ''d_cost'', Int_arg (int n)]"

lemma level_begins:
  assumes "all_succeed (lib env)" "env_ok env" "0 < m" "int n + m \<le> 2 ^ 31" "on_device g s h"
  obtains h1 c1 h2 c2 G c3 where "clMemcpyH2D env ''d_over'' (Char_buffer [0]) (h, c) = Some (h1, c1)"
    "set_args env 0 (visit_args n) (h1, c1) = Some (h2, c2)" "on_device g (s\<lparr>over := 0\<rparr>) h2"
    "\<forall>i < 7. kernel_args h2 0 i = Some (visit_args n ! i)"
    "n \<le> G" "G < 2 ^ 31" "runs_all (items2 G 1) (schedule env c2 G 1)"
    "clInvokeKernel env 0 (int n) m (h2, c2) =
        Option.bind (run_BFS_1 (may_read env h2) (kernel_args h2 0) (schedule env c2 G 1) (memory h2))
          (\<lambda>mem. Some (h2\<lparr>cl_status := CL_SUCCESS, memory := mem\<rparr>, c3))"
proof -
  let ?s = "s\<lparr>over := 0\<rparr>"
  obtain h1 c1 where h1: "clMemcpyH2D env ''d_over'' (Char_buffer [0]) (h, c) = Some (h1, c1)" "on_device g ?s h1"
    using assms(5) by (auto simp: clMemcpyH2D_def recorded_ok [OF assms(1)] on_device_def)
  obtain h2 c2 where h2: "set_args env 0 (visit_args n) (h1, c1) = Some (h2, c2)" "memory h2 = memory h1"
      "write_only h2 = write_only h1" "cl_kernels h2 = cl_kernels h1"
      "\<forall>i < length (visit_args n). kernel_args h2 0 i = Some (visit_args n ! i)"
    by (rule set_args_ok [OF assms(1), of 0 "visit_args n" h1 c1])
  have d2: "on_device g ?s h2" using h1(2) on_device_cong [OF h2(2-4)] by simp
  then have "cl_kernels h2 = kernel_names" by (simp add: on_device_def)
  then have k2: "0 < length (cl_kernels h2)" "cl_kernels h2 ! 0 = ''BFS_1''" by (simp_all add: kernel_names_def)
  have "\<not> args_missing (if cl_kernels h2 ! 0 = ''BFS_1'' then 7 else 5) (kernel_args h2 0)"
    using h2(5) k2(2) by (intro args_found) simp
  from clInvokeKernel_ok [OF assms(1,3,4,2) k2(1) this] obtain G c3
    where G: "n \<le> G" "G < 2 ^ 31" "runs_all (items2 G 1) (schedule env c2 G 1)"
      and inv: "clInvokeKernel env 0 (int n) m (h2, c2) =
        Option.bind (run_BFS_1 (may_read env h2) (kernel_args h2 0) (schedule env c2 G 1) (memory h2))
          (\<lambda>mem. Some (h2\<lparr>cl_status := CL_SUCCESS, memory := mem\<rparr>, c3))"
    unfolding k2(2) by auto
  have "\<forall>i < 7. kernel_args h2 0 i = Some (visit_args n ! i)" using h2(5) by simp
  then show thesis by (rule that [OF h1(1) h2(1) d2 _ G inv])
qed

lemma gpu_level_ok:
  assumes "all_succeed (lib env)" "env_ok env" "graph_ok n g" "0 < m" "int n + m \<le> 2 ^ 31"
    and "on_device g s h" "at_level g n k s" "reads_write_only env"
  obtains t h' c' where "gpu_level env (int n) m (h, c) = Some (over t, h', c')" "on_device g t h'"
    "at_level g n (Suc k) t" "over t = (if level g (Suc k) = {} then 0 else 1)"
proof -
  let ?s = "s\<lparr>over := 0\<rparr>"
  let ?bs = "[Mem_arg ''d_graph_mask'', Mem_arg ''d_updating_graph_mask'', Mem_arg ''d_graph_visited'',
    Mem_arg ''d_over'', Int_arg (int n)]"
  obtain h1 c1 h2 c2 G c3 where h1: "clMemcpyH2D env ''d_over'' (Char_buffer [0]) (h, c) = Some (h1, c1)"
      and h2: "set_args env 0 (visit_args n) (h1, c1) = Some (h2, c2)" and d2: "on_device g ?s h2"
      and as: "\<forall>i < 7. kernel_args h2 0 i = Some (visit_args n ! i)"
      and G: "n \<le> G" "G < 2 ^ 31" "runs_all (items2 G 1) (schedule env c2 G 1)"
      and inv: "clInvokeKernel env 0 (int n) m (h2, c2) =
        Option.bind (run_BFS_1 (may_read env h2) (kernel_args h2 0) (schedule env c2 G 1) (memory h2))
          (\<lambda>mem. Some (h2\<lparr>cl_status := CL_SUCCESS, memory := mem\<rparr>, c3))"
    by (rule level_begins [OF assms(1,2,4-6)])
  have read: "may_read env h name" for h name using assms(8) by (simp add: may_read_def)
  have l: "at_level g n k ?s" "over ?s = 0" using assms(7) by (simp_all add: at_level_def)
  obtain t mem
    where t: "run_BFS_1 (may_read env h2) (kernel_args h2 0) (schedule env c2 G 1) (memory h2) = Some mem"
      "on_device g t (h2\<lparr>cl_status := CL_SUCCESS, memory := mem\<rparr>)" "entered g n k {} t" "length (cost t) = n"
      "\<forall>v < n. cost t ! v = (if v \<in> reached g (Suc k) then hops g v else - 1)"
    by (rule run_BFS_1_ok [OF assms(3) l d2 G(3,1,2) as read [of h2]])
  let ?h3 = "h2\<lparr>cl_status := CL_SUCCESS, memory := mem\<rparr>"
  obtain h4 c4 where h4: "set_args env 1 ?bs (?h3, c3) = Some (h4, c4)" "memory h4 = memory ?h3"
      "write_only h4 = write_only ?h3" "cl_kernels h4 = cl_kernels ?h3"
      "\<forall>i < length ?bs. kernel_args h4 1 i = Some (?bs ! i)"
    by (rule set_args_ok [OF assms(1), of 1 ?bs ?h3 c3])
  have d4: "on_device g t h4" using t(2) on_device_cong [OF h4(2-4)] by simp
  then have "cl_kernels h4 = kernel_names" by (simp add: on_device_def)
  then have k4: "1 < length (cl_kernels h4)" "cl_kernels h4 ! 1 = ''BFS_2''" by (simp_all add: kernel_names_def)
  have "\<not> args_missing (if cl_kernels h4 ! 1 = ''BFS_1'' then 7 else 5) (kernel_args h4 1)"
    using h4(5) k4(2) by (intro args_found) simp
  from clInvokeKernel_ok [OF assms(1,4,5,2) k4(1) this] obtain G' c5
    where G': "n \<le> G'" "G' < 2 ^ 31" "runs_all (items2 G' 1) (schedule env c4 G' 1)"
      and inv': "clInvokeKernel env 1 (int n) m (h4, c4) =
        Option.bind (run_BFS_2 (may_read env h4) (kernel_args h4 1) (schedule env c4 G' 1) (memory h4))
          (\<lambda>mem. Some (h4\<lparr>cl_status := CL_SUCCESS, memory := mem\<rparr>, c5))"
    unfolding k4(2) by auto
  have bs: "\<forall>i < 5. kernel_args h4 1 i = Some (?bs ! i)" using h4(5) by simp
  obtain u mem'
    where u: "run_BFS_2 (may_read env h4) (kernel_args h4 1) (schedule env c4 G' 1) (memory h4) = Some mem'"
      "on_device g u (h4\<lparr>cl_status := CL_SUCCESS, memory := mem'\<rparr>)" "at_level g n (Suc k) u"
      "over u = (if level g (Suc k) = {} then 0 else 1)"
    by (rule run_BFS_2_ok [OF assms(3) t(3) d4 G'(3,1,2) t(4,5) bs read [of h4]])
  let ?h5 = "h4\<lparr>cl_status := CL_SUCCESS, memory := mem'\<rparr>"
  have d: "memory ?h5 ''d_over'' = Some (Char_buffer [over u])" using u(2) by (simp add: on_device_def)
  have "clMemcpyD2H env ''d_over'' (?h5, c5) = Some (Some (Char_buffer [over u]), ?h5, c5 + 1)"
    using d by (simp add: clMemcpyD2H_def recorded_ok [OF assms(1)])
  then have "gpu_level env (int n) m (h, c) = Some (over u, ?h5, c5 + 1)"
    by (simp add: gpu_level_def then_run_def h1 h2 inv t(1) h4(1) inv' u(1) del: One_nat_def)
  then show thesis by (rule that [OF _ u(2-4)])
qed

text \<open>
  Without the right to read the nodes, the work item of node 0 comes to a read of them in the first
  level, whatever the order of the items; the others find nothing to do.
\<close>

lemma foldM_stuck:
  "x \<in> set xs \<Longrightarrow> (\<And>y. y \<in> set xs \<Longrightarrow> y \<noteq> x \<Longrightarrow> f y s = Some s) \<Longrightarrow> f x s = None \<Longrightarrow> foldM f xs s = None"
proof (induction xs)
  case (Cons y ys)
  then show ?case by (cases "y = x") auto
qed simp

lemma first_launch_undefined:
  assumes "graph_ok n g" "at_level g n 0 s" "on_device g s h" "\<not> reads_write_only env"
    and "runs_all (items2 G 1) sched" "n \<le> G" "G < 2 ^ 31" "\<forall>i < 7. args i = Some (visit_args n ! i)"
  shows "run_BFS_1 (may_read env h) args sched (memory h) = None"
proof -
  let ?g = "\<lambda>e. \<lparr>graph_nodes = [], graph_edges = e\<rparr>"
  have n: "0 < n" using assms(1) by (simp add: graph_ok_def)
  have mask: "length (graph_mask s) = n" "graph_mask s ! v = (if v = 0 then 1 else 0)" if "v < n" for v
    using assms(2) that by (simp_all add: at_level_def level_0)
  have items: "set sched = {0..<G} \<times> {0}" using assms(5) by (auto simp: runs_all_def items2_def)
  have "foldM (BFS_1 (?g e) (int n)) sched t = None" if t: "graph_mask t = graph_mask s" for e t
  proof (rule foldM_stuck [where x = "(0, 0)"])
    show "(0, 0) \<in> set sched" using items n assms(6) by auto
    show "BFS_1 (?g e) (int n) (0, 0) t = None"
      using mask [OF n] n t by (simp add: BFS_1_def global_id_small int_at_def int_set_def visit_edges_def arg_at_def set_at_def)
    show "BFS_1 (?g e) (int n) y t = Some t" if "y \<in> set sched" "y \<noteq> (0, 0)" for y
    proof -
      obtain v where y: "y = (v, 0)" "v < G" "v \<noteq> 0" using \<open>y \<in> set sched\<close> \<open>y \<noteq> (0, 0)\<close> items by auto
      have "global_id (v, 0) = int v" using y(2) assms(7) by (intro global_id_small) simp
      then show ?thesis
        using mask [of v] t y by (simp add: BFS_1_def Let_def int_at_def arg_at_def)
    qed
  qed
  moreover have a: "args 0 = Some (Mem_arg ''d_graph_nodes'')" "args 1 = Some (Mem_arg ''d_graph_edges'')"
    "args 2 = Some (Mem_arg ''d_graph_mask'')" "args 3 = Some (Mem_arg ''d_updating_graph_mask'')"
    "args 4 = Some (Mem_arg ''d_graph_visited'')" "args 5 = Some (Mem_arg ''d_cost'')" "args 6 = Some (Int_arg (int n))"
    by (simp_all add: assms(8))
  ultimately show ?thesis
    using assms(3,4) unfolding run_BFS_1_def a by (simp add: on_device_def may_read_def as_read_def)
qed

lemma gpu_levels_undefined:
  assumes "all_succeed (lib env)" "env_ok env" "graph_ok n g" "0 < m" "int n + m \<le> 2 ^ 31"
    and "on_device g s h" "at_level g n 0 s" "\<not> reads_write_only env"
  shows "gpu_levels env (int n) m (h, c) = None"
proof -
  obtain h1 c1 h2 c2 G c3 where h1: "clMemcpyH2D env ''d_over'' (Char_buffer [0]) (h, c) = Some (h1, c1)"
      and h2: "set_args env 0 (visit_args n) (h1, c1) = Some (h2, c2)" and d2: "on_device g (s\<lparr>over := 0\<rparr>) h2"
      and as: "\<forall>i < 7. kernel_args h2 0 i = Some (visit_args n ! i)"
      and G: "n \<le> G" "G < 2 ^ 31" "runs_all (items2 G 1) (schedule env c2 G 1)"
      and inv: "clInvokeKernel env 0 (int n) m (h2, c2) =
        Option.bind (run_BFS_1 (may_read env h2) (kernel_args h2 0) (schedule env c2 G 1) (memory h2))
          (\<lambda>mem. Some (h2\<lparr>cl_status := CL_SUCCESS, memory := mem\<rparr>, c3))"
    by (rule level_begins [OF assms(1,2,4-6)])
  have "at_level g n 0 (s\<lparr>over := 0\<rparr>)" using assms(7) by (simp add: at_level_def)
  note stuck = first_launch_undefined [OF assms(3) this d2 assms(8) G(3,1,2) as]
  have "gpu_level env (int n) m (h, c) = None"
    by (simp add: gpu_level_def then_run_def h1 h2 inv stuck del: One_nat_def)
  then show ?thesis by (subst gpu_levels.simps) simp
qed

lemma gpu_levels_end:
  assumes "all_succeed (lib env)" "env_ok env" "graph_ok n g" "0 < m" "int n + m \<le> 2 ^ 31"
    and "on_device g s h" "at_level g n k s" "reads_write_only env"
  shows "yields (gpu_levels env (int n) m (h, c)) (\<lambda>(h', _). \<exists>t. on_device g t h' \<and> cost t = map (hops g) [0..<n])"
  using assms(6,7)
proof (induction k arbitrary: s h c rule: levels_induct [OF assms(3)])
  case (1 k)
  obtain t h' c' where t: "gpu_level env (int n) m (h, c) = Some (over t, h', c')" "on_device g t h'"
      "at_level g n (Suc k) t" "over t = (if level g (Suc k) = {} then 0 else 1)"
    by (rule gpu_level_ok [OF assms(1-5) 1(2,3) assms(8)])
  show ?case
  proof (cases "level g (Suc k) = {}")
    case True
    then have "level g (Suc (Suc k)) = {}" using level_nonempty_below by blast
    then show ?thesis
      using t True search_ends [OF assms(3) t(3)] by (subst gpu_levels.simps) auto
  next
    case False
    then show ?thesis using t 1(1) by (subst gpu_levels.simps) simp
  qed
qed

section \<open>Initialisation and release\<close>

lemma run_throwing_append:
  "run_throwing (fs @ gs) x =
     Option.bind (run_throwing fs x) (\<lambda>(ex, y). if ex \<noteq> None then Some (ex, y) else run_throwing gs y)"
proof (induction fs arbitrary: x)
  case Nil
  then show ?case by (cases x) simp
next
  case (Cons f fs)
  obtain s k where x: "x = (s, k)" by (cases x)
  show ?case using Cons.IH by (cases "f (s, k)") (auto simp: x split: prod.splits)
qed

lemma call_or_throw_ok:
  "all_succeed (lib env) \<Longrightarrow> call_or_throw env msg f (s, k) = Option.bind (f s) (\<lambda>s'. Some (None, s', k + 1))"
  by (simp add: call_or_throw_def all_succeed_def)

lemma query_platforms:
  "all_succeed (lib env) \<Longrightarrow> run_throwing (replicate m (call_or_throw env msg Some)) (s, k) = Some (None, s, k + m)"
  by (induction m arbitrary: k) (simp_all add: call_or_throw_ok)

text \<open>The program is found on the first platform, with a GPU, and in its file.\<close>

definition bfs_usable :: "run_env \<Rightarrow> bool" where
  "bfs_usable env \<longleftrightarrow> all_succeed (lib env) \<and> env_ok env \<and> platforms (lib env) \<noteq> []
     \<and> devices_of (platforms (lib env) ! 0) CL_DEVICE_TYPE_GPU \<noteq> [] \<and> run_files env bfs_kernel_file \<noteq> None"

lemma clInit_ok:
  assumes "bfs_usable env"
  obtains h c where "clInit env (new_helper, 0) = Some (None, h, c)" "cl_kernels h = kernel_names"
    "write_only h = (\<lambda>_. False)"
proof -
  have ok: "all_succeed (lib env)" using assms by (simp add: bfs_usable_def)
  obtain src where "run_files env bfs_kernel_file = Some src" using assms by (auto simp: bfs_usable_def)
  then have load: "load_source env (s, k) = Some (None, s\<lparr>cl_source := Some (c_str src)\<rparr>, k + 1)" for s k
    by (simp add: load_source_def FileToString_def call_or_throw_ok [OF ok])
  have build: "build_source env (s, k) = Some (None, s, k + 1)" for s k
    using ok by (simp add: build_source_def all_succeed_def)
  show thesis
    using assms that
    by (simp add: clInit_def Let_def run_throwing_append call_or_throw_ok [OF ok] query_platforms [OF ok]
        require_def load build create_bfs_kernel_def kernel_names_def bfs_usable_def new_helper_def)
qed

lemma frees_ok:
  assumes "all_succeed (lib env)"
  obtains y where "then_run (map (clFree env) names) x = Some y"
proof -
  have "foldM (clFree env) names (h, c) \<noteq> None" for h c
  proof (induction names arbitrary: h c)
    case (Cons a names)
    then show ?case by (cases "memory h a = None") (simp_all add: clFree_def recorded_ok [OF assms])
  qed simp
  then show thesis using that by (cases x) (auto simp: then_run_def foldM_map)
qed

lemma clRelease_ok:
  assumes "all_succeed (lib env)"
  obtains y where "clRelease env x = Some (None, y)"
proof -
  have "release_if env p (False, k) = (False, if p then k + 1 else k)" for p k
    using assms by (simp add: release_if_def all_succeed_def)
  then show thesis using that by (cases x) (simp add: clRelease_def)
qed

text \<open>The buffers are made and filled; a graph without edges has a null buffer for them.\<close>

lemma buffers_filled:
  assumes "all_succeed (lib env)" "graph_ok n g" "at_level g n 0 s" "cl_kernels h = kernel_names" "write_only h = (\<lambda>_. False)"
  obtains h1 c1 where "then_run
      (map (\<lambda>(name, b). clMalloc env name b) (graph_buffers g) @
       map (\<lambda>(name, b). clMallocRW env name b)
         (search_buffers s @ [(''d_over'', Char_buffer [ucast (fresh env ''h_over'' 0)])]) @
       map (\<lambda>(name, b). clMemcpyH2D env name b) (device_buffers g s)) (h, c) = Some (h1, c1)"
    "on_device g (s\<lparr>over := ucast (fresh env ''h_over'' 0)\<rparr>) h1"
proof -
  have "graph_nodes g \<noteq> []" "graph_mask s \<noteq> []" "updating_mask s \<noteq> []" "visited s \<noteq> []" "cost s \<noteq> []"
    using assms(2,3) by (auto simp: graph_ok_def at_level_def)
  then show thesis
    using assms(4,5) that
    by (cases "graph_edges g = []")
      (simp_all add: then_run_def device_buffers_def graph_buffers_def search_buffers_def clMalloc_def clMallocRW_def
        make_buffer_def clMemcpyH2D_def recorded_ok [OF assms(1)] on_device_def)
qed

text \<open>The whole run on the device.\<close>

theorem run_bfs_gpu_ok:
  assumes "bfs_usable env" "graph_ok n g" "0 < m" "int n + m \<le> 2 ^ 31" "at_level g n 0 s"
  shows "run_bfs_gpu env g (int n) m s = (if reads_write_only env then Some (map (hops g) [0..<n]) else None)"
proof -
  have ok: "all_succeed (lib env)" "env_ok env" using assms(1) by (simp_all add: bfs_usable_def)
  obtain h c where init: "clInit env (new_helper, 0) = Some (None, h, c)" "cl_kernels h = kernel_names"
      "write_only h = (\<lambda>_. False)"
    by (rule clInit_ok [OF assms(1)])
  let ?s = "s\<lparr>over := ucast (fresh env ''h_over'' 0)\<rparr>"
  obtain h1 c1 where h1: "then_run
      (map (\<lambda>(name, b). clMalloc env name b) (graph_buffers g) @
       map (\<lambda>(name, b). clMallocRW env name b)
         (search_buffers s @ [(''d_over'', Char_buffer [ucast (fresh env ''h_over'' 0)])]) @
       map (\<lambda>(name, b). clMemcpyH2D env name b) (device_buffers g s)) (h, c) = Some (h1, c1)"
      "on_device g ?s h1"
    by (rule buffers_filled [OF ok(1) assms(2,5) init(2,3)])
  have l: "at_level g n 0 ?s" using assms(5) by (simp add: at_level_def)
  show ?thesis
  proof (cases "reads_write_only env")
    case False
    show ?thesis unfolding run_bfs_gpu_def init(1)
      using False by (simp add: h1(1) gpu_levels_undefined [OF ok assms(2-4) h1(2) l False] del: map_append map_map)
  next
    case True
    from gpu_levels_end [OF ok assms(2-4) h1(2) l True, of c1] obtain h2 c2 t
      where h2: "gpu_levels env (int n) m (h1, c1) = Some (h2, c2)" "on_device g t h2" "cost t = map (hops g) [0..<n]"
      by (auto simp: yields_def)
    obtain h3 c3 where h3: "clFinish env (h2, c2) = Some (h3, c3)" "memory h3 = memory h2"
      by (simp add: clFinish_def recorded_ok [OF ok(1)])
    have "memory h3 ''d_cost'' = Some (Int_buffer (map (hops g) [0..<n]))" using h2(2,3) h3(2) by (simp add: on_device_def)
    then obtain h4 c4 where h4: "clMemcpyD2H env ''d_cost'' (h3, c3) =
        Some (Some (Int_buffer (map (hops g) [0..<n])), h4, c4)"
      by (simp add: clMemcpyD2H_def recorded_ok [OF ok(1)])
    obtain y where y: "then_run (map (clFree env) (map fst (device_buffers g s) @ [''d_over''])) (h4, c4) = Some y"
      by (rule frees_ok [OF ok(1)])
    obtain z where z: "clRelease env y = Some (None, z)" by (rule clRelease_ok [OF ok(1)])
    show ?thesis unfolding run_bfs_gpu_def init(1)
      using True by (simp add: h1(1) h2(1) h3(1) h4 y z del: map_append map_map)
  qed
qed

end
