(* ===== verification/Bfs_Props.thy ===== *)
theory Bfs_Props
  imports Bfs_Run
begin

text \<open>
  Properties of the breadth-first search: the distances the host finds, the agreement of a level on
  the device with one on the host on any schedule, and the program as a whole.
\<close>

section \<open>The whole program\<close>


lemma levels_reached:
  assumes "graph_ok n g" "at_level g n 0 s0"
  shows "yields (for_loop 0 j (\<lambda>_. cpu_level g n) s0) (at_level g n j)"
proof (rule for_loop_yields [where I = "at_level g n"])
  fix i s assume "at_level g n i s"
  from cpu_level_ok [OF assms(1) this] show "yields (cpu_level g n s) (at_level g n (Suc i))"
    by (rule yields_mono) simp
qed (use assms(2) in simp_all)

section \<open>Properties\<close>

text \<open>C30.
  On a graph whose edges lie inside its arrays, the search on the host ends, and the cost of every
  node is the length of the shortest path of edges from node 0, -1 where there is none.\<close>

theorem bfs_reference_distances:
  assumes "graph_ok n g" "initial_search (int n) = Some s"
  shows "\<exists>t. run_bfs_cpu g n s = Some t \<and> length (cost t) = n \<and>
    (\<forall>v < n. cost t ! v =
      (if \<exists>k. (0, v) \<in> edge g ^^ k then int (LEAST k. (0, v) \<in> edge g ^^ k) else - 1))"
proof -
  obtain s' where "initial_search (int n) = Some s'" "at_level g n 0 s'"
    by (rule initial_search_ok [OF assms(1)])
  then obtain t where "run_bfs_cpu g n s = Some t" "cost t = map (hops g) [0..<n]"
    using run_bfs_cpu_ends [OF assms(1)] assms(2) by (auto simp: yields_def)
  then show ?thesis by (simp add: hops_def)
qed

text \<open>Node 3 cannot be reached; node 2 is reached by an edge and by a path of two.\<close>

definition four_nodes :: graph where
  "four_nodes = \<lparr>graph_nodes = [\<lparr>starting = 0, no_of_edges = 2\<rparr>, \<lparr>starting = 2, no_of_edges = 1\<rparr>,
      \<lparr>starting = 3, no_of_edges = 1\<rparr>, \<lparr>starting = 4, no_of_edges = 1\<rparr>],
     graph_edges = [1, 2, 2, 0, 1]\<rparr>"

lemma four_nodes_ok: "graph_ok 4 four_nodes"
  by (auto simp: graph_ok_def four_nodes_def out_range_def fits_int_def)

theorem bfs_reference_distances_witness:
  "\<exists>s t. initial_search 4 = Some s \<and> run_bfs_cpu four_nodes 4 s = Some t \<and> length (cost t) = 4"
proof -
  obtain s where "initial_search (int 4) = Some s" by (rule initial_search_ok [OF four_nodes_ok])
  then show ?thesis using bfs_reference_distances [OF four_nodes_ok, of s] by auto
qed

text \<open>C31.
  At every state the search on the host comes to, the two kernels, run on at least as many work items
  as there are nodes, in any order, do exactly what the next level on the host does.\<close>

theorem bfs_device_equals_reference:
  assumes "graph_ok n g" "initial_search (int n) = Some s0" "for_loop 0 j (\<lambda>_. cpu_level g n) s0 = Some s"
    and "runs_all (items2 G 1) sched" "n \<le> G" "G < 2 ^ 31" "runs_all (items2 G' 1) sched'" "n \<le> G'" "G' < 2 ^ 31"
  shows "Option.bind (foldM (BFS_1 g (int n)) sched (s\<lparr>over := 0\<rparr>)) (foldM (BFS_2 (int n)) sched') = cpu_level g n s"
proof -
  obtain s' where "initial_search (int n) = Some s'" "at_level g n 0 s'"
    by (rule initial_search_ok [OF assms(1)])
  then have "at_level g n j s" using levels_reached [OF assms(1), of s0 j] assms(2,3) by (simp add: yields_def)
  then show ?thesis by (rule device_level [OF assms(1) _ assms(4-9)])
qed

theorem bfs_device_equals_reference_witness:
  "\<exists>s. initial_search 4 = Some s \<and>
    Option.bind (foldM (BFS_1 four_nodes 4) [(4, 0), (0, 0), (2, 0), (3, 0), (1, 0)] (s\<lparr>over := 0\<rparr>))
      (foldM (BFS_2 4) [(3, 0), (2, 0), (1, 0), (0, 0)]) = cpu_level four_nodes 4 s"
proof -
  obtain s where s: "initial_search (int 4) = Some s" by (rule initial_search_ok [OF four_nodes_ok])
  have "runs_all (items2 5 1) [(4, 0), (0, 0), (2, 0), (3, 0), (1, 0)]" "runs_all (items2 4 1) [(3, 0), (2, 0), (1, 0), (0, 0)]"
    by (auto simp: runs_all_def items2_def)
  moreover have "for_loop 0 0 (\<lambda>_. cpu_level four_nodes 4) s = Some s" by (simp add: for_loop_def)
  ultimately show ?thesis using bfs_device_equals_reference [OF four_nodes_ok s] s by fastforce
qed






end
