(* ===== verification/Reduction.thy ===== *)
theory Reduction
  imports Sdk_Host
begin

text \<open>
  The sample \<open>cl_testbench/Reduction\<close>: the sum of an array of unsigned numbers.  Every work group
  adds up a part of the array in local memory, vector by vector, with a barrier between the steps;
  the host adds up the sums of the groups.  \<open>length\<close> and \<open>iterations\<close> are set by options, so they are
  variables of the base class.  Conventions are those of \<open>Sdk_Host\<close>.
\<close>

section \<open>Vectors of four\<close>

datatype uint4 = Uint4 "32 word" "32 word" "32 word" "32 word"

instantiation uint4 :: comm_monoid_add
begin

definition zero_uint4 :: uint4 where
  "0 = Uint4 0 0 0 0"

definition plus_uint4 :: "uint4 \<Rightarrow> uint4 \<Rightarrow> uint4" where
  "x + y = (case (x, y) of (Uint4 a b c d, Uint4 e f g h) \<Rightarrow> Uint4 (a + e) (b + f) (c + g) (d + h))"

instance
  by standard (auto simp: zero_uint4_def plus_uint4_def split: uint4.splits)

end

text \<open>The vector at an index of a buffer.\<close>

definition load4 :: "32 word list \<Rightarrow> nat \<Rightarrow> uint4 option" where
  "load4 buf i =
     do { a \<leftarrow> arg_at buf (4 * i); b \<leftarrow> arg_at buf (4 * i + 1); c \<leftarrow> arg_at buf (4 * i + 2); d \<leftarrow> arg_at buf (4 * i + 3);
          Some (Uint4 a b c d) }"

definition store4 :: "32 word list \<Rightarrow> nat \<Rightarrow> uint4 \<Rightarrow> 32 word list option" where
  "store4 buf i v =
     (case v of Uint4 a b c d \<Rightarrow>
        do { buf1 \<leftarrow> set_at buf (4 * i) a; buf2 \<leftarrow> set_at buf1 (4 * i + 1) b;
             buf3 \<leftarrow> set_at buf2 (4 * i + 2) c; set_at buf3 (4 * i + 3) d })"

section \<open>The kernel\<close>

text \<open>
  The parts between the barriers.  \<open>input\<close> is only read, so the global memory of a launch is the
  output.
\<close>

definition load_pair :: "32 word list \<Rightarrow> 32 word \<Rightarrow> (uint4 list, 32 word list) phase" where
  "load_pair input localSize b t = (\<lambda>(sdata, out).
     let tid = word_of_nat t :: 32 word; gid = word_of_nat (b * unat localSize + t) :: 32 word; stride = gid * 2
     in do { x \<leftarrow> load4 input (unat stride); y \<leftarrow> load4 input (unat (stride + 1));
             sdata' \<leftarrow> set_at sdata (unat tid) (x + y); Some (sdata', out) })"

definition add_half :: "32 word \<Rightarrow> (uint4 list, 32 word list) phase" where
  "add_half s b t = (\<lambda>(sdata, out).
     let tid = word_of_nat t :: 32 word
     in if tid < s
        then do { x \<leftarrow> arg_at sdata (unat tid); y \<leftarrow> arg_at sdata (unat (tid + s));
                  sdata' \<leftarrow> set_at sdata (unat tid) (x + y); Some (sdata', out) }
        else Some (sdata, out))"

definition store_sum :: "(uint4 list, 32 word list) phase" where
  "store_sum b t = (\<lambda>(sdata, out).
     let tid = word_of_nat t :: 32 word; bid = word_of_nat b :: 32 word
     in if tid = 0
        then do { x \<leftarrow> arg_at sdata 0; out' \<leftarrow> store4 out (unat bid) x; Some (sdata, out') }
        else Some (sdata, out))"

text \<open>The values of \<open>s\<close> in the loop.\<close>

function strides :: "32 word \<Rightarrow> 32 word list" where
  "strides s = (if 0 < s then s # strides (drop_bit 1 s) else [])"
  by pat_completeness auto
termination
  by (relation "measure unat") (auto simp: drop_bit_Suc unat_div word_less_nat_alt)

declare strides.simps [simp del]

definition reduce :: "32 word list \<Rightarrow> 32 word \<Rightarrow> (uint4 list, 32 word list) phase list" where
  "reduce input localSize =
     [load_pair input localSize] @ map add_half (strides (drop_bit 1 localSize)) @ [store_sum]"

section \<open>The object\<close>

record reduction = host +
  sum_input :: "32 word list option"
  outputPtr :: "32 word list option"
  sum_output :: "32 word"
  refOutput :: "32 word"
  numBlocks :: int
  groupSize :: nat
  globalThreads :: nat
  localThreads :: nat
  sum_inputBuffer :: "32 word list option"
  sum_outputBuffer :: "32 word list option"
  sum_deviceInfo :: device_info
  sum_kernelInfo :: work_group_info

definition sum_length :: "reduction \<Rightarrow> nat" where
  "sum_length s = uint_var ''length'' (base s)"

definition GROUP_SIZE :: nat where
  "GROUP_SIZE = 256"

definition VECTOR_SIZE :: nat where
  "VECTOR_SIZE = 4"

definition MULTIPLY :: nat where
  "MULTIPLY = 2"

definition new_reduction :: reduction where
  "new_reduction =
     set_base_var ''iterations'' (Int_val 1) (set_base_var ''length'' (Int_val 64)
       \<lparr>base = new_sample False, timers = [], setupTime = Fin 0, totalKernelTime = Fin 0,
        referenceKernelTime = Fin 0, cl_context = None, cl_devices = None, commandQueue = None,
        cl_program = None, cl_kernel = None,
        sum_input = None, outputPtr = None, sum_output = 0, refOutput = 0, numBlocks = 0, groupSize = GROUP_SIZE,
        globalThreads = 0, localThreads = 0, sum_inputBuffer = None, sum_outputBuffer = None,
        sum_deviceInfo = new_device_info, sum_kernelInfo = new_work_group_info\<rparr>)"

section \<open>Preparing the data\<close>

text \<open>The length in numbers is made a multiple of 2048 and becomes a length in vectors.\<close>

definition setupReduction :: "run_env \<Rightarrow> reduction \<Rightarrow> (int \<times> reduction) option" where
  "setupReduction env s =
     (let mulFactor = GROUP_SIZE * VECTOR_SIZE * MULTIPLY;
          l1 = (if sum_length s < mulFactor then mulFactor else sum_length s);
          l2 = l1 div mulFactor * mulFactor;
          n = l2 div VECTOR_SIZE
      in do { (_, a) \<leftarrow> fillRandom (rand env) (Some (fresh_array env ''input'' (n * VECTOR_SIZE)))
                (sint (word_of_nat (n * VECTOR_SIZE) :: 32 word)) 1 0 5;
              Some (SDK_SUCCESS, set_base_var ''length'' (Int_val (int n)) (s\<lparr>sum_input := a\<rparr>)) })"

section \<open>Setting up OpenCL\<close>

definition sum_kernel_file :: string where
  "sum_kernel_file = ''Reduction_Kernels.cl''"

definition query_device :: "run_env \<Rightarrow> reduction step" where
  "query_device env = (\<lambda>(s, k).
     do { _ \<leftarrow> chosen_device s;
          (r, i, k') \<leftarrow> setDeviceInfo (lib env) (report env) (sum_deviceInfo s, k);
          Some (r, s\<lparr>sum_deviceInfo := i\<rparr>, k') })"

definition query_sum_kernel :: "run_env \<Rightarrow> reduction step" where
  "query_sum_kernel env = (\<lambda>(s, k).
     do { _ \<leftarrow> chosen_device s;
          (case setKernelWorkGroupInfo (lib env) (group_info env) k (sum_kernelInfo s) of ((r, i), k') \<Rightarrow>
             Some (r, s\<lparr>sum_kernelInfo := i\<rparr>, k')) })"

text \<open>The limits of the device; the second comparison is made only if the first one fails.\<close>

definition device_number :: "device_info \<Rightarrow> string \<Rightarrow> nat option" where
  "device_number i field = (case i field of Some (Number n) \<Rightarrow> Some n | _ \<Rightarrow> None)"

definition device_size :: "device_info \<Rightarrow> nat \<Rightarrow> nat option" where
  "device_size i d = (case i ''maxWorkItemSizes'' of Some (Sizes ns) \<Rightarrow> arg_at ns d | _ \<Rightarrow> None)"

definition choose_group_size :: "reduction \<Rightarrow> (int \<times> reduction) option" where
  "choose_group_size s =
     (let g = (if kernelWorkGroupSize (sum_kernelInfo s) < groupSize s
               then kernelWorkGroupSize (sum_kernelInfo s) else groupSize s);
          s1 = s\<lparr>groupSize := g\<rparr>
      in do { items \<leftarrow> device_size (sum_deviceInfo s) 0;
              most \<leftarrow> device_number (sum_deviceInfo s) ''maxWorkGroupSize'';
              mem \<leftarrow> device_number (sum_deviceInfo s) ''localMemSize'';
              if items < g \<or> most < g then Some (SDK_FAILURE, s1)
              else if mem < localMemoryUsed (sum_kernelInfo s) then Some (SDK_FAILURE, s1)
              else Some (SDK_SUCCESS, s1\<lparr>globalThreads := sum_length s div MULTIPLY, localThreads := g\<rparr>) })"

definition setWorkGroupSize :: "run_env \<Rightarrow> reduction step" where
  "setWorkGroupSize env = run_steps
     [query_sum_kernel env, \<lambda>(s, k). do { (r, s') \<leftarrow> choose_group_size s; Some (r, s', k) }]"

definition sum_setup_calls :: "run_env \<Rightarrow> nat \<Rightarrow> reduction step" where
  "sum_setup_calls env p = run_steps
     [create_context env p, get_devices env, create_queue env,
      query_device env,
      \<lambda>(s, k). let n = sum_length s * VECTOR_SIZE in
        create_buffer env n (\<lambda>s. s\<lparr>sum_inputBuffer := Some (fresh_array env ''inputBuffer'' n)\<rparr>) (s, k),
      build_program env sum_kernel_file,
      create_kernel env,
      setWorkGroupSize env]"

definition setupCL_sum :: "run_env \<Rightarrow> reduction step" where
  "setupCL_sum env = with_platform env (sum_setup_calls env)"

definition setup_reduction :: "run_env \<Rightarrow> reduction step" where
  "setup_reduction env = (\<lambda>(s, k).
     do { (r, s1) \<leftarrow> setupReduction env s;
          if r \<noteq> SDK_SUCCESS then Some (SDK_FAILURE, s1, k)
          else timed_setup env (setupCL_sum env) (s1, k) })"

section \<open>Running the kernel\<close>

text \<open>
  A launch over \<open>globalThreads\<close> in groups of \<open>localThreads\<close>, with the arguments set before.
\<close>

definition local_vectors :: "run_env \<Rightarrow> nat \<Rightarrow> nat \<Rightarrow> uint4 list" where
  "local_vectors env bytes b = map (\<lambda>i. let f = fresh env ''sdata'' in
     Uint4 (f (4 * i)) (f (4 * i + 1)) (f (4 * i + 2)) (f (4 * i + 3))) [0..<bytes div 16]"

definition launch_sum :: "run_env \<Rightarrow> nat \<Rightarrow> reduction \<Rightarrow> reduction option" where
  "launch_sum env k s =
     do { args \<leftarrow> cl_kernel s;
          xs \<leftarrow> sum_inputBuffer s;
          out \<leftarrow> sum_outputBuffer s;
          (case (args 0, args 1, args 2) of
             (Some (Buffer_arg a), Some (Buffer_arg b), Some (Local_arg bytes)) \<Rightarrow>
               if a \<noteq> ''inputBuffer'' \<or> b \<noteq> ''outputBuffer'' then None
               else let phases = reduce xs (word_of_nat (localThreads s));
                        groups = globalThreads s div localThreads s
                    in do { out' \<leftarrow> run_groups phases groups (localThreads s) (local_vectors env bytes)
                              (interleave env k (length phases) groups (localThreads s)) out;
                            Some (s\<lparr>sum_outputBuffer := Some out'\<rparr>) }
           | _ \<Rightarrow> None) }"

definition enqueue_sum :: "run_env \<Rightarrow> reduction step" where
  "enqueue_sum env = enqueue_kernel env (\<lambda>s. [(globalThreads s, localThreads s)]) (launch_sum env)"

definition copy_input :: "reduction \<Rightarrow> reduction option" where
  "copy_input s =
     do { xs \<leftarrow> sum_input s;
          buf \<leftarrow> sum_inputBuffer s;
          buf' \<leftarrow> transfer (sum_length s * VECTOR_SIZE) xs buf;
          Some (s\<lparr>sum_inputBuffer := Some buf'\<rparr>) }"

text \<open>The sums of the blocks are added up in the mapped buffer.\<close>

definition add_blocks :: "reduction \<Rightarrow> reduction option" where
  "add_blocks s =
     do { out \<leftarrow> sum_outputBuffer s;
          total \<leftarrow> for_loop 0 (nat (numBlocks s) * VECTOR_SIZE)
                    (\<lambda>i acc. do { x \<leftarrow> arg_at out i; Some (acc + x) }) 0;
          Some (s\<lparr>sum_output := total\<rparr>) }"

definition runCLKernels_sum :: "run_env \<Rightarrow> reduction step" where
  "runCLKernels_sum env = (\<lambda>(s, k). run_steps
     ([cl_call (lib env) (\<lambda>_. Some)] @ flush_and_wait env @ [local_step copy_input] @
      [cl_call (lib env) (\<lambda>_. Some)] @ flush_and_wait env @
      [set_arg env 0 (Buffer_arg ''inputBuffer''), set_arg env 1 (Buffer_arg ''outputBuffer''),
       set_arg env 2 (Local_arg (groupSize s * 16)), enqueue_sum env] @ flush_and_wait env @
      [cl_call (lib env) (\<lambda>_. Some)] @ flush_and_wait env @ [local_step add_blocks] @
      [cl_call (lib env) (\<lambda>_. Some)] @ flush_and_wait env) (s, k))"

text \<open>A group size of 0 would be a division by 0.\<close>

definition create_output :: "run_env \<Rightarrow> reduction step" where
  "create_output env = (\<lambda>(s, k).
     let d = (word_of_nat (groupSize s) :: 32 word) * 2; n = nat (sint (word_of_nat (sum_length s) div d)) in
     if d = 0 then None
     else create_buffer env (n * VECTOR_SIZE)
            (\<lambda>s. s\<lparr>sum_outputBuffer := Some (fresh_array env ''outputBuffer'' (n * VECTOR_SIZE))\<rparr>)
            (s\<lparr>numBlocks := int n, outputPtr := Some (replicate (n * VECTOR_SIZE) 0)\<rparr>, k))"

definition run_reduction :: "run_env \<Rightarrow> reduction step" where
  "run_reduction env = run_steps [create_output env, run_sample env (runCLKernels_sum env)]"

section \<open>Verification, clean-up, main\<close>

definition reductionCPUReference :: "32 word list \<Rightarrow> nat \<Rightarrow> 32 word \<Rightarrow> 32 word option" where
  "reductionCPUReference xs len output' =
     for_loop 0 len (\<lambda>i acc. do { x \<leftarrow> arg_at xs i; Some (acc + x) }) output'"

definition verify_reduction :: "reduction \<Rightarrow> (int \<times> reduction) option" where
  "verify_reduction s =
     (if bool_var ''verify'' (base s) then
        do { xs \<leftarrow> sum_input s;
             ref \<leftarrow> reductionCPUReference xs (sum_length s * VECTOR_SIZE) (refOutput s);
             Some (if ref = sum_output s then SDK_SUCCESS else SDK_FAILURE, s\<lparr>refOutput := ref\<rparr>) }
      else Some (SDK_SUCCESS, s))"

definition cleanup_reduction :: "run_env \<Rightarrow> reduction step" where
  "cleanup_reduction env = run_steps
     [cl_call (lib env) (\<lambda>_ s. Some (s\<lparr>cl_kernel := None\<rparr>)),
      cl_call (lib env) (\<lambda>_ s. Some (s\<lparr>cl_program := None\<rparr>)),
      cl_call (lib env) (\<lambda>_ s. Some (s\<lparr>sum_inputBuffer := None\<rparr>)),
      cl_call (lib env) (\<lambda>_ s. Some (s\<lparr>sum_outputBuffer := None\<rparr>)),
      cl_call (lib env) (\<lambda>_ s. Some (s\<lparr>commandQueue := None\<rparr>)),
      cl_call (lib env) (\<lambda>_ s. Some (s\<lparr>cl_context := None\<rparr>))]"

definition reduction_options :: "cmd_option list" where
  "reduction_options =
     [make_option ''x'' ''length'' ''Length of the Input array'' CA_ARG_INT ''length'',
      make_option ''i'' ''iterations'' ''Number of iterations to execute kernel''
        CA_ARG_INT ''iterations'']"

definition initialize_reduction :: "reduction \<Rightarrow> (int \<times> reduction) option" where
  "initialize_reduction s = initialize_sample reduction_options s"

definition genBinaryImage_sum :: "run_env \<Rightarrow> reduction \<Rightarrow> (int \<times> files) option" where
  "genBinaryImage_sum env s = dump_program env sum_kernel_file s"

definition reduction_work :: "run_env \<Rightarrow> reduction step" where
  "reduction_work env = run_steps
     [setup_reduction env, run_reduction env,
      \<lambda>(s, k). do { (r, s') \<leftarrow> verify_reduction s; Some (r, s', k) },
      cleanup_reduction env]"

text \<open>
  The object is destroyed at the end of \<open>main\<close>, unless \<open>exit\<close> ends the program: the arrays on the host
  are freed, then the member \<open>deviceInfo\<close> is destroyed.
\<close>

definition destroy_reduction :: "reduction \<Rightarrow> reduction option" where
  "destroy_reduction s =
     do { i \<leftarrow> destroy_device_info (sum_deviceInfo s);
          Some (s\<lparr>sum_input := None, outputPtr := None, cl_devices := None, sum_deviceInfo := i\<rparr>) }"

definition main_reduction :: "run_env \<Rightarrow> string list \<Rightarrow> (outcome \<times> reduction \<times> files) option" where
  "main_reduction env argv =
     do { (out, s, fs) \<leftarrow> main_sample env reduction_options sum_kernel_file
            (returning (reduction_work env)) new_reduction argv;
          (case out of Exited _ \<Rightarrow> Some (out, s, fs)
           | Returned _ \<Rightarrow> do { s' \<leftarrow> destroy_reduction s; Some (out, s', fs) }) }"

end
