(* ===== verification/Reduction_Facts.thy ===== *)
theory Reduction_Facts
  imports Reduction Sdk_Host_Facts
begin

text \<open>
  The kernel of the reduction as an instance of \<open>group_kernel\<close>: what local memory holds after each
  phase, and the sum of a group whose size is a power of two.
\<close>

section \<open>Vectors in buffers\<close>

definition vec :: "32 word list \<Rightarrow> nat \<Rightarrow> uint4" where
  "vec xs i = Uint4 (xs ! (4 * i)) (xs ! (4 * i + 1)) (xs ! (4 * i + 2)) (xs ! (4 * i + 3))"

lemma load4_ok: "4 * i + 4 \<le> length xs \<Longrightarrow> load4 xs i = Some (vec xs i)"
  by (simp add: load4_def vec_def)

lemma store4_ok:
  assumes "4 * i + 4 \<le> length xs"
  obtains ys where "store4 xs i v = Some ys" "length ys = length xs" "vec ys i = v"
    "\<And>j. j \<noteq> i \<Longrightarrow> vec ys j = vec xs j"
proof -
  obtain a b c d where v: "v = Uint4 a b c d" by (cases v)
  let ?ys = "xs[4 * i := a, 4 * i + 1 := b, 4 * i + 2 := c, 4 * i + 3 := d]"
  have "store4 xs i v = Some ?ys" using assms by (simp add: store4_def v)
  moreover have "vec ?ys i = v" using assms by (simp add: vec_def v)
  moreover have "vec ?ys j = vec xs j" if "j \<noteq> i" for j
  proof -
    have "4 * j \<noteq> 4 * i" "4 * j \<noteq> 4 * i + 1" "4 * j \<noteq> 4 * i + 2" "4 * j \<noteq> 4 * i + 3"
      "4 * j + 1 \<noteq> 4 * i" "4 * j + 1 \<noteq> 4 * i + 1" "4 * j + 1 \<noteq> 4 * i + 2" "4 * j + 1 \<noteq> 4 * i + 3"
      "4 * j + 2 \<noteq> 4 * i" "4 * j + 2 \<noteq> 4 * i + 1" "4 * j + 2 \<noteq> 4 * i + 2" "4 * j + 2 \<noteq> 4 * i + 3"
      "4 * j + 3 \<noteq> 4 * i" "4 * j + 3 \<noteq> 4 * i + 1" "4 * j + 3 \<noteq> 4 * i + 2" "4 * j + 3 \<noteq> 4 * i + 3"
      using that by presburger+
    then show ?thesis by (simp add: vec_def nth_list_update_neq)
  qed
  ultimately show thesis by (intro that [of ?ys]) simp_all
qed

text \<open>The sum of the four numbers of a vector.\<close>

definition lanes :: "uint4 \<Rightarrow> 32 word" where
  "lanes v = (case v of Uint4 a b c d \<Rightarrow> a + b + c + d)"

lemma lanes_add: "lanes (x + y) = lanes x + lanes y" "lanes 0 = 0"
  by (auto simp: lanes_def plus_uint4_def zero_uint4_def split: uint4.splits)

lemma lanes_sum: "lanes (sum f A) = (\<Sum>x\<in>A. lanes (f x))"
  by (induction A rule: infinite_finite_induct) (simp_all add: lanes_add)

lemma sum_lanes: "(\<Sum>i<4 * n. xs ! i) = (\<Sum>i<n. lanes (vec xs i))"
proof -
  have "(\<Sum>i<n. sum ((!) xs) {i * 4..<i * 4 + 4}) = (\<Sum>i<n * 4. xs ! i)" by (rule sum.nat_group)
  moreover have "sum ((!) xs) {i * 4..<i * 4 + 4} = lanes (vec xs i)" for i
    by (simp add: lanes_def vec_def eval_nat_numeral algebra_simps)
  ultimately show ?thesis by (simp add: mult.commute)
qed

section \<open>Local memory after each phase\<close>

definition pair_sum :: "32 word list \<Rightarrow> nat \<Rightarrow> uint4" where
  "pair_sum xs g = vec xs (2 * g) + vec xs (2 * g + 1)"

text \<open>After \<open>j\<close> rounds of the loop, in group \<open>b\<close> of \<open>w\<close> items.\<close>

primrec part :: "32 word list \<Rightarrow> nat \<Rightarrow> nat \<Rightarrow> nat \<Rightarrow> nat \<Rightarrow> uint4" where
  "part xs w b 0 i = pair_sum xs (b * w + i)"
| "part xs w b (Suc j) i =
     (let s = w div 2 ^ Suc j in if i < s then part xs w b j i + part xs w b j (i + s) else part xs w b j i)"

lemma half_word:
  "x < 2 ^ 32 \<Longrightarrow> drop_bit 1 (word_of_nat x :: 32 word) = word_of_nat (x div 2)"
  by (intro word_unat_eq_iff [THEN iffD2]) (simp add: unat_small drop_bit_eq_div unat_div)

lemma strides_step:
  "x < 2 ^ 32 \<Longrightarrow> strides (word_of_nat x) =
     (if x = 0 then [] else word_of_nat x # strides (word_of_nat (x div 2)))"
proof -
  assume x: "x < 2 ^ 32"
  then have "0 < (word_of_nat x :: 32 word) \<longleftrightarrow> 0 < x" unfolding word_less_nat_alt by (simp add: unat_small)
  then show ?thesis using half_word [OF x] by (subst strides.simps) simp
qed

lemma strides_nth:
  assumes "x < 2 ^ 32" "j < length (strides (word_of_nat x))"
  shows "strides (word_of_nat x) ! j = word_of_nat (x div 2 ^ j)"
  using assms
proof (induction j arbitrary: x)
  case 0
  then show ?case by (auto simp: strides_step split: if_splits)
next
  case (Suc j)
  then have split: "strides (word_of_nat x) = word_of_nat x # strides (word_of_nat (x div 2))"
    by (auto simp: strides_step split: if_splits)
  have "j < length (strides (word_of_nat (x div 2)))" using Suc.prems(2) split by simp
  then have "strides (word_of_nat (x div 2)) ! j = word_of_nat (x div 2 div 2 ^ j)"
    using Suc.IH [of "x div 2"] Suc.prems(1) by simp
  then show ?case by (simp add: split div_mult2_eq)
qed

lemma strides_power: "m < 32 \<Longrightarrow> length (strides (word_of_nat (2 ^ m))) = Suc m"
proof (induction m)
  case 0
  have "strides (word_of_nat 1) = word_of_nat 1 # strides (word_of_nat 0)" "strides (word_of_nat 0) = []"
    using strides_step [of 1] strides_step [of 0] by simp_all
  then show ?case by simp
next
  case (Suc m)
  have "(2 :: nat) ^ Suc m < 2 ^ 32" using Suc.prems by (intro power_strict_increasing) simp_all
  then show ?case using Suc by (subst strides_step) simp_all
qed

section \<open>The kernel as a group kernel\<close>

text \<open>The parameters of a launch: the input, the group size and the number of groups.\<close>

type_synonym sum_launch = "32 word list \<times> nat \<times> nat"

definition rounds :: "nat \<Rightarrow> nat" where
  "rounds w = length (strides (word_of_nat (w div 2)))"

definition sum_phases :: "sum_launch \<Rightarrow> (uint4 list, 32 word list) phase list" where
  "sum_phases = (\<lambda>(xs, w, G). reduce xs (word_of_nat w))"

definition sum_ok :: "sum_launch \<Rightarrow> 32 word list \<Rightarrow> bool" where
  "sum_ok = (\<lambda>(xs, w, G) out. 0 < w \<and> w < 2 ^ 32 \<and> 2 * (w * G) < 2 ^ 32 \<and> 8 * (w * G) \<le> length xs
     \<and> 4 * G \<le> length out)"

definition sum_inv ::
  "sum_launch \<Rightarrow> 32 word list \<Rightarrow> nat \<Rightarrow> nat \<Rightarrow> nat set \<Rightarrow> uint4 list \<Rightarrow> 32 word list \<Rightarrow> bool" where
  "sum_inv = (\<lambda>(xs, w, G) out0 b q D sd out. length sd = w \<and> length out = length out0
     \<and> (\<forall>i < w. i \<in> D \<or> 0 < q \<longrightarrow> sd ! i = part xs w b (min (rounds w) (if i \<in> D then q else q - 1)) i)
     \<and> (q = rounds w + 2 \<or> q = rounds w + 1 \<and> 0 \<in> D \<longrightarrow> vec out b = part xs w b (rounds w) 0))"

lemma phases_nth:
  assumes "w < 2 ^ 32"
  shows "length (sum_phases (xs, w, G)) = rounds w + 2"
    "sum_phases (xs, w, G) ! 0 = load_pair xs (word_of_nat w)"
    "j < rounds w \<Longrightarrow> sum_phases (xs, w, G) ! Suc j = add_half (word_of_nat (w div 2 ^ Suc j))"
    "sum_phases (xs, w, G) ! Suc (rounds w) = store_sum"
proof -
  have "w div 2 < 2 ^ 32" using assms by simp
  then show "length (sum_phases (xs, w, G)) = rounds w + 2"
    "sum_phases (xs, w, G) ! 0 = load_pair xs (word_of_nat w)"
    "j < rounds w \<Longrightarrow> sum_phases (xs, w, G) ! Suc j = add_half (word_of_nat (w div 2 ^ Suc j))"
    "sum_phases (xs, w, G) ! Suc (rounds w) = store_sum"
    unfolding sum_phases_def reduce_def rounds_def prod.case half_word [OF assms]
    by (simp_all add: strides_nth nth_append div_mult2_eq)
qed

lemma item_index:
  fixes b t w G :: nat
  assumes "b < G" "t < w"
  shows "b * w + t < w * G"
proof -
  have "b * w + t < Suc b * w" using assms(2) by simp
  also have "\<dots> \<le> G * w" using assms(1) by (intro mult_le_mono1) simp
  finally show ?thesis by (simp add: mult.commute)
qed

lemma unat_stride:
  fixes g :: nat
  assumes "2 * g + 1 < 2 ^ 32"
  shows "unat (word_of_nat g * 2 :: 32 word) = 2 * g" "unat (word_of_nat g * 2 + 1 :: 32 word) = 2 * g + 1"
  using unat_small [of "2 * g"] unat_small [of "2 * g + 1"] assms by (simp_all add: mult.commute add.commute)

lemma load_item:
  assumes "sum_ok (xs, w, G) out0" "b < G" "t < w" "sum_inv (xs, w, G) out0 b 0 D sd out"
  shows "load_pair xs (word_of_nat w) b t (sd, out) = Some (sd[t := pair_sum xs (b * w + t)], out)"
proof -
  let ?g = "b * w + t"
  have g: "?g < w * G" by (rule item_index [OF assms(2,3)])
  then have "2 * ?g + 1 < 2 ^ 32" "8 * ?g + 8 \<le> length xs" "w < 2 ^ 32" "t < 2 ^ 32"
    using assms(1,3) by (auto simp: sum_ok_def)
  then have u: "unat (word_of_nat w :: 32 word) = w" "unat (word_of_nat t :: 32 word) = t"
    "unat (word_of_nat ?g * 2 :: 32 word) = 2 * ?g" "unat (word_of_nat ?g * 2 + 1 :: 32 word) = 2 * ?g + 1"
    by (simp_all only: unat_small unat_stride)
  have "length sd = w" using assms(4) by (simp add: sum_inv_def)
  then show ?thesis
    using \<open>8 * ?g + 8 \<le> length xs\<close> assms(3) unfolding load_pair_def
    by (simp only: Let_def u) (simp add: load4_ok pair_sum_def)
qed

lemma add_half_ok:
  assumes "t < length sd" "s + s \<le> length sd" "length sd < 2 ^ 32"
  shows "add_half (word_of_nat s) b t (sd, out) =
    Some (if t < s then sd[t := sd ! t + sd ! (t + s)] else sd, out)"
proof -
  have u: "unat (word_of_nat t :: 32 word) = t" "unat (word_of_nat s :: 32 word) = s"
    using assms by (intro unat_small; simp)+
  have "unat (word_of_nat t + word_of_nat s :: 32 word) = t + s" if "t < s"
    using unat_small [of "t + s"] that assms by simp
  then show ?thesis using assms unfolding add_half_def by (simp add: Let_def word_less_nat_alt u)
qed

lemma add_item:
  assumes "sum_ok (xs, w, G) out0" "t < w" "j < rounds w" "t \<notin> D" "sum_inv (xs, w, G) out0 b (Suc j) D sd out"
  shows "add_half (word_of_nat (w div 2 ^ Suc j)) b t (sd, out) = Some (sd[t := part xs w b (Suc j) t], out)"
proof -
  define s where "s = w div 2 ^ Suc j"
  have w: "w < 2 ^ 32" using assms(1) by (simp add: sum_ok_def)
  have s: "s + s \<le> w"
  proof -
    have "s \<le> w div 2" by (simp add: s_def div_mult2_eq)
    then show ?thesis by simp
  qed
  have at: "length sd = w" "sd ! t = part xs w b j t"
    using assms(2-5) by (auto simp: sum_inv_def min_def)
  have "sd ! (t + s) = part xs w b j (t + s)" if "t < s"
  proof (cases "t + s \<in> D")
    case True
    have "min (rounds w) (Suc j) = Suc j" using assms(3) by simp
    then have "sd ! (t + s) = part xs w b (Suc j) (t + s)"
      using assms(5) that s True unfolding sum_inv_def by simp
    then show ?thesis by (simp only: part.simps Let_def s_def [symmetric]) simp
  next
    case False
    then show ?thesis using assms(3,5) that s by (auto simp: sum_inv_def min_def)
  qed
  then have "(if t < s then sd[t := sd ! t + sd ! (t + s)] else sd) = sd[t := part xs w b (Suc j) t]"
    using at(2) list_update_id [of sd t] unfolding part.simps Let_def s_def [symmetric] by simp
  moreover have "add_half (word_of_nat s) b t (sd, out) =
      Some (if t < s then sd[t := sd ! t + sd ! (t + s)] else sd, out)"
    using at assms(2) s w by (intro add_half_ok) simp_all
  ultimately show ?thesis by (simp only: s_def)
qed

lemma store_item:
  assumes "sum_ok (xs, w, G) out0" "b < G" "t < w" "t \<notin> D" "sum_inv (xs, w, G) out0 b (Suc (rounds w)) D sd out"
  shows "\<exists>out'. store_sum b t (sd, out) = Some (sd, out') \<and> length out' = length out
    \<and> (if t = 0 then vec out' b = part xs w b (rounds w) 0 else vec out' b = vec out b)
    \<and> (\<forall>c. c \<noteq> b \<longrightarrow> vec out' c = vec out c)"
proof (cases "t = 0")
  case False
  have "t < 2 ^ 32" using assms(1,3) by (simp add: sum_ok_def)
  then have "unat (word_of_nat t :: 32 word) = t" by (rule unat_small)
  then have "(word_of_nat t :: 32 word) \<noteq> 0" using False by auto
  then show ?thesis using False by (simp add: store_sum_def)
next
  case True
  have at: "length sd = w" "length out = length out0" "sd ! 0 = part xs w b (rounds w) 0"
    using assms(3-5) True by (auto simp: sum_inv_def)
  have G: "4 * G \<le> length out" "b < 2 ^ 32"
  proof -
    show "4 * G \<le> length out" using assms(1) at(2) by (simp add: sum_ok_def)
    have "b * w + t < w * G" by (rule item_index [OF assms(2,3)])
    moreover have "b \<le> b * w" using assms(3) by (cases w) simp_all
    moreover have "2 * (w * G) < 2 ^ 32" using assms(1) unfolding sum_ok_def prod.case by blast
    ultimately show "b < 2 ^ 32" by linarith
  qed
  have u: "unat (word_of_nat b :: 32 word) = b" using G(2) by (rule unat_small)
  have "4 * b + 4 \<le> length out" using G(1) assms(2) by simp
  then obtain ys where "store4 out b (sd ! 0) = Some ys" "length ys = length out" "vec ys b = sd ! 0"
    "\<And>c. c \<noteq> b \<Longrightarrow> vec ys c = vec out c" by (rule store4_ok) blast
  then show ?thesis using True at assms(3) by (simp add: store_sum_def u)
qed

lemma sum_item:
  assumes "sum_ok (xs, w, G) out0" "b < G" "t < w" "q < rounds w + 2" "D \<subseteq> {0..<w}" "t \<notin> D"
    "sum_inv (xs, w, G) out0 b q D sd out"
  shows "\<exists>sd' out'. (sum_phases (xs, w, G) ! q) b t (sd, out) = Some (sd', out')
    \<and> sum_inv (xs, w, G) out0 b q (insert t D) sd' out' \<and> length out' = length out
    \<and> (\<forall>c. c \<noteq> b \<longrightarrow> vec out' c = vec out c)"
proof -
  have w: "w < 2 ^ 32" using assms(1) by (simp add: sum_ok_def)
  consider "q = 0" | j where "q = Suc j" "j < rounds w" | "q = Suc (rounds w)"
    using assms(4) by (cases q) (auto simp: less_Suc_eq)
  then show ?thesis
  proof cases
    case 1
    have "sum_inv (xs, w, G) out0 b 0 (insert t D) (sd[t := pair_sum xs (b * w + t)]) out"
      using assms(3,7) 1 by (auto simp: sum_inv_def nth_list_update)
    then show ?thesis using load_item [OF assms(1-3), of D sd out] assms(7) 1 by (simp add: phases_nth(2) [OF w])
  next
    case 2
    have "min (rounds w) (Suc j) = Suc j" using 2(2) by simp
    then have "sum_inv (xs, w, G) out0 b q (insert t D) (sd[t := part xs w b q t]) out"
      using assms(3,7) 2 by (auto simp: sum_inv_def nth_list_update simp del: part.simps)
    then show ?thesis
      using add_item [OF assms(1,3) 2(2) assms(6), of b sd out] assms(7) 2 by (simp only: phases_nth(3) [OF w]) blast
  next
    case 3
    have inv: "sum_inv (xs, w, G) out0 b (Suc (rounds w)) D sd out" using assms(7) 3 by simp
    obtain out' where out': "store_sum b t (sd, out) = Some (sd, out')" "length out' = length out"
      "if t = 0 then vec out' b = part xs w b (rounds w) 0 else vec out' b = vec out b"
      "\<forall>c. c \<noteq> b \<longrightarrow> vec out' c = vec out c"
      using store_item [OF assms(1-3,6) inv] by blast
    have m: "min (rounds w) (if P then Suc (rounds w) else Suc (rounds w) - 1) = rounds w" for P by simp
    have "0 \<in> D \<Longrightarrow> vec out b = part xs w b (rounds w) 0" using inv unfolding sum_inv_def prod.case by simp
    then have "0 \<in> insert t D \<Longrightarrow> vec out' b = part xs w b (rounds w) 0" using out'(3) by (simp split: if_splits)
    then have "sum_inv (xs, w, G) out0 b (Suc (rounds w)) (insert t D) sd out'"
      using inv out'(2) unfolding sum_inv_def prod.case m by simp
    then show ?thesis using out' 3 by (auto simp: phases_nth(4) [OF w])
  qed
qed

lemma sum_barrier:
  assumes "sum_ok (xs, w, G) out0" "q < rounds w + 2" "sum_inv (xs, w, G) out0 b q {0..<w} sd out"
  shows "sum_inv (xs, w, G) out0 b (Suc q) {} sd out"
proof -
  have "0 < w" using assms(1) by (simp add: sum_ok_def)
  then show ?thesis using assms(2,3) by (auto simp: sum_inv_def)
qed

interpretation sums: group_kernel sum_phases "\<lambda>(xs, w, G). G" "\<lambda>(xs, w, G). w" "\<lambda>(xs, w, G) l. length l = w" sum_ok sum_inv
proof (unfold_locales, unfold split_paired_all prod.case)
  show "sum_ok (xs, w, G) out0 \<Longrightarrow> 0 < w" for xs w G out0 by (simp add: sum_ok_def)
  show "sum_ok (xs, w, G) out0 \<Longrightarrow> b < G \<Longrightarrow> length l = w \<Longrightarrow> sum_inv (xs, w, G) out0 b 0 {} l out0" for xs w G out0 b l
    by (simp add: sum_inv_def)
next
  fix xs w G b t q D l and out0 out :: "32 word list"
  assume a: "sum_ok (xs, w, G) out0" "b < G" "t < w" "q < length (sum_phases (xs, w, G))" "D \<subseteq> {0..<w}" "t \<notin> D"
    "sum_inv (xs, w, G) out0 b q D l out"
  have "q < rounds w + 2" using a(1,4) by (simp add: sum_ok_def phases_nth(1))
  from sum_item [OF a(1-3) this a(5-7)] show "\<exists>l' g'. (sum_phases (xs, w, G) ! q) b t (l, out) = Some (l', g') \<and>
      sum_inv (xs, w, G) out0 b q (insert t D) l' g' \<and>
      (\<forall>c<G. c \<noteq> b \<longrightarrow> (\<forall>r E m. sum_inv (xs, w, G) out0 c r E m out \<longrightarrow> sum_inv (xs, w, G) out0 c r E m g'))"
    by (force simp: sum_inv_def)
next
  fix xs w G b q l and out0 out :: "32 word list"
  assume a: "sum_ok (xs, w, G) out0" "q < length (sum_phases (xs, w, G))" "sum_inv (xs, w, G) out0 b q {0..<w} l out"
  then have "q < rounds w + 2" by (simp add: sum_ok_def phases_nth(1))
  with a show "sum_inv (xs, w, G) out0 b (Suc q) {} l out" by (intro sum_barrier)
qed

section \<open>The sums of a launch\<close>

lemma rounds_power:
  assumes "m < 32"
  shows "rounds (2 ^ m) = m"
proof (cases m)
  case 0
  have "strides (word_of_nat 0) = []" using strides_step [of 0] by simp
  then show ?thesis using 0 by (simp add: rounds_def)
next
  case (Suc n)
  then have "(2 :: nat) ^ m div 2 = 2 ^ n" by simp
  then show ?thesis using assms Suc strides_power [of n] unfolding rounds_def by simp
qed

lemma sum_pairs:
  fixes f :: "nat \<Rightarrow> 'a::comm_monoid_add"
  shows "(\<Sum>k<2 * n. f k) = (\<Sum>k<n. f (2 * k)) + (\<Sum>k<n. f (2 * k + 1))"
  by (induction n) (simp_all add: ac_simps)

lemma part_power:
  assumes "j \<le> m" "i < 2 ^ (m - j)"
  shows "part xs (2 ^ m) b j i = (\<Sum>k<2 ^ j. pair_sum xs (b * 2 ^ m + (i + k * 2 ^ (m - j))))"
  using assms
proof (induction j arbitrary: i)
  case (Suc j)
  define s :: nat where "s = 2 ^ (m - Suc j)"
  have "(2 :: nat) ^ m = 2 ^ (Suc j + (m - Suc j))" using Suc.prems(1) by simp
  then have "(2 :: nat) ^ m = 2 ^ Suc j * s" unfolding power_add s_def .
  moreover have "m - j = Suc (m - Suc j)" using Suc.prems(1) by simp
  ultimately have s: "2 ^ m div 2 ^ Suc j = s" "2 ^ (m - j) = 2 * s" by (simp_all add: s_def)
  have i: "i < s" using Suc.prems(2) by (simp add: s_def)
  let ?f = "\<lambda>k. pair_sum xs (b * 2 ^ m + (i + k * s))"
  have "part xs (2 ^ m) b j i = (\<Sum>k<2 ^ j. ?f (2 * k))"
    using Suc.IH [of i] Suc.prems(1) i by (simp add: s(2) ac_simps)
  moreover have "part xs (2 ^ m) b j (i + s) = (\<Sum>k<2 ^ j. ?f (2 * k + 1))"
    using Suc.IH [of "i + s"] Suc.prems(1) i by (simp add: s(2) algebra_simps)
  moreover have "part xs (2 ^ m) b (Suc j) i = part xs (2 ^ m) b j i + part xs (2 ^ m) b j (i + s)"
    using i by (simp only: part.simps Let_def s) simp
  moreover have "(\<Sum>k<2 ^ Suc j. ?f k) = (\<Sum>k<2 ^ j. ?f (2 * k)) + (\<Sum>k<2 ^ j. ?f (2 * k + 1))"
    unfolding power_Suc by (rule sum_pairs)
  ultimately show ?case by (simp only: s_def)
qed simp

lemma sum_groups:
  fixes f :: "nat \<Rightarrow> 'a::comm_monoid_add"
  shows "(\<Sum>b<G. \<Sum>k<w. f (b * w + k)) = (\<Sum>i<w * G. f i)"
proof -
  have "(\<Sum>k<w. f (b * w + k)) = sum f {b * w..<b * w + w}" for b
    using sum.shift_bounds_nat_ivl [of f 0 "b * w" w] by (simp add: ac_simps lessThan_atLeast0)
  then show ?thesis using sum.nat_group [of f w G] by (simp add: mult.commute)
qed

text \<open>When every group has stored its sum, the numbers of the output sum up to those of the input.\<close>

lemma sums_total:
  assumes "\<forall>b < G. vec out b = part xs (2 ^ m) b m 0"
  shows "(\<Sum>i<4 * G. out ! i) = (\<Sum>i<8 * (2 ^ m * G). xs ! i)"
proof -
  let ?w = "2 ^ m :: nat"
  have "lanes (vec out b) = (\<Sum>k<?w. lanes (pair_sum xs (b * ?w + k)))" if "b < G" for b
    using assms that by (simp add: part_power lanes_sum)
  then have "(\<Sum>i<4 * G. out ! i) = (\<Sum>b<G. \<Sum>k<?w. lanes (pair_sum xs (b * ?w + k)))"
    by (simp add: sum_lanes)
  also have "\<dots> = (\<Sum>i<?w * G. lanes (pair_sum xs i))" by (rule sum_groups)
  also have "\<dots> = (\<Sum>i<2 * (?w * G). lanes (vec xs i))"
    by (simp only: sum_pairs) (simp add: pair_sum_def lanes_add sum.distrib)
  also have "\<dots> = (\<Sum>i<4 * (2 * (?w * G)). xs ! i)" by (rule sum_lanes [symmetric])
  finally show ?thesis by (simp add: mult.assoc [symmetric])
qed

text \<open>What the groups leave, for every size of the groups; then for a power of two.\<close>

lemma kernel_parts:
  assumes "0 < w" "w < 2 ^ 32" "0 < G" "2 * (w * G) < 2 ^ 32" "8 * (w * G) \<le> length xs" "4 * G \<le> length out0"
    "lets_finish (rounds w + 2) G w sched" "\<And>b. length (locals b) = w"
  shows "\<exists>out. run_groups (reduce xs (word_of_nat w)) G w locals sched out0 = Some out
    \<and> length out = length out0 \<and> (\<forall>b < G. vec out b = part xs w b (rounds w) 0)"
proof -
  let ?p = "(xs, w, G)"
  have ok: "sum_ok ?p out0" unfolding sum_ok_def prod.case by (intro conjI assms(1,2,4-6))
  have len: "length (sum_phases ?p) = rounds w + 2" using phases_nth(1) [OF assms(2)] .
  obtain out where out: "run_groups (sum_phases ?p) G w locals sched out0 = Some out"
    "\<forall>b < G. \<exists>l. sum_inv ?p out0 b (rounds w + 2) {} l out"
    using sums.launch [OF ok, of sched locals] assms(7,8) len by auto
  then have "\<forall>b < G. vec out b = part xs w b (rounds w) 0" by (auto simp: sum_inv_def)
  moreover have "length out = length out0" using out(2) assms(3) by (auto simp: sum_inv_def)
  ultimately show ?thesis using out(1) by (auto simp: sum_phases_def)
qed

lemma kernel_sums:
  assumes "m < 32" "0 < G" "2 * (2 ^ m * G) < 2 ^ 32" "8 * (2 ^ m * G) \<le> length xs" "4 * G \<le> length out0"
    "lets_finish (m + 2) G (2 ^ m) sched" "\<And>b. length (locals b) = 2 ^ m"
  shows "\<exists>out. run_groups (reduce xs (word_of_nat (2 ^ m))) G (2 ^ m) locals sched out0 = Some out
    \<and> length out = length out0 \<and> (\<Sum>i<4 * G. out ! i) = (\<Sum>i<8 * (2 ^ m * G). xs ! i)"
proof -
  have w: "(2 :: nat) ^ m < 2 ^ 32" using assms(1) by (intro power_strict_increasing) simp_all
  have fin: "lets_finish (rounds (2 ^ m) + 2) G (2 ^ m) sched" using assms(6) by (simp only: rounds_power [OF assms(1)])
  have "(0 :: nat) < 2 ^ m" by simp
  from kernel_parts [OF this w assms(2-5) fin, of locals] assms(7) obtain out
    where "run_groups (reduce xs (word_of_nat (2 ^ m))) G (2 ^ m) locals sched out0 = Some out"
      "length out = length out0" "\<forall>b < G. vec out b = part xs (2 ^ m) b m 0"
    unfolding rounds_power [OF assms(1)] by blast
  then show ?thesis using sums_total by blast
qed

text \<open>With groups of three items, the part of every third item is lost.\<close>

lemma rounds_three: "rounds 3 = 1"
  using rounds_power [of 1] by (simp add: rounds_def)

lemma group_of_three_loses:
  assumes "0 < G" "6 * G < 2 ^ 32" "24 * G \<le> length xs" "4 * G \<le> length out0"
    "lets_finish 3 G 3 sched" "\<And>b. length (locals b) = 3"
  shows "\<exists>out. run_groups (reduce xs 3) G 3 locals sched out0 = Some out
    \<and> (\<forall>b < G. vec out b = pair_sum xs (3 * b) + pair_sum xs (3 * b + 1))"
proof -
  have "lets_finish (rounds 3 + 2) G 3 sched" using assms(5) by (simp only: rounds_three one_plus_numeral add_One_commute) simp
  then have "\<exists>out. run_groups (reduce xs (word_of_nat 3)) G 3 locals sched out0 = Some out
    \<and> length out = length out0 \<and> (\<forall>b < G. vec out b = part xs 3 b (rounds 3) 0)"
    using assms(1-4,6) by (intro kernel_parts) simp_all
  then show ?thesis by (auto simp: rounds_three mult.commute)
qed

section \<open>The sums on the host\<close>

lemma sum_loop:
  "n \<le> length xs \<Longrightarrow> for_loop 0 n (\<lambda>i acc. do { x \<leftarrow> arg_at xs i; Some (acc + x) }) start = Some (start + (\<Sum>i<n. xs ! i))"
  by (induction n) (simp_all add: for_loop_last ac_simps)

end
