(* ===== verification/Reduction_Run.thy ===== *)
theory Reduction_Run
  imports Reduction_Facts
begin

text \<open>
  The host program of the reduction step by step: the data it prepares, what a run of the kernel
  leaves in \<open>output\<close>, and that the steps succeed where the library's calls do.
\<close>

section \<open>Preparation\<close>

text \<open>
  The array has \<open>2048 * c\<close> numbers, so \<open>length\<close>, which counts vectors, is \<open>512 * c\<close>; \<open>a\<close> is the
  array.
\<close>

definition array_filled :: "sample \<Rightarrow> timer list \<Rightarrow> nat \<Rightarrow> 32 word list \<Rightarrow> reduction \<Rightarrow> bool" where
  "array_filled b ts c a s \<longleftrightarrow> base s = b \<and> timers s = ts \<and> sum_length s = 512 * c
     \<and> 0 < c \<and> 2048 * c < 2 ^ 32 \<and> length a = 2048 * c \<and> sum_input s = Some a \<and> refOutput s = 0"

definition chunks :: "nat \<Rightarrow> nat" where
  "chunks l = max 1 (l div 2048)"

lemma sum_length_bound: "sum_length s < 2 ^ 32"
proof -
  have "int_var ''length'' (base s) mod 2 ^ 32 < 2 ^ 32" by (rule pos_mod_bound) simp
  then show ?thesis by (simp add: sum_length_def uint_var_def nat_less_iff)
qed

lemma sint_le_unat: "sint (x :: 32 word) \<le> int (unat x)"
proof -
  have "- (2 ^ 31) \<le> uint x" by (rule order_trans [OF _ uint_ge_0]) simp
  then have "signed_take_bit 31 (uint x) \<le> uint x" by (simp only: signed_take_bit_int_less_eq_self_iff)
  then show ?thesis by (simp add: sint_uint)
qed

lemma sum_length_set:
  "n < 2 ^ 32 \<Longrightarrow> sum_length (set_base_var ''length'' (Int_val (int n)) s) = n"
  by (simp add: sum_length_def set_base_var_def uint_var_def int_var_def)

lemma setup_reduction_data_ok:
  assumes "env_ok env" "refOutput s = 0"
  shows "\<exists>a t. setupReduction env s = Some (SDK_SUCCESS, t)
    \<and> array_filled (with_length (512 * chunks (sum_length s)) (base s)) (timers s) (chunks (sum_length s)) a t
    \<and> groupSize t = groupSize s \<and> sum_deviceInfo t = sum_deviceInfo s"
proof -
  let ?c = "chunks (sum_length s)"
  have n: "(if sum_length s < 256 * 4 * 2 then 256 * 4 * 2 else sum_length s) div (256 * 4 * 2) * (256 * 4 * 2) div 4 = 512 * ?c"
  proof (cases "sum_length s < 2048")
    case False
    then have "?c = sum_length s div 2048" by (simp add: chunks_def max_def div_le_dividend)
    then show ?thesis using False by simp
  qed (simp add: chunks_def)
  have c: "0 < ?c" "2048 * ?c < 2 ^ 32"
    using sum_length_bound [of s] by (auto simp: chunks_def max_def)
  let ?a = "fresh_array env ''input'' (512 * ?c * 4)" and ?w = "sint (word_of_nat (512 * ?c * 4) :: 32 word)"
  have w: "nat ?w \<le> 512 * ?c * 4"
  proof -
    have "unat (word_of_nat (512 * ?c * 4) :: 32 word) = 512 * ?c * 4" using c(2) by (intro unat_small) simp
    then show ?thesis using sint_le_unat [of "word_of_nat (512 * ?c * 4) :: 32 word"] by linarith
  qed
  have "\<exists>v. random_value 0 (random_range 0 5) (rand env i) = Some v" for i
    using random_value_in_range [of 0 5 "rand env i"] assms(1) by (auto simp: env_ok_def)
  then have "yields (fill_loops (nat ?w) 1
      (\<lambda>i j. random_value 0 (random_range 0 5) (rand env (i * nat ?w + j))) ?a) (\<lambda>a. length a = 2048 * ?c)"
    using w by (intro yields_mono [OF fill_loops_all [where P = "\<lambda>_ _. True"]]) auto
  then obtain a where a: "fillRandom (rand env) (Some ?a) ?w 1 0 5 = Some (SDK_SUCCESS, Some a)" "length a = 2048 * ?c"
    by (auto simp: yields_def fillRandom_def)
  have "setupReduction env s = Some (SDK_SUCCESS, set_base_var ''length'' (Int_val (int (512 * ?c))) (s\<lparr>sum_input := Some a\<rparr>))"
    using a(1) unfolding setupReduction_def GROUP_SIZE_def VECTOR_SIZE_def MULTIPLY_def Let_def n
    by (simp only: bind.bind_lunit prod.case)
  moreover have "sum_length (set_base_var ''length'' (Int_val (int (512 * ?c))) (s\<lparr>sum_input := Some a\<rparr>)) = 512 * ?c"
    using c(2) by (intro sum_length_set) simp
  ultimately show ?thesis using a(2) c assms(2)
    by (simp add: array_filled_def with_length_def set_base_var_def)
qed

section \<open>Setting up OpenCL\<close>

definition input_ready :: "nat \<Rightarrow> reduction \<Rightarrow> bool" where
  "input_ready c s \<longleftrightarrow> (\<exists>buf. sum_inputBuffer s = Some buf \<and> length buf = 2048 * c)"

text \<open>The size of the groups, and what the device must allow.\<close>

definition used_group_size :: "run_env \<Rightarrow> nat" where
  "used_group_size env = min 256 (kernelWorkGroupSize (group_info env))"

lemma used_size_power:
  assumes "(\<exists>m. kernelWorkGroupSize (group_info env) = 2 ^ m) \<or> 256 \<le> kernelWorkGroupSize (group_info env)"
  shows "\<exists>m \<le> 8. used_group_size env = 2 ^ m"
proof (cases "256 \<le> kernelWorkGroupSize (group_info env)")
  case True
  then show ?thesis by (intro exI [of _ 8]) (simp add: used_group_size_def)
next
  case False
  then obtain m where m: "kernelWorkGroupSize (group_info env) = 2 ^ m" using assms by blast
  then have "(2 :: nat) ^ m < 2 ^ 8" using False by simp
  then have "m < 8" by (simp only: power_strict_increasing_iff)
  then show ?thesis using m False by (intro exI [of _ m]) (simp add: used_group_size_def)
qed

definition device_suits :: "run_env \<Rightarrow> bool" where
  "device_suits env \<longleftrightarrow> 0 < number_of (report env) ''CL_DEVICE_MAX_WORK_ITEM_DIMENSIONS''
     \<and> used_group_size env \<le> item_size (report env) 0
     \<and> used_group_size env \<le> number_of (report env) ''CL_DEVICE_MAX_WORK_GROUP_SIZE''
     \<and> localMemoryUsed (group_info env) \<le> number_of (report env) ''CL_DEVICE_LOCAL_MEM_SIZE''"

definition sizes_set :: "nat \<Rightarrow> nat \<Rightarrow> reduction \<Rightarrow> bool" where
  "sizes_set w c s \<longleftrightarrow> groupSize s = w \<and> localThreads s = w \<and> globalThreads s = 256 * c"

definition sum_idle :: "sample \<Rightarrow> nat \<Rightarrow> timer list \<Rightarrow> nat \<Rightarrow> 32 word list \<Rightarrow> reduction \<Rightarrow> bool" where
  "sum_idle b w ts c a s \<longleftrightarrow> array_filled b ts c a s \<and> input_ready c s \<and> sizes_set w c s \<and> cl_kernel s \<noteq> None
     \<and> sum_deviceInfo s ''maxWorkItemSizes'' \<noteq> None"

lemmas sum_fields = array_filled_def sum_length_def input_ready_def sizes_set_def sum_idle_def

lemma query_device_ok:
  assumes "sure \<Longrightarrow> all_succeed (lib env)" "\<And>s i. P s \<Longrightarrow> P (s\<lparr>sum_deviceInfo := i\<rparr>)"
  shows "meets sure (query_device env) (\<lambda>s. P s \<and> device_chosen sure s \<and> sum_deviceInfo s = new_device_info)
    (\<lambda>s. P s \<and> device_chosen sure s \<and> sum_deviceInfo s = reported (report env))"
  unfolding meets_def
proof (intro allI impI conjI)
  fix s k assume s: "P s \<and> device_chosen sure s \<and> sum_deviceInfo s = new_device_info"
  note info = setDeviceInfo_ok [OF assms(1), where dev = "report env"]
  { fix t n assume "query_device env (s, k) = Some (SDK_SUCCESS, t, n)"
    then obtain i where "setDeviceInfo (lib env) (report env) (new_device_info, k) = Some (SDK_SUCCESS, i, n)"
        "t = s\<lparr>sum_deviceInfo := i\<rparr>"
      using s by (auto simp: query_device_def bind_eq_Some_conv)
    then show "P t" "device_chosen sure t" "sum_deviceInfo t = reported (report env)"
      using meetsD [OF info refl] s assms(2) by (auto simp: device_chosen_def chosen_device_def) }
  assume sure
  then obtain d where "chosen_device s = Some d" using s by (auto simp: device_chosen_def)
  moreover obtain i n where "setDeviceInfo (lib env) (report env) (new_device_info, k) = Some (SDK_SUCCESS, i, n)"
    using info \<open>sure\<close> unfolding meets_def by blast
  ultimately show "\<exists>t n. query_device env (s, k) = Some (SDK_SUCCESS, t, n)"
    using s by (auto simp: query_device_def)
qed

definition asked :: "run_env \<Rightarrow> sample \<Rightarrow> timer list \<Rightarrow> nat \<Rightarrow> 32 word list \<Rightarrow> reduction \<Rightarrow> bool" where
  "asked env b ts c a s \<longleftrightarrow> array_filled b ts c a s \<and> groupSize s = 256 \<and> input_ready c s
     \<and> sum_deviceInfo s = reported (report env)"

lemma query_sum_kernel_ok:
  assumes "sure \<Longrightarrow> all_succeed (lib env)"
  shows "meets sure (query_sum_kernel env)
    (\<lambda>s. asked env b ts c a s \<and> device_chosen sure s \<and> cl_kernel s \<noteq> None)
    (\<lambda>s. asked env b ts c a s \<and> cl_kernel s \<noteq> None
      \<and> kernelWorkGroupSize (sum_kernelInfo s) = kernelWorkGroupSize (group_info env)
      \<and> localMemoryUsed (sum_kernelInfo s) = localMemoryUsed (group_info env))"
  using assms unfolding meets_def
  by (auto simp: query_sum_kernel_def asked_def sum_fields device_chosen_def setKernelWorkGroupInfo_def Let_def
      all_succeed_def bind_eq_Some_conv split: if_splits prod.splits)

lemma choose_group_size_ok:
  assumes "sure \<Longrightarrow> device_suits env"
  shows "meets sure (\<lambda>(s, k). do { (r, s') \<leftarrow> choose_group_size s; Some (r, s', k) })
    (\<lambda>s. asked env b ts c a s \<and> cl_kernel s \<noteq> None
      \<and> kernelWorkGroupSize (sum_kernelInfo s) = kernelWorkGroupSize (group_info env)
      \<and> localMemoryUsed (sum_kernelInfo s) = localMemoryUsed (group_info env))
    (sum_idle b (used_group_size env) ts c a)"
  unfolding meets_def
proof (intro allI impI conjI)
  fix s k
  assume s: "asked env b ts c a s \<and> cl_kernel s \<noteq> None
    \<and> kernelWorkGroupSize (sum_kernelInfo s) = kernelWorkGroupSize (group_info env)
    \<and> localMemoryUsed (sum_kernelInfo s) = localMemoryUsed (group_info env)"
  let ?w = "used_group_size env" and ?n = "number_of (report env)"
  have w: "(if kernelWorkGroupSize (sum_kernelInfo s) < groupSize s
      then kernelWorkGroupSize (sum_kernelInfo s) else groupSize s) = ?w"
    using s by (auto simp: used_group_size_def asked_def)
  have dev: "device_size (sum_deviceInfo s) 0 =
      (if 0 < ?n ''CL_DEVICE_MAX_WORK_ITEM_DIMENSIONS'' then Some (item_size (report env) 0) else None)"
    "device_number (sum_deviceInfo s) ''maxWorkGroupSize'' = Some (?n ''CL_DEVICE_MAX_WORK_GROUP_SIZE'')"
    "device_number (sum_deviceInfo s) ''localMemSize'' = Some (?n ''CL_DEVICE_LOCAL_MEM_SIZE'')"
    using s by (simp_all add: asked_def device_size_def device_number_def reported_fields arg_at_def)
  have idle: "sum_idle b ?w ts c a (s\<lparr>groupSize := ?w, globalThreads := sum_length s div MULTIPLY, localThreads := ?w\<rparr>)"
    using s by (auto simp: asked_def sum_fields MULTIPLY_def reported_fields)
  { fix t n assume "(\<lambda>(s, k). do { (r, s') \<leftarrow> choose_group_size s; Some (r, s', k) }) (s, k) = Some (SDK_SUCCESS, t, n)"
    then show "sum_idle b ?w ts c a t"
      using idle unfolding prod.case choose_group_size_def Let_def w dev
      by (auto simp: bind_eq_Some_conv split: if_splits) }
  assume sure
  from assms [OF this]
  show "\<exists>t n. (\<lambda>(s, k). do { (r, s') \<leftarrow> choose_group_size s; Some (r, s', k) }) (s, k) = Some (SDK_SUCCESS, t, n)"
    using s unfolding prod.case choose_group_size_def Let_def w dev by (auto simp: device_suits_def)
qed

lemma sum_setup_calls_ok:
  assumes "sure \<Longrightarrow> usable env sum_kernel_file s0 \<and> device_suits env" "base s0 = b"
    and "sure \<Longrightarrow> p = used_platform (lib env) b"
  shows "meets sure (sum_setup_calls env p)
    (\<lambda>s. array_filled b ts c a s \<and> groupSize s = 256 \<and> sum_deviceInfo s = new_device_info)
    (sum_idle b (used_group_size env) ts c a)"
proof -
  let ?C = "device_chosen sure" and ?P = "\<lambda>s. array_filled b ts c a s \<and> groupSize s = 256"
  let ?U = "\<lambda>s. (array_filled b ts c a s \<and> groupSize s = 256) \<and> sum_deviceInfo s = new_device_info"
  let ?V = "asked env b ts c a"
  have use: "usable env sum_kernel_file s0" and ok: "all_succeed (lib env)" and suits: "device_suits env" if sure
    using assms(1) [OF that] by (simp_all add: usable_def)
  have blind: "blind ?U" "blind ?V" by (auto simp: blind_def asked_def sum_fields)
  have base: "?U s \<Longrightarrow> base s = base s0" "?V s \<Longrightarrow> base s = base s0" for s
    using assms(2) by (simp_all add: asked_def array_filled_def)
  have open_ok: "meets sure (run_steps [create_context env p, get_devices env, create_queue env]) ?U (\<lambda>s. ?U s \<and> ?C s)"
    by (rule open_device_ok [of sure env sum_kernel_file s0]) (use use assms(2,3) blind base in auto)
  have query: "meets sure (query_device env) (\<lambda>s. ?U s \<and> ?C s)
      (\<lambda>s. ?P s \<and> ?C s \<and> sum_deviceInfo s = reported (report env))"
    by (rule meets_conseq [OF query_device_ok [of sure env ?P]]) (auto simp: ok sum_fields)
  have buffer: "meets sure (\<lambda>(s, k). let n = sum_length s * VECTOR_SIZE in
        create_buffer env n (\<lambda>s. s\<lparr>sum_inputBuffer := Some (fresh_array env ''inputBuffer'' n)\<rparr>) (s, k))
      (\<lambda>s. ?P s \<and> ?C s \<and> sum_deviceInfo s = reported (report env)) (\<lambda>s. ?V s \<and> ?C s)"
    using ok by (auto simp: meets_def create_buffer_def cl_call_def all_succeed_def bind_eq_Some_conv asked_def sum_fields
        device_chosen_def chosen_device_def VECTOR_SIZE_def split: if_splits)
  have build_ok: "meets sure (run_steps [build_program env sum_kernel_file, create_kernel env])
      (\<lambda>s. ?V s \<and> ?C s) (\<lambda>s. ?V s \<and> ?C s \<and> cl_kernel s \<noteq> None)"
    by (rule build_program_ok [of sure env sum_kernel_file s0])
      (use use blind base in \<open>auto simp: c_str_def sum_kernel_file_def\<close>)
  have size: "meets sure (setWorkGroupSize env) (\<lambda>s. ?V s \<and> ?C s \<and> cl_kernel s \<noteq> None)
      (sum_idle b (used_group_size env) ts c a)"
    unfolding setWorkGroupSize_def
    by (rule meets_Cons [OF query_sum_kernel_ok [OF ok] meets_Cons [OF choose_group_size_ok [OF suits] meets_Nil]]) assumption+
  have "meets sure (sum_setup_calls env p) ?U (sum_idle b (used_group_size env) ts c a)"
    using meets_append [OF open_ok meets_Cons [OF query meets_Cons [OF buffer
      meets_append [OF build_ok meets_Cons [OF size meets_Nil]]]]]
    by (simp add: sum_setup_calls_def)
  then show ?thesis by (rule meets_conseq) auto
qed

lemma setupCL_sum_ok:
  assumes "sure \<Longrightarrow> usable env sum_kernel_file s0 \<and> device_suits env" "array_filled b ts c a s0"
    and "groupSize s0 = 256" "sum_deviceInfo s0 = new_device_info"
  shows "meets sure (setupCL_sum env) (\<lambda>s. s = s0) (sum_idle b (used_group_size env) ts c a)"
  unfolding setupCL_sum_def
proof (rule with_platform_ok [of sure env sum_kernel_file s0])
  show "sure \<Longrightarrow> usable env sum_kernel_file s0" using assms(1) by blast
  fix p assume p: "sure \<Longrightarrow> p = used_platform (lib env) (base s0)"
  have b: "base s0 = b" using assms(2) by (simp add: array_filled_def)
  show "meets sure (sum_setup_calls env p) (\<lambda>s. s = s0) (sum_idle b (used_group_size env) ts c a)"
    by (rule meets_conseq [OF sum_setup_calls_ok [OF assms(1) b]]) (use assms(2-4) p b in auto)
qed

section \<open>Running the kernel\<close>

text \<open>The groups have \<open>2^m\<close> items each, so there are \<open>c * 2^(8 - m)\<close> of them.\<close>

definition blocks :: "nat \<Rightarrow> nat \<Rightarrow> nat" where
  "blocks m c = c * 2 ^ (8 - m)"

lemma blocks_times: "m \<le> 8 \<Longrightarrow> 2 ^ m * blocks m c = 256 * c"
proof -
  assume "m \<le> 8"
  then have "(2 :: nat) ^ m * 2 ^ (8 - m) = 2 ^ 8" by (simp flip: power_add)
  then show ?thesis by (simp add: blocks_def mult.left_commute)
qed

definition sum_run :: "sample \<Rightarrow> nat \<Rightarrow> timer list \<Rightarrow> nat \<Rightarrow> 32 word list \<Rightarrow> reduction \<Rightarrow> bool" where
  "sum_run b m ts c a s \<longleftrightarrow> sum_idle b (2 ^ m) ts c a s \<and> numBlocks s = int (blocks m c)
     \<and> (\<exists>out. sum_outputBuffer s = Some out \<and> length out = 4 * blocks m c)"

definition sum_done :: "sample \<Rightarrow> nat \<Rightarrow> timer list \<Rightarrow> nat \<Rightarrow> 32 word list \<Rightarrow> reduction \<Rightarrow> bool" where
  "sum_done b m ts c a s \<longleftrightarrow> sum_run b m ts c a s \<and> sum_output s = (\<Sum>i<2048 * c. a ! i)"

text \<open>On the way: the input is on the device; the sums of the groups are.\<close>

definition input_sent :: "sample \<Rightarrow> nat \<Rightarrow> timer list \<Rightarrow> nat \<Rightarrow> 32 word list \<Rightarrow> reduction \<Rightarrow> bool" where
  "input_sent b m ts c a s \<longleftrightarrow> sum_run b m ts c a s \<and> sum_inputBuffer s = Some a"

definition sums_stored :: "sample \<Rightarrow> nat \<Rightarrow> timer list \<Rightarrow> nat \<Rightarrow> 32 word list \<Rightarrow> reduction \<Rightarrow> bool" where
  "sums_stored b m ts c a s \<longleftrightarrow> sum_run b m ts c a s
     \<and> (\<exists>out. sum_outputBuffer s = Some out \<and> (\<Sum>i<4 * blocks m c. out ! i) = (\<Sum>i<2048 * c. a ! i))"

lemmas run_fields = sum_run_def sum_fields

abbreviation sum_args :: "nat \<Rightarrow> (nat \<times> kernel_arg) list" where
  "sum_args m \<equiv> [(2, Local_arg (2 ^ m * 16)), (1, Buffer_arg ''outputBuffer''), (0, Buffer_arg ''inputBuffer'')]"

lemma launch_sum_ok:
  assumes "groups_ok env" "m \<le> 8" "input_sent b m ts c a s" "args_set (sum_args m) s"
  shows "\<exists>t. launch_sum env k s = Some t \<and> sums_stored b m ts c a t"
proof -
  let ?G = "blocks m c"
  have s: "sum_inputBuffer s = Some a" "localThreads s = 2 ^ m" "globalThreads s = 256 * c" "length a = 2048 * c"
      "0 < c" "2048 * c < 2 ^ 32" "sum_run b m ts c a s"
    using assms(3) by (auto simp: input_sent_def run_fields)
  obtain out where out: "sum_outputBuffer s = Some out" "length out = 4 * ?G"
    using s(7) by (auto simp: sum_run_def)
  obtain f where f: "cl_kernel s = Some f" "f 0 = Some (Buffer_arg ''inputBuffer'')"
      "f 1 = Some (Buffer_arg ''outputBuffer'')" "f 2 = Some (Local_arg (2 ^ m * 16))"
    using assms(4) by (auto simp: args_set_def)
  have G: "256 * c div 2 ^ m = ?G" using blocks_times [OF assms(2), of c] by (metis nonzero_mult_div_cancel_left power_not_zero zero_neq_numeral)
  have pos: "0 < ?G" using s(5) by (simp add: blocks_def)
  have m: "m < 32" using assms(2) by simp
  have w: "(2 :: nat) ^ m < 2 ^ 32" using m by (intro power_strict_increasing) simp_all
  have len: "length (reduce a (word_of_nat (2 ^ m))) = m + 2"
    using phases_nth(1) [OF w, of a ?G] rounds_power [OF m] by (simp add: sum_phases_def)
  have "2 * (2 ^ m * ?G) < 2 ^ 32" "8 * (2 ^ m * ?G) \<le> length a"
    using s(4,6) unfolding blocks_times [OF assms(2)] by simp_all
  then obtain out' where out': "run_groups (reduce a (word_of_nat (2 ^ m))) ?G (2 ^ m) (local_vectors env (2 ^ m * 16))
        (interleave env k (m + 2) ?G (2 ^ m)) out = Some out'"
      "length out' = length out" "(\<Sum>i<4 * ?G. out' ! i) = (\<Sum>i<8 * (2 ^ m * ?G). a ! i)"
    using kernel_sums [OF m pos, of a out "interleave env k (m + 2) ?G (2 ^ m)" "local_vectors env (2 ^ m * 16)"]
      assms(1) out(2) by (auto simp: groups_ok_def local_vectors_def)
  have "launch_sum env k s = Some (s\<lparr>sum_outputBuffer := Some out'\<rparr>)"
    using out'(1) unfolding launch_sum_def Let_def
    by (simp add: f s out(1) G len del: of_nat_power One_nat_def)
  moreover have "sums_stored b m ts c a (s\<lparr>sum_outputBuffer := Some out'\<rparr>)"
    using s(7) out(2) out'(2,3) unfolding blocks_times [OF assms(2)] by (auto simp: sums_stored_def run_fields)
  ultimately show ?thesis by blast
qed

lemma enqueue_sum_ok:
  assumes "live_env sure env" "groups_ok env" "m \<le> 8"
  shows "meets sure (enqueue_sum env) (\<lambda>s. input_sent b m ts c a s \<and> args_set (sum_args m) s) (sums_stored b m ts c a)"
  unfolding enqueue_sum_def
proof (rule meets_enqueue)
  fix s assume "input_sent b m ts c a s \<and> args_set (sum_args m) s"
  then have "globalThreads s = 2 ^ m * blocks m c" "localThreads s = 2 ^ m" "0 < c"
    using blocks_times [OF assms(3), of c] by (auto simp: input_sent_def run_fields)
  then show "list_all accepted_size [(globalThreads s, localThreads s)]"
    by (simp add: accepted_size_def blocks_def)
qed (use assms launch_sum_ok in \<open>auto simp: live_env_def\<close>)

lemma copy_input_ok: "sum_run b m ts c a s \<Longrightarrow> \<exists>t. copy_input s = Some t \<and> input_sent b m ts c a t"
  by (auto simp: copy_input_def input_sent_def run_fields VECTOR_SIZE_def transfer_all)

lemma add_blocks_ok: "sums_stored b m ts c a s \<Longrightarrow> \<exists>t. add_blocks s = Some t \<and> sum_done b m ts c a t"
  by (auto simp: add_blocks_def sums_stored_def sum_done_def run_fields VECTOR_SIZE_def sum_loop mult.commute)

lemma sum_args_ok:
  assumes "live_env sure env"
  shows "meets sure (run_steps [set_arg env 0 (Buffer_arg ''inputBuffer''), set_arg env 1 (Buffer_arg ''outputBuffer''),
      set_arg env 2 (Local_arg (2 ^ m * 16))])
    (input_sent b m ts c a) (\<lambda>s. input_sent b m ts c a s \<and> args_set (sum_args m) s)"
proof -
  let ?A = "input_sent b m ts c a"
  have ok: "all_succeed (lib env)" if sure using assms that by (simp add: live_env_def)
  have kernel: "?A s \<Longrightarrow> cl_kernel s \<noteq> None" for s by (simp add: input_sent_def run_fields)
  have set: "\<And>i v as. i \<notin> fst ` set as \<Longrightarrow>
      meets sure (set_arg env i v) (\<lambda>s. ?A s \<and> args_set as s) (\<lambda>s. ?A s \<and> args_set ((i, v) # as) s)"
    by (rule new_arg_ok) (use ok in \<open>auto simp: input_sent_def run_fields\<close>)
  have "meets sure (run_steps [set_arg env 0 (Buffer_arg ''inputBuffer''), set_arg env 1 (Buffer_arg ''outputBuffer''),
      set_arg env 2 (Local_arg (2 ^ m * 16))])
    (\<lambda>s. ?A s \<and> args_set [] s) (\<lambda>s. ?A s \<and> args_set (sum_args m) s)"
    by (intro meets_Cons [OF set] meets_Nil) simp_all
  then show ?thesis by (rule meets_conseq) (use kernel in \<open>auto simp: args_set_def\<close>)
qed

lemma runCLKernels_sum_ok:
  assumes "live_env sure env" "groups_ok env" "m \<le> 8"
  shows "meets sure (runCLKernels_sum env) (sum_run b m ts c a) (sum_done b m ts c a)"
proof -
  let ?R = "sum_run b m ts c a" and ?A = "input_sent b m ts c a" and ?B = "sums_stored b m ts c a"
    and ?J = "sum_done b m ts c a"
  note wait = call_and_wait_ok [OF assms(1)]
  have copy: "meets sure (run_steps [local_step copy_input]) ?R ?A"
    by (rule meets_Cons [OF meets_local_step [OF copy_input_ok] meets_Nil])
  have launch: "meets sure (run_steps (enqueue_sum env # flush_and_wait env)) (\<lambda>s. ?A s \<and> args_set (sum_args m) s) ?B"
    by (rule meets_Cons [OF enqueue_sum_ok [OF assms] flush_and_wait_ok [OF assms(1)]])
  have add: "meets sure (run_steps [local_step add_blocks]) ?B ?J"
    by (rule meets_Cons [OF meets_local_step [OF add_blocks_ok] meets_Nil])
  note all = meets_append [OF wait meets_append [OF copy meets_append [OF wait
    meets_append [OF sum_args_ok [OF assms(1)] meets_append [OF launch meets_append [OF wait
      meets_append [OF add wait]]]]]]]
  define steps where "steps g = run_steps
     ([cl_call (lib env) (\<lambda>_. Some)] @ flush_and_wait env @ [local_step copy_input] @
      [cl_call (lib env) (\<lambda>_. Some)] @ flush_and_wait env @
      [set_arg env 0 (Buffer_arg ''inputBuffer''), set_arg env 1 (Buffer_arg ''outputBuffer''),
       set_arg env 2 (Local_arg (g * 16)), enqueue_sum env] @ flush_and_wait env @
      [cl_call (lib env) (\<lambda>_. Some)] @ flush_and_wait env @ [local_step add_blocks] @
      [cl_call (lib env) (\<lambda>_. Some)] @ flush_and_wait env)" for g
  have "meets sure (steps (2 ^ m)) ?R ?J" using all unfolding steps_def by simp
  moreover have "runCLKernels_sum env (s, k) = steps (2 ^ m) (s, k)" if "?R s" for s k
    using that by (simp add: runCLKernels_sum_def steps_def run_fields)
  ultimately show ?thesis unfolding meets_def by presburger
qed

section \<open>The parts of the program\<close>

lemma create_output_ok:
  assumes "live_env sure env" "m \<le> 8"
  shows "meets sure (create_output env) (sum_idle b (2 ^ m) ts c a) (sum_run b m ts c a)"
proof -
  have d: "unat ((word_of_nat (2 ^ m) :: 32 word) * 2) = 2 * 2 ^ m"
  proof -
    have "(2 :: nat) ^ m \<le> 2 ^ 8" using assms(2) by (intro power_increasing) simp_all
    then show ?thesis using unat_small [of "2 * 2 ^ m"] by (simp add: mult.commute)
  qed
  have nz: "(word_of_nat (2 ^ m) :: 32 word) * 2 \<noteq> 0" using d by (metis mult_eq_0_iff power_not_zero unat_0 zero_neq_numeral)
  have n: "nat (sint (word_of_nat (512 * c) div ((word_of_nat (2 ^ m) :: 32 word) * 2))) = blocks m c" if "2048 * c < 2 ^ 32"
  proof -
    have "512 * c = 2 * 2 ^ m * blocks m c" unfolding mult.assoc blocks_times [OF assms(2)] by simp
    then have q: "512 * c div (2 * 2 ^ m) = blocks m c" by simp
    have "blocks m c \<le> 512 * c" unfolding q [symmetric] by (rule div_le_dividend)
    then have "unat ((word_of_nat (512 * c) :: 32 word) div (word_of_nat (2 ^ m) * 2)) = blocks m c" "blocks m c < 2 ^ 31"
      using that unat_small [of "512 * c"] by (simp_all only: unat_div d q) simp_all
    then show ?thesis by (simp only: sint_eq_unat nat_int)
  qed
  let ?create = "create_buffer env (blocks m c * VECTOR_SIZE)
    (\<lambda>s. s\<lparr>sum_outputBuffer := Some (fresh_array env ''outputBuffer'' (blocks m c * VECTOR_SIZE))\<rparr>)"
  have call: "meets sure ?create (\<lambda>s. sum_idle b (2 ^ m) ts c a s \<and> numBlocks s = int (blocks m c)) (sum_run b m ts c a)"
  proof (cases "0 < c")
    case True
    then show ?thesis
      by (intro meets_create_buffer) (use assms(1) in \<open>auto simp: live_env_def run_fields VECTOR_SIZE_def blocks_def\<close>)
  qed (auto simp: meets_def sum_fields)
  have "\<exists>s'. create_output env (s, k) = ?create (s', k)
      \<and> sum_idle b (2 ^ m) ts c a s' \<and> numBlocks s' = int (blocks m c)" if s: "sum_idle b (2 ^ m) ts c a s" for s k
  proof -
    have "groupSize s = 2 ^ m" "sum_length s = 512 * c" "2048 * c < 2 ^ 32" using s by (auto simp: sum_fields)
    then show ?thesis using s n nz unfolding create_output_def prod.case Let_def
      by (intro exI [of _ "s\<lparr>numBlocks := int (blocks m c), outputPtr := Some (replicate (blocks m c * VECTOR_SIZE) 0)\<rparr>"])
        (auto simp: sum_fields simp del: of_nat_power of_nat_mult)
  qed
  then show ?thesis using call unfolding meets_def by metis
qed

lemma timed_sums: "timed (\<lambda>ts. sum_run b m ts c a)" "timed (\<lambda>ts. sum_done b m ts c a)" "timed (\<lambda>ts. sum_idle b w ts c a)"
  by (auto simp: timed_def sum_done_def run_fields)

lemma run_reduction_ok:
  assumes "live_env sure env" "groups_ok env" "m \<le> 8"
  shows "meets sure (run_reduction env) (sum_idle b (2 ^ m) ts c a) (\<lambda>s. \<exists>ts'. sum_done b m ts' c a s)"
proof -
  note kernels = runCLKernels_sum_ok [OF assms]
  have "meets sure (run_sample env (runCLKernels_sum env)) (sum_run b m ts c a) (\<lambda>s. \<exists>ts'. sum_done b m ts' c a s)"
  proof (rule run_sample_ok [where it = "int_var ''iterations'' b", OF timed_sums(1,2)])
    show "meets sure (runCLKernels_sum env) (sum_done b m ts c a) (sum_done b m ts c a)" for ts
      by (rule meets_conseq [OF kernels]) (simp_all add: sum_done_def)
  qed (auto simp: sum_done_def run_fields iterations_def intro: kernels)
  then show ?thesis unfolding run_reduction_def
    by (intro meets_Cons [OF create_output_ok [OF assms(1,3)]] meets_Cons [OF _ meets_Nil])
qed

lemma verify_reduction_ok:
  "sum_done b m ts c a s \<Longrightarrow> \<exists>t. verify_reduction s = Some (SDK_SUCCESS, t) \<and> sum_deviceInfo t = sum_deviceInfo s"
  by (auto simp: verify_reduction_def reductionCPUReference_def sum_done_def run_fields VECTOR_SIZE_def sum_loop)

lemma cleanup_reduction_ok:
  assumes "all_succeed (lib env)"
  shows "\<exists>t k'. cleanup_reduction env (s, k) = Some (SDK_SUCCESS, t, k')
    \<and> cl_context t = None \<and> commandQueue t = None \<and> sum_inputBuffer t = None \<and> sum_outputBuffer t = None
    \<and> cl_program t = None \<and> cl_kernel t = None \<and> sum_deviceInfo t = sum_deviceInfo s"
  using assms by (simp add: cleanup_reduction_def run_steps.simps cl_call_def all_succeed_def)

text \<open>The object before \<open>setup\<close>: as the constructor leaves it, but for the options.\<close>

definition sum_fresh :: "reduction \<Rightarrow> bool" where
  "sum_fresh s \<longleftrightarrow> groupSize s = 256 \<and> refOutput s = 0 \<and> sum_deviceInfo s = new_device_info"

lemma setup_reduction_ok:
  assumes "sure \<Longrightarrow> usable env sum_kernel_file s0 \<and> device_suits env" "env_ok env" "sum_fresh s0"
  shows "meets sure (setup_reduction env) (\<lambda>s. s = s0)
    (\<lambda>s. \<exists>a ts. sum_idle (with_length (512 * chunks (sum_length s0)) (base s0)) (used_group_size env) ts (chunks (sum_length s0)) a s)"
proof -
  let ?c = "chunks (sum_length s0)" and ?b = "with_length (512 * chunks (sum_length s0)) (base s0)"
  obtain a s1 where s1: "setupReduction env s0 = Some (SDK_SUCCESS, s1)" "array_filled ?b (timers s0) ?c a s1"
      "groupSize s1 = 256" "sum_deviceInfo s1 = new_device_info"
    using setup_reduction_data_ok [OF assms(2), of s0] assms(3) by (auto simp: sum_fresh_def)
  have b: "base s1 = ?b" using s1(2) by (simp add: array_filled_def)
  have use: "usable env sum_kernel_file (s1\<lparr>timers := ts\<rparr>) \<and> device_suits env" if sure for ts
    using assms(1) [OF that] usable_with_length [of env sum_kernel_file s0 "s1\<lparr>timers := ts\<rparr>"] b by simp
  have "meets sure (setupCL_sum env) (\<lambda>s. s = s1\<lparr>timers := ts\<rparr>) (sum_idle ?b (used_group_size env) ts ?c a)" for ts
    by (rule setupCL_sum_ok [OF use]) (use s1(2-4) in \<open>auto simp: sum_fields\<close>)
  then have "meets sure (timed_setup env (setupCL_sum env)) (\<lambda>s. s = s1) (\<lambda>s. \<exists>ts. sum_idle ?b (used_group_size env) ts ?c a s)"
    by (intro timed_setup_ok timed_sums)
  moreover have "setup_reduction env (s0, k) = timed_setup env (setupCL_sum env) (s1, k)" for k
    using s1(1) by (simp add: setup_reduction_def)
  ultimately show ?thesis unfolding meets_def by metis
qed

end
