(* ===== verification/Reduction_Props.thy ===== *)
theory Reduction_Props
  imports Reduction_Run
begin

text \<open>
  The properties of the reduction: the device adds up the whole array when the groups have a power
  of two as their size, and what that means for a run of the program.
\<close>

text \<open>C34.
  Work groups of 2^m items, in every interleaving that respects the barriers, leave sums of their
  parts of the input whose total, modulo 2^32, is the sum the reference on the host computes,
  whatever local memory and the output hold before.\<close>

theorem device_sum_is_reference_sum:
  assumes "m < 32" "0 < G" "2 * (2 ^ m * G) < 2 ^ 32" "8 * (2 ^ m * G) \<le> length xs" "4 * G \<le> length out0"
    and "lets_finish (m + 2) G (2 ^ m) sched" "\<And>b. length (locals b) = 2 ^ m"
  shows "\<exists>out total. run_groups (reduce xs (word_of_nat (2 ^ m))) G (2 ^ m) locals sched out0 = Some out \<and>
    reductionCPUReference out (4 * G) 0 = Some total \<and>
    reductionCPUReference xs (8 * (2 ^ m * G)) 0 = Some total"
proof -
  obtain out where "run_groups (reduce xs (word_of_nat (2 ^ m))) G (2 ^ m) locals sched out0 = Some out"
      "length out = length out0" "(\<Sum>i<4 * G. out ! i) = (\<Sum>i<8 * (2 ^ m * G). xs ! i)"
    using kernel_sums [of m G xs out0 sched locals] assms by blast
  then show ?thesis using assms(4,5) by (simp add: reductionCPUReference_def sum_loop)
qed

text \<open>Two groups of two items; in every phase the last item of the second group comes first.\<close>

theorem device_sum_is_reference_sum_witness:
  "\<exists>out total. run_groups (reduce (map word_of_nat [0..<32]) (word_of_nat (2 ^ 1))) 2 (2 ^ 1)
      (\<lambda>_. replicate 2 (Uint4 7 7 7 7)) (concat (replicate (1 + 2) [(1, 1), (0, 0), (1, 0), (0, 1)]))
      (replicate 8 9) = Some out \<and>
    reductionCPUReference out (4 * 2) 0 = Some total \<and>
    reductionCPUReference (map word_of_nat [0..<32]) (8 * (2 ^ 1 * 2)) 0 = Some total"
proof (rule device_sum_is_reference_sum)
  have "runs_all (items2 2 (2 ^ 1)) [(1, 1), (0, 0), (1, 0), (0, 1)]"
    by (auto simp: runs_all_def items2_def less_Suc_eq numeral_2_eq_2)
  then show "lets_finish (1 + 2) 2 (2 ^ 1) (concat (replicate (1 + 2) [(1, 1), (0, 0), (1, 0), (0, 1)]))"
    by (rule round_robin_lets_finish)
qed simp_all

text \<open>C35.
  Whatever the OpenCL library answers and the device reports about itself: when the size of the
  groups that the kernel allows is a power of two or at least 256, and \<open>setup\<close> and \<open>run\<close> report
  success, then for every length and number of iterations \<open>output\<close> is the sum of the array that was
  set up, and \<open>verifyResults\<close> reports success.\<close>

theorem successful_reduction_is_correct:
  assumes "env_ok env" "groups_ok env" "sum_fresh s"
    and "(\<exists>m. kernelWorkGroupSize (group_info env) = 2 ^ m) \<or> 256 \<le> kernelWorkGroupSize (group_info env)"
    and "setup_reduction env (s, k) = Some (SDK_SUCCESS, s1, k1)"
    and "run_reduction env (s1, k1) = Some (SDK_SUCCESS, s2, k2)"
  shows "\<exists>a t. sum_input s1 = Some a \<and> sum_input s2 = Some a \<and>
    length a = max 2048 (sum_length s div 2048 * 2048) \<and> sum_output s2 = sum_list a \<and>
    verify_reduction s2 = Some (SDK_SUCCESS, t)"
proof -
  let ?c = "chunks (sum_length s)"
  obtain m where m: "m \<le> 8" "used_group_size env = 2 ^ m" using used_size_power [OF assms(4)] by blast
  obtain b a ts where i1: "sum_idle b (2 ^ m) ts ?c a s1"
    using meetsD [OF setup_reduction_ok [of False env s] refl assms(5)] assms(1,3) m(2) by auto
  obtain ts' where i2: "sum_done b m ts' ?c a s2"
    using meetsD [OF run_reduction_ok [of False env m] i1 assms(6)] assms(2) m(1) by (auto simp: live_env_def)
  have a: "sum_input s1 = Some a" "sum_input s2 = Some a" "length a = 2048 * ?c" "sum_output s2 = (\<Sum>i<2048 * ?c. a ! i)"
    using i1 i2 by (auto simp: sum_done_def run_fields)
  moreover have "2048 * ?c = max 2048 (sum_length s div 2048 * 2048)" by (simp add: chunks_def max_def)
  moreover have "sum_output s2 = sum_list a" using a(3,4) by (simp add: sum_list_sum_nth lessThan_atLeast0)
  ultimately show ?thesis using verify_reduction_ok [OF i2] by auto
qed

abbreviation sum_demo :: run_env where
  "sum_demo \<equiv> (demo_env sum_kernel_file)\<lparr>group_info := new_work_group_info\<lparr>kernelWorkGroupSize := 64\<rparr>\<rparr>"

lemma sum_demo_ok: "env_ok sum_demo" "groups_ok sum_demo" "live_env True sum_demo" "device_suits sum_demo"
  "used_group_size sum_demo = 2 ^ 6"
proof -
  show "env_ok sum_demo" "live_env True sum_demo"
    using demo_env_ok [of sum_kernel_file] by (simp_all add: env_ok_def live_env_def)
  show "groups_ok sum_demo" using demo_env_groups [of sum_kernel_file] by (simp add: groups_ok_def)
  show "used_group_size sum_demo = 2 ^ 6" by (simp add: used_group_size_def)
  then show "device_suits sum_demo" by (simp add: device_suits_def demo_env_def new_work_group_info_def)
qed

lemma sum_demo_usable:
  assumes "usable (demo_env sum_kernel_file) sum_kernel_file s"
  shows "usable sum_demo sum_kernel_file s"
  using assms by (simp add: usable_def)

lemma new_reduction_ok:
  "sum_fresh new_reduction" "sum_length new_reduction = 64" "usable sum_demo sum_kernel_file new_reduction"
proof -
  show "sum_fresh new_reduction" by (simp add: sum_fresh_def new_reduction_def set_base_var_def GROUP_SIZE_def)
  show "sum_length new_reduction = 64"
    by (simp add: new_reduction_def sum_length_def set_base_var_def uint_var_def int_var_def)
  have "usable (demo_env sum_kernel_file) sum_kernel_file new_reduction"
    by (rule demo_env_usable)
      (simp_all add: new_reduction_def set_base_var_def int_var_def string_var_def new_sample_def)
  then show "usable sum_demo sum_kernel_file new_reduction" by (rule sum_demo_usable)
qed

theorem successful_reduction_is_correct_witness:
  "\<exists>s1 k1 s2 k2 a t. setup_reduction sum_demo (new_reduction, 0) = Some (SDK_SUCCESS, s1, k1) \<and>
    run_reduction sum_demo (s1, k1) = Some (SDK_SUCCESS, s2, k2) \<and>
    sum_input s1 = Some a \<and> length a = 2048 \<and> sum_output s2 = sum_list a \<and>
    verify_reduction s2 = Some (SDK_SUCCESS, t)"
proof -
  obtain s1 k1 b c ts a where s1: "setup_reduction sum_demo (new_reduction, 0) = Some (SDK_SUCCESS, s1, k1)"
      "sum_idle b (2 ^ 6) ts c a s1"
    using meets_sure [OF setup_reduction_ok [of True sum_demo new_reduction] refl, of 0] new_reduction_ok
      sum_demo_ok(1,4,5) by auto
  obtain s2 k2 where s2: "run_reduction sum_demo (s1, k1) = Some (SDK_SUCCESS, s2, k2)"
    using meets_sure [OF run_reduction_ok [OF sum_demo_ok(3,2), of 6] s1(2), of k1] by auto
  have "\<exists>m. kernelWorkGroupSize (group_info sum_demo) = 2 ^ m" by (intro exI [of _ 6]) simp
  then show ?thesis
    using successful_reduction_is_correct [OF sum_demo_ok(1,2) new_reduction_ok(1) _ s1(1) s2] s1(1) s2 new_reduction_ok(2)
    by auto
qed

text \<open>C36.
  An accepted command line that asks for neither a dump nor a binary to load nor compiler flags
  leads \<open>main\<close> through set-up, run, verification and clean-up to its \<open>return\<close> with \<open>SDK_SUCCESS\<close>,
  the OpenCL objects released, when the library works, the device allows the groups, and their size
  is a power of two or at least 256; the length and the number of iterations may be anything.  But
  then the object is destroyed, and the destruction of its member \<open>deviceInfo\<close> frees with \<open>delete\<close>
  what \<open>new[]\<close> allocated: the end of every such run is undefined.\<close>

theorem reduction_program_ends:
  assumes "initialize_reduction new_reduction = Some (SDK_SUCCESS, s0)"
    and "parseCommandLine ((lib env)\<lparr>answers := check_answers env\<rparr>) argv (base s0) = Some (Returned SDK_SUCCESS, b)"
    and "\<not> isDumpBinaryEnabled b" "usable env sum_kernel_file (s0\<lparr>base := b\<rparr>)"
    and "env_ok env" "groups_ok env" "device_suits env"
    and "(\<exists>m. kernelWorkGroupSize (group_info env) = 2 ^ m) \<or> 256 \<le> kernelWorkGroupSize (group_info env)"
  shows "\<exists>t. main_sample env reduction_options sum_kernel_file (returning (reduction_work env)) new_reduction argv =
      Some (Returned SDK_SUCCESS, t, run_files env) \<and>
    cl_context t = None \<and> commandQueue t = None \<and> sum_inputBuffer t = None \<and> sum_outputBuffer t = None \<and>
    cl_program t = None \<and> cl_kernel t = None \<and>
    destroy_reduction t = None \<and> main_reduction env argv = None"
proof -
  let ?s = "s0\<lparr>base := b\<rparr>"
  have live: "live_env True env" "all_succeed (lib env)" using assms(4) by (auto simp: live_env_def usable_def)
  have "sum_fresh s0"
    using assms(1) new_reduction_ok(1)
    by (auto simp: initialize_reduction_def initialize_sample_def sum_fresh_def bind_eq_Some_conv split: prod.splits if_splits)
  then have fresh: "sum_fresh ?s" by (simp add: sum_fresh_def)
  obtain m where m: "m \<le> 8" "used_group_size env = 2 ^ m" using used_size_power [OF assms(8)] by blast
  obtain s1 k1 b' c ts a where s1: "setup_reduction env (?s, 0) = Some (SDK_SUCCESS, s1, k1)" "sum_idle b' (2 ^ m) ts c a s1"
    using meets_sure [OF setup_reduction_ok [of True env ?s] refl, of 0] assms(4,5,7) fresh m(2) by auto
  obtain s2 k2 ts' where s2: "run_reduction env (s1, k1) = Some (SDK_SUCCESS, s2, k2)" "sum_done b' m ts' c a s2"
    using meets_sure [OF run_reduction_ok [OF live(1) assms(6) m(1)] s1(2)] by blast
  have "sum_deviceInfo s2 ''maxWorkItemSizes'' \<noteq> None" using s2(2) by (auto simp: sum_done_def run_fields)
  moreover obtain s3 where s3: "verify_reduction s2 = Some (SDK_SUCCESS, s3)" "sum_deviceInfo s3 = sum_deviceInfo s2"
    using verify_reduction_ok [OF s2(2)] by blast
  moreover obtain t k' where t: "cleanup_reduction env (s3, k2) = Some (SDK_SUCCESS, t, k')" "cl_context t = None" "commandQueue t = None"
      "sum_inputBuffer t = None" "sum_outputBuffer t = None" "cl_program t = None" "cl_kernel t = None"
      "sum_deviceInfo t = sum_deviceInfo s3"
    using cleanup_reduction_ok [OF live(2)] by blast
  ultimately have gone: "destroy_reduction t = None"
    by (auto simp: destroy_reduction_def destroy_device_info_def info_arrays_def)
  have "reduction_work env (?s, 0) = Some (SDK_SUCCESS, t, k')"
    by (simp add: reduction_work_def run_steps.simps s1(1) s2(1) s3 t(1))
  then have "returning (reduction_work env) (?s, 0) = Some (Returned SDK_SUCCESS, t, k')" by (simp add: returning_iff)
  from main_sample_ok [where kernel_file = sum_kernel_file and work = "returning (reduction_work env)",
      OF assms(1) [unfolded initialize_reduction_def] assms(2,3) this]
  have run: "main_sample env reduction_options sum_kernel_file (returning (reduction_work env)) new_reduction argv =
      Some (Returned SDK_SUCCESS, t, run_files env)" .
  then have "main_reduction env argv = None" by (simp add: main_reduction_def gone)
  then show ?thesis using run gone t by blast
qed

definition sum_start :: reduction where
  "sum_start = snd (the (initialize_reduction new_reduction))"

definition sum_command :: "string list" where
  "sum_command = [''Reduction'', ''-e'', ''-x'', ''5000'', ''-i'', ''3'']"

lemma sum_start_ok: "initialize_reduction new_reduction = Some (SDK_SUCCESS, sum_start)"
proof -
  have "map_option fst (initialize_reduction new_reduction) = Some SDK_SUCCESS" by code_simp
  then show ?thesis by (auto simp: sum_start_def)
qed

lemma sum_parse:
  "map_option (\<lambda>(o', b). (o', isDumpBinaryEnabled b, enablePlatform b, int_var ''deviceId'' b, gpu b,
      string_var ''deviceType'' b, string_var ''loadBinary'' b, string_var ''flags'' b))
    (parseCommandLine ((lib sum_demo)\<lparr>answers := check_answers sum_demo\<rparr>) sum_command (base sum_start))
   = Some (Returned SDK_SUCCESS, False, False, 0, True, ''gpu'', [], [])"
  by code_simp

theorem reduction_program_ends_witness:
  "\<exists>t. main_sample sum_demo reduction_options sum_kernel_file (returning (reduction_work sum_demo)) new_reduction sum_command =
      Some (Returned SDK_SUCCESS, t, run_files sum_demo) \<and>
    cl_context t = None \<and> main_reduction sum_demo sum_command = None"
proof -
  obtain b where b: "parseCommandLine ((lib sum_demo)\<lparr>answers := check_answers sum_demo\<rparr>) sum_command
      (base sum_start) = Some (Returned SDK_SUCCESS, b)"
      "\<not> isDumpBinaryEnabled b" "\<not> enablePlatform b" "int_var ''deviceId'' b = 0" "gpu b"
      "string_var ''deviceType'' b = ''gpu''" "string_var ''loadBinary'' b = []" "string_var ''flags'' b = []"
    using sum_parse by auto
  then have "usable (demo_env sum_kernel_file) sum_kernel_file (sum_start\<lparr>base := b\<rparr>)"
    by (intro demo_env_usable) simp_all
  then have "usable sum_demo sum_kernel_file (sum_start\<lparr>base := b\<rparr>)" by (rule sum_demo_usable)
  moreover have "\<exists>m. kernelWorkGroupSize (group_info sum_demo) = 2 ^ m" by (intro exI [of _ 6]) simp
  ultimately show ?thesis
    using reduction_program_ends [OF sum_start_ok b(1,2) _ sum_demo_ok(1,2,4)] by auto
qed

end
