(* ===== verification/Search.thy ===== *)
theory Search
  imports Sdk_Host
begin

text \<open>
  The sample \<open>cl_testbench/BinarySearch\<close>: an array of ascending numbers is cut into many segments, a
  launch picks one that may contain the number looked for, and the host searches that segment.
  \<open>length\<close>, \<open>findMe\<close>, \<open>numSubdivisions\<close> and \<open>iterations\<close> are set by options, so they are variables of
  the base class.  Conventions are those of \<open>Sdk_Host\<close>.
\<close>

section \<open>The kernels\<close>

text \<open>
  The kernel that the program launches, on the segments, two numbers each: their first and last
  elements.  An item whose segment may contain the number writes its own number and a mark.
\<close>

definition binarySearch ::
  "32 word list \<Rightarrow> 32 word \<Rightarrow> nat \<times> nat \<Rightarrow> 32 word list \<Rightarrow> 32 word list option" where
  "binarySearch sortedArray findMe = (\<lambda>(g, _) outputArray.
     let tid = word_of_nat g :: 32 word
     in do { x \<leftarrow> arg_at sortedArray (2 * unat tid); y \<leftarrow> arg_at sortedArray (2 * unat tid + 1);
             if findMe < x \<or> y < findMe then Some outputArray
             else do { out1 \<leftarrow> set_at outputArray 0 tid; set_at out1 3 1 } })"

text \<open>
  The other two kernels of the file are not launched by the program.  The first one has items of
  256 elements each; the second one searches a segment for a key by halving, in signed numbers
  that are compared as unsigned ones.
\<close>

definition binarySearch_mulkeys ::
  "32 word list \<Rightarrow> 32 word list \<Rightarrow> 32 word \<Rightarrow> nat \<times> nat \<Rightarrow> 32 word list \<Rightarrow> 32 word list option" where
  "binarySearch_mulkeys keys input numKeys = (\<lambda>(g, _) output'.
     let lBound = g * 256; uBound = lBound + 255
     in for_loop 0 (unat numKeys) (\<lambda>i out.
          do { key \<leftarrow> arg_at keys i; lo \<leftarrow> arg_at input lBound;
               if key < lo then Some out
               else do { hi \<leftarrow> arg_at input uBound;
                         if key \<le> hi then set_at out i (word_of_nat lBound) else Some out } }) output')"

function halve :: "32 word list \<Rightarrow> 32 word \<Rightarrow> int \<Rightarrow> int \<Rightarrow> int option option" where
  "halve input key lBound uBound =
     (if uBound < lBound then Some None
      else if lBound < 0 then None
      else let mid = (lBound + uBound) div 2
           in case arg_at input (nat mid) of
                None \<Rightarrow> None
              | Some x \<Rightarrow> (if x = key then Some (Some mid)
                           else if key < x then halve input key lBound (mid - 1)
                           else halve input key (mid + 1) uBound))"
  by pat_completeness auto
termination by (relation "measure (\<lambda>(xs, key, l, u). nat (u - l + 1))") auto

declare halve.simps [simp del]

definition binarySearch_mulkeysConcurrent ::
  "32 word list \<Rightarrow> 32 word list \<Rightarrow> 32 word \<Rightarrow> 32 word \<Rightarrow> nat \<times> nat \<Rightarrow> 32 word list \<Rightarrow> 32 word list option" where
  "binarySearch_mulkeysConcurrent keys input inputSize numSubdivisions = (\<lambda>(g, _) output'.
     if numSubdivisions = 0 then None
     else let n = unat numSubdivisions; size' = unat inputSize div n; lBound = g mod n * size'
          in do { key \<leftarrow> arg_at keys (g div n);
                  found \<leftarrow> halve input key (int lBound) (int (lBound + size'));
                  case found of None \<Rightarrow> Some output' | Some mid \<Rightarrow> set_at output' (g div n) (word_of_int mid) })"

section \<open>The object\<close>

record bsearch = host +
  bs_input :: "32 word list option"
  bs_output :: "32 word list option"
  bs_verificationInput :: "32 word list option"
  bs_inputBuffer :: "32 word list option"
  bs_outputBuffer :: "32 word list option"
  globalLowerBound :: "32 word"
  globalUpperBound :: "32 word"
  bs_kernelInfo :: work_group_info

definition search_length :: "bsearch \<Rightarrow> nat" where
  "search_length s = uint_var ''length'' (base s)"

definition findMe :: "bsearch \<Rightarrow> 32 word" where
  "findMe s = word_of_int (int_var ''findMe'' (base s))"

definition numSubdivisions :: "bsearch \<Rightarrow> nat" where
  "numSubdivisions s = uint_var ''numSubdivisions'' (base s)"

definition new_bsearch :: bsearch where
  "new_bsearch =
     set_base_var ''iterations'' (Int_val 1) (set_base_var ''length'' (Int_val 512)
       (set_base_var ''numSubdivisions'' (Int_val 8) (set_base_var ''findMe'' (Int_val 5)
         \<lparr>base = new_sample False, timers = [], setupTime = Fin 0, totalKernelTime = Fin 0,
          referenceKernelTime = Fin 0, cl_context = None, cl_devices = None, commandQueue = None,
          cl_program = None, cl_kernel = None,
          bs_input = None, bs_output = None, bs_verificationInput = None, bs_inputBuffer = None, bs_outputBuffer = None,
          globalLowerBound = 0, globalUpperBound = 0, bs_kernelInfo = new_work_group_info\<rparr>)))"

section \<open>Preparing the data\<close>

text \<open>The product of the bound and the random number is unsigned and wraps around.\<close>

definition increment :: "32 word \<Rightarrow> int \<Rightarrow> 32 word option" where
  "increment bound r =
     f_to_uint (f_div binary32 (f_of_int binary32 (uint (bound * word_of_int r))) (f_of_int binary32 RAND_MAX))"

definition ascending_numbers :: "(nat \<Rightarrow> int) \<Rightarrow> nat \<Rightarrow> 32 word list \<Rightarrow> 32 word list option" where
  "ascending_numbers rnd n a =
     do { a1 \<leftarrow> set_at a 0 0;
          for_loop 1 n (\<lambda>i a. do { p \<leftarrow> arg_at a (i - 1); v \<leftarrow> increment (word_of_nat n * 20) (rnd (i - 1));
                                    set_at a i (p + v) }) a1 }"

text \<open>The number of bytes of the array is a \<open>cl_uint\<close>, which wraps around.\<close>

definition setupBinarySearch :: "run_env \<Rightarrow> bsearch \<Rightarrow> (int \<times> bsearch) option" where
  "setupBinarySearch env s =
     (let n = search_length s; sz = nat (int n * 4 mod 2 ^ 32) div 4
      in do { a \<leftarrow> ascending_numbers (rand env) n (fresh_array env ''input'' sz);
              Some (SDK_SUCCESS, s\<lparr>bs_input := Some a, bs_output := Some (fresh_array env ''output'' 4)\<rparr>) })"

section \<open>Setting up OpenCL\<close>

definition search_kernel_file :: string where
  "search_kernel_file = ''BinarySearch_Kernels.cl''"

definition search_setup_calls :: "run_env \<Rightarrow> nat \<Rightarrow> bsearch step" where
  "search_setup_calls env p = run_steps
     [create_context env p, get_devices env, create_queue env,
      create_buffer env 4 (\<lambda>s. s\<lparr>bs_outputBuffer := Some (fresh_array env ''outputBuffer'' 4)\<rparr>),
      build_program env search_kernel_file,
      create_kernel env]"

definition setupCL_search :: "run_env \<Rightarrow> bsearch step" where
  "setupCL_search env = with_platform env (search_setup_calls env)"

text \<open>
  \<open>isPowerOf2\<close> returns \<open>SDK_SUCCESS\<close>, which is 0, for a power of two; so it is the powers of two that
  are rounded.
\<close>

definition adjusted_length :: "nat \<Rightarrow> nat option" where
  "adjusted_length n =
     (let n1 = (if n = 0 then 512 else n); n2 = (if 256 < n1 then n1 div 256 * 256 else n1)
      in do { p \<leftarrow> isPowerOf2 (int n2);
              if p = 0 then map_option unat (roundToPowerOf2 4 (word_of_nat n2 :: 32 word)) else Some n2 })"

definition setup_search :: "run_env \<Rightarrow> bsearch \<times> nat \<Rightarrow> (outcome \<times> bsearch \<times> nat) option" where
  "setup_search env = (\<lambda>(s, k).
     if iterations s < 1 then Some (Exited 0, s, k)
     else do { n \<leftarrow> adjusted_length (search_length s);
               (r, s1) \<leftarrow> setupBinarySearch env (set_base_var ''length'' (Int_val (int n)) s);
               if r \<noteq> SDK_SUCCESS then Some (Returned SDK_FAILURE, s1, k)
               else returning (timed_setup env (setupCL_search env)) (s1, k) })"

section \<open>Running the kernel\<close>

text \<open>The number of segments for groups of a size; a size of 0 is a division by 0.\<close>

definition subdivisions :: "nat \<Rightarrow> nat \<Rightarrow> nat option" where
  "subdivisions n l = (if l = 0 then None else Some (if n div l < l then l else n div l))"

definition set_subdivisions :: "nat \<Rightarrow> bsearch \<Rightarrow> bsearch option" where
  "set_subdivisions l s =
     do { m \<leftarrow> subdivisions (search_length s) l; Some (set_base_var ''numSubdivisions'' (Int_val (int m)) s) }"

definition query_search_kernel :: "run_env \<Rightarrow> bsearch step" where
  "query_search_kernel env = (\<lambda>(s, k).
     do { _ \<leftarrow> chosen_device s;
          (case setKernelWorkGroupInfo (lib env) (group_info env) k (bs_kernelInfo s) of ((r, i), k') \<Rightarrow>
             Some (r, s\<lparr>bs_kernelInfo := i\<rparr>, k')) })"

definition search_group_size :: "bsearch \<Rightarrow> nat" where
  "search_group_size s = (if kernelWorkGroupSize (bs_kernelInfo s) < 256 then kernelWorkGroupSize (bs_kernelInfo s) else 256)"

definition fall_back :: "bsearch \<Rightarrow> bsearch option" where
  "fall_back s = (if kernelWorkGroupSize (bs_kernelInfo s) < 256 then set_subdivisions (search_group_size s) s else Some s)"

text \<open>The bounds, and whether the number is outside the array; the result is then written at once.\<close>

definition segment_size :: "bsearch \<Rightarrow> 32 word" where
  "segment_size s = (globalUpperBound s - globalLowerBound s + 1) div word_of_nat (numSubdivisions s)"

definition start_search :: "bsearch \<Rightarrow> (bool \<times> bsearch) option" where
  "start_search s =
     (let n = word_of_nat (search_length s) :: 32 word;
          s1 = s\<lparr>globalLowerBound := 0, globalUpperBound := n - 1\<rparr>
      in do { xs \<leftarrow> bs_input s;
              out \<leftarrow> bs_output s;
              x \<leftarrow> arg_at xs 0;
              outside \<leftarrow> (if findMe s < x then Some True
                          else do { y \<leftarrow> arg_at xs (unat (n - 1)); Some (y < findMe s) });
              if outside
              then do { out1 \<leftarrow> set_at out 0 0; out2 \<leftarrow> set_at out1 1 (n - 1); out3 \<leftarrow> set_at out2 2 0;
                        Some (True, s1\<lparr>bs_output := Some out3\<rparr>) }
              else do { out1 \<leftarrow> set_at out 3 1; Some (False, s1\<lparr>bs_output := Some out1\<rparr>) } })"

text \<open>The ends of the segments, which the host selects; the number of bytes is an \<open>int\<close>.\<close>

definition inlength :: "nat \<Rightarrow> int" where
  "inlength m = sint (word_of_nat (m * 8) :: 32 word)"

text \<open>An unsigned index that is kept in an \<open>int\<close>: from 2^31 on it is negative, so outside the array.\<close>

definition int_index :: "32 word \<Rightarrow> nat option" where
  "int_index w = (if sint w < 0 then None else Some (nat (sint w)))"

definition segment_ends :: "run_env \<Rightarrow> 32 word list \<Rightarrow> nat \<Rightarrow> 32 word \<Rightarrow> 32 word list option" where
  "segment_ends env xs m size' =
     (if inlength m < 0 then None
      else for_loop 0 m (\<lambda>i ends.
             do { indexa \<leftarrow> int_index (word_of_nat i * size');
                  indexb \<leftarrow> int_index (word_of_nat (i + 1) * size' - 1);
                  x \<leftarrow> arg_at xs indexa;
                  ends1 \<leftarrow> set_at ends (2 * i) x;
                  y \<leftarrow> arg_at xs indexb;
                  set_at ends1 (2 * i + 1) y }) (fresh_array env ''in'' (nat (inlength m) div 4)))"

definition launch_search :: "run_env \<Rightarrow> nat \<Rightarrow> bsearch \<Rightarrow> bsearch option" where
  "launch_search env k s =
     do { args \<leftarrow> cl_kernel s;
          ends \<leftarrow> bs_inputBuffer s;
          out \<leftarrow> bs_outputBuffer s;
          (case (args 0, args 1, args 2) of
             (Some (Buffer_arg a), Some (Buffer_arg b), Some (Uint_arg f)) \<Rightarrow>
               if a \<noteq> ''outputBuffer'' \<or> b \<noteq> ''inputBuffer'' then None
               else do { out' \<leftarrow> foldM (binarySearch ends f) (schedule env k (numSubdivisions s) 1) out;
                         Some (s\<lparr>bs_outputBuffer := Some out'\<rparr>) }
           | _ \<Rightarrow> None) }"

definition enqueue_search :: "run_env \<Rightarrow> bsearch step" where
  "enqueue_search env = enqueue_kernel env (\<lambda>s. [(numSubdivisions s, search_group_size s)]) (launch_search env)"

definition clear_mark :: "bsearch \<Rightarrow> bsearch option" where
  "clear_mark s = do { out \<leftarrow> bs_output s; out' \<leftarrow> set_at out 3 0; Some (s\<lparr>bs_output := Some out'\<rparr>) }"

definition write_output :: "bsearch \<Rightarrow> bsearch option" where
  "write_output s =
     do { out \<leftarrow> bs_output s; buf \<leftarrow> bs_outputBuffer s; buf' \<leftarrow> transfer 4 out buf; Some (s\<lparr>bs_outputBuffer := Some buf'\<rparr>) }"

definition read_output :: "bsearch \<Rightarrow> bsearch option" where
  "read_output s =
     do { out \<leftarrow> bs_output s; buf \<leftarrow> bs_outputBuffer s; out' \<leftarrow> transfer 4 buf out; Some (s\<lparr>bs_output := Some out'\<rparr>) }"

definition narrow :: "32 word \<Rightarrow> bsearch \<Rightarrow> bsearch option" where
  "narrow size' s =
     do { out \<leftarrow> bs_output s; x \<leftarrow> arg_at out 0;
          Some (s\<lparr>globalLowerBound := x * size', globalUpperBound := x * size' + size' - 1\<rparr>) }"

text \<open>A pass of the loop over segments of a size.\<close>

definition search_pass :: "run_env \<Rightarrow> 32 word \<Rightarrow> bsearch step" where
  "search_pass env size' = (\<lambda>(s, k).
     let m = numSubdivisions s
     in do { xs \<leftarrow> bs_input s;
             ends \<leftarrow> segment_ends env xs m size';
             run_steps
               ([create_buffer env (nat (inlength m))
                   (\<lambda>s. s\<lparr>bs_inputBuffer := Some (fresh_array env ''inputBuffer'' (nat (inlength m)))\<rparr>),
                 cl_call (lib env) (\<lambda>_ s. do { buf \<leftarrow> bs_inputBuffer s;
                    buf' \<leftarrow> transfer (nat (inlength m) div 4) ends buf; Some (s\<lparr>bs_inputBuffer := Some buf'\<rparr>) })] @
                flush_and_wait env @
                [set_arg env 1 (Buffer_arg ''inputBuffer''),
                 set_arg env 2 (Uint_arg (findMe s)),
                 local_step clear_mark,
                 cl_call (lib env) (\<lambda>_. write_output)] @ flush_and_wait env @
                [enqueue_search env] @ flush_and_wait env @
                [cl_call (lib env) (\<lambda>_. read_output)] @ flush_and_wait env @
                [local_step (narrow size'),
                 cl_call (lib env) (\<lambda>_ s. Some (s\<lparr>bs_inputBuffer := None\<rparr>))]) (s, k) })"

text \<open>The size is computed anew after each pass; with one segment it would stay the same.\<close>

partial_function (option) search_loop ::
  "run_env \<Rightarrow> 32 word \<Rightarrow> bsearch \<times> nat \<Rightarrow> (int \<times> bsearch \<times> nat) option" where
  "search_loop env size' sk =
     (if 1 < size'
      then Option.bind (do { out \<leftarrow> bs_output (fst sk); arg_at out 3 }) (\<lambda>mark.
             if mark = 0 then Some (SDK_SUCCESS, sk)
             else Option.bind (search_pass env size' sk) (\<lambda>(r, s, k).
                    if r \<noteq> SDK_SUCCESS then Some (SDK_FAILURE, s, k)
                    else search_loop env (segment_size s) (s, k)))
      else Some (SDK_SUCCESS, sk))"

text \<open>The first index from \<open>i\<close> on, below \<open>hi\<close>, with a value.\<close>

function scan_for :: "32 word list \<Rightarrow> 32 word \<Rightarrow> nat \<Rightarrow> nat \<Rightarrow> nat option option" where
  "scan_for xs f i hi =
     (if i < hi then do { x \<leftarrow> arg_at xs i; if x = f then Some (Some i) else scan_for xs f (Suc i) hi } else Some None)"
  by pat_completeness auto
termination by (relation "measure (\<lambda>(xs, f, i, hi). hi - i)") auto

declare scan_for.simps [simp del]

text \<open>\<open>i <= globalUpperBound\<close> in unsigned numbers; an array never has index 2^32 - 1.\<close>

definition finish_search :: "bsearch \<Rightarrow> bsearch option" where
  "finish_search s =
     do { xs \<leftarrow> bs_input s;
          out \<leftarrow> bs_output s;
          found \<leftarrow> scan_for xs (findMe s) (unat (globalLowerBound s)) (unat (globalUpperBound s) + 1);
          (case found of
             Some i \<Rightarrow> do { out1 \<leftarrow> set_at out 0 (word_of_nat i); out2 \<leftarrow> set_at out1 1 (word_of_nat i + 1);
                             out3 \<leftarrow> set_at out2 2 1; Some (s\<lparr>bs_output := Some out3\<rparr>) }
           | None \<Rightarrow> do { out1 \<leftarrow> set_at out 2 0; Some (s\<lparr>bs_output := Some out1\<rparr>) }) }"

definition search_from :: "run_env \<Rightarrow> bsearch step" where
  "search_from env = (\<lambda>(s, k).
     do { (outside, s1) \<leftarrow> start_search s;
          if outside then Some (SDK_SUCCESS, s1, k)
          else run_steps [set_arg env 0 (Buffer_arg ''outputBuffer''),
                 \<lambda>(s, k). search_loop env (segment_size s) (s, k),
                 local_step finish_search] (s1, k) })"

definition runCLKernels_search :: "run_env \<Rightarrow> bsearch step" where
  "runCLKernels_search env = run_steps
     [local_step (set_subdivisions 256), query_search_kernel env, local_step fall_back, search_from env]"

definition run_bsearch :: "run_env \<Rightarrow> bsearch step" where
  "run_bsearch env = run_sample env (runCLKernels_search env)"

section \<open>Verification, clean-up, main\<close>

definition binarySearchCPUReference :: "bsearch \<Rightarrow> int option" where
  "binarySearchCPUReference s =
     do { out \<leftarrow> bs_output s;
          xs \<leftarrow> bs_input s;
          lower \<leftarrow> arg_at out 0;
          _ \<leftarrow> arg_at out 1;
          isElementFound \<leftarrow> arg_at out 2;
          if isElementFound \<noteq> 0
          then do { x \<leftarrow> arg_at xs (unat lower); Some (if x = findMe s then SDK_SUCCESS else SDK_FAILURE) }
          else do { found \<leftarrow> scan_for xs (findMe s) 0 (search_length s);
                    Some (if found = None then SDK_SUCCESS else SDK_FAILURE) } }"

definition verify_search :: "run_env \<Rightarrow> bsearch \<Rightarrow> (int \<times> bsearch) option" where
  "verify_search env s =
     (if bool_var ''verify'' (base s) then
        do { xs \<leftarrow> bs_input s;
             v \<leftarrow> transfer (search_length s) xs (fresh_array env ''verificationInput'' (search_length s));
             (timer, ts) \<leftarrow> begin_timer (clock env ''reference begin'') (timers s);
             verified \<leftarrow> binarySearchCPUReference s;
             (t, ts') \<leftarrow> end_timer (clock env ''reference end'') timer ts;
             Some (if verified = SDK_SUCCESS then SDK_SUCCESS else SDK_FAILURE,
               s\<lparr>bs_verificationInput := Some v, timers := ts', referenceKernelTime := t\<rparr>) }
      else Some (SDK_SUCCESS, s))"

definition cleanup_search :: "run_env \<Rightarrow> bsearch step" where
  "cleanup_search env = run_steps
     [cl_call (lib env) (\<lambda>_ s. Some (s\<lparr>cl_kernel := None\<rparr>)),
      cl_call (lib env) (\<lambda>_ s. Some (s\<lparr>cl_program := None\<rparr>)),
      cl_call (lib env) (\<lambda>_ s. Some (s\<lparr>bs_outputBuffer := None\<rparr>)),
      cl_call (lib env) (\<lambda>_ s. Some (s\<lparr>commandQueue := None\<rparr>)),
      cl_call (lib env) (\<lambda>_ s. Some (s\<lparr>cl_context := None\<rparr>)),
      \<lambda>(s, k). Some (SDK_SUCCESS, s\<lparr>bs_input := None, bs_output := None, cl_devices := None,
        bs_verificationInput := None\<rparr>, k)]"

definition search_options :: "cmd_option list" where
  "search_options =
     [make_option ''x'' ''length'' ''Lenght of the input array'' CA_ARG_INT ''length'',
      make_option ''f'' ''find'' ''element to be found'' CA_ARG_INT ''findMe'',
      make_option ''s'' ''subdivisions'' ''number of subdivisions'' CA_ARG_INT ''numSubdivisions'',
      make_option ''i'' ''iterations'' ''Number of iterations for kernel execution''
        CA_ARG_INT ''iterations'']"

definition initialize_search :: "bsearch \<Rightarrow> (int \<times> bsearch) option" where
  "initialize_search s = initialize_sample search_options s"

definition genBinaryImage_search :: "run_env \<Rightarrow> bsearch \<Rightarrow> (int \<times> files) option" where
  "genBinaryImage_search env s = dump_program env search_kernel_file s"

definition search_work :: "run_env \<Rightarrow> bsearch \<times> nat \<Rightarrow> (outcome \<times> bsearch \<times> nat) option" where
  "search_work env x =
     do { (out, s, k) \<leftarrow> setup_search env x;
          if out = Returned SDK_SUCCESS
          then returning (run_steps
                 [run_bsearch env,
                  \<lambda>(s, k). do { (r, s') \<leftarrow> verify_search env s; Some (r, s', k) },
                  cleanup_search env]) (s, k)
          else Some (out, s, k) }"

definition main_search :: "run_env \<Rightarrow> string list \<Rightarrow> (outcome \<times> bsearch \<times> files) option" where
  "main_search env =
     main_sample env search_options search_kernel_file (search_work env) new_bsearch"

end
