(* ===== verification/Search_Facts.thy ===== *)
theory Search_Facts
  imports Search Sdk_Host_Facts
begin

text \<open>
  The search on data: the numbers that are prepared ascend, a launch picks a segment that contains
  the number looked for if there is one, and one launch always is enough.
\<close>

section \<open>The numbers\<close>

lemma increment_below:
  assumes "representable binary32 y" "of_int (uint (b * word_of_int r)) \<le> y"
    and "representable binary32 (y / 2 ^ 31)" "y / 2 ^ 31 < of_nat m + 1" "m \<le> 2"
  shows "\<exists>v. increment b r = Some v \<and> unat v \<le> m"
proof -
  define x where "x = uint (b * word_of_int r)"
  have "0 \<le> x" by (simp add: x_def)
  then have "(0 :: rat) \<le> of_int x" by simp
  then obtain p where p: "round_to binary32 (of_int x) = Fin p" "0 \<le> p" "p \<le> y"
    using round_below [OF wf_binary32 assms(1) _ assms(2)] unfolding x_def by blast
  have size: "f_of_int binary32 RAND_MAX = Fin (2 ^ 31)" by code_simp
  obtain q where q: "round_to binary32 (p / 2 ^ 31) = Fin q" "0 \<le> q" "q \<le> y / 2 ^ 31"
    using round_below [OF wf_binary32 assms(3), of "p / 2 ^ 31"] p(2,3) by (auto simp: divide_right_mono)
  have div: "f_div binary32 (Fin p) (Fin (2 ^ 31)) = Fin q"
    using q(1) p(2) by (auto simp: signed_round_def signed_zero_def)
  have "q < of_int (int m + 1)" using q(3) assms(4) by simp
  then have fl: "0 \<le> \<lfloor>q\<rfloor>" "\<lfloor>q\<rfloor> \<le> int m" using q(2) by (simp_all add: floor_le_iff)
  then have small: "\<lfloor>q\<rfloor> < 2 ^ 31" using assms(5) by (simp del: floor_less_iff floor_less_numeral)
  have "uint (word_of_int \<lfloor>q\<rfloor> :: 32 word) = \<lfloor>q\<rfloor>" using fl(1) small by (intro uint_word_of_int_eq [THEN trans]) (simp add: take_bit_int_eq_self_iff)
  then have "unat (word_of_int \<lfloor>q\<rfloor> :: 32 word) \<le> m" using fl by (simp add: unat_eq_nat_uint)
  moreover have "increment b r = Some (word_of_int \<lfloor>q\<rfloor>)"
    using p(1) size div q(2) small by (simp add: increment_def x_def [symmetric] f_of_int_def f_to_uint_def truncate_rat_def)
  ultimately show ?thesis by blast
qed

text \<open>
  Because the product wraps around, two neighbours differ by 2 at most; and by 1 at most when the
  length is a multiple of 256, as the product is a multiple of 1024 then.
\<close>

lemma increment_small: "\<exists>v. increment b r = Some v \<and> unat v \<le> 2"
proof -
  have "representable binary32 (2 ^ 32)" "representable binary32 (2 ^ 32 / 2 ^ 31)"
    unfolding representable_def binary32_def
    by (rule exI [of _ 1], rule exI [of _ 32], simp) (rule exI [of _ 1], rule exI [of _ 1], simp)
  moreover have "(of_int (uint (b * word_of_int r)) :: rat) \<le> of_int (2 ^ 32)"
    unfolding of_int_le_iff using uint_bounded [of "b * word_of_int r"] by simp
  ultimately show ?thesis by (intro increment_below [where y = "2 ^ 32"]) simp_all
qed

lemma increment_one:
  assumes "256 dvd n"
  shows "\<exists>v. increment (word_of_nat n * 20) r = Some v \<and> unat v \<le> 1"
proof -
  let ?y = "of_int (2 ^ 32 - 1024) :: rat"
  obtain c where c: "n = 256 * c" using assms by blast
  have "word_of_nat n * 20 * word_of_int r = (word_of_int (1024 * (5 * int c * r)) :: 32 word)"
    unfolding c by (simp add: algebra_simps)
  then have "uint (word_of_nat n * 20 * word_of_int r :: 32 word) = 1024 * (5 * int c * r) mod 2 ^ 32"
    by (simp only: uint_word_of_int) simp
  then have "1024 dvd uint (word_of_nat n * 20 * word_of_int r :: 32 word)" by (simp add: dvd_mod)
  then obtain z where z: "uint (word_of_nat n * 20 * word_of_int r :: 32 word) = 1024 * z" by blast
  then have "1024 * z < 2 ^ 32" using uint_bounded [of "word_of_nat n * 20 * word_of_int r :: 32 word"] by simp
  then have "1024 * z \<le> 2 ^ 32 - 1024" by simp
  then have "of_int (uint (word_of_nat n * 20 * word_of_int r :: 32 word)) \<le> ?y" unfolding z of_int_le_iff .
  moreover have "representable binary32 ?y" "representable binary32 (?y / 2 ^ 31)"
    unfolding representable_def binary32_def
    by (rule exI [of _ "2 ^ 22 - 1"], rule exI [of _ 10], simp add: power_int_def)
      (rule exI [of _ "2 ^ 22 - 1"], rule exI [of _ "- 21"], simp add: power_int_def power_one_over)
  ultimately show ?thesis by (intro increment_below [where y = ?y]) simp_all
qed

text \<open>Powers of two are not changed when they are rounded, so no length is.\<close>

lemma round_power: "k < 32 \<Longrightarrow> roundToPowerOf2 4 (2 ^ k :: 32 word) = Some (2 ^ k)"
proof -
  assume k: "k < 32"
  have "smear 4 (mask k) = (mask k :: 32 word)"
  proof (rule bit_word_eqI)
    fix j assume "j < LENGTH(32)"
    then show "bit (smear 4 (mask k :: 32 word)) j = bit (mask k :: 32 word) j"
      unfolding bit_smear by (auto simp: bit_mask_iff intro: exI [of _ 0])
  qed
  then have "smear 4 (2 ^ k - 1 :: 32 word) + 1 = 2 ^ k" by (simp add: mask_eq_exp_minus_1)
  then show ?thesis by (simp add: roundToPowerOf2_def round_loop)
qed

definition cut_length :: "nat \<Rightarrow> nat" where
  "cut_length n = (if n = 0 then 512 else if 256 < n then n div 256 * 256 else n)"

lemma adjusted_length_eq:
  assumes "n < 2 ^ 32"
  shows "adjusted_length n = Some (cut_length n)"
proof -
  let ?m = "cut_length n"
  have m: "?m < 2 ^ 32" using assms by (auto simp: cut_length_def intro: le_less_trans [OF div_times_less_eq_dividend])
  then have "int ?m < 2 ^ 63" by simp
  then have p: "isPowerOf2 (int ?m) = Some (if \<exists>k. int ?m = 2 ^ k then SDK_SUCCESS else SDK_FAILURE)"
    by (intro is_power_of_two) simp_all
  have "map_option unat (roundToPowerOf2 4 (word_of_nat ?m :: 32 word)) = Some ?m" if "int ?m = 2 ^ k" for k
  proof -
    have k: "?m = 2 ^ k" using that by (metis of_nat_eq_iff of_nat_numeral of_nat_power)
    then have "(2 :: nat) ^ k < 2 ^ 32" using m by simp
    then have "k < 32" by (simp only: power_strict_increasing_iff)
    then have "roundToPowerOf2 4 (word_of_nat ?m :: 32 word) = Some (word_of_nat ?m)" using round_power by (simp add: k)
    then show ?thesis using unat_small [OF m] by simp
  qed
  then have "do { p \<leftarrow> isPowerOf2 (int ?m);
      if p = 0 then map_option unat (roundToPowerOf2 4 (word_of_nat ?m :: 32 word)) else Some ?m } = Some ?m"
    unfolding p by (auto simp: SDK_SUCCESS_def SDK_FAILURE_def)
  moreover have "(if 256 < (if n = 0 then 512 else n) then (if n = 0 then 512 else n) div 256 * 256
      else (if n = 0 then 512 else n)) = ?m"
    by (simp add: cut_length_def)
  ultimately show ?thesis unfolding adjusted_length_def Let_def by (simp only:)
qed

text \<open>Every number between the first one and the last one is in the list.\<close>

definition no_gaps :: "32 word list \<Rightarrow> bool" where
  "no_gaps a \<longleftrightarrow> (\<forall>f. a ! 0 \<le> f \<longrightarrow> f \<le> a ! (length a - 1) \<longrightarrow> f \<in> set a)"

lemma no_gaps_steps:
  assumes "\<And>j. Suc j < length a \<Longrightarrow> unat (a ! Suc j) \<le> unat (a ! j) + 1" "0 < length a"
  shows "no_gaps a"
  unfolding no_gaps_def
proof (intro allI impI)
  fix f assume f: "a ! 0 \<le> f" "f \<le> a ! (length a - 1)"
  have "f \<le> a ! k \<Longrightarrow> k < length a \<Longrightarrow> \<exists>i \<le> k. a ! i = f" for k
  proof (induction k)
    case 0
    then show ?case using f(1) by auto
  next
    case (Suc k)
    show ?case
    proof (cases "f \<le> a ! k")
      case True
      then show ?thesis using Suc.IH Suc.prems(2) by (auto intro: le_SucI)
    next
      case False
      then have "unat f = unat (a ! Suc k)"
        using assms(1) [OF Suc.prems(2)] Suc.prems(1) by (simp add: word_le_nat_alt)
      then show ?thesis by (metis order_refl unsigned_word_eqI)
    qed
  qed
  from this [of "length a - 1"] f(2) assms(2) show "f \<in> set a"
    by (metis diff_less less_one nth_mem order_le_less_trans nat_less_le order_le_less)
qed

lemma ascending_numbers_ok:
  assumes "0 < n" "length arr = n" "2 * n < 2 ^ 32"
  shows "\<exists>a. ascending_numbers rnd n arr = Some a \<and> length a = n \<and> a ! 0 = 0 \<and> sorted a \<and> (256 dvd n \<longrightarrow> no_gaps a)"
proof -
  let ?m = "if 256 dvd n then 1 else 2"
  let ?I = "\<lambda>i (a :: 32 word list). length a = n \<and> a ! 0 = 0 \<and> (\<forall>j < i. unat (a ! j) \<le> 2 * j)
    \<and> (\<forall>j. Suc j < i \<longrightarrow> a ! j \<le> a ! Suc j \<and> unat (a ! Suc j) \<le> unat (a ! j) + ?m)"
  let ?body = "\<lambda>i a. do { p \<leftarrow> arg_at a (i - 1); v \<leftarrow> increment (word_of_nat n * 20) (rnd (i - 1)); set_at a i (p + v) }"
  have start: "set_at arr 0 0 = Some (arr[0 := 0])" "?I 1 (arr[0 := 0])" using assms(1,2) by simp_all
  have "yields (for_loop 1 n ?body (arr[0 := 0])) (?I n)"
  proof (rule for_loop_yields [where I = ?I, OF start(2)])
    fix i a assume i: "1 \<le> i" "i < n" and I: "?I i a"
    obtain v where v: "increment (word_of_nat n * 20) (rnd (i - 1)) = Some v" "unat v \<le> ?m"
      using increment_small increment_one by (cases "256 dvd n") fastforce+
    have v2: "unat v \<le> 2" using v(2) by (simp split: if_splits)
    have p: "unat (a ! (i - 1)) \<le> 2 * (i - 1)" using I i(1) by simp
    then have u: "unat (a ! (i - 1) + v) = unat (a ! (i - 1)) + unat v"
      using v2 i assms(3) by (intro unat_add_lem [THEN iffD1]) simp
    then have "unat (a ! (i - 1) + v) \<le> 2 * i" "a ! (i - 1) \<le> a ! (i - 1) + v"
        "unat (a ! (i - 1) + v) \<le> unat (a ! (i - 1)) + ?m"
      using p v(2) v2 i(1) by (simp_all add: word_le_nat_alt)
    then have "?I (Suc i) (a[i := a ! (i - 1) + v])"
      using I i by (auto simp: nth_list_update less_Suc_eq)
    then show "yields (?body i a) (?I (Suc i))"
      using I i v(1) by (simp add: arg_at_inside set_at_inside)
  qed (use assms(1) in simp)
  then obtain a where a: "ascending_numbers rnd n arr = Some a" "?I n a"
    using start(1) by (auto simp: ascending_numbers_def yields_def)
  moreover have "no_gaps a" if "256 dvd n" by (rule no_gaps_steps) (use a(2) that assms(1) in auto)
  ultimately show ?thesis by (auto simp: sorted_iff_nth_Suc)
qed

section \<open>Segments\<close>

text \<open>The segment \<open>t\<close> of size \<open>s\<close> may contain \<open>f\<close>.\<close>

definition may_contain :: "32 word list \<Rightarrow> nat \<Rightarrow> 32 word \<Rightarrow> nat \<Rightarrow> bool" where
  "may_contain xs s f t \<longleftrightarrow> xs ! (t * s) \<le> f \<and> f \<le> xs ! (t * s + s - 1)"

lemma some_segment:
  assumes "sorted xs" "length xs = m * s" "0 < s" "f \<in> set xs"
  shows "\<exists>t < m. may_contain xs s f t"
proof -
  obtain i where i: "i < m * s" "xs ! i = f" using assms(2,4) by (auto simp: in_set_conv_nth)
  let ?t = "i div s"
  have t: "?t < m" using i(1) by (simp add: less_mult_imp_div_less)
  have i1: "?t * s \<le> i" "i \<le> ?t * s + s - 1"
    using div_mult_mod_eq [of i s] mod_less_divisor [OF assms(3), of i] by linarith+
  have "Suc ?t * s \<le> m * s" using t by (intro mult_le_mono1) simp
  then have e: "?t * s + s - 1 < length xs" using assms(2,3) by simp
  have "may_contain xs s f ?t"
    unfolding may_contain_def i(2) [symmetric] using i1 e assms(1) by (auto intro: sorted_nth_mono)
  then show ?thesis using t by blast
qed

text \<open>Any such segment contains \<open>f\<close> if the array does.\<close>

lemma segment_contains:
  assumes "sorted xs" "length xs = m * s" "0 < s" "f \<in> set xs" "t < m" "may_contain xs s f t"
  shows "\<exists>i. t * s \<le> i \<and> i < t * s + s \<and> xs ! i = f"
proof -
  have "Suc t * s \<le> m * s" using assms(5) by (intro mult_le_mono1) simp
  then have e: "t * s + s \<le> length xs" using assms(2) by simp
  have lo: "xs ! (t * s) \<le> f" "f \<le> xs ! (t * s + s - 1)" using assms(6) by (simp_all add: may_contain_def)
  obtain i where i: "i < length xs" "xs ! i = f" using assms(4) by (auto simp: in_set_conv_nth)
  consider "i < t * s" | "t * s \<le> i" "i < t * s + s" | "t * s + s \<le> i" by linarith
  then show ?thesis
  proof cases
    case 1
    then have "f \<le> xs ! (t * s)" using sorted_nth_mono [OF assms(1), of i "t * s"] i e assms(3) by simp
    then show ?thesis using lo(1) assms(3) by (intro exI [of _ "t * s"]) simp
  next
    case 3
    then have "xs ! (t * s + s - 1) \<le> f" using sorted_nth_mono [OF assms(1), of "t * s + s - 1" i] i assms(3) by simp
    then show ?thesis using lo(2) assms(3) by (intro exI [of _ "t * s + s - 1"]) simp
  qed (use i in blast)
qed

section \<open>A launch\<close>

text \<open>The ends of the segments as the kernel reads them.\<close>

definition ends_of :: "32 word list \<Rightarrow> nat \<Rightarrow> nat \<Rightarrow> 32 word list \<Rightarrow> bool" where
  "ends_of xs m s ends \<longleftrightarrow> 2 * m \<le> length ends
     \<and> (\<forall>t < m. ends ! (2 * t) = xs ! (t * s) \<and> ends ! (2 * t + 1) = xs ! (t * s + s - 1))"

lemma inlength_eq: "m < 2 ^ 28 \<Longrightarrow> inlength m = int (8 * m)"
proof -
  assume m: "m < 2 ^ 28"
  then have "unat (word_of_nat (m * 8) :: 32 word) = m * 8" by (intro unat_small) simp
  moreover from this m have "sint (word_of_nat (m * 8) :: 32 word) = int (unat (word_of_nat (m * 8) :: 32 word))"
    by (intro sint_eq_unat) simp
  ultimately show ?thesis by (simp add: inlength_def)
qed

lemma elements: "m < 2 ^ 28 \<Longrightarrow> nat (inlength m) div 4 = 2 * m"
  by (simp add: inlength_eq nat_mult_distrib)

lemma int_index_small: "unat w = i \<Longrightarrow> i < 2 ^ 31 \<Longrightarrow> int_index w = Some i"
  by (simp add: int_index_def sint_eq_unat)

lemma segment_ends_ok:
  assumes "length xs = m * s" "0 < s" "m * s \<le> 2 ^ 31" "m < 2 ^ 28"
  shows "\<exists>ends. segment_ends env xs m (word_of_nat s) = Some ends \<and> length ends = 2 * m \<and> ends_of xs m s ends"
proof -
  let ?I = "\<lambda>i (ends :: 32 word list). length ends = 2 * m
    \<and> (\<forall>t < i. ends ! (2 * t) = xs ! (t * s) \<and> ends ! (2 * t + 1) = xs ! (t * s + s - 1))"
  let ?body = "\<lambda>i ends. do { a \<leftarrow> int_index (word_of_nat i * word_of_nat s);
     b \<leftarrow> int_index (word_of_nat (i + 1) * word_of_nat s - 1); x \<leftarrow> arg_at xs a;
     ends1 \<leftarrow> set_at ends (2 * i) x; y \<leftarrow> arg_at xs b; set_at ends1 (2 * i + 1) y }"
  have "yields (for_loop 0 m ?body (fresh_array env ''in'' (2 * m))) (?I m)"
  proof (rule for_loop_yields [where I = ?I])
    fix i and ends :: "32 word list" assume i: "0 \<le> i" "i < m" and I: "?I i ends"
    have "Suc i * s \<le> m * s" using i(2) by (intro mult_le_mono1) simp
    then have b: "i * s + s \<le> m * s" by simp
    then have b31: "i * s < 2 ^ 31" "i * s + s - 1 < 2 ^ 31" "i * s + s \<le> 2 ^ 31" using assms(2,3) by linarith+
    then have b32: "i * s < 2 ^ 32" "i * s + s < 2 ^ 32" by simp_all
    have u: "unat (word_of_nat i * word_of_nat s :: 32 word) = i * s"
      using unat_small [OF b32(1)] by simp
    have "(word_of_nat (i * s + s) :: 32 word) \<noteq> 0"
      using unat_small [OF b32(2)] assms(2) by (metis add_is_0 less_numeral_extra(3) unat_0)
    then have "unat (word_of_nat (i * s + s) - 1 :: 32 word) = i * s + s - 1"
      using unat_minus_one [of "word_of_nat (i * s + s) :: 32 word"] unat_small [OF b32(2)] by metis
    moreover have "word_of_nat (i + 1) * word_of_nat s = (word_of_nat (i * s + s) :: 32 word)"
      by (simp add: algebra_simps)
    ultimately have u1: "unat (word_of_nat (i + 1) * word_of_nat s - 1 :: 32 word) = i * s + s - 1" by simp
    have "i * s < length xs" "i * s + s - 1 < length xs" using b assms(1,2) by linarith+
    then have eq: "?body i ends = Some (ends[2 * i := xs ! (i * s), 2 * i + 1 := xs ! (i * s + s - 1)])"
      unfolding int_index_small [OF u b31(1)] int_index_small [OF u1 b31(2)] using i(2) I
      by (simp add: arg_at_inside set_at_inside)
    have "?I (Suc i) (ends[2 * i := xs ! (i * s), 2 * i + 1 := xs ! (i * s + s - 1)])"
    proof -
      have "2 * t \<noteq> 2 * i \<and> 2 * t \<noteq> 2 * i + 1 \<and> 2 * t + 1 \<noteq> 2 * i \<and> 2 * t + 1 \<noteq> 2 * i + 1" if "t < i" for t
        using that by presburger
      then show ?thesis using I i(2) by (auto simp: less_Suc_eq nth_list_update)
    qed
    then show "yields (?body i ends) (?I (Suc i))" unfolding eq yields_Some .
  qed simp_all
  moreover have "\<not> inlength m < 0" using inlength_eq [OF assms(4)] by simp
  ultimately show ?thesis
    unfolding segment_ends_def ends_of_def elements [OF assms(4)] yields_def by auto
qed

text \<open>In every order of the items, the output names a segment that may contain the number.\<close>

lemma items_search:
  assumes "ends_of xs m s ends" "m < 2 ^ 32" "set sched \<subseteq> {0..<m} \<times> UNIV" "length out = 4"
  shows "\<exists>out'. foldM (binarySearch ends f) sched out = Some out' \<and> length out' = 4
    \<and> (if \<exists>t \<in> fst ` set sched. may_contain xs s f t
       then \<exists>t < m. may_contain xs s f t \<and> out' = [word_of_nat t, out ! 1, out ! 2, 1] else out' = out)"
  using assms(3)
proof (induction sched rule: rev_induct)
  case Nil
  then show ?case using assms(4) by simp
next
  case (snoc i sched)
  obtain t y where i: "i = (t, y)" "t < m" using snoc.prems by (cases i) auto
  obtain out1 where out1: "foldM (binarySearch ends f) sched out = Some out1" "length out1 = 4"
    "if \<exists>t \<in> fst ` set sched. may_contain xs s f t
       then \<exists>t < m. may_contain xs s f t \<and> out1 = [word_of_nat t, out ! 1, out ! 2, 1] else out1 = out"
    using snoc by auto
  have u: "unat (word_of_nat t :: 32 word) = t" using i(2) assms(2) by (intro unat_small) simp
  have ends: "arg_at ends (2 * t) = Some (xs ! (t * s))" "arg_at ends (2 * t + 1) = Some (xs ! (t * s + s - 1))"
    using assms(1) i(2) by (simp_all add: ends_of_def arg_at_inside)
  obtain a b c d where four: "out1 = [a, b, c, d]" using out1(2) by (auto simp: numeral_eq_Suc length_Suc_conv)
  have "out1 ! 1 = out ! 1" "out1 ! 2 = out ! 2" using out1(3) by (auto split: if_splits)
  then have rest: "b = out ! 1" "c = out ! 2" by (simp_all add: four)
  have mark: "do { o1 \<leftarrow> set_at out1 0 (word_of_nat t); set_at o1 3 1 } = Some [word_of_nat t, out ! 1, out ! 2, 1]"
    by (simp add: four set_at_inside rest numeral_3_eq_3 del: One_nat_def)
  have step: "binarySearch ends f i out1 =
      Some (if may_contain xs s f t then [word_of_nat t, out ! 1, out ! 2, 1] else out1)"
    unfolding binarySearch_def i prod.case Let_def u ends bind.bind_lunit mark
    by (auto simp: may_contain_def not_less simp del: One_nat_def)
  show ?case
  proof (cases "may_contain xs s f t")
    case True
    then show ?thesis using step out1(1) i by (auto simp: foldM_append)
  next
    case False
    then show ?thesis using step out1 i by (simp add: foldM_append)
  qed
qed

lemma launch_finds:
  assumes "ends_of xs m s ends" "m < 2 ^ 32" "runs_all (items2 m 1) sched" "length out = 4"
  shows "\<exists>out'. foldM (binarySearch ends f) sched out = Some out' \<and> length out' = 4
    \<and> (if \<exists>t < m. may_contain xs s f t
       then \<exists>t < m. may_contain xs s f t \<and> out' = [word_of_nat t, out ! 1, out ! 2, 1] else out' = out)"
proof -
  have "fst ` set sched = {0..<m}" using assms(3) by (force simp: runs_all_def items2_def)
  then have "(\<exists>t \<in> fst ` set sched. may_contain xs s f t) \<longleftrightarrow> (\<exists>t < m. may_contain xs s f t)" by auto
  moreover have "set sched \<subseteq> {0..<m} \<times> UNIV" using assms(3) by (auto simp: runs_all_def items2_def)
  ultimately show ?thesis using items_search [OF assms(1,2) _ assms(4), of sched f] by simp
qed

section \<open>The search on the host\<close>

lemma scan_for_ok:
  "hi \<le> length xs \<Longrightarrow> \<exists>r. scan_for xs f i hi = Some r \<and>
     (case r of None \<Rightarrow> \<forall>j. i \<le> j \<longrightarrow> j < hi \<longrightarrow> xs ! j \<noteq> f | Some j \<Rightarrow> i \<le> j \<and> j < hi \<and> xs ! j = f)"
proof (induction xs f i hi rule: scan_for.induct)
  case (1 xs f i hi)
  show ?case
  proof (cases "i < hi \<and> xs ! i \<noteq> f")
    case True
    then obtain r where r: "scan_for xs f (Suc i) hi = Some r"
      "case r of None \<Rightarrow> \<forall>j. Suc i \<le> j \<longrightarrow> j < hi \<longrightarrow> xs ! j \<noteq> f | Some j \<Rightarrow> Suc i \<le> j \<and> j < hi \<and> xs ! j = f"
      using "1.IH" [of "xs ! i"] "1.prems" by (auto simp: arg_at_inside)
    then have "scan_for xs f i hi = Some r"
      using True "1.prems" by (subst scan_for.simps) (simp add: arg_at_inside)
    moreover have "case r of None \<Rightarrow> \<forall>j. i \<le> j \<longrightarrow> j < hi \<longrightarrow> xs ! j \<noteq> f | Some j \<Rightarrow> i \<le> j \<and> j < hi \<and> xs ! j = f"
    proof (cases r)
      case None
      have "xs ! j \<noteq> f" if "i \<le> j" "j < hi" for j
        using that None r(2) True by (cases "j = i") simp_all
      then show ?thesis using None by simp
    qed (use r(2) in auto)
    ultimately show ?thesis by blast
  next
    case False
    then show ?thesis using "1.prems" by (subst scan_for.simps) (auto simp: arg_at_inside)
  qed
qed

lemma scan_for_sound:
  "scan_for xs f i hi = Some r \<Longrightarrow>
     (case r of None \<Rightarrow> \<forall>j. i \<le> j \<longrightarrow> j < hi \<longrightarrow> j < length xs \<and> xs ! j \<noteq> f
      | Some j \<Rightarrow> i \<le> j \<and> j < hi \<and> j < length xs \<and> xs ! j = f)"
proof (induction xs f i hi rule: scan_for.induct)
  case (1 xs f i hi)
  show ?case
  proof (cases "i < hi \<and> xs ! i \<noteq> f")
    case True
    have "do { x \<leftarrow> arg_at xs i; if x = f then Some (Some i) else scan_for xs f (Suc i) hi } = Some r"
      using "1.prems" True by (subst (asm) scan_for.simps) simp
    then have x: "i < length xs" "scan_for xs f (Suc i) hi = Some r"
      using True by (auto simp: bind_eq_Some_conv)
    note IH = "1.IH" [of "xs ! i", OF _ _ _ x(2)]
    show ?thesis
    proof (cases r)
      case None
      have "j < length xs \<and> xs ! j \<noteq> f" if "i \<le> j" "j < hi" for j
        using that None IH True x(1) by (cases "j = i") simp_all
      then show ?thesis using None by simp
    qed (use IH True x(1) in auto)
  next
    case False
    then show ?thesis using "1.prems" by (subst (asm) scan_for.simps) (auto simp: bind_eq_Some_conv split: if_splits)
  qed
qed

lemma scan_outside: "length xs \<le> i \<Longrightarrow> i < hi \<Longrightarrow> scan_for xs f i hi = None"
  by (subst scan_for.simps) (simp add: arg_at_def)

end
