(* ===== verification/Search_Run.thy ===== *)
theory Search_Run
  imports Search_Facts
begin

text \<open>
  The host program of the search step by step, for devices that allow groups of 256 items: one
  launch at most, what the result says about the array, and that the steps succeed where the
  library's calls do.
\<close>

section \<open>Sizes\<close>

definition subs :: "nat \<Rightarrow> nat" where
  "subs n = (if n div 256 < 256 then 256 else n div 256)"

definition seg :: "nat \<Rightarrow> nat" where
  "seg n = n div subs n"

definition good_length :: "nat \<Rightarrow> bool" where
  "good_length n \<longleftrightarrow> 0 < n \<and> 4 * n < 2 ^ 32 \<and> (n \<le> 256 \<or> 256 dvd n)"

text \<open>The segments cover the array, and those of a segment would have one element at most.\<close>

lemma sizes:
  assumes "good_length n" "1 < seg n"
  shows "256 < n" "subs n * seg n = n" "seg n < 2 * subs n"
proof -
  show n: "256 < n"
  proof (rule ccontr)
    assume "\<not> 256 < n"
    then have "seg n \<le> 256 div 256" unfolding seg_def subs_def by (auto intro: div_le_mono)
    then show False using assms(2) by simp
  qed
  from n obtain q where q: "n = 256 * q" using assms(1) by (auto simp: good_length_def)
  show "subs n * seg n = n" "seg n < 2 * subs n" by (auto simp: seg_def subs_def q)
qed

lemma sizes_small: "good_length n \<Longrightarrow> 0 < subs n" "good_length n \<Longrightarrow> subs n < 2 ^ 28" "seg n \<le> n"
  by (auto simp: subs_def good_length_def seg_def)

section \<open>The state between the runs\<close>

text \<open>The program changes one option, the number of subdivisions.\<close>

definition forget :: "sample \<Rightarrow> sample" where
  "forget b = b\<lparr>vars := (vars b)(''numSubdivisions'' := None)\<rparr>"

definition wanted :: "sample \<Rightarrow> 32 word" where
  "wanted b = word_of_int (int_var ''findMe'' b)"

lemma forget_vars:
  assumes "forget b = forget c"
  shows "a \<noteq> ''numSubdivisions'' \<Longrightarrow> vars b a = vars c a"
proof -
  have "vars (forget b) = vars (forget c)" using assms by simp
  then have "((vars b)(''numSubdivisions'' := None)) a = ((vars c)(''numSubdivisions'' := None)) a"
    by (simp add: forget_def)
  then show "a \<noteq> ''numSubdivisions'' \<Longrightarrow> vars b a = vars c a" by simp
qed

lemma forget_same:
  assumes "forget b = forget c"
  shows "int_var ''findMe'' b = int_var ''findMe'' c" "int_var ''length'' b = int_var ''length'' c"
    "int_var ''iterations'' b = int_var ''iterations'' c" "bool_var ''verify'' b = bool_var ''verify'' c"
    "int_var ''deviceId'' b = int_var ''deviceId'' c"
  using forget_vars [OF assms] by (simp_all add: int_var_def bool_var_def)

lemma forget_set: "forget (base (set_base_var ''numSubdivisions'' v s)) = forget (base s)"
  by (simp add: forget_def set_base_var_def)

definition search_data :: "sample \<Rightarrow> timer list \<Rightarrow> nat \<Rightarrow> 32 word list \<Rightarrow> bsearch \<Rightarrow> bool" where
  "search_data b ts n a s \<longleftrightarrow> forget (base s) = forget b \<and> timers s = ts \<and> search_length s = n
     \<and> bs_input s = Some a \<and> length a = n \<and> sorted a \<and> good_length n \<and> (256 < n \<longrightarrow> no_gaps a)"

definition search_idle :: "bool \<Rightarrow> sample \<Rightarrow> timer list \<Rightarrow> nat \<Rightarrow> 32 word list \<Rightarrow> bsearch \<Rightarrow> bool" where
  "search_idle sure b ts n a s \<longleftrightarrow> search_data b ts n a s \<and> device_chosen sure s \<and> cl_kernel s \<noteq> None
     \<and> (\<exists>buf. bs_outputBuffer s = Some buf \<and> length buf = 4)"

lemmas search_fields = search_data_def search_idle_def search_length_def device_chosen_def chosen_device_def

text \<open>What the result says.\<close>

definition right_answer :: "32 word \<Rightarrow> 32 word list \<Rightarrow> 32 word list \<Rightarrow> bool" where
  "right_answer f a out \<longleftrightarrow> length out = 4 \<and>
     (if f \<in> set a then out ! 2 = 1 \<and> unat (out ! 0) < length a \<and> a ! unat (out ! 0) = f else out ! 2 = 0)"

definition before_search :: "bool \<Rightarrow> sample \<Rightarrow> nat \<Rightarrow> 32 word list \<Rightarrow> timer list \<Rightarrow> bsearch \<Rightarrow> bool" where
  "before_search sure b n a ts s \<longleftrightarrow> search_idle sure b ts n a s \<and> (\<exists>out. bs_output s = Some out \<and> length out = 4)"

definition after_search :: "bool \<Rightarrow> sample \<Rightarrow> nat \<Rightarrow> 32 word list \<Rightarrow> timer list \<Rightarrow> bsearch \<Rightarrow> bool" where
  "after_search sure b n a ts s \<longleftrightarrow> search_idle sure b ts n a s
     \<and> (\<exists>out. bs_output s = Some out \<and> right_answer (wanted b) a out)"

text \<open>Within a run: the number of segments is set and groups of 256 items are allowed.\<close>

definition ready :: "bool \<Rightarrow> sample \<Rightarrow> timer list \<Rightarrow> nat \<Rightarrow> 32 word list \<Rightarrow> bsearch \<Rightarrow> bool" where
  "ready sure b ts n a s \<longleftrightarrow> search_idle sure b ts n a s \<and> numSubdivisions s = subs n
     \<and> 256 \<le> kernelWorkGroupSize (bs_kernelInfo s)"

definition has_output :: "32 word list \<Rightarrow> bsearch \<Rightarrow> bool" where
  "has_output out s \<longleftrightarrow> bs_output s = Some out \<and> length out = 4"

lemma set_subdivisions_ok:
  assumes "search_idle sure b ts n a s"
  shows "\<exists>t. set_subdivisions 256 s = Some t \<and> search_idle sure b ts n a t \<and> numSubdivisions t = subs n
    \<and> bs_output t = bs_output s"
proof -
  let ?t = "set_base_var ''numSubdivisions'' (Int_val (int (subs n))) s"
  have n: "search_length s = n" "good_length n" using assms by (simp_all add: search_idle_def search_data_def)
  have "subs n < 2 ^ 32" using sizes_small(2) [OF n(2)] by simp
  then have "numSubdivisions ?t = subs n"
    by (simp add: numSubdivisions_def set_base_var_def uint_var_def int_var_def)
  moreover have "search_idle sure b ts n a ?t"
    using assms unfolding search_idle_def search_data_def forget_set
    by (auto simp: set_base_var_def search_length_def device_chosen_def chosen_device_def uint_var_def int_var_def)
  moreover have "set_subdivisions 256 s = Some ?t"
    by (simp add: set_subdivisions_def subdivisions_def n(1) subs_def)
  ultimately show ?thesis by (simp add: set_base_var_def)
qed

lemma query_search_ok:
  assumes "sure \<Longrightarrow> all_succeed (lib env)" "256 \<le> kernelWorkGroupSize (group_info env)"
  shows "meets sure (query_search_kernel env)
    (\<lambda>s. search_idle sure b ts n a s \<and> numSubdivisions s = subs n \<and> bs_output s = Some out)
    (\<lambda>s. ready sure b ts n a s \<and> bs_output s = Some out)"
  using assms unfolding meets_def
  by (auto simp: query_search_kernel_def ready_def search_fields numSubdivisions_def setKernelWorkGroupInfo_def Let_def
      all_succeed_def bind_eq_Some_conv split: if_splits prod.splits)

lemma findMe_wanted: "search_idle sure b ts n a s \<Longrightarrow> findMe s = wanted b"
  unfolding search_idle_def search_data_def findMe_def wanted_def using forget_same(1) by metis

section \<open>Before the launch\<close>

lemma word_pred: "0 < n \<Longrightarrow> n < 2 ^ 32 \<Longrightarrow> unat (word_of_nat n - 1 :: 32 word) = n - 1"
proof -
  assume n: "0 < n" "n < 2 ^ 32"
  then have "(word_of_nat n :: 32 word) \<noteq> 0" using unat_small [OF n(2)] by (metis less_numeral_extra(3) unat_0)
  then show ?thesis using unat_minus_one [of "word_of_nat n :: 32 word"] unat_small [OF n(2)] by metis
qed

text \<open>The bounds of a segment as the host holds them.\<close>

definition bounds :: "nat \<Rightarrow> nat \<Rightarrow> bsearch \<Rightarrow> bool" where
  "bounds lo size' s \<longleftrightarrow> globalLowerBound s = word_of_nat lo \<and> globalUpperBound s = word_of_nat lo + word_of_nat size' - 1"

lemma segment_size_eq:
  assumes "globalUpperBound s = globalLowerBound s + word_of_nat size' - 1" "size' < 2 ^ 32" "numSubdivisions s < 2 ^ 32"
  shows "segment_size s = word_of_nat (size' div numSubdivisions s)"
proof -
  have "size' div numSubdivisions s < 2 ^ 32" using assms(2) by (rule le_less_trans [OF div_le_dividend])
  then have "unat (word_of_nat size' div word_of_nat (numSubdivisions s) :: 32 word)
      = unat (word_of_nat (size' div numSubdivisions s) :: 32 word)"
    using assms(2,3) by (simp add: unat_div unat_small)
  then have "word_of_nat size' div word_of_nat (numSubdivisions s) = (word_of_nat (size' div numSubdivisions s) :: 32 word)"
    by (rule unsigned_word_eqI)
  then show ?thesis by (simp add: segment_size_def assms(1))
qed

definition outside :: "nat \<Rightarrow> 32 word list \<Rightarrow> 32 word \<Rightarrow> bool" where
  "outside n a f \<longleftrightarrow> f < a ! 0 \<or> a ! (n - 1) < f"

lemma outside_absent:
  assumes "sorted a" "length a = n" "outside n a f"
  shows "f \<notin> set a"
proof
  assume "f \<in> set a"
  then obtain i where i: "i < n" "a ! i = f" using assms(2) by (auto simp: in_set_conv_nth)
  then have "a ! 0 \<le> f" "f \<le> a ! (n - 1)"
    using sorted_nth_mono [OF assms(1), of 0 i] sorted_nth_mono [OF assms(1), of i "n - 1"] assms(2) by auto
  then show False using assms(3) by (auto simp: outside_def)
qed

lemma start_search_ok:
  assumes "ready sure b ts n a s" "bs_output s = Some out" "length out = 4"
  shows "\<exists>t. start_search s = Some (outside n a (wanted b), t) \<and> ready sure b ts n a t \<and> bounds 0 n t
    \<and> has_output (if outside n a (wanted b) then [0, word_of_nat n - 1, 0, out ! 3] else out[3 := 1]) t"
proof -
  have s: "bs_input s = Some a" "length a = n" "search_length s = n" "0 < n" "n < 2 ^ 32" "findMe s = wanted b"
    using assms(1) findMe_wanted [of sure b ts n a s] by (auto simp: ready_def search_idle_def search_data_def good_length_def)
  obtain w x y z where four: "out = [w, x, y, z]" using assms(3) by (auto simp: numeral_eq_Suc length_Suc_conv)
  let ?t = "s\<lparr>globalLowerBound := 0, globalUpperBound := word_of_nat n - 1,
    bs_output := Some (if outside n a (wanted b) then [0, word_of_nat n - 1, 0, out ! 3] else out[3 := 1])\<rparr>"
  have sets: "set_at out 0 0 = Some [0, x, y, z]" "set_at [0, x, y, z] 1 v = Some [0, v, y, z]"
    "set_at [0, v, y, z] 2 0 = Some [0, v, 0, z]" "set_at out 3 1 = Some (out[3 := 1])" "out ! 3 = z" for v
    by (simp_all add: four set_at_inside numeral_2_eq_2 numeral_3_eq_3)
  have ends: "arg_at a 0 = Some (a ! 0)" "arg_at a (n - 1) = Some (a ! (n - 1))" using s(2,4) by simp_all
  have "start_search s = Some (outside n a (wanted b), ?t)"
    unfolding start_search_def Let_def s(1,3,6) assms(2) word_pred [OF s(4,5)] ends bind.bind_lunit
    by (cases "wanted b < a ! 0"; cases "a ! (n - 1) < wanted b") (simp_all add: outside_def sets del: One_nat_def)
  moreover have "ready sure b ts n a ?t" using assms(1) by (simp add: ready_def search_fields numSubdivisions_def)
  ultimately show ?thesis using four by (auto simp: bounds_def has_output_def)
qed

section \<open>A pass\<close>

text \<open>What a launch leaves in the output.\<close>

definition picked :: "nat \<Rightarrow> 32 word list \<Rightarrow> 32 word \<Rightarrow> 32 word list \<Rightarrow> 32 word list \<Rightarrow> bool" where
  "picked n a f out out' \<longleftrightarrow> length out' = 4 \<and>
     (if \<exists>t < subs n. may_contain a (seg n) f t
      then \<exists>t < subs n. may_contain a (seg n) f t \<and> out' ! 0 = word_of_nat t
      else out' = out)"

definition with_args :: "bool \<Rightarrow> sample \<Rightarrow> timer list \<Rightarrow> nat \<Rightarrow> 32 word list \<Rightarrow> (nat \<times> kernel_arg) list \<Rightarrow> bsearch \<Rightarrow> bool" where
  "with_args sure b ts n a as s \<longleftrightarrow> ready sure b ts n a s \<and> args_set as s"

definition has_ends :: "nat \<Rightarrow> 32 word list \<Rightarrow> bsearch \<Rightarrow> bool" where
  "has_ends n a s \<longleftrightarrow> (\<exists>ends. bs_inputBuffer s = Some ends \<and> ends_of a (subs n) (seg n) ends)"

definition on_device :: "32 word list \<Rightarrow> bsearch \<Rightarrow> bool" where
  "on_device out s \<longleftrightarrow> bs_outputBuffer s = Some out \<and> length out = 4"

abbreviation search_args :: "32 word \<Rightarrow> (nat \<times> kernel_arg) list" where
  "search_args f \<equiv> [(2, Uint_arg f), (1, Buffer_arg ''inputBuffer''), (0, Buffer_arg ''outputBuffer'')]"

lemmas pass_fields = with_args_def ready_def has_ends_def on_device_def has_output_def args_set_def numSubdivisions_def search_fields

lemma launch_search_ok:
  assumes "env_ok env" "with_args sure b ts n a (search_args f) s" "has_ends n a s" "on_device out s"
  shows "\<exists>out'. launch_search env k s = Some (s\<lparr>bs_outputBuffer := Some out'\<rparr>) \<and> picked n a f out out'"
proof -
  obtain ends where ends: "bs_inputBuffer s = Some ends" "ends_of a (subs n) (seg n) ends"
    using assms(3) by (auto simp: has_ends_def)
  obtain g where g: "cl_kernel s = Some g" "g 0 = Some (Buffer_arg ''outputBuffer'')" "g 1 = Some (Buffer_arg ''inputBuffer'')"
      "g 2 = Some (Uint_arg f)"
    using assms(2) by (auto simp: with_args_def args_set_def)
  have m: "numSubdivisions s = subs n" "good_length n"
    using assms(2) by (simp_all add: with_args_def ready_def search_idle_def search_data_def)
  have "subs n < 2 ^ 32" using sizes_small(2) [OF m(2)] by simp
  moreover have "runs_all (items2 (subs n) 1) (schedule env k (subs n) 1)" using assms(1) by (simp add: env_ok_def)
  ultimately obtain out' where out': "foldM (binarySearch ends f) (schedule env k (subs n) 1) out = Some out'" "length out' = 4"
    "if \<exists>t < subs n. may_contain a (seg n) f t
       then \<exists>t < subs n. may_contain a (seg n) f t \<and> out' = [word_of_nat t, out ! 1, out ! 2, 1] else out' = out"
    using launch_finds [OF ends(2), of "schedule env k (subs n) 1" out f] assms(4) by (auto simp: on_device_def)
  have "launch_search env k s = Some (s\<lparr>bs_outputBuffer := Some out'\<rparr>)"
    using out'(1) assms(4) by (simp add: launch_search_def g ends(1) on_device_def m(1) del: One_nat_def)
  moreover have "picked n a f out out'" using out'(2,3) unfolding picked_def by (auto split: if_splits)
  ultimately show ?thesis by blast
qed

definition launchable :: "nat \<Rightarrow> bool" where
  "launchable n \<longleftrightarrow> seg n \<le> 1 \<or> 256 dvd subs n"

definition in_pass :: "bool \<Rightarrow> sample \<Rightarrow> timer list \<Rightarrow> nat \<Rightarrow> 32 word list \<Rightarrow> 32 word list \<Rightarrow> bsearch \<Rightarrow> bool" where
  "in_pass sure b ts n a out s \<longleftrightarrow> ready sure b ts n a s \<and> has_output out s"

text \<open>After a pass the bounds are those of the segment that the output names.\<close>

definition narrowed :: "nat \<Rightarrow> 32 word list \<Rightarrow> bsearch \<Rightarrow> bool" where
  "narrowed n out s \<longleftrightarrow> globalLowerBound s = out ! 0 * word_of_nat (seg n)
     \<and> globalUpperBound s = out ! 0 * word_of_nat (seg n) + word_of_nat (seg n) - 1"

lemma enqueue_search_ok:
  assumes "live_env sure env" "env_ok env" "1 < seg n" "sure \<Longrightarrow> launchable n"
  shows "meets sure (enqueue_search env)
    (\<lambda>s. (in_pass sure b ts n a o1 s \<and> has_ends n a s \<and> on_device out s) \<and> args_set (search_args f) s)
    (\<lambda>s. \<exists>out'. in_pass sure b ts n a o1 s \<and> on_device out' s \<and> picked n a f out out')"
proof -
  let ?P = "\<lambda>s. (in_pass sure b ts n a o1 s \<and> has_ends n a s \<and> on_device out s) \<and> args_set (search_args f) s"
  let ?Q = "\<lambda>s. \<exists>out'. in_pass sure b ts n a o1 s \<and> on_device out' s \<and> picked n a f out out'"
  show ?thesis
    unfolding enqueue_search_def
  proof (rule meets_enqueue)
    fix s assume sure and s: "?P s"
    then have "256 dvd subs n" using assms(3,4) by (simp add: launchable_def)
    moreover have "numSubdivisions s = subs n" "search_group_size s = 256" "0 < subs n"
      using s sizes_small(1) by (auto simp: in_pass_def ready_def search_group_size_def search_idle_def search_data_def)
    ultimately show "list_all accepted_size [(numSubdivisions s, search_group_size s)]"
      by (simp add: accepted_size_def mod_eq_0_iff_dvd)
  next
    fix s k assume s: "?P s"
    then obtain out' where out': "launch_search env k s = Some (s\<lparr>bs_outputBuffer := Some out'\<rparr>)" "picked n a f out out'"
      using launch_search_ok [OF assms(2), of sure b ts n a f s out k] by (auto simp: in_pass_def with_args_def)
    then have "?Q (s\<lparr>bs_outputBuffer := Some out'\<rparr>)"
      using s by (auto simp: in_pass_def pass_fields picked_def)
    then show "\<exists>t. launch_search env k s = Some t \<and> ?Q t" using out'(1) by blast
  qed (use assms(1) in \<open>simp add: live_env_def\<close>)
qed

lemma search_pass_ok:
  assumes "live_env sure env" "env_ok env" "1 < seg n" "sure \<Longrightarrow> launchable n"
  shows "meets sure (search_pass env (word_of_nat (seg n)))
    (\<lambda>s. in_pass sure b ts n a out s \<and> args_set [(0, Buffer_arg ''outputBuffer'')] s)
    (\<lambda>s. \<exists>out'. in_pass sure b ts n a out' s \<and> picked n a (wanted b) (out[3 := 0]) out' \<and> narrowed n out' s)"
proof (cases "good_length n \<and> length a = n")
  case False
  then show ?thesis by (auto simp: meets_def in_pass_def ready_def search_idle_def search_data_def)
next
  case True
  let ?f = "wanted b" and ?m = "subs n" and ?out = "out[3 := 0]" and ?sz = "word_of_nat (seg n) :: 32 word"
  have n: "good_length n" "length a = n" using True by simp_all
  note size = sizes [OF n(1) assms(3)]
  have n31: "n \<le> 2 ^ 31" using n(1) by (simp add: good_length_def)
  obtain ends where ends: "segment_ends env a ?m ?sz = Some ends" "length ends = 2 * ?m" "ends_of a ?m (seg n) ends"
    using segment_ends_ok [of a ?m "seg n" env] size(2) assms(3) n n31 sizes_small(2) [OF n(1)] by auto
  have ok: "all_succeed (lib env)" if sure using assms(1) that by (simp add: live_env_def)
  note wait = flush_and_wait_ok [OF assms(1)]
  let ?A = "in_pass sure b ts n a" and ?a0 = "[(0, Buffer_arg ''outputBuffer'')]"
  let ?create = "create_buffer env (nat (inlength ?m))
    (\<lambda>s. s\<lparr>bs_inputBuffer := Some (fresh_array env ''inputBuffer'' (nat (inlength ?m)))\<rparr>)"
  let ?store = "cl_call (lib env) (\<lambda>_ s. do { buf \<leftarrow> bs_inputBuffer s;
                    buf' \<leftarrow> transfer (nat (inlength ?m) div 4) ends buf; Some (s\<lparr>bs_inputBuffer := Some buf'\<rparr>) })"
  let ?release = "cl_call (lib env) (\<lambda>_ s. Some (s\<lparr>bs_inputBuffer := None\<rparr>))"
  have m: "nat (inlength ?m) = 8 * ?m" using inlength_eq sizes_small(2) [OF n(1)] by simp
  have create: "meets sure ?create (\<lambda>s. ?A out s \<and> args_set ?a0 s)
      (\<lambda>s. (?A out s \<and> args_set ?a0 s) \<and> (\<exists>buf. bs_inputBuffer s = Some buf \<and> length buf = 8 * ?m))"
    by (rule meets_create_buffer) (use ok sizes_small(1) [OF n(1)] in \<open>auto simp: m in_pass_def pass_fields\<close>)
  have fill: "meets sure ?store (\<lambda>s. (?A out s \<and> args_set ?a0 s) \<and> (\<exists>buf. bs_inputBuffer s = Some buf \<and> length buf = 8 * ?m))
      (\<lambda>s. (?A out s \<and> has_ends n a s) \<and> args_set ?a0 s)"
  proof (rule meets_call [OF ok])
    fix s assume s: "(?A out s \<and> args_set ?a0 s) \<and> (\<exists>buf. bs_inputBuffer s = Some buf \<and> length buf = 8 * ?m)"
    then obtain buf where buf: "bs_inputBuffer s = Some buf" "length buf = 8 * ?m" by blast
    have "ends_of a ?m (seg n) (take (2 * ?m) ends @ drop (2 * ?m) buf)"
      using ends(2,3) by (auto simp: ends_of_def nth_append)
    then show "\<exists>t. (do { buf \<leftarrow> bs_inputBuffer s; buf' \<leftarrow> transfer (nat (inlength ?m) div 4) ends buf;
        Some (s\<lparr>bs_inputBuffer := Some buf'\<rparr>) }) = Some t \<and> (?A out t \<and> has_ends n a t) \<and> args_set ?a0 t"
      using s buf ends(2) by (auto simp: m transfer_def in_pass_def pass_fields)
  qed
  have arg: "meets sure (set_arg env i v) (\<lambda>s. (?A out s \<and> has_ends n a s) \<and> args_set as s)
      (\<lambda>s. (?A out s \<and> has_ends n a s) \<and> args_set ((i, v) # as) s)" if "i \<notin> fst ` set as" for i v as
    by (rule new_arg_ok) (use ok that in \<open>auto simp: in_pass_def ready_def has_output_def has_ends_def numSubdivisions_def search_fields\<close>)
  have clear: "meets sure (local_step clear_mark) (\<lambda>s. (?A out s \<and> has_ends n a s) \<and> args_set (search_args ?f) s)
      (\<lambda>s. (?A ?out s \<and> has_ends n a s) \<and> args_set (search_args ?f) s)"
    by (rule meets_local_step) (auto simp: clear_mark_def in_pass_def pass_fields)
  have send: "meets sure (cl_call (lib env) (\<lambda>_. write_output)) (\<lambda>s. (?A ?out s \<and> has_ends n a s) \<and> args_set (search_args ?f) s)
      (\<lambda>s. (?A ?out s \<and> has_ends n a s \<and> on_device ?out s) \<and> args_set (search_args ?f) s)"
    by (rule meets_call) (auto simp: ok write_output_def in_pass_def pass_fields transfer_all)
  have launch: "meets sure (enqueue_search env)
      (\<lambda>s. (?A ?out s \<and> has_ends n a s \<and> on_device ?out s) \<and> args_set (search_args ?f) s)
      (\<lambda>s. \<exists>out'. ?A ?out s \<and> on_device out' s \<and> picked n a ?f ?out out')"
    by (rule enqueue_search_ok [OF assms])
  have receive: "meets sure (cl_call (lib env) (\<lambda>_. read_output)) (\<lambda>s. \<exists>out'. ?A ?out s \<and> on_device out' s \<and> picked n a ?f ?out out')
      (\<lambda>s. \<exists>out'. ?A out' s \<and> picked n a ?f ?out out')"
    by (rule meets_ex, rule meets_call) (auto simp: ok read_output_def in_pass_def pass_fields transfer_all)
  have bound: "meets sure (local_step (narrow ?sz)) (\<lambda>s. \<exists>out'. ?A out' s \<and> picked n a ?f ?out out')
      (\<lambda>s. \<exists>out'. ?A out' s \<and> picked n a ?f ?out out' \<and> narrowed n out' s)"
    by (rule meets_ex, rule meets_local_step) (auto simp: narrow_def narrowed_def in_pass_def pass_fields)
  have free: "meets sure ?release (\<lambda>s. \<exists>out'. ?A out' s \<and> picked n a ?f ?out out' \<and> narrowed n out' s)
      (\<lambda>s. \<exists>out'. ?A out' s \<and> picked n a ?f ?out out' \<and> narrowed n out' s)"
    by (rule meets_ex, rule meets_call) (auto simp: ok narrowed_def in_pass_def pass_fields)
  have a1: "(1 :: nat) \<notin> fst ` set ?a0" and a2: "(2 :: nat) \<notin> fst ` set ((1, Buffer_arg ''inputBuffer'') # ?a0)" by simp_all
  note prepare = meets_Cons [OF create meets_Cons [OF fill meets_Nil]]
    and args = meets_Cons [OF arg [OF a1] meets_Cons [OF arg [OF a2] meets_Cons [OF clear meets_Cons [OF send meets_Nil]]]]
    and go = meets_Cons [OF launch meets_Nil] and fetch = meets_Cons [OF receive meets_Nil]
    and close = meets_Cons [OF bound meets_Cons [OF free meets_Nil]]
  have all: "meets sure (run_steps ([?create, ?store] @ flush_and_wait env @
      [set_arg env 1 (Buffer_arg ''inputBuffer''), set_arg env 2 (Uint_arg ?f), local_step clear_mark,
       cl_call (lib env) (\<lambda>_. write_output)] @ flush_and_wait env @ [enqueue_search env] @ flush_and_wait env @
      [cl_call (lib env) (\<lambda>_. read_output)] @ flush_and_wait env @ [local_step (narrow ?sz), ?release]))
      (\<lambda>s. ?A out s \<and> args_set ?a0 s) (\<lambda>s. \<exists>out'. ?A out' s \<and> picked n a ?f ?out out' \<and> narrowed n out' s)"
    by (rule meets_append [OF prepare meets_append [OF wait meets_append [OF args meets_append [OF wait
      meets_append [OF go meets_append [OF wait meets_append [OF fetch meets_append [OF wait close]]]]]]]])
  have same: "search_pass env ?sz (s, k) = run_steps ([?create, ?store] @ flush_and_wait env @
      [set_arg env 1 (Buffer_arg ''inputBuffer''), set_arg env 2 (Uint_arg ?f), local_step clear_mark,
       cl_call (lib env) (\<lambda>_. write_output)] @ flush_and_wait env @ [enqueue_search env] @ flush_and_wait env @
      [cl_call (lib env) (\<lambda>_. read_output)] @ flush_and_wait env @ [local_step (narrow ?sz), ?release]) (s, k)"
    if "?A out s" for s k
  proof -
    have "numSubdivisions s = ?m" "bs_input s = Some a" "findMe s = ?f"
      using that findMe_wanted [of sure b ts n a s] by (auto simp: in_pass_def ready_def search_idle_def search_data_def)
    then show ?thesis unfolding search_pass_def prod.case Let_def by (simp only: bind.bind_lunit ends(1))
  qed
  show ?thesis by (rule meets_same [OF all]) (rule same, blast)
qed

section \<open>A run\<close>

text \<open>There is one pass at most, and none on an array of one element per segment.\<close>

definition searched :: "bool \<Rightarrow> sample \<Rightarrow> timer list \<Rightarrow> nat \<Rightarrow> 32 word list \<Rightarrow> 32 word list \<Rightarrow> bsearch \<Rightarrow> bool" where
  "searched sure b ts n a out s \<longleftrightarrow>
     (if 1 < seg n
      then \<exists>out'. in_pass sure b ts n a out' s \<and> picked n a (wanted b) (out[3 := 0]) out' \<and> narrowed n out' s
      else in_pass sure b ts n a out s \<and> bounds 0 n s)"

lemma search_loop_stops: "\<not> 1 < size' \<Longrightarrow> search_loop env size' sk = Some (SDK_SUCCESS, sk)"
  by (subst search_loop.simps) simp

lemma in_pass_good: "in_pass sure b ts n a out s \<Longrightarrow> good_length n \<and> length a = n \<and> sorted a \<and> numSubdivisions s = subs n
    \<and> bs_input s = Some a \<and> findMe s = wanted b \<and> bs_output s = Some out \<and> length out = 4
    \<and> (256 < n \<longrightarrow> no_gaps a)"
  using findMe_wanted [of sure b ts n a s] by (auto simp: in_pass_def ready_def search_idle_def search_data_def has_output_def)

lemma segment_size_start:
  assumes "in_pass sure b ts n a out s" "bounds 0 n s"
  shows "segment_size s = word_of_nat (seg n)"
proof -
  note s = in_pass_good [OF assms(1)]
  have "subs n < 2 ^ 32" using s sizes_small(2) [of n] by simp
  then show ?thesis
    using segment_size_eq [of s n] assms(2) s by (simp add: bounds_def good_length_def seg_def)
qed

lemma segment_size_next:
  assumes "in_pass sure b ts n a out s" "narrowed n out s" "1 < seg n"
  shows "\<not> 1 < segment_size s"
proof -
  note s = in_pass_good [OF assms(1)]
  have m: "subs n < 2 ^ 32" "0 < subs n" using s sizes_small(1,2) [of n] by simp_all
  have sz: "seg n < 2 ^ 32" using s sizes_small(3) [of n] by (simp add: good_length_def)
  have "seg n div subs n < 2" using sizes(3) [of n] s assms(3) m(2) by (simp add: div_less_iff_less_mult mult.commute)
  moreover have "segment_size s = word_of_nat (seg n div subs n)"
    using segment_size_eq [of s "seg n"] assms(2) s sz m(1) by (simp add: narrowed_def)
  ultimately show ?thesis using unat_small [of "seg n div subs n"] by (simp add: word_less_nat_alt)
qed

lemma search_loop_ok:
  assumes "live_env sure env" "env_ok env" "sure \<Longrightarrow> launchable n" "out ! 3 \<noteq> 0"
  shows "meets sure (\<lambda>(s, k). search_loop env (segment_size s) (s, k))
    (\<lambda>s. (in_pass sure b ts n a out s \<and> bounds 0 n s) \<and> args_set [(0, Buffer_arg ''outputBuffer'')] s)
    (searched sure b ts n a out)"
proof (cases "1 < seg n")
  case False
  have "search_loop env (segment_size s) (s, k) = Some (SDK_SUCCESS, s, k)"
    if "in_pass sure b ts n a out s" "bounds 0 n s" for s k
  proof -
    have "seg n < 2 ^ 32" using False by simp
    then have "\<not> 1 < segment_size s"
      unfolding segment_size_start [OF that] word_less_nat_alt using False by (simp only: unat_small) simp
    then show ?thesis by (rule search_loop_stops)
  qed
  then show ?thesis using False by (auto simp: meets_def searched_def)
next
  case True
  let ?R = "\<lambda>s. \<exists>out'. in_pass sure b ts n a out' s \<and> picked n a (wanted b) (out[3 := 0]) out' \<and> narrowed n out' s"
  have pass: "meets sure (search_pass env (word_of_nat (seg n)))
      (\<lambda>s. (in_pass sure b ts n a out s \<and> bounds 0 n s) \<and> args_set [(0, Buffer_arg ''outputBuffer'')] s) ?R"
    by (rule meets_conseq [OF search_pass_ok [OF assms(1,2) True assms(3)]]) auto
  have unfold: "search_loop env (segment_size s) (s, k) = Option.bind (search_pass env (word_of_nat (seg n)) (s, k))
      (\<lambda>(r, s, k). if r \<noteq> SDK_SUCCESS then Some (SDK_FAILURE, s, k) else search_loop env (segment_size s) (s, k))"
    if "in_pass sure b ts n a out s" "bounds 0 n s" for s k
  proof -
    note s = in_pass_good [OF that(1)]
    have "seg n < 2 ^ 32" using s sizes_small(3) [of n] by (simp add: good_length_def)
    then have "(1 :: 32 word) < word_of_nat (seg n)" using True by (simp add: word_less_nat_alt unat_small)
    then show ?thesis
      unfolding segment_size_start [OF that] using s assms(4) by (subst search_loop.simps) simp
  qed
  have stop: "search_loop env (segment_size t) (t, k) = Some (SDK_SUCCESS, t, k)" if "?R t" for t k
    using that segment_size_next [OF _ _ True] by (intro search_loop_stops) blast
  let ?g = "\<lambda>(s, k). search_loop env (segment_size s) (s, k)"
  have "meets sure ?g (\<lambda>s. (in_pass sure b ts n a out s \<and> bounds 0 n s) \<and> args_set [(0, Buffer_arg ''outputBuffer'')] s) ?R"
  proof (rule meets_same [OF meets_then_stop [OF pass, where g = ?g]])
    show "?g (t, k) = Some (SDK_SUCCESS, t, k)" if "?R t" for t k
      using stop [OF that] by simp
    show "?g (s, k) = (\<lambda>(s, k). Option.bind (search_pass env (word_of_nat (seg n)) (s, k))
        (\<lambda>(r, s, k). if r \<noteq> SDK_SUCCESS then Some (SDK_FAILURE, s, k) else ?g (s, k))) (s, k)"
      if "(in_pass sure b ts n a out s \<and> bounds 0 n s) \<and> args_set [(0, Buffer_arg ''outputBuffer'')] s" for s k
      using that unfolding prod.case by (intro unfold) blast+
  qed
  then show ?thesis by (rule meets_conseq) (use True in \<open>simp_all add: searched_def\<close>)
qed

text \<open>The host looks at the whole array or at one segment.\<close>

lemma segment_ends_at:
  assumes "good_length n" "1 < seg n" "t < subs n" "narrowed n out s" "out ! 0 = word_of_nat t"
  shows "unat (globalLowerBound s) = t * seg n" "unat (globalUpperBound s) + 1 = t * seg n + seg n"
    "t * seg n + seg n \<le> n"
proof -
  have "Suc t * seg n \<le> subs n * seg n" using assms(3) by (intro mult_le_mono1) simp
  then show b: "t * seg n + seg n \<le> n" using sizes(2) [OF assms(1,2)] by simp
  then have small: "t * seg n < 2 ^ 32" "t * seg n + seg n < 2 ^ 32"
    using assms(1) unfolding good_length_def by linarith+
  have up: "globalUpperBound s = word_of_nat (t * seg n + seg n) - 1"
    using assms(4,5) by (simp add: narrowed_def)
  show "unat (globalLowerBound s) = t * seg n"
    using assms(4,5) unat_small [OF small(1)] by (simp add: narrowed_def)
  show "unat (globalUpperBound s) + 1 = t * seg n + seg n"
    unfolding up using word_pred [OF _ small(2)] assms(2) by simp
qed

lemma absent_from_segments:
  assumes "good_length n" "1 < seg n" "sorted a" "length a = n" "\<not> (\<exists>t < subs n. may_contain a (seg n) f t)"
  shows "f \<notin> set a"
  using some_segment [of a "subs n" "seg n" f] sizes(2) [OF assms(1,2)] assms by auto

lemma scan_means:
  assumes "searched sure b ts n a out s"
    and "scan_for a (wanted b) (unat (globalLowerBound s)) (unat (globalUpperBound s) + 1) = Some None"
  shows "wanted b \<notin> set a"
proof (cases "1 < seg n")
  case False
  then have s: "in_pass sure b ts n a out s" "bounds 0 n s" using assms(1) by (simp_all add: searched_def)
  note g = in_pass_good [OF s(1)]
  have n: "0 < n" "n < 2 ^ 32" using g by (simp_all add: good_length_def)
  have "\<forall>j < n. a ! j \<noteq> wanted b"
    using scan_for_sound [OF assms(2)] s(2) word_pred [OF n] n(1) by (simp add: bounds_def)
  then show ?thesis using g by (auto simp: in_set_conv_nth)
next
  case True
  then obtain out' where s: "in_pass sure b ts n a out' s" "picked n a (wanted b) (out[3 := 0]) out'" "narrowed n out' s"
    using assms(1) by (auto simp: searched_def)
  have g: "good_length n" "sorted a" "length a = n" using in_pass_good [OF s(1)] by simp_all
  show ?thesis
  proof (cases "\<exists>t < subs n. may_contain a (seg n) (wanted b) t")
    case False
    then show ?thesis using absent_from_segments [OF g(1) True g(2,3)] by blast
  next
    case hit: True
    then obtain t where t: "t < subs n" "may_contain a (seg n) (wanted b) t" "out' ! 0 = word_of_nat t"
      using s(2) by (auto simp: picked_def)
    note range = segment_ends_at [OF g(1) True t(1) s(3) t(3)]
    have "\<not> (\<exists>i. t * seg n \<le> i \<and> i < t * seg n + seg n \<and> a ! i = wanted b)"
      using scan_for_sound [OF assms(2)] unfolding range(1,2) by simp
    then show ?thesis
      using segment_contains [OF g(2) _ _ _ t(1,2)] sizes(2) [OF g(1) True] g(3) True by auto
  qed
qed

text \<open>A number that is not outside the array is in it, so there is a segment that may contain it.\<close>

lemma scan_returns:
  assumes "searched sure b ts n a out s" "\<not> outside n a (wanted b)"
  shows "\<exists>r. scan_for a (wanted b) (unat (globalLowerBound s)) (unat (globalUpperBound s) + 1) = Some r"
proof -
  have "unat (globalUpperBound s) + 1 \<le> length a"
  proof (cases "1 < seg n")
    case False
    then have s: "in_pass sure b ts n a out s" "bounds 0 n s" using assms(1) by (simp_all add: searched_def)
    then have "0 < n" "n < 2 ^ 32" "length a = n" using in_pass_good [OF s(1)] by (simp_all add: good_length_def)
    then show ?thesis using s(2) word_pred [of n] by (simp add: bounds_def)
  next
    case True
    then obtain out' where s: "in_pass sure b ts n a out' s" "picked n a (wanted b) (out[3 := 0]) out'" "narrowed n out' s"
      using assms(1) by (auto simp: searched_def)
    have g: "good_length n" "sorted a" "length a = n" "256 < n \<longrightarrow> no_gaps a" using in_pass_good [OF s(1)] by simp_all
    have "no_gaps a" using g(4) sizes(1) [OF g(1) True] by blast
    then have "wanted b \<in> set a" using assms(2) g(3) by (auto simp: no_gaps_def outside_def)
    then have "\<exists>t < subs n. may_contain a (seg n) (wanted b) t" using absent_from_segments [OF g(1) True g(2,3)] by blast
    then obtain t where t: "t < subs n" "out' ! 0 = word_of_nat t" using s(2) by (auto simp: picked_def)
    show ?thesis using segment_ends_at(2,3) [OF g(1) True t(1) s(3) t(2)] g(3) by simp
  qed
  then show ?thesis using scan_for_ok by blast
qed

lemma searched_output: "searched sure b ts n a out s \<Longrightarrow> \<exists>out'. in_pass sure b ts n a out' s"
  by (auto simp: searched_def split: if_splits)

lemma finish_with:
  assumes "in_pass sure b ts n a out s"
    and "scan_for a (wanted b) (unat (globalLowerBound s)) (unat (globalUpperBound s) + 1) = Some r"
    and "r = None \<Longrightarrow> wanted b \<notin> set a"
  shows "\<exists>t. finish_search s = Some t \<and> after_search sure b n a ts t"
proof -
  note g = in_pass_good [OF assms(1)]
  obtain w x y z where four: "out = [w, x, y, z]" using g by (auto simp: numeral_eq_Suc length_Suc_conv)
  have idle: "search_idle sure b ts n a (s\<lparr>bs_output := o1\<rparr>)" for o1
    using assms(1) by (simp add: in_pass_def ready_def search_fields)
  show ?thesis
  proof (cases r)
    case None
    have "finish_search s = Some (s\<lparr>bs_output := Some (out[2 := 0])\<rparr>)"
      using assms(2) None g by (simp add: finish_search_def)
    moreover have "right_answer (wanted b) a (out[2 := 0])" using assms(3) None g by (simp add: right_answer_def)
    ultimately show ?thesis using idle by (auto simp: after_search_def)
  next
    case (Some i)
    then have i: "i < length a" "a ! i = wanted b" using scan_for_sound [OF assms(2)] by simp_all
    then have f: "wanted b \<in> set a" using nth_mem [of i a] by simp
    have "i < 2 ^ 32" using i(1) g by (simp add: good_length_def)
    then have u: "unat (word_of_nat i :: 32 word) = i" by (rule unat_small)
    let ?o = "[word_of_nat i, word_of_nat i + 1, 1, z]"
    have "finish_search s = Some (s\<lparr>bs_output := Some ?o\<rparr>)"
      using assms(2) Some g by (simp add: finish_search_def four set_at_inside numeral_2_eq_2)
    moreover have "right_answer (wanted b) a ?o" using f i u by (simp add: right_answer_def)
    ultimately show ?thesis using idle by (auto simp: after_search_def)
  qed
qed

lemma finish_ok:
  assumes "\<not> outside n a (wanted b)"
  shows "meets sure (local_step finish_search) (searched sure b ts n a out) (after_search sure b n a ts)"
proof (rule meets_local_step)
  fix s assume s: "searched sure b ts n a out s"
  obtain out' where out': "in_pass sure b ts n a out' s" using searched_output [OF s] by blast
  obtain r where r: "scan_for a (wanted b) (unat (globalLowerBound s)) (unat (globalUpperBound s) + 1) = Some r"
    using scan_returns [OF s assms] by blast
  show "\<exists>t. finish_search s = Some t \<and> after_search sure b n a ts t"
    by (rule finish_with [OF out' r]) (use scan_means [OF s] r in auto)
qed

lemma search_from_ok:
  assumes "live_env sure env" "env_ok env" "sure \<Longrightarrow> launchable n" "length out = 4"
  shows "meets sure (search_from env) (\<lambda>s. ready sure b ts n a s \<and> bs_output s = Some out) (after_search sure b n a ts)"
proof (cases "outside n a (wanted b)")
  case True
  show ?thesis
  proof (rule meets_returns, elim conjE)
    fix s k assume s: "ready sure b ts n a s" "bs_output s = Some out"
    obtain t where t: "start_search s = Some (True, t)" "ready sure b ts n a t"
        "has_output [0, word_of_nat n - 1, 0, out ! 3] t"
      using start_search_ok [OF s assms(4)] True by auto
    have "wanted b \<notin> set a"
      using outside_absent [OF _ _ True] s(1) by (simp add: ready_def search_idle_def search_data_def)
    then have "after_search sure b n a ts t"
      using t(2,3) by (auto simp: after_search_def has_output_def right_answer_def ready_def)
    then show "\<exists>t k'. search_from env (s, k) = Some (SDK_SUCCESS, t, k') \<and> after_search sure b n a ts t"
      using t(1) by (simp add: search_from_def)
  qed
next
  case False
  let ?out = "out[3 := 1]" and ?a0 = "[(0, Buffer_arg ''outputBuffer'')]"
  let ?P = "\<lambda>s. in_pass sure b ts n a ?out s \<and> bounds 0 n s"
  have mark: "?out ! 3 \<noteq> 0" using assms(4) by simp
  have arg: "meets sure (set_arg env 0 (Buffer_arg ''outputBuffer'')) (\<lambda>s. ?P s \<and> args_set [] s) (\<lambda>s. ?P s \<and> args_set ?a0 s)"
    by (rule new_arg_ok) (use assms(1) in \<open>auto simp: live_env_def bounds_def in_pass_def pass_fields\<close>)
  have all: "meets sure (run_steps [set_arg env 0 (Buffer_arg ''outputBuffer''),
      \<lambda>(s, k). search_loop env (segment_size s) (s, k), local_step finish_search])
      (\<lambda>s. ?P s \<and> args_set [] s) (after_search sure b n a ts)"
    by (rule meets_Cons [OF arg meets_Cons [OF search_loop_ok [OF assms(1-3) mark] meets_Cons [OF finish_ok [OF False] meets_Nil]]])
  show ?thesis
  proof (rule meets_start [OF all], elim conjE)
    fix s k assume s: "ready sure b ts n a s" "bs_output s = Some out"
    obtain t where t: "start_search s = Some (False, t)" "ready sure b ts n a t" "bounds 0 n t" "has_output ?out t"
      using start_search_ok [OF s assms(4)] False by auto
    moreover have "args_set [] t" using t(2) by (auto simp: ready_def search_idle_def args_set_def)
    ultimately show "\<exists>t. search_from env (s, k) = run_steps [set_arg env 0 (Buffer_arg ''outputBuffer''),
        \<lambda>(s, k). search_loop env (segment_size s) (s, k), local_step finish_search] (t, k) \<and> ?P t \<and> args_set [] t"
      by (intro exI [of _ t]) (simp add: search_from_def in_pass_def)
  qed
qed

lemma runCLKernels_search_ok:
  assumes "live_env sure env" "env_ok env" "sure \<Longrightarrow> launchable n" "256 \<le> kernelWorkGroupSize (group_info env)"
  shows "meets sure (runCLKernels_search env) (before_search sure b n a ts) (after_search sure b n a ts)"
proof -
  have ok: "all_succeed (lib env)" if sure using assms(1) that by (simp add: live_env_def)
  have "meets sure (runCLKernels_search env) (\<lambda>s. search_idle sure b ts n a s \<and> bs_output s = Some out \<and> length out = 4)
      (after_search sure b n a ts)" for out
  proof (cases "length out = 4")
    case True
    have subs: "meets sure (local_step (set_subdivisions 256)) (\<lambda>s. search_idle sure b ts n a s \<and> bs_output s = Some out)
        (\<lambda>s. search_idle sure b ts n a s \<and> numSubdivisions s = subs n \<and> bs_output s = Some out)"
      by (rule meets_local_step) (use set_subdivisions_ok in fastforce)
    have keep: "meets sure (local_step fall_back) (\<lambda>s. ready sure b ts n a s \<and> bs_output s = Some out)
        (\<lambda>s. ready sure b ts n a s \<and> bs_output s = Some out)"
      by (rule meets_local_step) (auto simp: fall_back_def ready_def)
    show ?thesis unfolding runCLKernels_search_def
      by (rule meets_conseq [OF meets_Cons [OF subs meets_Cons [OF query_search_ok [OF ok assms(4)]
        meets_Cons [OF keep meets_Cons [OF search_from_ok [OF assms(1-3) True] meets_Nil]]]]]) auto
  qed (simp add: meets_def)
  from meets_ex [OF this] show ?thesis by (rule meets_conseq) (auto simp: before_search_def)
qed

end
