(* ===== verification/Search_Main.thy ===== *)
theory Search_Main
  imports Search_Run
begin

text \<open>The parts of the search program: setup, run, verification and clean-up.\<close>

lemma timed_search: "timed (before_search sure b n a)" "timed (after_search sure b n a)"
  by (auto simp: timed_def before_search_def after_search_def search_fields)

lemma after_before: "after_search sure b n a ts s \<Longrightarrow> before_search sure b n a ts s"
  by (auto simp: before_search_def after_search_def right_answer_def)

lemma run_bsearch_ok:
  assumes "live_env sure env" "env_ok env" "sure \<Longrightarrow> launchable n" "256 \<le> kernelWorkGroupSize (group_info env)"
  shows "meets sure (run_bsearch env) (before_search sure b n a ts) (\<lambda>s. \<exists>ts'. after_search sure b n a ts' s)"
proof -
  note kernels = runCLKernels_search_ok [OF assms]
  have it: "before_search sure b n a ts s \<Longrightarrow> iterations s = int_var ''iterations'' b" for ts s
    using forget_same(3) [of "base s" b] by (simp add: before_search_def search_idle_def search_data_def iterations_def)
  show ?thesis unfolding run_bsearch_def
  proof (rule run_sample_ok [where it = "int_var ''iterations'' b", OF timed_search])
    show "meets sure (runCLKernels_search env) (after_search sure b n a ts) (after_search sure b n a ts)" for ts
      by (rule meets_conseq [OF kernels]) (auto intro: after_before)
  qed (use it after_before kernels in blast)+
qed

text \<open>The result of a run, checked by the program itself.\<close>

lemma verify_search_ok:
  assumes "after_search sure b n a ts s"
  shows "\<exists>t. verify_search env s = Some (SDK_SUCCESS, t)"
proof -
  have s: "bs_input s = Some a" "length a = n" "search_length s = n" "findMe s = wanted b"
    using assms findMe_wanted [of sure b ts n a s] by (auto simp: after_search_def search_idle_def search_data_def)
  obtain out where out: "bs_output s = Some out" "right_answer (wanted b) a out" using assms by (auto simp: after_search_def)
  have ok: "binarySearchCPUReference s = Some SDK_SUCCESS"
  proof (cases "wanted b \<in> set a")
    case True
    then show ?thesis using s out by (simp add: binarySearchCPUReference_def right_answer_def)
  next
    case False
    obtain r where r: "scan_for a (wanted b) 0 n = Some r"
        "case r of None \<Rightarrow> True | Some j \<Rightarrow> j < n \<and> a ! j = wanted b"
      using scan_for_ok [of n a "wanted b" 0] s(2) by (auto split: option.splits)
    then have "r = None" using False s(2) nth_mem by (cases r) fastforce+
    then show ?thesis using s out False r(1) by (simp add: binarySearchCPUReference_def right_answer_def)
  qed
  obtain t0 where "begin_timer (clock env ''reference begin'') (timers s) = Some (int (length (timers s)), timers s @ [t0])"
    using begin_timer_ok by blast
  moreover obtain t1 ts1 where "end_timer (clock env ''reference end'') (int (length (timers s))) (timers s @ [t0]) = Some (t1, ts1)"
    using end_timer_ok by blast
  ultimately show ?thesis using ok s(1-3) by (simp add: verify_search_def transfer_all)
qed

lemma cleanup_search_ok:
  assumes "all_succeed (lib env)"
  shows "\<exists>t k'. cleanup_search env (s, k) = Some (SDK_SUCCESS, t, k')
    \<and> bs_input t = None \<and> bs_output t = None \<and> bs_verificationInput t = None \<and> cl_devices t = None
    \<and> cl_context t = None \<and> commandQueue t = None \<and> bs_outputBuffer t = None
    \<and> cl_program t = None \<and> cl_kernel t = None"
  using assms by (simp add: cleanup_search_def run_steps.simps cl_call_def all_succeed_def)

section \<open>Setup\<close>

lemma cut_length_good: "l < 2 ^ 30 \<Longrightarrow> good_length (cut_length l)"
  by (auto simp: good_length_def cut_length_def intro: le_less_trans [OF mult_le_mono2 [OF div_times_less_eq_dividend]])

lemma setup_data_ok:
  assumes "good_length n" "search_length s = n"
  shows "\<exists>a t. setupBinarySearch env s = Some (SDK_SUCCESS, t) \<and> base t = base s \<and> timers t = timers s
    \<and> bs_output t = Some (fresh_array env ''output'' 4) \<and> search_data (base s) (timers s) n a t
    \<and> (cl_context t, cl_devices t, commandQueue t) = (cl_context s, cl_devices s, commandQueue s) \<and> a ! 0 = 0"
proof -
  have n: "0 < n" "4 * n < 2 ^ 32" "2 * n < 2 ^ 32" using assms(1) by (simp_all add: good_length_def)
  then have "int n * 4 mod 2 ^ 32 = int n * 4" by (intro mod_pos_pos_trivial) simp_all
  then have sz: "nat (int n * 4 mod 2 ^ 32) div 4 = n" by (simp add: nat_mult_distrib)
  obtain a where a: "ascending_numbers (rand env) n (fresh_array env ''input'' n) = Some a" "length a = n" "a ! 0 = 0"
      "sorted a" "256 dvd n \<longrightarrow> no_gaps a"
    using ascending_numbers_ok [OF n(1) _ n(3), of "fresh_array env ''input'' n"] by auto
  have "256 < n \<longrightarrow> no_gaps a" using a(5) assms(1) by (auto simp: good_length_def)
  then show ?thesis
    using a assms unfolding setupBinarySearch_def Let_def assms(2) sz
    by (simp add: search_data_def search_length_def [symmetric]) (simp add: assms(2) [symmetric] search_length_def)
qed

text \<open>After the data are prepared, before OpenCL is set up, and after.\<close>

definition prepared :: "sample \<Rightarrow> timer list \<Rightarrow> nat \<Rightarrow> 32 word list \<Rightarrow> bsearch \<Rightarrow> bool" where
  "prepared b ts n a s \<longleftrightarrow> base s = b \<and> search_data b ts n a s \<and> (\<exists>out. bs_output s = Some out \<and> length out = 4)"

lemma search_setup_calls_ok:
  assumes "sure \<Longrightarrow> usable env search_kernel_file s0" "base s0 = b"
    and "sure \<Longrightarrow> p = used_platform (lib env) b"
  shows "meets sure (search_setup_calls env p) (prepared b ts n a) (before_search sure b n a ts)"
proof -
  let ?C = "device_chosen sure" and ?P = "prepared b ts n a"
  let ?B = "\<lambda>s. ?P s \<and> (\<exists>buf. bs_outputBuffer s = Some buf \<and> length buf = 4)"
  have ok: "all_succeed (lib env)" if sure using assms(1) [OF that] by (simp add: usable_def)
  have blind: "blind ?P" "blind ?B" by (auto simp: blind_def prepared_def search_data_def search_length_def)
  have base: "?P s \<Longrightarrow> base s = base s0" "?B s \<Longrightarrow> base s = base s0" for s
    using assms(2) by (simp_all add: prepared_def)
  have open_ok: "meets sure (run_steps [create_context env p, get_devices env, create_queue env]) ?P (\<lambda>s. ?P s \<and> ?C s)"
    by (rule open_device_ok [of sure env search_kernel_file s0]) (use assms blind base in auto)
  have buffer: "meets sure (create_buffer env 4 (\<lambda>s. s\<lparr>bs_outputBuffer := Some (fresh_array env ''outputBuffer'' 4)\<rparr>))
      (\<lambda>s. ?P s \<and> ?C s) (\<lambda>s. ?B s \<and> ?C s)"
    by (rule meets_create_buffer) (auto simp: ok prepared_def search_fields)
  have build_ok: "meets sure (run_steps [build_program env search_kernel_file, create_kernel env])
      (\<lambda>s. ?B s \<and> ?C s) (\<lambda>s. ?B s \<and> ?C s \<and> cl_kernel s \<noteq> None)"
    by (rule build_program_ok [of sure env search_kernel_file s0])
      (use assms blind base in \<open>auto simp: c_str_def search_kernel_file_def\<close>)
  have "meets sure (search_setup_calls env p) ?P (\<lambda>s. ?B s \<and> ?C s \<and> cl_kernel s \<noteq> None)"
    using meets_append [OF open_ok meets_Cons [OF buffer build_ok]] by (simp add: search_setup_calls_def)
  then show ?thesis by (rule meets_conseq) (auto simp: before_search_def search_idle_def prepared_def)
qed

lemma setupCL_search_ok:
  assumes "sure \<Longrightarrow> usable env search_kernel_file s0" "prepared b ts n a s0"
  shows "meets sure (setupCL_search env) (\<lambda>s. s = s0) (before_search sure b n a ts)"
  unfolding setupCL_search_def
proof (rule with_platform_ok [of sure env search_kernel_file s0])
  show "sure \<Longrightarrow> usable env search_kernel_file s0" by (rule assms(1))
  fix p assume p: "sure \<Longrightarrow> p = used_platform (lib env) (base s0)"
  have b: "base s0 = b" using assms(2) by (simp add: prepared_def)
  show "meets sure (search_setup_calls env p) (\<lambda>s. s = s0) (before_search sure b n a ts)"
    by (rule meets_conseq [OF search_setup_calls_ok [OF assms(1) b]]) (use assms(2) p b in auto)
qed

definition cut_base :: "bsearch \<Rightarrow> sample" where
  "cut_base s = with_length (cut_length (search_length s)) (base s)"

lemma setup_search_ok:
  assumes "sure \<Longrightarrow> usable env search_kernel_file s0" "search_length s0 < 2 ^ 30" "1 \<le> iterations s0"
  shows "\<exists>s1 a. (\<forall>k. setup_search env (s0, k) = returning (timed_setup env (setupCL_search env)) (s1, k))
    \<and> meets sure (timed_setup env (setupCL_search env)) (\<lambda>s. s = s1)
        (\<lambda>s. \<exists>ts. before_search sure (cut_base s0) (cut_length (search_length s0)) a ts s)"
proof -
  let ?n = "cut_length (search_length s0)" and ?b = "cut_base s0"
  let ?s = "set_base_var ''length'' (Int_val (int ?n)) s0"
  have n: "good_length ?n" by (rule cut_length_good [OF assms(2)])
  then have n32: "?n < 2 ^ 32" by (simp add: good_length_def)
  have base: "base ?s = ?b" by (simp add: cut_base_def with_length_def set_base_var_def)
  have "search_length ?s = ?n"
    using n32 by (simp add: search_length_def set_base_var_def uint_var_def int_var_def)
  then obtain a s1 where s1: "setupBinarySearch env ?s = Some (SDK_SUCCESS, s1)" "base s1 = ?b"
      "bs_output s1 = Some (fresh_array env ''output'' 4)" "search_data ?b (timers ?s) ?n a s1"
    using setup_data_ok [OF n, of ?s env] base by auto
  have pre: "prepared ?b ts ?n a (s1\<lparr>timers := ts\<rparr>)" for ts
    using s1(2-4) by (auto simp: prepared_def search_data_def search_length_def)
  have "usable env search_kernel_file (s1\<lparr>timers := ts\<rparr>)" if sure for ts
    by (rule usable_with_length [OF assms(1) [OF that]]) (simp add: s1(2) cut_base_def)
  then have "meets sure (setupCL_search env) (\<lambda>s. s = s1\<lparr>timers := ts\<rparr>) (before_search sure ?b ?n a ts)" for ts
    by (intro setupCL_search_ok pre)
  then have "meets sure (timed_setup env (setupCL_search env)) (\<lambda>s. s = s1) (\<lambda>s. \<exists>ts. before_search sure ?b ?n a ts s)"
    by (intro timed_setup_ok timed_search)
  moreover have "setup_search env (s0, k) = returning (timed_setup env (setupCL_search env)) (s1, k)" for k
    using s1(1) assms(2,3) by (simp add: setup_search_def adjusted_length_eq)
  ultimately show ?thesis by blast
qed

end
