(* ===== verification/Search_Props.thy ===== *)
theory Search_Props
  imports Search_Main
begin

text \<open>The properties of the search sample.\<close>

text \<open>C37.
  In every order of the work items, a launch on the ends of the segments names a segment of the
  sorted array that contains the number looked for, if the array contains it, and sets the mark.
  (The array has at most 2^31 numbers, as its indices are kept in an \<open>int\<close>, and the number of
  segments is below 2^28, as the number of bytes of their ends is.)\<close>

theorem launch_names_a_segment:
  assumes "sorted xs" "length xs = m * s" "0 < s" "m * s \<le> 2 ^ 31" "m < 2 ^ 28" "f \<in> set xs"
    and "runs_all (items2 m 1) sched" "length out = 4"
  shows "\<exists>ends out' t i. segment_ends env xs m (word_of_nat s) = Some ends \<and>
    foldM (binarySearch ends f) sched out = Some out' \<and> out' ! 0 = word_of_nat t \<and> out' ! 3 = 1 \<and>
    t < m \<and> t * s \<le> i \<and> i < t * s + s \<and> xs ! i = f"
proof -
  obtain ends where ends: "segment_ends env xs m (word_of_nat s) = Some ends" "ends_of xs m s ends"
    using segment_ends_ok [OF assms(2-5)] by blast
  have m: "m < 2 ^ 32" using assms(5) by simp
  have "\<exists>t < m. may_contain xs s f t" by (rule some_segment [OF assms(1-3,6)])
  then obtain t where t: "t < m" "may_contain xs s f t"
      "foldM (binarySearch ends f) sched out = Some [word_of_nat t, out ! 1, out ! 2, 1]"
    using launch_finds [OF ends(2) m assms(7,8), of f] by auto
  obtain i where "t * s \<le> i" "i < t * s + s" "xs ! i = f"
    using segment_contains [OF assms(1-3,6) t(1,2)] by blast
  then show ?thesis using ends(1) t(1,3)
    by (intro exI [of _ ends] exI [of _ "[word_of_nat t, out ! 1, out ! 2, 1]"] exI [of _ t] exI [of _ i]) simp
qed

text \<open>Three segments of two numbers; 5 is in the second one and in the third one.\<close>

theorem launch_names_a_segment_witness:
  "\<exists>ends out' t i. segment_ends (demo_env search_kernel_file) [1, 2, 3, 5, 5, 8] 3 (word_of_nat 2) = Some ends \<and>
    foldM (binarySearch ends 5) [(2, 0), (0, 0), (1, 0)] [9, 9, 9, 9] = Some out' \<and> out' ! 0 = word_of_nat t \<and>
    out' ! 3 = 1 \<and> t < 3 \<and> t * 2 \<le> i \<and> i < t * 2 + 2 \<and> [1, 2, 3, 5, 5, 8] ! i = (5 :: 32 word)"
proof (rule launch_names_a_segment)
  have "items2 3 1 = {(0, 0), (1, 0), (2, 0)}" by (auto simp: items2_def)
  then show "runs_all (items2 3 1) [(2, 0), (0, 0), (1, 0)]" by (auto simp: runs_all_def)
qed simp_all

text \<open>C38.
  Whatever the random numbers are, the array that \<open>setup\<close> prepares is sorted and starts with 0;
  with a multiple of 256 as its length it contains every number up to its last one, as the product
  that is scaled wraps around.\<close>

theorem prepared_numbers:
  assumes "0 < n" "2 * n < 2 ^ 32" "length arr = n"
  shows "\<exists>a. ascending_numbers rnd n arr = Some a \<and> length a = n \<and> hd a = 0 \<and> sorted a \<and>
    (256 dvd n \<longrightarrow> set a = {0..last a})"
proof -
  obtain a where a: "ascending_numbers rnd n arr = Some a" "length a = n" "a ! 0 = 0" "sorted a" "256 dvd n \<longrightarrow> no_gaps a"
    using ascending_numbers_ok [OF assms(1,3,2)] by blast
  have ne: "a \<noteq> []" using a(2) assms(1) by auto
  have "x \<le> last a" if x: "x \<in> set a" for x
  proof -
    obtain i where i: "i < length a" "a ! i = x" using x unfolding in_set_conv_nth by blast
    then have "a ! i \<le> a ! (length a - 1)" by (intro sorted_nth_mono [OF a(4)]) simp_all
    then show ?thesis unfolding i(2) last_conv_nth [OF ne] .
  qed
  then have upper: "set a \<subseteq> {0..last a}" by auto
  have last: "last a = a ! (length a - 1)" using ne by (rule last_conv_nth)
  have "{0..last a} \<subseteq> set a" if "256 dvd n"
  proof
    fix x assume "x \<in> {0..last a}"
    then have "a ! 0 \<le> x" "x \<le> a ! (length a - 1)" unfolding last a(3) by simp_all
    then show "x \<in> set a" using a(5) that unfolding no_gaps_def by blast
  qed
  then have "256 dvd n \<longrightarrow> set a = {0..last a}" using upper by blast
  moreover have "hd a = 0" using a(3) ne by (simp add: hd_conv_nth)
  ultimately show ?thesis using a(1,2,4) by blast
qed

theorem prepared_numbers_witness:
  "\<exists>a. ascending_numbers (\<lambda>i. 2147483647) 512 (replicate 512 7) = Some a \<and> length a = 512 \<and> set a = {0..last a}"
  using prepared_numbers [of 512 "replicate 512 7" "\<lambda>i. 2147483647"] by auto

section \<open>The program\<close>

lemma wanted_cut: "wanted (cut_base s) = findMe s"
  by (simp add: wanted_def findMe_def cut_base_def with_length_def int_var_def)

lemma launchable_if: "n < 65536 \<or> 65536 dvd n \<Longrightarrow> launchable n"
proof -
  assume "n < 65536 \<or> 65536 dvd n"
  then consider "n < 65536" | c where "n = 65536 * c" by blast
  then have "256 dvd subs n" by cases (auto simp: subs_def)
  then show ?thesis by (simp add: launchable_def)
qed

lemma search_success:
  assumes "after_search sure (cut_base s) (cut_length (search_length s)) a ts t"
  shows "\<exists>out u. bs_input t = Some a \<and> bs_output t = Some out \<and>
    (if findMe s \<in> set a then out ! 2 = 1 \<and> unat (out ! 0) < length a \<and> a ! unat (out ! 0) = findMe s
     else out ! 2 = 0) \<and>
    verify_search env t = Some (SDK_SUCCESS, u)"
  using assms verify_search_ok [OF assms]
  by (auto simp: after_search_def search_idle_def search_data_def right_answer_def wanted_cut)

text \<open>C39.
  Whatever the OpenCL library answers: when the kernel allows groups of 256 items and \<open>setup\<close> and
  \<open>run\<close> report success, then for every number looked for and every number of iterations \<open>output\<close> says
  whether the array contains the number, and where; and \<open>verifyResults\<close> reports success.\<close>

theorem successful_search_is_correct:
  assumes "env_ok env" "256 \<le> kernelWorkGroupSize (group_info env)" "search_length s < 2 ^ 30"
    and "setup_search env (s, k) = Some (Returned SDK_SUCCESS, s1, k1)"
    and "run_bsearch env (s1, k1) = Some (SDK_SUCCESS, s2, k2)"
  shows "\<exists>a out t. bs_input s1 = Some a \<and> bs_input s2 = Some a \<and> bs_output s2 = Some out \<and>
    length a = cut_length (search_length s) \<and>
    (if findMe s \<in> set a then out ! 2 = 1 \<and> unat (out ! 0) < length a \<and> a ! unat (out ! 0) = findMe s
     else out ! 2 = 0) \<and>
    verify_search env s2 = Some (SDK_SUCCESS, t)"
proof -
  have it: "1 \<le> iterations s" using assms(4) by (auto simp: setup_search_def split: if_splits)
  obtain s0 a where s0: "\<And>k. setup_search env (s, k) = returning (timed_setup env (setupCL_search env)) (s0, k)"
      "meets False (timed_setup env (setupCL_search env)) (\<lambda>s. s = s0)
        (\<lambda>t. \<exists>ts. before_search False (cut_base s) (cut_length (search_length s)) a ts t)"
    using setup_search_ok [of False env s] assms(3) it by auto
  have "timed_setup env (setupCL_search env) (s0, k) = Some (SDK_SUCCESS, s1, k1)"
    using assms(4) s0(1) by (simp add: returning_iff)
  then obtain ts where i1: "before_search False (cut_base s) (cut_length (search_length s)) a ts s1"
    using meetsD [OF s0(2) refl] by blast
  obtain ts' where i2: "after_search False (cut_base s) (cut_length (search_length s)) a ts' s2"
    using meetsD [OF run_bsearch_ok [of False env] i1 assms(5)] assms(1,2) by (auto simp: live_env_def)
  have "bs_input s1 = Some a" "length a = cut_length (search_length s)"
    using i1 by (auto simp: before_search_def search_idle_def search_data_def)
  then show ?thesis using search_success [OF i2, of env] by auto
qed

text \<open>C40.
  An accepted command line that uses none of \<open>--dump\<close>, \<open>--load\<close> and \<open>--flags\<close> leads \<open>main\<close> to success,
  with the OpenCL objects released and the arrays freed, whatever is looked for, when the library
  works, the kernel allows groups of 256 items, there is an iteration, the length asked for is below
  2^30, and the length that is used is below 65536 or a multiple of it.\<close>

theorem search_program_succeeds:
  assumes "initialize_search new_bsearch = Some (SDK_SUCCESS, s0)"
    and "parseCommandLine ((lib env)\<lparr>answers := check_answers env\<rparr>) argv (base s0) = Some (Returned SDK_SUCCESS, b)"
    and "\<not> isDumpBinaryEnabled b" "usable env search_kernel_file (s0\<lparr>base := b\<rparr>)"
    and "env_ok env" "256 \<le> kernelWorkGroupSize (group_info env)"
    and "1 \<le> int_var ''iterations'' b" "uint_var ''length'' b < 2 ^ 30"
    and "cut_length (uint_var ''length'' b) < 65536 \<or> 65536 dvd cut_length (uint_var ''length'' b)"
  shows "\<exists>t. main_search env argv = Some (Returned SDK_SUCCESS, t, run_files env) \<and>
    bs_input t = None \<and> bs_output t = None \<and> bs_verificationInput t = None \<and> cl_devices t = None \<and>
    cl_context t = None \<and> commandQueue t = None \<and> bs_outputBuffer t = None \<and> cl_program t = None \<and> cl_kernel t = None"
proof -
  let ?s = "s0\<lparr>base := b\<rparr>"
  have live: "live_env True env" "all_succeed (lib env)" using assms(4) by (auto simp: live_env_def usable_def)
  have n: "search_length ?s = uint_var ''length'' b" "iterations ?s = int_var ''iterations'' b"
    by (simp_all add: search_length_def iterations_def)
  have launch: "launchable (cut_length (search_length ?s))" using launchable_if assms(9) n(1) by metis
  obtain s1 a where s1: "\<And>k. setup_search env (?s, k) = returning (timed_setup env (setupCL_search env)) (s1, k)"
      "meets True (timed_setup env (setupCL_search env)) (\<lambda>s. s = s1)
        (\<lambda>t. \<exists>ts. before_search True (cut_base ?s) (cut_length (search_length ?s)) a ts t)"
    using setup_search_ok [of True env ?s] assms(4,7,8) n by auto
  obtain s2 k2 ts where s2: "timed_setup env (setupCL_search env) (s1, 0) = Some (SDK_SUCCESS, s2, k2)"
      "before_search True (cut_base ?s) (cut_length (search_length ?s)) a ts s2"
    using meets_sure [OF s1(2) refl] by blast
  obtain s3 k3 ts' where s3: "run_bsearch env (s2, k2) = Some (SDK_SUCCESS, s3, k3)"
      "after_search True (cut_base ?s) (cut_length (search_length ?s)) a ts' s3"
    using meets_sure [OF run_bsearch_ok [OF live(1) assms(5) launch assms(6)] s2(2)] by blast
  obtain s4 where s4: "verify_search env s3 = Some (SDK_SUCCESS, s4)" using verify_search_ok [OF s3(2)] by blast
  obtain t k' where t: "cleanup_search env (s4, k3) = Some (SDK_SUCCESS, t, k')" "bs_input t = None" "bs_output t = None"
      "bs_verificationInput t = None" "cl_devices t = None" "cl_context t = None" "commandQueue t = None"
      "bs_outputBuffer t = None" "cl_program t = None" "cl_kernel t = None"
    using cleanup_search_ok [OF live(2)] by blast
  have "setup_search env (?s, 0) = Some (Returned SDK_SUCCESS, s2, k2)" using s1(1) s2(1) by (simp add: returning_iff)
  then have "search_work env (?s, 0) = Some (Returned SDK_SUCCESS, t, k')"
    by (simp add: search_work_def returning_def run_steps.simps s3(1) s4 t(1))
  from main_sample_ok [where kernel_file = search_kernel_file and work = "search_work env",
      OF assms(1) [unfolded initialize_search_def] assms(2,3) this]
  show ?thesis using t by (simp add: main_search_def)
qed

section \<open>An instance\<close>

abbreviation search_demo :: run_env where
  "search_demo \<equiv> (demo_env search_kernel_file)\<lparr>group_info := new_work_group_info\<lparr>kernelWorkGroupSize := 256\<rparr>\<rparr>"

lemma search_demo_ok: "env_ok search_demo" "live_env True search_demo" "256 \<le> kernelWorkGroupSize (group_info search_demo)"
  using demo_env_ok [of search_kernel_file] by (simp_all add: env_ok_def live_env_def)

lemma search_demo_usable:
  "usable (demo_env search_kernel_file) search_kernel_file s \<Longrightarrow> usable search_demo search_kernel_file s"
  by (simp add: usable_def)

lemma new_bsearch_ok:
  "search_length new_bsearch = 512" "findMe new_bsearch = 5" "iterations new_bsearch = 1"
  "usable search_demo search_kernel_file new_bsearch"
proof -
  show "search_length new_bsearch = 512" "findMe new_bsearch = 5" "iterations new_bsearch = 1"
    by (simp_all add: new_bsearch_def search_length_def findMe_def iterations_def set_base_var_def uint_var_def int_var_def)
  have "usable (demo_env search_kernel_file) search_kernel_file new_bsearch"
    by (rule demo_env_usable)
      (simp_all add: new_bsearch_def set_base_var_def int_var_def string_var_def new_sample_def)
  then show "usable search_demo search_kernel_file new_bsearch" by (rule search_demo_usable)
qed

theorem successful_search_is_correct_witness:
  "\<exists>s1 k1 s2 k2 a out t. setup_search search_demo (new_bsearch, 0) = Some (Returned SDK_SUCCESS, s1, k1) \<and>
    run_bsearch search_demo (s1, k1) = Some (SDK_SUCCESS, s2, k2) \<and> bs_input s2 = Some a \<and> bs_output s2 = Some out \<and>
    length a = 512 \<and> (5 \<in> set a \<longrightarrow> a ! unat (out ! 0) = 5) \<and> (5 \<notin> set a \<longrightarrow> out ! 2 = 0) \<and>
    verify_search search_demo s2 = Some (SDK_SUCCESS, t)"
proof -
  let ?n = "cut_length (search_length new_bsearch)"
  have n: "?n = 512" by (simp add: new_bsearch_ok(1) cut_length_def)
  then have launch: "launchable ?n" by (intro launchable_if) simp
  obtain s0 a where s0: "\<And>k. setup_search search_demo (new_bsearch, k) = returning (timed_setup search_demo (setupCL_search search_demo)) (s0, k)"
      "meets True (timed_setup search_demo (setupCL_search search_demo)) (\<lambda>s. s = s0)
        (\<lambda>t. \<exists>ts. before_search True (cut_base new_bsearch) ?n a ts t)"
    using setup_search_ok [of True search_demo new_bsearch] new_bsearch_ok by auto
  obtain s1 k1 ts where s1: "timed_setup search_demo (setupCL_search search_demo) (s0, 0) = Some (SDK_SUCCESS, s1, k1)"
      "before_search True (cut_base new_bsearch) ?n a ts s1"
    using meets_sure [OF s0(2) refl] by blast
  obtain s2 k2 where s2: "run_bsearch search_demo (s1, k1) = Some (SDK_SUCCESS, s2, k2)"
    using meets_sure [OF run_bsearch_ok [OF search_demo_ok(2,1) launch search_demo_ok(3)] s1(2)] by blast
  have begun: "setup_search search_demo (new_bsearch, 0) = Some (Returned SDK_SUCCESS, s1, k1)"
    using s0(1) s1(1) by (simp add: returning_iff)
  have "search_length new_bsearch < 2 ^ 30" by (simp add: new_bsearch_ok(1))
  from successful_search_is_correct [OF search_demo_ok(1,3) this begun s2]
  show ?thesis using begun s2 n new_bsearch_ok(2) by auto
qed

definition search_start :: bsearch where
  "search_start = snd (the (initialize_search new_bsearch))"

definition search_command :: "string list" where
  "search_command = [''BinarySearch'', ''-e'', ''-x'', ''5000'', ''-f'', ''17'', ''-i'', ''2'']"

lemma search_start_ok: "initialize_search new_bsearch = Some (SDK_SUCCESS, search_start)"
proof -
  have "map_option fst (initialize_search new_bsearch) = Some SDK_SUCCESS" by code_simp
  then show ?thesis by (auto simp: search_start_def)
qed

lemma search_parse:
  "map_option (\<lambda>(o', b). (o', isDumpBinaryEnabled b, enablePlatform b, int_var ''deviceId'' b, gpu b,
      string_var ''deviceType'' b, string_var ''loadBinary'' b, string_var ''flags'' b,
      int_var ''iterations'' b, uint_var ''length'' b))
    (parseCommandLine ((lib search_demo)\<lparr>answers := check_answers search_demo\<rparr>) search_command (base search_start))
   = Some (Returned SDK_SUCCESS, False, False, 0, True, ''gpu'', [], [], 2, 5000)"
  by code_simp

theorem search_program_succeeds_witness:
  "\<exists>t. main_search search_demo search_command = Some (Returned SDK_SUCCESS, t, run_files search_demo) \<and>
    bs_input t = None \<and> cl_context t = None"
proof -
  obtain b where b: "parseCommandLine ((lib search_demo)\<lparr>answers := check_answers search_demo\<rparr>) search_command
      (base search_start) = Some (Returned SDK_SUCCESS, b)"
      "\<not> isDumpBinaryEnabled b" "\<not> enablePlatform b" "int_var ''deviceId'' b = 0" "gpu b"
      "string_var ''deviceType'' b = ''gpu''" "string_var ''loadBinary'' b = []" "string_var ''flags'' b = []"
      "int_var ''iterations'' b = 2" "uint_var ''length'' b = 5000"
    using search_parse by auto
  then have "usable search_demo search_kernel_file (search_start\<lparr>base := b\<rparr>)"
    by (intro search_demo_usable demo_env_usable) simp_all
  then show ?thesis
    using search_program_succeeds [OF search_start_ok b(1,2) _ search_demo_ok(1,3)] b(9,10)
    by (auto simp: cut_length_def)
qed

end
