(* ===== verification/Sdk_Text.thy ===== *)
theory Sdk_Text
  imports Sdk_Sample
begin

text \<open>
  The texts of \<open>SDKSample\<close> and \<open>SDKCommon\<close>: version strings, the usage text, printed arrays, the path of the
  program, and a file read into a string, on \<open>std::string\<close>s as lists of characters.
\<close>

section \<open>Searching in strings\<close>

text \<open>\<open>find_first_of\<close> for one character from a position on; \<^const>\<open>None\<close> is \<open>npos\<close>.\<close>

fun find_char :: "char \<Rightarrow> string \<Rightarrow> nat \<Rightarrow> nat option" where
  "find_char c [] i = None"
| "find_char c (x # xs) 0 = (if x = c then Some 0 else map_option Suc (find_char c xs 0))"
| "find_char c (x # xs) (Suc i) = map_option Suc (find_char c xs i)"

text \<open>The position after it; \<open>npos + 1\<close> is 0.\<close>

definition behind :: "nat option \<Rightarrow> nat" where
  "behind p = (case p of None \<Rightarrow> 0 | Some i \<Rightarrow> i + 1)"

section \<open>Versions\<close>

record sdk_version =
  major :: int
  minor :: int
  build :: int
  revision :: int

definition sdkVerStr :: sdk_version where
  "sdkVerStr = \<lparr>major = 2, minor = 8, build = 1, revision = 1\<rparr>"

definition getSdkVerStr :: "bool \<Rightarrow> sdk_version \<Rightarrow> string" where
  "getSdkVerStr ndebug v =
     ''AMD-APP-SDK-v'' @ int_text (major v) @ ''.'' @ int_text (minor v) @
     (if revision v = 0 then ''-internal'' else []) @ (if ndebug then ''-dbg'' else []) @
     '' ('' @ int_text (build v) @ ''.'' @ int_text (revision v) @ '')''"

definition getExactVerStr :: "bool \<Rightarrow> sdk_version \<Rightarrow> string \<Rightarrow> string" where
  "getExactVerStr ndebug v clVerStr =
     (if find_char CHR ''v'' clVerStr 0 = None
      then let sPos = find_char CHR '' '' clVerStr (behind (find_char CHR '' '' clVerStr 0));
               sdkStr = getSdkVerStr ndebug v;
               bPos = find_char CHR ''('' sdkStr 0;
               vPos = find_char CHR ''('' clVerStr 0
           in take (behind sPos) clVerStr @ take (behind bPos) sdkStr @ drop (behind vPos) clVerStr
      else clVerStr)"

section \<open>Usage and the end of an object\<close>

definition usage :: "sample \<Rightarrow> string option" where
  "usage s =
     (case sample_args s of None \<Rightarrow> Some (''Error. Command line parser not initialized.'' @ [newline])
      | Some ca \<Rightarrow> map_option ((@) (''Usage'' @ [newline])) (help_text ca))"

definition destroy_sample :: "sample \<Rightarrow> sample" where
  "destroy_sample s = s\<lparr>sample_args := None\<rparr>"

section \<open>Arrays\<close>

text \<open>\<open>show_elem\<close> is what the stream makes of an element.\<close>

definition print_row :: "('a \<Rightarrow> string) \<Rightarrow> 'a list \<Rightarrow> nat \<Rightarrow> nat \<Rightarrow> string \<Rightarrow> string option" where
  "print_row show_elem data width i out =
     map_option (\<lambda>out. out @ [newline])
       (for_loop 0 width (\<lambda>j out. do { x \<leftarrow> arg_at data (i * width + j); Some (out @ show_elem x @ '' '') }) out)"

definition printArray :: "('a \<Rightarrow> string) \<Rightarrow> string \<Rightarrow> 'a list \<Rightarrow> int \<Rightarrow> int \<Rightarrow> string option" where
  "printArray show_elem header data width height =
     map_option (\<lambda>out. out @ [newline])
       (for_loop 0 (nat height) (print_row show_elem data (nat width)) ([newline] @ header @ [newline]))"

section \<open>Paths and files\<close>

definition PATH_MAX :: nat where
  "PATH_MAX = 4096"

text \<open>What \<open>readlink\<close> delivers, cut to the buffer; a failure is an exception.\<close>

fun last_slash :: "string \<Rightarrow> nat option" where
  "last_slash [] = None"
| "last_slash (c # cs) =
     (case last_slash cs of Some i \<Rightarrow> Some (Suc i) | None \<Rightarrow> if c = CHR ''/'' then Some 0 else None)"

definition getPath :: "string option \<Rightarrow> string + string" where
  "getPath link =
     (case link of None \<Rightarrow> Inl ''readlink() failed!''
      | Some p \<Rightarrow> let str = c_str (take PATH_MAX p) in Inr (take (behind (last_slash str)) str))"

text \<open>
  The terminator is written into the string that the caller passes, at the size of the file, and not
  into the buffer: a file longer than that string is an access out of range, and a file without a
  character 0 is read past its end.
\<close>

definition fileToString :: "files \<Rightarrow> string \<Rightarrow> string \<Rightarrow> (int \<times> string) option" where
  "fileToString fs fileName str =
     (case fs fileName of None \<Rightarrow> Some (SDK_FAILURE, [])
      | Some content \<Rightarrow>
          if length str < length content then None
          else if CHR 0x00 \<in> set content then Some (SDK_SUCCESS, c_str content) else None)"

section \<open>Facts\<close>

lemma find_char_Some:
  "find_char c xs i = Some j \<Longrightarrow> i \<le> j \<and> j < length xs \<and> xs ! j = c \<and> (\<forall>k. i \<le> k \<longrightarrow> k < j \<longrightarrow> xs ! k \<noteq> c)"
proof (induction c xs i arbitrary: j rule: find_char.induct)
  case (2 c x xs)
  show ?case
  proof (cases "x = c")
    case False
    then obtain j' where j': "find_char c xs 0 = Some j'" "j = Suc j'" using "2.prems" by auto
    have "xs ! j' = c \<and> j' < length xs \<and> (\<forall>k < j'. xs ! k \<noteq> c)" using "2.IH" [OF False j'(1)] by simp
    moreover have "(x # xs) ! k \<noteq> c" if "k < Suc j'" "\<forall>k < j'. xs ! k \<noteq> c" for k using that False by (cases k) auto
    ultimately show ?thesis using j'(2) by auto
  qed (use "2.prems" in simp)
next
  case (3 c x xs i)
  then obtain j' where j': "find_char c xs i = Some j'" "j = Suc j'" by auto
  have "i \<le> j' \<and> j' < length xs \<and> xs ! j' = c \<and> (\<forall>k. i \<le> k \<longrightarrow> k < j' \<longrightarrow> xs ! k \<noteq> c)" by (rule "3.IH" [OF j'(1)])
  moreover have "(x # xs) ! k \<noteq> c" if "Suc i \<le> k" "k < Suc j'" "\<forall>k. i \<le> k \<longrightarrow> k < j' \<longrightarrow> xs ! k \<noteq> c" for k
    using that by (cases k) auto
  ultimately show ?case using j'(2) by auto
qed simp

lemma find_char_None: "find_char c xs 0 = None \<longleftrightarrow> c \<notin> set xs"
  by (induction xs) auto

lemma find_char_append:
  "c \<notin> set xs \<Longrightarrow> find_char c (xs @ c # ys) 0 = Some (length xs)"
  "c \<notin> set xs \<Longrightarrow> find_char c (zs @ xs @ c # ys) (length zs) = Some (length zs + length xs)"
proof -
  show first: "c \<notin> set xs \<Longrightarrow> find_char c (xs @ c # ys) 0 = Some (length xs)" by (induction xs) auto
  assume c: "c \<notin> set xs"
  show "find_char c (zs @ xs @ c # ys) (length zs) = Some (length zs + length xs)"
    using first [OF c] by (induction zs) simp_all
qed

text \<open>A version of the OpenCL library keeps its first two words and its build number.\<close>

lemma exact_version:
  assumes "CHR '' '' \<notin> set w1" "CHR '' '' \<notin> set w2" "CHR ''('' \<notin> set w1" "CHR ''('' \<notin> set w2" "CHR ''('' \<notin> set w3"
    and "CHR ''v'' \<notin> set (w1 @ w2 @ w3 @ rest)"
  shows "getExactVerStr ndebug v (w1 @ '' '' @ w2 @ '' '' @ w3 @ ''('' @ rest) =
    w1 @ '' '' @ w2 @ '' '' @ take (behind (find_char CHR ''('' (getSdkVerStr ndebug v) 0)) (getSdkVerStr ndebug v) @ rest"
proof -
  let ?cl = "w1 @ '' '' @ w2 @ '' '' @ w3 @ ''('' @ rest"
  have no_v: "find_char CHR ''v'' ?cl 0 = None" using assms(6) unfolding find_char_None by simp
  have s1: "find_char CHR '' '' ?cl 0 = Some (length w1)"
    using find_char_append(1) [OF assms(1), of "w2 @ '' '' @ w3 @ ''('' @ rest"] by simp
  have s2: "find_char CHR '' '' ?cl (length w1 + 1) = Some (length w1 + 1 + length w2)"
    using find_char_append(2) [OF assms(2), of "w1 @ '' ''" "w3 @ ''('' @ rest"] by simp
  have s3: "find_char CHR ''('' ?cl 0 = Some (length (w1 @ '' '' @ w2 @ '' '' @ w3))"
    using find_char_append(1) [of "CHR ''(''" "w1 @ '' '' @ w2 @ '' '' @ w3" rest] assms(3-5) by simp
  have "take (behind (Some (length w1 + 1 + length w2))) ?cl = w1 @ '' '' @ w2 @ '' ''" by (simp add: behind_def)
  moreover have "drop (behind (Some (length (w1 @ '' '' @ w2 @ '' '' @ w3)))) ?cl = rest" by (simp add: behind_def numeral_eq_Suc)
  moreover have "behind (Some (length w1)) = length w1 + 1" by (simp add: behind_def)
  ultimately show ?thesis unfolding getExactVerStr_def Let_def no_v s1 s3 by (simp only: s2) simp
qed

text \<open>A matrix is printed completely, row by row, however long it is.\<close>

lemma print_row_ok:
  assumes "(i + 1) * width \<le> length data"
  shows "print_row show_elem data width i out =
    Some (out @ concat (map (\<lambda>x. show_elem x @ '' '') (take width (drop (i * width) data))) @ [newline])"
proof -
  have "m \<le> width \<Longrightarrow> for_loop 0 m (\<lambda>j out. do { x \<leftarrow> arg_at data (i * width + j); Some (out @ show_elem x @ '' '') }) out
      = Some (out @ concat (map (\<lambda>x. show_elem x @ '' '') (take m (drop (i * width) data))))" for m
  proof (induction m)
    case (Suc m)
    have m: "i * width + m < length data" using Suc.prems assms by simp
    then have "take (Suc m) (drop (i * width) data) = take m (drop (i * width) data) @ [data ! (i * width + m)]"
      by (simp add: take_Suc_conv_app_nth)
    then show ?case using Suc m by (simp add: for_loop_last)
  qed simp
  then show ?thesis by (simp add: print_row_def)
qed

text \<open>The example in the header of the class.\<close>

lemma exact_version_example:
  "getExactVerStr False \<lparr>major = 2, minor = 5, build = 100, revision = 1\<rparr> ''OpenCL 1.1 AMD-APP-SDK (820.2)''
   = ''OpenCL 1.1 AMD-APP-SDK-v2.5 (820.2)''"
  by code_simp

text \<open>No text file is read correctly.\<close>

lemma no_text_file:
  "fs fileName = Some content \<Longrightarrow> CHR 0x00 \<notin> set content \<Longrightarrow> fileToString fs fileName str = None"
  by (simp add: fileToString_def)

end
