(* ===== verification/Kmeans_Main.thy ===== *)
theory Kmeans_Main
  imports Read_Input Sdk_Opencl
begin

text \<open>
  The rest of \<open>kmeans.cpp\<close>: \<open>initialize\<close>, which \<open>allocate\<close> calls and whose result is one of its
  \<open>setup_errs\<close>, \<open>shutdown\<close> and \<open>main\<close>.  The OpenCL library is that of \<open>Sdk_Opencl\<close>; a context is the list of
  its devices.
\<close>

record ocl_session =
  ocl_context :: "string list option"
  cmd_queue :: "string option"
  device_type :: nat
  device_list :: "string option list option"
  num_devices :: nat

definition no_session :: ocl_session where
  "no_session = \<lparr>ocl_context = None, cmd_queue = None, device_type = 0, device_list = None, num_devices = 0\<rparr>"

text \<open>
  The number of devices is computed before the status of the query is looked at: a query that fails
  leaves \<open>size\<close> unset, and reading it is undefined, as is a platform that was not delivered.
\<close>

definition initialize_ocl :: "cl_env \<Rightarrow> bool \<Rightarrow> nat \<Rightarrow> ocl_session \<Rightarrow> ((int \<times> ocl_session) \<times> nat) option" where
  "initialize_ocl env use_gpu k s =
     (if answers env k \<noteq> CL_SUCCESS then Some ((- 1, s), k + 1)
      else if platforms env = [] then None
      else
        let ty = (if use_gpu then CL_DEVICE_TYPE_GPU else CL_DEVICE_TYPE_CPU);
            ds = devices_of (platforms env ! 0) ty;
            s1 = s\<lparr>device_type := ty, ocl_context := None\<rparr>;
            s2 = s1\<lparr>ocl_context := Some ds, num_devices := length ds\<rparr>
        in if answers env (k + 1) \<noteq> CL_SUCCESS then Some ((- 1, s1), k + 2)
           else if answers env (k + 2) \<noteq> CL_SUCCESS then None
           else if length ds < 1 then Some ((- 1, s2), k + 3)
           else if answers env (k + 3) \<noteq> CL_SUCCESS
           then Some ((- 1, s2\<lparr>device_list := Some (replicate (length ds) None)\<rparr>), k + 4)
           else if answers env (k + 4) \<noteq> CL_SUCCESS
           then Some ((- 1, s2\<lparr>device_list := Some (map Some ds), cmd_queue := None\<rparr>), k + 5)
           else Some ((0, s2\<lparr>device_list := Some (map Some ds), cmd_queue := Some (ds ! 0)\<rparr>), k + 5))"

text \<open>\<open>device_list\<close> comes from \<open>new[]\<close> and is deleted with \<open>delete\<close>, which is undefined.\<close>

definition shutdown_ocl :: "ocl_session \<Rightarrow> (int \<times> ocl_session) option" where
  "shutdown_ocl s = (if device_list s \<noteq> None then None else Some (0, no_session))"

text \<open>
  \<open>main\<close>: the result of \<open>setup\<close> is ignored, and \<open>exit\<close> within it ends the program before \<open>shutdown\<close>.
  \<open>s\<close> is what the calls of \<open>initialize\<close> in \<open>setup\<close> left.
\<close>

definition main_kmeans ::
  "(string \<Rightarrow> string option) \<Rightarrow> (nat \<Rightarrow> flt) \<Rightarrow> (int \<Rightarrow> ocl_setup) \<Rightarrow> (int \<Rightarrow> nat \<Rightarrow> nat \<Rightarrow> ocl_run) \<Rightarrow>
   string list \<Rightarrow> ocl_session \<Rightarrow> (outcome \<times> ocl_session) option" where
  "main_kmeans files junk rts rt args s =
     do { out \<leftarrow> run_setup files junk rts rt args;
          (case out of Exit _ _ \<Rightarrow> Some (out, s)
           | Return _ \<Rightarrow> do { (_, s') \<leftarrow> shutdown_ocl s; Some (out, s') }) }"

text \<open>A session that \<open>initialize\<close> opens has a queue on the first of the devices; it cannot be closed.\<close>

lemma initialize_opens:
  assumes "initialize_ocl env use_gpu k s = Some ((0, t), n)"
  shows "\<exists>d ds. ocl_context t = Some (d # ds) \<and> cmd_queue t = Some d \<and> device_list t = Some (map Some (d # ds)) \<and>
    num_devices t = length (d # ds) \<and> n = k + 5 \<and> shutdown_ocl t = None"
proof -
  let ?ds = "devices_of (platforms env ! 0) (if use_gpu then CL_DEVICE_TYPE_GPU else CL_DEVICE_TYPE_CPU)"
  have t: "ocl_context t = Some ?ds" "cmd_queue t = Some (?ds ! 0)" "device_list t = Some (map Some ?ds)"
      "num_devices t = length ?ds" "n = k + 5" "?ds \<noteq> []"
    using assms by (auto simp: initialize_ocl_def Let_def split: if_splits)
  then obtain d ds where "?ds = d # ds" by (meson neq_Nil_conv)
  then show ?thesis using t by (auto simp: shutdown_ocl_def)
qed

text \<open>Only a \<open>main\<close> that never opened a device ends with every variable reset.\<close>

lemma shutdown_resets: "device_list s = None \<Longrightarrow> shutdown_ocl s = Some (0, no_session)"
  by (simp add: shutdown_ocl_def)

end
