(* ===== verification/Spec2Isabelle.thy ===== *)
theory Spec2Isabelle
  imports Getopt_Props Kmeans_Props Read_Props Sdk_Bitmap_Props Sdk_Common_Props Sdk_Sample_Props
    Floyd_Props Bitonic_Props Bfs_Props Reduction_Props Search_Props Sdk_Text Kmeans_Main
begin

text \<open>
  Verification of the host programs of the CASLab GPU simulator.

  \<^bold>\<open>The program.\<close>  The repository is the distribution of a full-system OpenCL platform: a
  simulated GPU, its HSA runtime and its kernel compiler, which are there as binaries, the headers
  they are built against, and in source form what runs on top of them: the OpenCL test programs
  under \<open>cl_testbench/\<close> and the support library under \<open>SDK/SDKUtil/\<close>.  A test program parses
  its command line, prepares its data, sets up OpenCL, launches a kernel, and compares the result
  with one computed on the host.  The development covers six such programs and the library:
  \<^item> \<open>cl_testbench/kmeans\<close>: \<open>read_input.c\<close> (command line, by way of its own \<open>getopt.c\<close>, and
    the data file) calls \<open>cluster.c\<close>, which for each number of clusters runs
    \<open>kmeans_clustering.c\<close>, whose rounds are launched by \<open>kmeans.cpp\<close> on the kernels of
    \<open>kmeans.cl\<close>; \<open>rmse.c\<close> rates the result.
  \<^item> \<open>cl_testbench/FloydWarshall\<close>, all-pairs shortest paths, a class derived from the library's
    \<open>SDKSample\<close>, as the other samples are, which have the same structure;
  \<^item> \<open>cl_testbench/BitonicSort\<close>, another such class: a network of exchanges sorts an array;
  \<^item> \<open>cl_testbench/bfs\<close>, breadth-first search of a graph read from a file; it stands alone, with
    the helpers of its \<open>CLHelper.h\<close>;
  \<^item> \<open>cl_testbench/Reduction\<close>, the sum of an array, by a kernel with local memory and barriers; it
    sizes its work groups by what the device reports about itself;
  \<^item> \<open>cl_testbench/BinarySearch\<close>, the search of a number in a sorted array, of which the device
    picks a segment;
  \<^item> the support library: \<open>SDKSample\<close> (\<open>SDKApplication.cpp\<close>) owns an \<open>SDKCommandArgs\<close> and an \<open>SDKCommon\<close>, whose functions call
    OpenCL and \<open>SDKFile\<close>; \<open>SDKBitMap\<close> reads and writes images.

  \<^bold>\<open>Theories.\<close>  Each theory of definitions follows one source file, function by function; a
  theory of the same stem with a suffix holds its lemmas and properties.
  \<^item> \<open>Prelude\<close>: checked array access, C loops (\<open>for_loop\<close>), strings, the predicate \<open>yields\<close> for
    computations that succeed with a result in a set.
  \<^item> \<open>Floats\<close>: IEEE 754 \<open>binary32\<close> and \<open>binary64\<close>, with rounding to nearest even.
    \<open>C_Stdlib\<close>: \<open>fgets\<close>, \<open>strtok\<close>, \<open>atoi\<close>, \<open>atof\<close>.
  \<^item> \<open>Getopt_Exchange\<close>, \<open>Getopt\<close>: \<open>getopt.c\<close>; the record \<open>getopt_state\<close> holds its static
    variables and \<open>argv\<close>.  \<open>Getopt_Safety\<close>: the invariant of the indices and memory safety.
    \<open>Getopt_Reference\<close>: a pure parser of command lines, the same parser as a machine, and the
    locale \<open>option_scanner\<close>, the contract between the scanner and its callers.
    \<open>Getopt_Refine\<close>: the scanner implements the machine (C1), by interpretation of the locale.
    \<open>Getopt_Props\<close>: C2 to C5.
  \<^item> \<open>Kmeans_Rmse\<close>, \<open>Kmeans_Kernel\<close>, \<open>Kmeans_Host\<close>: \<open>rmse.c\<close>, \<open>kmeans.cl\<close>, and \<open>kmeans.cpp\<close>
    with \<open>kmeans_clustering.c\<close> and \<open>cluster.c\<close>.  The locale \<open>slotted_kernel\<close> states when the
    result of a kernel does not depend on the order of its work items; both kernels are
    instances.  \<open>Kmeans_Host_Facts\<close>, \<open>Kmeans_Props\<close>: C6 to C10.  \<open>Kmeans_Main\<close>: \<open>initialize\<close>, \<open>shutdown\<close>
    and \<open>main\<close> of \<open>kmeans.cpp\<close>.
  \<^item> \<open>Read_Input\<close>, \<open>Read_Props\<close>: \<open>read_input.c\<close>, C11 to C13.
  \<^item> \<open>Sdk_Bitmap\<close>, \<open>Sdk_Bitmap_Facts\<close>, \<open>Sdk_Bitmap_Props\<close>: \<open>SDKBitMap.cpp\<close>, C14 and C15.
  \<^item> \<open>Sdk_Common\<close>, \<open>Sdk_Common_Props\<close>: the functions of \<open>SDKCommon.cpp\<close> that need no device
    and the statistics of \<open>SDKApplication.cpp\<close>, C16.
  \<^item> \<open>Sdk_Args\<close>, \<open>Sdk_Args_Props\<close>: \<open>SDKCommandArgs.cpp\<close>, C17 and C18.
  \<^item> \<open>Sdk_Opencl\<close>, \<open>Sdk_Opencl_Props\<close>: the functions of \<open>SDKCommon.cpp\<close> that call OpenCL, and
    \<open>SDKFile\<close>, C19.
  \<^item> \<open>Sdk_Sample\<close>, \<open>Sdk_Sample_Props\<close>: \<open>SDKApplication.cpp\<close>, C20.  \<open>Sdk_Dump\<close>:
    \<open>generateBinaryImage\<close>.  \<open>Sdk_Text\<close>: version strings, usage, printed arrays, paths and files as strings.
  \<^item> \<open>Sdk_Steps\<close>: host code as sequences of checked calls with an early return, and pre- and
    postconditions (\<open>meets\<close>) whose one proof says both what a success means and that it comes
    about when the library works.
  \<^item> \<open>Launch\<close>: the locale \<open>in_place_kernel\<close>, the contract of a kernel whose work items update a
    buffer that others read, under which every order of the work items gives the same result.
  \<^item> \<open>Sdk_Host\<close>, \<open>Sdk_Host_Facts\<close>: what the samples repeat, from the command line to the loop
    of \<open>run\<close>, with lemmas for a sample of any data.
  \<^item> \<open>Floyd\<close>: the sample \<open>FloydWarshall\<close>; the record \<open>floyd\<close> extends \<open>host\<close>, \<open>run_env\<close> is what it runs
    on.  \<open>Floyd_Paths\<close>: shortest walks.  \<open>Floyd_Facts\<close>: one pass on the device and on the host,
    both interpretations of \<open>in_place_kernel\<close>, and all passes.  \<open>Floyd_Run\<close>: the host program
    step by step.  \<open>Floyd_Props\<close>: C21 to C24.
  \<^item> \<open>Bitonic\<close>: the sample \<open>BitonicSort\<close>, record \<open>bitonic\<close>.  \<open>Bitonic_Network\<close>: bitonic sorting on functions,
    by reduction to truth values.  \<open>Bitonic_Pairs\<close>: a pass over all pairs of an array in any order,
    the third interpretation of \<open>in_place_kernel\<close>.  \<open>Bitonic_Facts\<close>: the kernel and the reference are
    such passes.  \<open>Bitonic_Run\<close>: the host program step by step.  \<open>Bitonic_Props\<close>: C25 to C29.
  \<^item> \<open>Bfs\<close>: the program \<open>bfs\<close> and \<open>CLHelper.h\<close>, whose handles are the record \<open>helper\<close>; the arrays of a
    search are the record \<open>search\<close>, for both sides.  \<open>Bfs_Levels\<close>: levels by the number of hops, and
    what visiting and updating nodes in any order does to the arrays.  \<open>Bfs_Run\<close>: the kernels as such
    phases, the helpers when the library works, and the run on the device.  \<open>Bfs_Props\<close>: C30 to C32.
  \<^item> \<open>Sdk_Device\<close>: \<open>SDKDeviceInfo\<close>, the questions to a device and the object that keeps the answers,
    C33.
  \<^item> \<open>Launch_Groups\<close>: launches whose work items run in phases between barriers; the locale
    \<open>group_kernel\<close> states when their interleaving does not matter.
  \<^item> \<open>Reduction\<close>: the sample \<open>Reduction\<close>, record \<open>reduction\<close>.  \<open>Reduction_Facts\<close>: its kernel is an
    interpretation of \<open>group_kernel\<close>, with what a group of any size leaves and the sum for a power of
    two.  \<open>Reduction_Run\<close>: the host program step by step.  \<open>Reduction_Props\<close>: C34 to C36.
  \<^item> \<open>Search\<close>: the sample \<open>BinarySearch\<close>, record \<open>bsearch\<close>.  \<open>Search_Facts\<close>: the array that is prepared, and
    what a launch finds in any order of its work items.  \<open>Search_Run\<close>: the run of the kernel, whose loop
    makes one pass at most, step by step.  \<open>Search_Main\<close>: the parts of the program around it.
    \<open>Search_Props\<close>: C37 to C40.

  \<^bold>\<open>Conventions.\<close>  A result \<^const>\<open>None\<close> of an operation is undefined behaviour of C (an access
  outside an array, a null pointer followed, an uninitialised variable read, an overflow of a
  signed number, \<open>delete\<close> of an array, the end of a function that owes a result); error returns and exits of the program are values.  A loop that counts is
  \<open>for_loop\<close> or a structural recursion and needs no fuel; loops that may not end are
  \<open>partial_function\<close>s, and that they end is part of the properties (C9, C13, C19, C30,
  C32, C40).  The destructor of \<open>SDKDeviceInfo\<close> frees its arrays with the wrong \<open>delete\<close>, so the end of the
  program \<open>Reduction\<close>, after \<open>main\<close> has done its work, is undefined (C36).

  \<^bold>\<open>Parameters.\<close>  Code that is not in the repository is an argument of the definitions: what the
  OpenCL library answers to its \<open>k\<close>-th call and what it delivers (\<open>cl_env\<close>, \<open>ocl_run\<close>), the
  order in which it runs work items and their phases, what a device reports, which transfers have
  arrived, whether a kernel can read a buffer made for writing only (\<open>reads_write_only\<close>, C32), the numbers
  of \<open>rand\<close>, the clock, the contents of files, and what freshly allocated memory holds.  Two more stand for
  the implementation of C: whether a function that flows off its end without a value returns
  nevertheless (\<open>end_returns\<close>, for \<open>allocate\<close> in \<open>kmeans.cpp\<close>), and how many of the bytes written to a file
  are still in the buffers of the library (the file that \<open>write\<close> of \<open>SDKBitMap\<close> leaves open).

  \<^bold>\<open>What the library is taken to do.\<close>  A call may fail at any time, by its answer.  It does fail where its
  arguments require it: a buffer of size 0, a launch whose global size is 0 or no multiple of the local
  size (\<open>create_buffer\<close>, \<open>enqueue_kernel\<close>).  The properties of whole programs (C24, C29, C36, C40) assume
  that the environment is \<open>usable\<close>: the other answers are successes and events complete, the platform and
  device numbers name a platform and a device, the kernel file is there, and the command line has neither
  \<open>--load\<close> nor \<open>--flags\<close>, which name files that may be missing; they also exclude \<open>--dump\<close>, which ends \<open>main\<close>
  before the sample runs.

  \<^bold>\<open>Bounds.\<close>  Sizes, counts and indices of host arrays are unbounded natural numbers; \<open>malloc\<close>
  succeeds where the code does not test it.  Where the code computes with machine numbers and
  their width matters (bitmap headers, powers of two, \<open>sscanf\<close>, the distances, indices and sizes of
  the shortest paths, the elements, indices and lengths of the sorting sample) they have their
  width.  Shortest paths are proved below 32768 nodes, sorting and searching below 2^30 elements, where the
  numbers of bytes fit \<open>cl_uint\<close>, searching on devices that allow groups of 256 items; the sorting sample runs
  on one element or on 512 and more, as its work groups have 256 items; a search by \<open>bfs\<close> up to 2^31 - 256 nodes, where the number of work
  items, rounded up, fits \<open>int\<close>.

  \<^bold>\<open>Not modelled.\<close>  The simulator, the runtime and the compiler are binaries.  The arithmetic of
  the simulated GPU flushes subnormal numbers to zero, the model of the kernels does not.  OpenMP
  pragmas are ignored; only \<open>rmse.c\<close> has one, and its build ignores it.  Text printed for the user
  is modelled where a property speaks of it.  The other samples
  (\<open>BlackScholes\<close>, \<open>DwtHaar1D\<close>, \<open>MatrixTranspose\<close>, \<open>nn\<close>, \<open>oclMatrixMul\<close>, \<open>oclVectorAdd\<close>) are
  not modelled; their host code repeats the parts in \<open>Sdk_Host\<close> or calls the NVIDIA utilities.
  The headers of OpenCL, SystemC, OpenGL and
  the compiler, and the SDK copies under \<open>AMDAPPSDK-3.0\<close> and \<open>NVIDIA-SDK\<close>, are third-party code.
\<close>

end
